(* ===== verification/Prelude.thy ===== *)
theory Prelude
  imports Main "HOL-Library.Word"
begin

text \<open>
  Shared vocabulary of the development: the machine types of the target (arm-linux, 32-bit
  \<open>int\<close>, \<open>long\<close> and pointers, little endian), the lemma collections the component
  theories extend, and the generic facts on lists and words they use.
\<close>

unbundle bit_operations_syntax

type_synonym u8 = "8 word"
type_synonym u16 = "16 word"
type_synonym u32 = "32 word"
type_synonym bytes = "u8 list"

text \<open>
  \<open>frame_simps\<close> unfolds the frame builders of the device protocol, \<open>word_bounds\<close>
  collects range facts of machine words, \<open>inv_intros\<close> the preservation lemmas of the
  components' invariants.
\<close>

named_theorems frame_simps
named_theorems word_bounds
named_theorems inv_intros

subsection \<open>Lists\<close>

text \<open>A \<open>memcpy\<close> of \<open>xs\<close> to offset \<open>i\<close> of a buffer.\<close>

definition overwrite :: "nat \<Rightarrow> 'a list \<Rightarrow> 'a list \<Rightarrow> 'a list" where
  "overwrite i xs buf = take i buf @ xs @ drop (i + length xs) buf"

lemma length_overwrite [simp]:
  "i + length xs \<le> length buf \<Longrightarrow> length (overwrite i xs buf) = length buf"
  by (simp add: overwrite_def)

lemma overwrite_Nil [simp]: "overwrite i [] buf = buf"
  by (simp add: overwrite_def)

lemma take_overwrite_before [simp]:
  "n \<le> i \<Longrightarrow> i \<le> length buf \<Longrightarrow> take n (overwrite i xs buf) = take n buf"
  by (simp add: overwrite_def)

lemma take_overwrite_upto:
  "i \<le> length buf \<Longrightarrow> take (i + length xs) (overwrite i xs buf) = take i buf @ xs"
  by (simp add: overwrite_def)

lemma take_drop_overwrite [simp]:
  "i \<le> length buf \<Longrightarrow> n = length xs \<Longrightarrow> take n (drop i (overwrite i xs buf)) = xs"
  by (simp add: overwrite_def)

lemma drop_overwrite [simp]:
  "i + length xs \<le> n \<Longrightarrow> i + length xs \<le> length buf \<Longrightarrow>
   drop n (overwrite i xs buf) = drop n buf"
  by (simp add: overwrite_def)

lemma overwrite_whole [simp]: "length xs = length buf \<Longrightarrow> overwrite 0 xs buf = xs"
  by (simp add: overwrite_def)

text \<open>Splitting a list at a point in the middle of a concatenation.\<close>

lemma take_append_ge: "length xs \<le> n \<Longrightarrow> take n (xs @ ys) = xs @ take (n - length xs) ys"
  by simp

lemma drop_append_le: "n \<le> length xs \<Longrightarrow> drop n (xs @ ys) = drop n xs @ ys"
  by simp

text \<open>The first index that satisfies a predicate, the length of the list if there is none:
  the loop \<open>for (i = 0; i < n; i++) if (P (xs[i])) break;\<close>.\<close>

fun first_index :: "('a \<Rightarrow> bool) \<Rightarrow> 'a list \<Rightarrow> nat" where
  "first_index P [] = 0"
| "first_index P (x # xs) = (if P x then 0 else Suc (first_index P xs))"

lemma first_index_le: "first_index P xs \<le> length xs"
  by (induction xs) auto

lemma first_index_less_iff: "first_index P xs < length xs \<longleftrightarrow> (\<exists>x\<in>set xs. P x)"
  by (induction xs) auto

lemma first_index_nth: "first_index P xs < length xs \<Longrightarrow> P (xs ! first_index P xs)"
  by (induction xs) (auto split: if_splits)

lemma first_index_before: "j < first_index P xs \<Longrightarrow> \<not> P (xs ! j)"
proof (induction xs arbitrary: j)
  case Nil
  then show ?case by simp
next
  case (Cons x xs)
  then show ?case by (cases j) (auto split: if_splits)
qed

lemma first_index_eqI:
  "i < length xs \<Longrightarrow> P (xs ! i) \<Longrightarrow> (\<And>j. j < i \<Longrightarrow> \<not> P (xs ! j)) \<Longrightarrow> first_index P xs = i"
proof (induction xs arbitrary: i)
  case Nil
  then show ?case by simp
next
  case (Cons x xs)
  show ?case
  proof (cases i)
    case 0
    with Cons.prems show ?thesis by simp
  next
    case (Suc k)
    have "\<not> P x" using Cons.prems(3) [of 0] Suc by simp
    moreover have "first_index P xs = k"
    proof (rule Cons.IH)
      show "\<not> P (xs ! j)" if "j < k" for j
        using Cons.prems(3) [of "Suc j"] that Suc by simp
    qed (use Cons.prems Suc in auto)
    ultimately show ?thesis using Suc by simp
  qed
qed

subsection \<open>Association lists as maps\<close>

lemma map_of_snoc:
  assumes "k \<notin> fst ` set xs"
  shows "map_of (xs @ [(k, v)]) = (map_of xs)(k \<mapsto> v)"
proof
  fix j
  have "map_of xs k = None" using assms by (simp add: map_of_eq_None_iff)
  then show "map_of (xs @ [(k, v)]) j = ((map_of xs)(k \<mapsto> v)) j" by (simp add: map_add_def split: option.splits)
qed

lemma map_of_replace_value:
  "map_of (map (\<lambda>(j, i). (j, if j = k then v else i)) xs) m = (if m = k \<and> k \<in> fst ` set xs then Some v else map_of xs m)"
proof (induction xs)
  case (Cons x xs)
  obtain j i where x: "x = (j, i)" by (cases x)
  show ?case
    by (cases "j = m"; cases "m = k") (use Cons.IH in \<open>simp_all add: x\<close>)
qed simp

lemma map_of_replace:
  "k \<in> fst ` set xs \<Longrightarrow> map_of (map (\<lambda>(j, i). (j, if j = k then v else i)) xs) = (map_of xs)(k \<mapsto> v)"
  by (rule ext) (simp only: map_of_replace_value fun_upd_apply simp_thms)

lemma map_of_filter_key: "map_of (filter (\<lambda>p. fst p \<noteq> k) xs) = (map_of xs)(k := None)"
  by (induction xs) auto

subsection \<open>Words\<close>

lemma unat_and_le: "unat (x AND y) \<le> unat y" for x y :: "'a::len word"
  by (rule word_and_le1 [THEN word_le_nat_alt [THEN iffD1]])

lemma unat_u8_less [word_bounds]: "unat (x :: u8) < 256"
  using unsigned_less [of x] by simp

lemma unat_u16_less [word_bounds]: "unat (x :: u16) < 65536"
  using unsigned_less [of x] by simp

lemma unat_u32_less [word_bounds]: "unat (x :: u32) < 4294967296"
  using unsigned_less [of x] by simp

lemma unat_ucast_u8_u32 [simp]: "unat (ucast (x :: u8) :: u32) = unat x"
  by (simp add: unsigned_ucast_eq take_bit_nat_eq_self_iff order_less_trans [OF unat_u8_less])

lemma unat_ucast_u16_u32 [simp]: "unat (ucast (x :: u16) :: u32) = unat x"
  by (simp add: unsigned_ucast_eq take_bit_nat_eq_self_iff order_less_trans [OF unat_u16_less])

lemma unat_of_nat_u8: "n < 256 \<Longrightarrow> unat (of_nat n :: u8) = n"
  by (simp add: unsigned_of_nat take_bit_nat_eq_self_iff)

lemma unat_of_nat_u16: "n < 65536 \<Longrightarrow> unat (of_nat n :: u16) = n"
  by (simp add: unsigned_of_nat take_bit_nat_eq_self_iff)

lemma unat_of_nat_u32: "n < 4294967296 \<Longrightarrow> unat (of_nat n :: u32) = n"
  by (simp add: unsigned_of_nat take_bit_nat_eq_self_iff)

lemma unat_le_iff_uint: "unat x \<le> n \<longleftrightarrow> uint x \<le> int n"
  by (simp only: uint_nat of_nat_le_iff)

lemma unat_drop_bit: "unat (drop_bit n w) = unat w div 2 ^ n" for w :: "'a::len word"
proof -
  have "unat (drop_bit n w) = drop_bit n (unat w)"
    by (simp add: unsigned_drop_bit_eq take_bit_nat_eq_self [OF unsigned_less])
  then show ?thesis unfolding drop_bit_eq_div [where 'a = nat] .
qed

lemma unat_and_mask: "unat (w AND mask n) = unat w mod 2 ^ n" for w :: "'a::len word"
proof -
  have "unat (take_bit n w) = take_bit n (unat w)" by (rule unsigned_take_bit_eq)
  then show ?thesis unfolding take_bit_eq_mask [where 'a = "'a word"] take_bit_eq_mod [where 'a = nat] .
qed

end
