(* ===== verification/Uart_Queue.thy ===== *)
theory Uart_Queue
  imports Prelude "HOL-Library.Multiset"
begin

text \<open>
  The reply queue of the Zigbee link (\<open>src/src/dev_manage/uart_quene.c\<close>): a static array of
  twenty slots in which the UART thread stores the six-byte replies of the switches and from
  which a thread that sent a command picks the reply it waits for. A slot is free when its
  \<open>id\<close> is -1. An access outside a slot or a caller's buffer is the error value
  \<open>Buffer_Overrun\<close>.
\<close>

datatype uart_error = Buffer_Overrun

record uart_quene_t =
  q_id :: u8 \<comment> \<open>\<open>signed char id\<close>\<close>
  q_data :: bytes

type_synonym uart_queue = "uart_quene_t list"

definition UART_QUENE_NUM :: nat where
  "UART_QUENE_NUM = 20"

definition UART_DATA_NUM :: nat where
  "UART_DATA_NUM = 6"

definition uart_data_quene_init :: "uart_queue \<Rightarrow> uart_queue" where
  "uart_data_quene_init q = map (\<lambda>e. e\<lparr>q_id := -1\<rparr>) q"

text \<open>The first free slot takes the data; when every slot is taken the data is dropped (the
  code only prints a message).\<close>

definition uart_data_queuing :: "bytes \<Rightarrow> nat \<Rightarrow> uart_queue \<Rightarrow> uart_error + uart_queue" where
  "uart_data_queuing data len q =
     (let i = first_index (\<lambda>e. q_id e = -1) q in
      if i < length q
      then if len \<le> UART_DATA_NUM \<and> len \<le> length data
           then Inr (q[i := (q ! i)\<lparr>q_id := of_nat i,
                                    q_data := overwrite 0 (take len data) (q_data (q ! i))\<rparr>])
           else Inl Buffer_Overrun
      else Inr q)"

text \<open>The inner loop of \<open>uart_check\<close> counts the positions that agree.\<close>

definition uart_count :: "bytes \<Rightarrow> bytes \<Rightarrow> nat \<Rightarrow> nat" where
  "uart_count data checkdata checklen =
     length (filter (\<lambda>j. data ! j = checkdata ! j) [0..<checklen])"

fun uart_check ::
  "bytes \<Rightarrow> nat \<Rightarrow> bytes \<Rightarrow> nat \<Rightarrow> uart_queue \<Rightarrow> uart_error + (bool \<times> bytes \<times> uart_queue)"
where
  "uart_check checkdata checklen getdata getlen [] = Inr (False, getdata, [])"
| "uart_check checkdata checklen getdata getlen (e # es) =
     (let next = map_sum id (\<lambda>(r, g, es'). (r, g, e # es'))
                   (uart_check checkdata checklen getdata getlen es)
      in if q_id e \<noteq> -1
         then if checklen \<le> UART_DATA_NUM \<and> checklen \<le> length checkdata
              then if uart_count (q_data e) checkdata checklen \<ge> checklen
                   then if getlen \<le> UART_DATA_NUM \<and> getlen \<le> length getdata
                        then Inr (True, overwrite 0 (take getlen (q_data e)) getdata,
                                  e\<lparr>q_id := -1\<rparr> # es)
                        else Inl Buffer_Overrun
                   else next
              else Inl Buffer_Overrun
         else next)"

definition MAX_TRY_TIMES :: nat where
  "MAX_TRY_TIMES = 300"

text \<open>
  The polling loop of \<open>uart_check_from_queue\<close>. Its counter \<open>i\<close> is an \<open>unsigned char\<close>. The
  parameter \<open>env k\<close> is what the other threads do to the queue during the \<open>k\<close>-th
  \<open>usleep\<close>; not returning is \<^term>\<open>None\<close>.
\<close>

partial_function (option) uart_poll ::
  "(nat \<Rightarrow> uart_queue \<Rightarrow> uart_queue) \<Rightarrow> bytes \<Rightarrow> nat \<Rightarrow> bytes \<Rightarrow> nat \<Rightarrow> u8 \<Rightarrow> nat \<Rightarrow> uart_queue \<Rightarrow>
   (uart_error + (bool \<times> bytes \<times> uart_queue)) option"
where
  "uart_poll env checkdata checklen getdata getlen i k q =
     (if unat i < MAX_TRY_TIMES
      then case uart_check checkdata checklen getdata getlen q of
             Inl e \<Rightarrow> Some (Inl e)
           | Inr res \<Rightarrow>
               if fst res then Some (Inr res)
               else uart_poll env checkdata checklen (fst (snd res)) getlen (i + 1) (Suc k)
                      (env k (snd (snd res)))
      else Some (Inr (False, getdata, q)))"

definition uart_check_from_queue ::
  "(nat \<Rightarrow> uart_queue \<Rightarrow> uart_queue) \<Rightarrow> bytes \<Rightarrow> nat \<Rightarrow> bytes \<Rightarrow> nat \<Rightarrow> uart_queue \<Rightarrow>
   (uart_error + (bool \<times> bytes \<times> uart_queue)) option"
where
  "uart_check_from_queue env checkdata checklen getdata getlen q =
     uart_poll env checkdata checklen getdata getlen 0 0 q"

subsection \<open>Invariant\<close>

definition slot_ok :: "nat \<Rightarrow> uart_quene_t \<Rightarrow> bool" where
  "slot_ok i e \<longleftrightarrow> length (q_data e) = UART_DATA_NUM \<and> (q_id e = -1 \<or> q_id e = of_nat i)"

definition uart_queue_ok :: "uart_queue \<Rightarrow> bool" where
  "uart_queue_ok q \<longleftrightarrow> length q = UART_QUENE_NUM \<and> (\<forall>i < length q. slot_ok i (q ! i))"

text \<open>What the queue holds: the data of the occupied slots, in slot order.\<close>

definition pending :: "uart_queue \<Rightarrow> bytes list" where
  "pending q = map q_data (filter (\<lambda>e. q_id e \<noteq> -1) q)"

text \<open>A reply matches a request when it agrees on the first \<open>n\<close> bytes.\<close>

definition matches :: "bytes \<Rightarrow> nat \<Rightarrow> bytes \<Rightarrow> bool" where
  "matches check n d \<longleftrightarrow> take n d = take n check"

lemma pending_Nil [simp]: "pending [] = []"
  by (simp add: pending_def)

lemma pending_Cons [simp]:
  "pending (e # q) = (if q_id e = -1 then pending q else q_data e # pending q)"
  by (simp add: pending_def)

lemma pending_append [simp]: "pending (p @ q) = pending p @ pending q"
  by (simp add: pending_def)

lemma uart_count_matches:
  assumes "n \<le> length d" "n \<le> length c"
  shows "uart_count d c n \<ge> n \<longleftrightarrow> matches c n d"
proof -
  have "uart_count d c n \<ge> n \<longleftrightarrow> (\<forall>j < n. d ! j = c ! j)"
  proof
    assume "n \<le> uart_count d c n"
    then have "length (filter (\<lambda>j. d ! j = c ! j) [0..<n]) = length [0..<n]"
      using length_filter_le [of "\<lambda>j. d ! j = c ! j" "[0..<n]"] by (simp add: uart_count_def)
    then have "\<forall>j\<in>set [0..<n]. d ! j = c ! j"
      using length_filter_less [of _ "[0..<n]" "\<lambda>j. d ! j = c ! j"] by fastforce
    then show "\<forall>j < n. d ! j = c ! j" by simp
  qed (simp add: uart_count_def)
  also have "\<dots> \<longleftrightarrow> take n d = take n c"
    using assms by (auto simp: list_eq_iff_nth_eq)
  finally show ?thesis by (simp add: matches_def)
qed


abbreviation sized :: "uart_queue \<Rightarrow> bool" where
  "sized q \<equiv> (\<forall>e\<in>set q. length (q_data e) = UART_DATA_NUM)"

abbreviation wanted :: "bytes \<Rightarrow> nat \<Rightarrow> uart_quene_t \<Rightarrow> bool" where
  "wanted c n e \<equiv> q_id e \<noteq> -1 \<and> matches c n (q_data e)"

lemma uart_queue_ok_sized: "uart_queue_ok q \<Longrightarrow> sized q"
  by (auto simp: uart_queue_ok_def slot_ok_def in_set_conv_nth)

text \<open>\<open>uart_check\<close> in one step: it takes the first occupied slot that matches.\<close>

lemma uart_check_eq:
  assumes "sized q" "n \<le> UART_DATA_NUM" "n \<le> length c" "m \<le> UART_DATA_NUM" "m \<le> length g"
  shows "uart_check c n g m q =
    (let i = first_index (wanted c n) q in
     if i < length q
     then Inr (True, overwrite 0 (take m (q_data (q ! i))) g, q[i := (q ! i)\<lparr>q_id := -1\<rparr>])
     else Inr (False, g, q))"
  using assms
proof (induction q)
  case Nil
  then show ?case by (simp add: Let_def)
next
  case (Cons e q)
  then have "uart_count (q_data e) c n \<ge> n \<longleftrightarrow> matches c n (q_data e)"
    by (intro uart_count_matches) auto
  with Cons show ?case by (simp add: Let_def)
qed

lemma uart_check_misses:
  assumes "sized q" "n \<le> UART_DATA_NUM" "n \<le> length c"
    and "\<forall>d\<in>set (pending q). \<not> matches c n d"
  shows "uart_check c n g m q = Inr (False, g, q)"
  using assms
proof (induction q)
  case Nil
  then show ?case by simp
next
  case (Cons e q)
  then have "uart_count (q_data e) c n \<ge> n \<longleftrightarrow> matches c n (q_data e)"
    by (intro uart_count_matches) auto
  with Cons show ?case by (auto simp: Let_def)
qed

lemma pending_free_slot:
  assumes "i < length q" "q_id (q ! i) \<noteq> -1"
  shows "pending q = pending (take i q) @ q_data (q ! i) # pending (drop (Suc i) q)"
    and "pending (q[i := (q ! i)\<lparr>q_id := -1\<rparr>]) = pending (take i q) @ pending (drop (Suc i) q)"
proof -
  have "q = take i q @ q ! i # drop (Suc i) q"
    using assms(1) by (rule id_take_nth_drop)
  then have "pending q = pending (take i q @ q ! i # drop (Suc i) q)"
    by (rule arg_cong)
  then show "pending q = pending (take i q) @ q_data (q ! i) # pending (drop (Suc i) q)"
    using assms(2) by simp
  show "pending (q[i := (q ! i)\<lparr>q_id := -1\<rparr>]) = pending (take i q) @ pending (drop (Suc i) q)"
    using assms(1) by (simp add: upd_conv_take_nth_drop)
qed

lemma pending_wanted:
  "(\<exists>d\<in>set (pending q). matches c n d) \<longleftrightarrow> (\<exists>e\<in>set q. wanted c n e)"
  by (auto simp: pending_def)

subsection \<open>Every operation keeps the invariant\<close>

lemma uart_data_quene_init_ok [inv_intros]:
  "length q = UART_QUENE_NUM \<Longrightarrow> sized q \<Longrightarrow> uart_queue_ok (uart_data_quene_init q)"
  by (simp add: uart_queue_ok_def uart_data_quene_init_def slot_ok_def)

lemma pending_init [simp]: "pending (uart_data_quene_init q) = []"
  by (simp add: pending_def uart_data_quene_init_def filter_map o_def)

lemma uart_queue_ok_update [inv_intros]:
  "uart_queue_ok q \<Longrightarrow> (i < length q \<Longrightarrow> slot_ok i e) \<Longrightarrow> uart_queue_ok (q[i := e])"
  unfolding uart_queue_ok_def by (metis length_list_update nth_list_update_eq nth_list_update_neq)

lemma slot_ok_free [inv_intros]: "slot_ok i e \<Longrightarrow> slot_ok i (e\<lparr>q_id := -1\<rparr>)"
  by (simp add: slot_ok_def)

lemma slot_ok_fill [inv_intros]:
  "slot_ok i e \<Longrightarrow> length xs \<le> UART_DATA_NUM \<Longrightarrow>
   slot_ok i (e\<lparr>q_id := of_nat i, q_data := overwrite 0 xs (q_data e)\<rparr>)"
  by (simp add: slot_ok_def)

lemma uart_queue_ok_slot: "uart_queue_ok q \<Longrightarrow> i < length q \<Longrightarrow> slot_ok i (q ! i)"
  by (simp add: uart_queue_ok_def)

lemma uart_data_queuing_ok:
  "uart_queue_ok q \<Longrightarrow> uart_data_queuing d n q = Inr q' \<Longrightarrow> uart_queue_ok q'"
  by (auto simp: uart_data_queuing_def Let_def uart_queue_ok_slot
           intro!: inv_intros split: if_splits)

lemma uart_check_ok:
  assumes "uart_queue_ok q" "n \<le> UART_DATA_NUM" "n \<le> length c" "m \<le> UART_DATA_NUM" "m \<le> length g"
    and "uart_check c n g m q = Inr (r, g', q')"
  shows "uart_queue_ok q'"
proof -
  have "q' = q \<or> (\<exists>i < length q. q' = q[i := (q ! i)\<lparr>q_id := -1\<rparr>])"
    using assms(6) uart_check_eq [OF uart_queue_ok_sized [OF assms(1)] assms(2-5)]
    by (auto simp: Let_def split: if_splits)
  with assms(1) show ?thesis by (auto simp: uart_queue_ok_slot intro!: inv_intros)
qed

subsection \<open>The contract of a reply store\<close>

text \<open>
  What the threads rely on: a store holds a bag of items, a put adds the item unless the store
  is full, a pick takes out one item that fits the key when there is one. \<open>store_run\<close> runs an
  interleaving of puts and picks and collects what was accepted and what was handed out.
\<close>

datatype ('d, 'k) store_event = Put 'd | Pick 'k

fun store_run ::
  "('d \<Rightarrow> 'q \<Rightarrow> 'q) \<Rightarrow> ('k \<Rightarrow> 'q \<Rightarrow> ('d \<times> 'q) option) \<Rightarrow> ('q \<Rightarrow> bool) \<Rightarrow>
   ('d, 'k) store_event list \<Rightarrow> 'q \<Rightarrow> 'd list \<times> 'd list \<times> 'q"
where
  "store_run put pick full [] q = ([], [], q)"
| "store_run put pick full (Put d # evs) q =
     (let (acc, out, q') = store_run put pick full evs (put d q)
      in (if full q then acc else d # acc, out, q'))"
| "store_run put pick full (Pick k # evs) q =
     (case pick k q of
        None \<Rightarrow> store_run put pick full evs q
      | Some (d, q1) \<Rightarrow>
          (let (acc, out, q') = store_run put pick full evs q1 in (acc, d # out, q')))"

locale reply_store =
  fixes put :: "'d \<Rightarrow> 'q \<Rightarrow> 'q"
    and pick :: "'k \<Rightarrow> 'q \<Rightarrow> ('d \<times> 'q) option"
    and held :: "'q \<Rightarrow> 'd list"
    and full :: "'q \<Rightarrow> bool"
    and fits :: "'k \<Rightarrow> 'd \<Rightarrow> bool"
    and item_ok :: "'d \<Rightarrow> bool"
    and key_ok :: "'k \<Rightarrow> bool"
    and invar :: "'q \<Rightarrow> bool"
  assumes invar_put: "invar q \<Longrightarrow> item_ok d \<Longrightarrow> invar (put d q)"
    and held_put: "invar q \<Longrightarrow> item_ok d \<Longrightarrow> \<not> full q \<Longrightarrow>
      mset (held (put d q)) = add_mset d (mset (held q))"
    and put_full: "full q \<Longrightarrow> put d q = q"
    and pick_None: "invar q \<Longrightarrow> key_ok k \<Longrightarrow>
      pick k q = None \<longleftrightarrow> (\<forall>d\<in>set (held q). \<not> fits k d)"
    and pick_Some: "invar q \<Longrightarrow> key_ok k \<Longrightarrow> pick k q = Some (d, q') \<Longrightarrow>
      invar q' \<and> fits k d \<and> mset (held q) = add_mset d (mset (held q'))"
begin

definition event_ok :: "('d, 'k) store_event \<Rightarrow> bool" where
  "event_ok ev = (case ev of Put d \<Rightarrow> item_ok d | Pick k \<Rightarrow> key_ok k)"

lemma event_ok_simps [simp]:
  "event_ok (Put d) = item_ok d" "event_ok (Pick k) = key_ok k"
  by (simp_all add: event_ok_def)

lemma put_then_pick:
  assumes "invar q" "item_ok d" "key_ok k" "\<not> full q" "fits k d"
  shows "\<exists>d' q'. pick k (put d q) = Some (d', q') \<and> fits k d'"
proof -
  have "d \<in># mset (held (put d q))" using assms by (simp add: held_put)
  then have "pick k (put d q) \<noteq> None"
    using assms by (auto simp: pick_None invar_put)
  then obtain d' q' where "pick k (put d q) = Some (d', q')" by auto
  with pick_Some [OF invar_put] assms show ?thesis by blast
qed

lemma pick_the_reply:
  assumes "invar q" "item_ok d" "key_ok k" "\<not> full q" "fits k d"
    and none: "\<forall>x\<in>set (held q). \<not> fits k x"
  shows "\<exists>q'. pick k (put d q) = Some (d, q') \<and> mset (held q') = mset (held q)"
proof -
  obtain d' q' where p: "pick k (put d q) = Some (d', q')" and "fits k d'"
    using put_then_pick assms(1-5) by blast
  have m: "add_mset d (mset (held q)) = add_mset d' (mset (held q'))"
    using pick_Some [OF invar_put [OF assms(1,2)] assms(3) p] held_put assms by simp
  then have "d' \<in># add_mset d (mset (held q))" by simp
  with none \<open>fits k d'\<close> have "d' = d" by auto
  with m p show ?thesis by simp
qed

lemma run_conserves:
  assumes "invar q" "\<forall>ev\<in>set evs. event_ok ev" "store_run put pick full evs q = (acc, out, q')"
  shows "invar q' \<and> mset acc + mset (held q) = mset out + mset (held q')"
  using assms
proof (induction evs arbitrary: q acc out q')
  case Nil
  then show ?case by simp
next
  case (Cons ev evs)
  show ?case
  proof (cases ev)
    case (Put d)
    obtain a1 o1 q1 where r: "store_run put pick full evs (put d q) = (a1, o1, q1)"
      by (metis prod_cases3)
    have "invar q1 \<and> mset a1 + mset (held (put d q)) = mset o1 + mset (held q1)"
      using Cons.IH [OF _ _ r] Cons.prems Put by (simp add: invar_put)
    moreover have "acc = (if full q then a1 else d # a1)" "out = o1" "q' = q1"
      using Cons.prems(3) r Put by auto
    ultimately show ?thesis
      using Cons.prems Put by (cases "full q") (simp_all add: put_full held_put)
  next
    case (Pick k)
    show ?thesis
    proof (cases "pick k q")
      case None
      with Cons.prems Pick show ?thesis by (intro Cons.IH) auto
    next
      case (Some dq)
      then obtain d q1 where p: "pick k q = Some (d, q1)" by (cases dq) auto
      obtain a1 o1 q2 where r: "store_run put pick full evs q1 = (a1, o1, q2)"
        by (metis prod_cases3)
      have s: "invar q1" "mset (held q) = add_mset d (mset (held q1))"
        using pick_Some [OF Cons.prems(1) _ p] Cons.prems(2) Pick by auto
      have "invar q2 \<and> mset a1 + mset (held q1) = mset o1 + mset (held q2)"
        using Cons.IH [OF _ _ r] s(1) Cons.prems by simp
      moreover have "acc = a1" "out = d # o1" "q' = q2"
        using Cons.prems(3) p r Pick by auto
      ultimately show ?thesis using s(2) by simp
    qed
  qed
qed

end

subsection \<open>The queue is a reply store\<close>

definition uart_put :: "bytes \<Rightarrow> uart_queue \<Rightarrow> uart_queue" where
  "uart_put d q = (case uart_data_queuing d UART_DATA_NUM q of Inl _ \<Rightarrow> q | Inr q' \<Rightarrow> q')"

definition uart_pick :: "bytes \<times> nat \<Rightarrow> uart_queue \<Rightarrow> (bytes \<times> uart_queue) option" where
  "uart_pick key q =
     (case uart_check (fst key) (snd key) (replicate UART_DATA_NUM 0) UART_DATA_NUM q of
        Inl _ \<Rightarrow> None
      | Inr (r, g, q') \<Rightarrow> if r then Some (g, q') else None)"

definition uart_full :: "uart_queue \<Rightarrow> bool" where
  "uart_full q \<longleftrightarrow> (\<forall>e\<in>set q. q_id e \<noteq> -1)"

definition reply_key_ok :: "bytes \<times> nat \<Rightarrow> bool" where
  "reply_key_ok key \<longleftrightarrow> snd key \<le> UART_DATA_NUM \<and> snd key \<le> length (fst key)"

lemma uart_full_iff: "uart_full q \<longleftrightarrow> \<not> first_index (\<lambda>e. q_id e = -1) q < length q"
  by (auto simp: uart_full_def first_index_less_iff)

lemma uart_put_full: "uart_full q \<Longrightarrow> uart_put d q = q"
  by (simp add: uart_full_iff uart_put_def uart_data_queuing_def Let_def)

lemma uart_put_free:
  assumes "uart_queue_ok q" "length d = UART_DATA_NUM" "\<not> uart_full q"
  defines "i \<equiv> first_index (\<lambda>e. q_id e = -1) q"
  shows "i < length q \<and> q_id (q ! i) = -1 \<and>
    uart_put d q = q[i := (q ! i)\<lparr>q_id := of_nat i, q_data := d\<rparr>]"
  using assms first_index_nth [of "\<lambda>e. q_id e = -1" q] uart_queue_ok_slot [of q i]
  by (simp add: uart_full_iff uart_put_def uart_data_queuing_def Let_def slot_ok_def)

lemma slot_number_not_free: "i < UART_QUENE_NUM \<Longrightarrow> (of_nat i :: u8) \<noteq> -1"
proof
  assume "i < UART_QUENE_NUM" and "(of_nat i :: u8) = -1"
  then have "unat (of_nat i :: u8) = 255"
    by (simp add: unsigned_minus_1_eq_mask mask_eq_exp_minus_1)
  with \<open>i < UART_QUENE_NUM\<close> show False by (simp add: unat_of_nat_u8 UART_QUENE_NUM_def)
qed

lemma pending_put:
  assumes "uart_queue_ok q" "length d = UART_DATA_NUM" "\<not> uart_full q"
  shows "mset (pending (uart_put d q)) = add_mset d (mset (pending q))"
proof -
  define i where "i = first_index (\<lambda>e. q_id e = -1) q"
  have i: "i < length q" "q_id (q ! i) = -1"
    and put: "uart_put d q = q[i := (q ! i)\<lparr>q_id := of_nat i, q_data := d\<rparr>]"
    using uart_put_free [OF assms] by (simp_all add: i_def)
  have "i < UART_QUENE_NUM" using i assms(1) by (simp add: uart_queue_ok_def)
  then have "pending (uart_put d q) = pending (take i q) @ d # pending (drop (Suc i) q)"
    using i(1) put by (simp add: upd_conv_take_nth_drop slot_number_not_free)
  moreover have "pending q = pending (take i q @ q ! i # drop (Suc i) q)"
    using i(1) by (simp only: id_take_nth_drop [symmetric])
  ultimately show ?thesis using i(2) by simp
qed

lemma uart_put_ok [inv_intros]:
  "uart_queue_ok q \<Longrightarrow> length d = UART_DATA_NUM \<Longrightarrow> uart_queue_ok (uart_put d q)"
  using uart_data_queuing_ok [of q d UART_DATA_NUM]
  by (auto simp: uart_put_def split: sum.split)

lemma uart_pick_eq:
  assumes "uart_queue_ok q" "reply_key_ok key"
  shows "uart_pick key q =
    (let i = first_index (wanted (fst key) (snd key)) q in
     if i < length q then Some (q_data (q ! i), q[i := (q ! i)\<lparr>q_id := -1\<rparr>]) else None)"
proof -
  have "length (q_data (q ! i)) = UART_DATA_NUM" if "i < length q" for i
    using uart_queue_ok_slot [OF assms(1) that] by (simp add: slot_ok_def)
  then show ?thesis
    using assms(2) uart_check_eq [OF uart_queue_ok_sized [OF assms(1)], of "snd key" "fst key"
        UART_DATA_NUM "replicate UART_DATA_NUM 0"]
    by (simp add: uart_pick_def reply_key_ok_def Let_def)
qed

interpretation uq: reply_store uart_put uart_pick pending uart_full
  "\<lambda>key. matches (fst key) (snd key)" "\<lambda>d. length d = UART_DATA_NUM" reply_key_ok uart_queue_ok
proof
  fix q and d :: bytes assume "uart_queue_ok q" "length d = UART_DATA_NUM"
  then show "uart_queue_ok (uart_put d q)" by (rule uart_put_ok)
next
  fix q and d :: bytes assume "uart_queue_ok q" "length d = UART_DATA_NUM" "\<not> uart_full q"
  then show "mset (pending (uart_put d q)) = add_mset d (mset (pending q))" by (rule pending_put)
next
  fix q d assume "uart_full q"
  then show "uart_put d q = q" by (rule uart_put_full)
next
  fix q key assume "uart_queue_ok q" "reply_key_ok key"
  then show "(uart_pick key q = None) = (\<forall>d\<in>set (pending q). \<not> matches (fst key) (snd key) d)"
    using pending_wanted [of q "fst key" "snd key"]
    by (auto simp: uart_pick_eq Let_def first_index_less_iff)
next
  fix q key d q' assume ok: "uart_queue_ok q" "reply_key_ok key" and p: "uart_pick key q = Some (d, q')"
  define i where "i = first_index (wanted (fst key) (snd key)) q"
  have i: "i < length q" and d: "d = q_data (q ! i)" "q' = q[i := (q ! i)\<lparr>q_id := -1\<rparr>]"
    using p uart_pick_eq [OF ok] by (auto simp: i_def Let_def split: if_splits)
  have w: "wanted (fst key) (snd key) (q ! i)"
    using first_index_nth [of "wanted (fst key) (snd key)" q] i by (simp add: i_def)
  have "uart_queue_ok q'"
    unfolding d(2) by (intro uart_queue_ok_update slot_ok_free uart_queue_ok_slot ok(1) i)
  then show "uart_queue_ok q' \<and> matches (fst key) (snd key) d \<and>
    mset (pending q) = add_mset d (mset (pending q'))"
    using w i d pending_free_slot [OF i] by simp
qed

text \<open>
  C7: the reply queue neither loses, duplicates nor invents replies. Over any interleaving of
  six-byte replies being queued and matching replies being picked, starting from the
  initialised queue, the replies accepted are exactly the ones handed out and the ones still
  queued, and the slot numbering stays intact.
\<close>

theorem uart_queue_conserves:
  assumes "length q = UART_QUENE_NUM" "\<forall>e\<in>set q. length (q_data e) = UART_DATA_NUM"
    and "\<forall>ev\<in>set evs. case ev of Put d \<Rightarrow> length d = UART_DATA_NUM | Pick key \<Rightarrow> reply_key_ok key"
    and "store_run uart_put uart_pick uart_full evs (uart_data_quene_init q) = (acc, out, q')"
  shows "uart_queue_ok q' \<and> mset acc = mset out + mset (pending q')"
proof -
  have "\<forall>ev\<in>set evs. uq.event_ok ev"
    using assms(3) by (auto simp: uq.event_ok_def split: store_event.splits)
  then show ?thesis
    using uq.run_conserves [OF uart_data_quene_init_ok [OF assms(1,2)] _ assms(4)] by simp
qed

subsection \<open>Waiting for a reply\<close>

text \<open>The queue as it stands at the polls of a waiting thread that finds nothing.\<close>

fun queue_at :: "(nat \<Rightarrow> uart_queue \<Rightarrow> uart_queue) \<Rightarrow> nat \<Rightarrow> uart_queue \<Rightarrow> nat \<Rightarrow> uart_queue" where
  "queue_at env k q 0 = q"
| "queue_at env k q (Suc j) = queue_at env (Suc k) (env k q) j"

definition reply_waits :: "bytes \<Rightarrow> nat \<Rightarrow> uart_queue \<Rightarrow> bool" where
  "reply_waits c n q \<longleftrightarrow> (\<exists>d\<in>set (pending q). matches c n d)"

lemma counter_below_limit [simp]: "unat (i :: u8) < MAX_TRY_TIMES"
  by (rule order_less_trans [OF unat_u8_less]) (simp add: MAX_TRY_TIMES_def)

lemma uart_poll_unfold:
  "uart_poll env c n g m i k q =
     (case uart_check c n g m q of
        Inl e \<Rightarrow> Some (Inl e)
      | Inr res \<Rightarrow>
          if fst res then Some (Inr res)
          else uart_poll env c n (fst (snd res)) m (i + 1) (Suc k) (env k (snd (snd res))))"
  by (subst uart_poll.simps) simp

lemma uart_poll_true:
  assumes ret: "uart_poll env c n g m i k q = Some (Inr res)"
  shows "fst res"
proof -
  have "case_sum (\<lambda>_. True) fst r" if "uart_poll env c n g m i k q = Some r" for r
  proof (rule uart_poll.raw_induct
      [where P = "\<lambda>env c n g m i k q r. case_sum (\<lambda>_. True) fst r", OF _ that])
    fix f :: "(nat \<Rightarrow> uart_queue \<Rightarrow> uart_queue) \<Rightarrow> bytes \<Rightarrow> nat \<Rightarrow> bytes \<Rightarrow> nat \<Rightarrow> u8 \<Rightarrow> nat \<Rightarrow>
        uart_queue \<Rightarrow> (uart_error + (bool \<times> bytes \<times> uart_queue)) option"
      and env c n g m i k q r
    assume IH: "\<And>env c n g m i k q r. f env c n g m i k q = Some r \<Longrightarrow> case_sum (\<lambda>_. True) fst r"
      and eq: "(if unat i < MAX_TRY_TIMES
        then case uart_check c n g m q of Inl e \<Rightarrow> Some (Inl e)
           | Inr res \<Rightarrow> if fst res then Some (Inr res)
               else f env c n (fst (snd res)) m (i + 1) (Suc k) (env k (snd (snd res)))
        else Some (Inr (False, g, q))) = Some r"
    show "case_sum (\<lambda>_. True) fst r"
      using eq IH by (cases "uart_check c n g m q"; cases r) (fastforce split: if_splits)+
  qed
  from this [OF ret] show ?thesis by simp
qed

text \<open>The other threads only use the queue's own operations, so they keep its invariant.\<close>

definition env_keeps_queue :: "(nat \<Rightarrow> uart_queue \<Rightarrow> uart_queue) \<Rightarrow> bool" where
  "env_keeps_queue env \<longleftrightarrow> (\<forall>k q. uart_queue_ok q \<longrightarrow> uart_queue_ok (env k q))"

lemma uart_poll_hit:
  assumes "reply_key_ok (c, n)" "m \<le> UART_DATA_NUM" "m \<le> length g" "uart_queue_ok q"
    and "reply_waits c n q"
  shows "\<exists>res. uart_poll env c n g m i k q = Some (Inr res) \<and> uart_queue_ok (snd (snd res))"
proof -
  obtain res where res: "uart_check c n g m q = Inr res" "fst res"
    using assms uart_check_eq [OF uart_queue_ok_sized [OF assms(4)], of n c m g] pending_wanted [of q c n]
    by (auto simp: reply_key_ok_def reply_waits_def Let_def first_index_less_iff)
  moreover have "uart_queue_ok (snd (snd res))"
    using uart_check_ok [OF assms(4) _ _ assms(2,3), of n c "fst res" "fst (snd res)" "snd (snd res)"] assms(1) res(1)
    by (simp add: reply_key_ok_def)
  ultimately show ?thesis by (subst uart_poll_unfold) simp
qed

lemma uart_poll_miss:
  assumes "reply_key_ok (c, n)" "uart_queue_ok q" "\<not> reply_waits c n q"
  shows "uart_poll env c n g m i k q = uart_poll env c n g m (i + 1) (Suc k) (env k q)"
  using assms uart_check_misses [OF uart_queue_ok_sized [OF assms(2)], of n c]
  by (subst uart_poll_unfold) (simp add: reply_key_ok_def reply_waits_def)

lemma uart_poll_finds:
  assumes "reply_key_ok (c, n)" "m \<le> UART_DATA_NUM" "m \<le> length g" "env_keeps_queue env"
    and "uart_queue_ok q" "reply_waits c n (queue_at env k q j)"
  shows "\<exists>res. uart_poll env c n g m i k q = Some (Inr res) \<and> uart_queue_ok (snd (snd res))"
  using assms(5,6)
proof (induction j arbitrary: i k q)
  case 0
  with assms show ?case by (intro uart_poll_hit) simp_all
next
  case (Suc j)
  show ?case
  proof (cases "reply_waits c n q")
    case True
    with assms Suc.prems show ?thesis by (intro uart_poll_hit) simp_all
  next
    case False
    have "uart_queue_ok (env k q)"
      using Suc.prems(1) assms(4) by (simp add: env_keeps_queue_def)
    then show ?thesis
      using Suc.IH Suc.prems uart_poll_miss [OF assms(1) Suc.prems(1) False] by simp
  qed
qed

lemma uart_poll_returns_only:
  assumes "reply_key_ok (c, n)" "env_keeps_queue env" "uart_queue_ok q"
    and ret: "uart_poll env c n g m i k q = Some r"
  shows "\<exists>j. reply_waits c n (queue_at env k q j)"
proof -
  let ?P = "\<lambda>env c n g m i k q r. reply_key_ok (c, n) \<longrightarrow> env_keeps_queue env \<longrightarrow>
    uart_queue_ok q \<longrightarrow> (\<exists>j. reply_waits c n (queue_at env k q j))"
  have "?P env c n g m i k q r"
  proof (rule uart_poll.raw_induct [where P = ?P, OF _ ret])
    fix f :: "(nat \<Rightarrow> uart_queue \<Rightarrow> uart_queue) \<Rightarrow> bytes \<Rightarrow> nat \<Rightarrow> bytes \<Rightarrow> nat \<Rightarrow> u8 \<Rightarrow> nat \<Rightarrow>
        uart_queue \<Rightarrow> (uart_error + (bool \<times> bytes \<times> uart_queue)) option"
      and env c n g m i k q r
    assume IH: "\<And>env c n g m i k q r. f env c n g m i k q = Some r \<Longrightarrow> ?P env c n g m i k q r"
      and eq: "(if unat i < MAX_TRY_TIMES
        then case uart_check c n g m q of Inl e \<Rightarrow> Some (Inl e)
           | Inr res \<Rightarrow> if fst res then Some (Inr res)
               else f env c n (fst (snd res)) m (i + 1) (Suc k) (env k (snd (snd res)))
        else Some (Inr (False, g, q))) = Some r"
    show "?P env c n g m i k q r"
    proof (intro impI)
      assume key: "reply_key_ok (c, n)" and env: "env_keeps_queue env" and ok: "uart_queue_ok q"
      show "\<exists>j. reply_waits c n (queue_at env k q j)"
      proof (cases "reply_waits c n q")
        case True
        then show ?thesis by (metis queue_at.simps(1))
      next
        case False
        then have "uart_check c n g m q = Inr (False, g, q)"
          using key uart_check_misses [OF uart_queue_ok_sized [OF ok]]
          by (simp add: reply_key_ok_def reply_waits_def)
        with eq have "f env c n g m (i + 1) (Suc k) (env k q) = Some r" by simp
        then have "\<exists>j. reply_waits c n (queue_at env (Suc k) (env k q) j)"
          using IH key env ok by (simp add: env_keeps_queue_def)
        then show ?thesis by (metis queue_at.simps(2))
      qed
    qed
  qed
  with assms(1-3) show ?thesis by blast
qed

lemma uart_check_from_queue_returns_iff:
  assumes "reply_key_ok (c, n)" "m \<le> UART_DATA_NUM" "m \<le> length g"
    and "env_keeps_queue env" "uart_queue_ok q"
  shows "(\<exists>r. uart_check_from_queue env c n g m q = Some r) \<longleftrightarrow>
         (\<exists>j. reply_waits c n (queue_at env 0 q j))"
  unfolding uart_check_from_queue_def
  using uart_poll_returns_only [OF assms(1,4,5)] uart_poll_finds [OF assms] by blast

lemma uart_check_from_queue_result:
  assumes "reply_key_ok (c, n)" "m \<le> UART_DATA_NUM" "m \<le> length g"
    and "env_keeps_queue env" "uart_queue_ok q" "uart_check_from_queue env c n g m q = Some r"
  shows "\<exists>g' q'. r = Inr (True, g', q') \<and> uart_queue_ok q'"
proof -
  obtain j where "reply_waits c n (queue_at env 0 q j)"
    using uart_check_from_queue_returns_iff [OF assms(1-5)] assms(6) by blast
  then obtain res where "r = Inr res" "uart_queue_ok (snd (snd res))"
    using uart_poll_finds [OF assms(1-5), of 0 j 0] assms(6) by (auto simp: uart_check_from_queue_def)
  then show ?thesis
    using uart_poll_true [of env c n g m 0 0 q res] assms(6)
    by (cases res) (auto simp: uart_check_from_queue_def)
qed

text \<open>
  C18: \<open>uart_check_from_queue\<close> has no time-out. Its counter is an \<open>unsigned char\<close>, so the
  limit of 300 tries is never reached: the call returns exactly when a matching reply is in the
  queue at some poll, it then reports success, and without a reply it never returns.
\<close>

theorem uart_check_from_queue_no_timeout:
  assumes "reply_key_ok (c, n)" "m \<le> UART_DATA_NUM" "m \<le> length g"
    and "env_keeps_queue env" "uart_queue_ok q"
  shows "((\<exists>r. uart_check_from_queue env c n g m q = Some r) \<longleftrightarrow>
          (\<exists>j. reply_waits c n (queue_at env 0 q j))) \<and>
         (\<forall>r. uart_check_from_queue env c n g m q = Some r \<longrightarrow> (\<exists>g' q'. r = Inr (True, g', q')))"
  using uart_check_from_queue_returns_iff [OF assms] uart_check_from_queue_result [OF assms] by blast

subsection \<open>The two properties at a concrete queue\<close>

definition idle_slots :: uart_queue where
  "idle_slots = replicate UART_QUENE_NUM \<lparr>q_id = 0, q_data = replicate UART_DATA_NUM 0\<rparr>"

definition sw_reply :: bytes where
  "sw_reply = [2, 1, 2, 1, 1, 0x10]"

lemma idle_slots_sized:
  "length idle_slots = UART_QUENE_NUM" "\<forall>e\<in>set idle_slots. length (q_data e) = UART_DATA_NUM"
  by (simp_all add: idle_slots_def)

lemma queue_at_still: "queue_at (\<lambda>_ q. q) k q j = q"
  by (induction j arbitrary: k) simp_all

theorem uart_queue_conserves_witness:
  "\<exists>q'. store_run uart_put uart_pick uart_full
          [Put sw_reply, Put sw_reply, Pick (sw_reply, 6)] (uart_data_quene_init idle_slots)
          = ([sw_reply, sw_reply], [sw_reply], q') \<and>
        uart_queue_ok q' \<and> mset [sw_reply, sw_reply] = mset [sw_reply] + mset (pending q')"
proof -
  let ?q' = "(uart_data_quene_init idle_slots)
    [0 := \<lparr>q_id = -1, q_data = sw_reply\<rparr>, 1 := \<lparr>q_id = 1, q_data = sw_reply\<rparr>]"
  have run: "store_run uart_put uart_pick uart_full
      [Put sw_reply, Put sw_reply, Pick (sw_reply, 6)] (uart_data_quene_init idle_slots)
      = ([sw_reply, sw_reply], [sw_reply], ?q')"
    by code_simp
  have "uart_queue_ok ?q' \<and> mset [sw_reply, sw_reply] = mset [sw_reply] + mset (pending ?q')"
    by (rule uart_queue_conserves [OF idle_slots_sized _ run])
      (simp add: sw_reply_def reply_key_ok_def UART_DATA_NUM_def)
  with run show ?thesis by blast
qed

theorem uart_check_from_queue_no_timeout_witness:
  "uart_check_from_queue (\<lambda>_ q. q) sw_reply 6 (replicate 6 0) 6 (uart_data_quene_init idle_slots) = None \<and>
   (\<exists>g' q'. uart_check_from_queue (\<lambda>_. uart_put sw_reply) sw_reply 6 (replicate 6 0) 6
      (uart_data_quene_init idle_slots) = Some (Inr (True, g', q')))"
proof -
  let ?q = "uart_data_quene_init idle_slots"
  have ok: "uart_queue_ok ?q" by (rule uart_data_quene_init_ok [OF idle_slots_sized])
  have key: "reply_key_ok (sw_reply, 6)" "6 \<le> UART_DATA_NUM" "6 \<le> length (replicate 6 (0 :: u8))"
    by (simp_all add: reply_key_ok_def UART_DATA_NUM_def sw_reply_def)
  have env: "env_keeps_queue (\<lambda>_ q. q)" "env_keeps_queue (\<lambda>_. uart_put sw_reply)"
    by (simp_all add: env_keeps_queue_def uart_put_ok sw_reply_def UART_DATA_NUM_def)
  have "\<not> reply_waits sw_reply 6 (queue_at (\<lambda>_ q. q) 0 ?q j)" for j
    by (simp add: queue_at_still reply_waits_def)
  moreover have "reply_waits sw_reply 6 (queue_at (\<lambda>_. uart_put sw_reply) 0 ?q 1)"
    by code_simp
  ultimately show ?thesis
    using uart_check_from_queue_no_timeout [OF key env(1) ok]
      uart_check_from_queue_no_timeout [OF key env(2) ok]
    by (metis not_Some_eq)
qed

end
