(* ===== verification/C_Library.thy ===== *)
theory C_Library
  imports Prelude "HOL-Library.Sublist" "HOL-Library.Monad_Syntax"
begin

text \<open>
  The part of the C library the sources use on strings: \<open>strtol\<close>, \<open>atoi\<close>, \<open>strtok\<close>,
  \<open>strstr\<close> and the conversions \<open>%d\<close>, \<open>%.nd\<close>, \<open>%.nX\<close> of \<open>sprintf\<close>. A C string is the list of
  its characters without the terminating NUL; memory that may hold a NUL is cut by \<open>c_str\<close>.
  Array accesses are partial: \<open>mget\<close> and \<open>mput\<close> are \<^term>\<open>None\<close> outside the array.
  \<open>long\<close> has 32 bits on the target.
\<close>

abbreviation NUL :: char where
  "NUL \<equiv> CHR 0x00"

text \<open>The C string that starts at the head of a piece of memory.\<close>

definition c_str :: "string \<Rightarrow> string" where
  "c_str mem = takeWhile (\<lambda>c. c \<noteq> NUL) mem"

text \<open>The contents of a zeroed array of \<open>n\<close> characters after a string was copied into it.\<close>

definition c_array :: "nat \<Rightarrow> string \<Rightarrow> string" where
  "c_array n s = take n (s @ replicate n NUL)"

definition mget :: "'a list \<Rightarrow> nat \<Rightarrow> 'a option" where
  "mget mem i = (if i < length mem then Some (mem ! i) else None)"

definition mput :: "'a list \<Rightarrow> nat \<Rightarrow> 'a \<Rightarrow> 'a list option" where
  "mput mem i v = (if i < length mem then Some (mem[i := v]) else None)"

definition strlen :: "string \<Rightarrow> nat option" where
  "strlen mem = (let n = length (c_str mem) in if n < length mem then Some n else None)"

text \<open>\<open>strcpy\<close> or \<open>sprintf\<close> of a string into an array of \<open>n\<close> characters that was cleared.\<close>

definition store :: "nat \<Rightarrow> string \<Rightarrow> string option" where
  "store n s = (if length s < n then Some (c_array n s) else None)"

definition is_space :: "char \<Rightarrow> bool" where
  "is_space c \<longleftrightarrow> c = CHR '' '' \<or> (9 \<le> (of_char c :: nat) \<and> (of_char c :: nat) \<le> 13)"

text \<open>The value of a digit, in either case, below a base of at most 16.\<close>

definition digit_val :: "nat \<Rightarrow> char \<Rightarrow> nat option" where
  "digit_val base c =
     (let n = of_char c;
          v = (if 48 \<le> n \<and> n \<le> 57 then n - 48
               else if 65 \<le> n \<and> n \<le> 70 then n - 55
               else if 97 \<le> n \<and> n \<le> 102 then n - 87
               else base)
      in if v < base then Some v else None)"

fun scan_digits :: "nat \<Rightarrow> nat \<Rightarrow> string \<Rightarrow> nat" where
  "scan_digits base acc [] = acc"
| "scan_digits base acc (c # cs) =
     (case digit_val base c of None \<Rightarrow> acc | Some v \<Rightarrow> scan_digits base (acc * base + v) cs)"

definition LONG_MAX :: int where
  "LONG_MAX = 2147483647"

definition clamp_long :: "int \<Rightarrow> int" where
  "clamp_long v = max (- LONG_MAX - 1) (min LONG_MAX v)"

definition hex_prefix :: "string \<Rightarrow> bool" where
  "hex_prefix s \<longleftrightarrow> 2 < length s \<and> s ! 0 = CHR ''0'' \<and> (s ! 1 = CHR ''x'' \<or> s ! 1 = CHR ''X'') \<and>
     digit_val 16 (s ! 2) \<noteq> None"

definition strtol :: "string \<Rightarrow> nat \<Rightarrow> int" where
  "strtol s base =
     (let s1 = dropWhile is_space s;
          neg = (s1 \<noteq> [] \<and> hd s1 = CHR ''-'');
          s2 = (if s1 \<noteq> [] \<and> (hd s1 = CHR ''-'' \<or> hd s1 = CHR ''+'') then tl s1 else s1);
          s3 = (if base = 16 \<and> hex_prefix s2 then drop 2 s2 else s2);
          v = int (scan_digits base 0 s3)
      in clamp_long (if neg then - v else v))"

definition atoi :: "string \<Rightarrow> int" where
  "atoi s = strtol s 10"

text \<open>Conversion to \<open>unsigned char\<close>.\<close>

definition to_uchar :: "int \<Rightarrow> u8" where
  "to_uchar v = word_of_int v"

subsection \<open>Printing numbers\<close>

definition digit_char :: "nat \<Rightarrow> char" where
  "digit_char v = char_of (if v < 10 then v + 48 else v + 55)"

fun digits :: "nat \<Rightarrow> nat \<Rightarrow> string" where
  "digits base n =
     (if base < 2 then []
      else if n < base then [digit_char n]
      else digits base (n div base) @ [digit_char (n mod base)])"

declare digits.simps [simp del]

text \<open>\<open>%.pX\<close> and \<open>%.pd\<close>: at least \<open>p\<close> digits.\<close>

definition pad_digits :: "nat \<Rightarrow> nat \<Rightarrow> nat \<Rightarrow> string" where
  "pad_digits base p n = replicate (p - length (digits base n)) (CHR ''0'') @ digits base n"

definition fmt_X :: "nat \<Rightarrow> nat \<Rightarrow> string" where
  "fmt_X p n = pad_digits 16 p n"

definition fmt_d :: "nat \<Rightarrow> int \<Rightarrow> string" where
  "fmt_d p v = (if v < 0 then [CHR ''-''] else []) @ pad_digits 10 p (nat \<bar>v\<bar>)"

subsection \<open>Searching and splitting\<close>

fun strstr :: "string \<Rightarrow> string \<Rightarrow> string option" where
  "strstr [] needle = (if needle = [] then Some [] else None)"
| "strstr (c # cs) needle = (if prefix needle (c # cs) then Some (c # cs) else strstr cs needle)"

text \<open>\<open>strtok\<close> with a single delimiter: the next token and the rest to scan, none when only
  delimiters are left.\<close>

definition strtok :: "char \<Rightarrow> string \<Rightarrow> (string \<times> string) option" where
  "strtok d s =
     (let s1 = dropWhile (\<lambda>c. c = d) s in
      if s1 = [] then None
      else Some (takeWhile (\<lambda>c. c \<noteq> d) s1, drop 1 (dropWhile (\<lambda>c. c \<noteq> d) s1)))"

subsection \<open>Facts\<close>

lemma of_char_digit_char:
  "v < 16 \<Longrightarrow> of_char (digit_char v) = (if v < 10 then v + 48 else v + 55 :: nat)"
  by (simp add: digit_char_def)

lemma digit_val_digit_char [simp]: "v < base \<Longrightarrow> base \<le> 16 \<Longrightarrow> digit_val base (digit_char v) = Some v"
  by (simp add: digit_val_def of_char_digit_char Let_def)

lemma digit_val_zero [simp]: "0 < base \<Longrightarrow> digit_val base CHR ''0'' = Some 0"
  by (simp add: digit_val_def)

lemma digit_val_less: "digit_val base c = Some v \<Longrightarrow> v < base"
  by (auto simp: digit_val_def Let_def split: if_splits)

lemma digit_not_space: "digit_val base c = Some v \<Longrightarrow> base \<le> 16 \<Longrightarrow> \<not> is_space c"
  by (auto simp: digit_val_def Let_def is_space_def split: if_splits)

lemma digit_not_sign:
  "digit_val base c = Some v \<Longrightarrow> base \<le> 16 \<Longrightarrow> c \<noteq> CHR ''-'' \<and> c \<noteq> CHR ''+'' \<and> c \<noteq> CHR ''x'' \<and> c \<noteq> CHR ''X'' \<and> c \<noteq> NUL"
  by (auto simp: digit_val_def Let_def split: if_splits)

abbreviation all_digits :: "nat \<Rightarrow> string \<Rightarrow> bool" where
  "all_digits base s \<equiv> (\<forall>c\<in>set s. digit_val base c \<noteq> None)"

lemma scan_digits_append:
  "all_digits base xs \<Longrightarrow> scan_digits base acc (xs @ ys) = scan_digits base (scan_digits base acc xs) ys"
  by (induction xs arbitrary: acc) (auto split: option.splits)

lemma scan_digits_zeros [simp]:
  "0 < base \<Longrightarrow> scan_digits base 0 (replicate k CHR ''0'' @ s) = scan_digits base 0 s"
  by (induction k) auto

lemma digits_nonempty: "2 \<le> base \<Longrightarrow> digits base n \<noteq> []"
  by (subst digits.simps) simp

lemma digits_all_digits: "2 \<le> base \<Longrightarrow> base \<le> 16 \<Longrightarrow> all_digits base (digits base n)"
proof (induction base n rule: digits.induct)
  case (1 base n)
  then show ?case by (subst digits.simps) auto
qed

lemma scan_digits_digits: "2 \<le> base \<Longrightarrow> base \<le> 16 \<Longrightarrow> scan_digits base 0 (digits base n) = n"
proof (induction base n rule: digits.induct)
  case (1 base n)
  show ?case
  proof (cases "n < base")
    case True
    with "1.prems" show ?thesis by (subst digits.simps) simp
  next
    case False
    with 1 have "scan_digits base 0 (digits base (n div base)) = n div base" by simp
    with False "1.prems" show ?thesis
      by (subst digits.simps) (simp add: scan_digits_append digits_all_digits)
  qed
qed

lemma pad_digits_all_digits: "2 \<le> base \<Longrightarrow> base \<le> 16 \<Longrightarrow> all_digits base (pad_digits base p n)"
  using digits_all_digits [of base n] by (auto simp: pad_digits_def)

lemma pad_digits_nonempty: "2 \<le> base \<Longrightarrow> pad_digits base p n \<noteq> []"
  by (simp add: pad_digits_def digits_nonempty)

lemma scan_pad_digits: "2 \<le> base \<Longrightarrow> base \<le> 16 \<Longrightarrow> scan_digits base 0 (pad_digits base p n) = n"
  by (simp add: pad_digits_def scan_digits_digits)

text \<open>On a run of digits \<open>strtol\<close> is the value of the run.\<close>

lemma strtol_digits:
  assumes "all_digits base s" "s \<noteq> []" "base \<le> 16"
  shows "strtol s base = clamp_long (int (scan_digits base 0 s))"
proof -
  obtain c cs where s: "s = c # cs" using assms(2) by (cases s) auto
  then obtain v where v: "digit_val base c = Some v" using assms(1) by auto
  have "\<not> is_space c" "c \<noteq> CHR ''-''" "c \<noteq> CHR ''+''"
    using digit_not_space [OF v assms(3)] digit_not_sign [OF v assms(3)] by simp_all
  moreover have "base = 16 \<Longrightarrow> \<not> hex_prefix s"
  proof
    assume "base = 16" "hex_prefix s"
    then have "s ! 1 \<in> set s" "s ! 1 = CHR ''x'' \<or> s ! 1 = CHR ''X''"
      by (simp_all add: hex_prefix_def)
    with assms(1,3) show False by (metis digit_not_sign option.exhaust_sel)
  qed
  ultimately show ?thesis by (auto simp: strtol_def s Let_def)
qed

lemma strtol_pad_digits:
  "2 \<le> base \<Longrightarrow> base \<le> 16 \<Longrightarrow> n < 2147483648 \<Longrightarrow> strtol (pad_digits base p n) base = int n"
  using strtol_digits [OF pad_digits_all_digits pad_digits_nonempty, of base p n]
  by (simp add: scan_pad_digits clamp_long_def LONG_MAX_def)

lemma to_uchar_of_nat [simp]: "to_uchar (int n) = of_nat n"
  by (simp add: to_uchar_def)

subsection \<open>Strings in memory\<close>

lemma c_str_memory [simp]: "NUL \<notin> set s \<Longrightarrow> c_str (s @ NUL # rest) = s"
  by (simp add: c_str_def takeWhile_append2 takeWhile_append)

lemma c_str_no_NUL: "NUL \<notin> set s \<Longrightarrow> c_str s = s"
  by (auto simp: c_str_def takeWhile_eq_all_conv)

lemma strlen_memory [simp]: "NUL \<notin> set s \<Longrightarrow> strlen (s @ NUL # rest) = Some (length s)"
  by (simp add: strlen_def)

lemma mget_append [simp]: "i = length xs \<Longrightarrow> mget (xs @ y # ys) i = Some y"
  by (simp add: mget_def)

lemma mput_append [simp]: "i = length xs \<Longrightarrow> mput (xs @ y # ys) i v = Some (xs @ v # ys)"
  by (simp add: mput_def)

lemma mget_first: "mget (s @ NUL # rest) 0 = Some (if s = [] then NUL else hd s)"
  by (cases s) (simp_all add: mget_def)

lemma mput_outside [simp]: "length mem \<le> i \<Longrightarrow> mput mem i v = None"
  by (simp add: mput_def)

lemma store_memory:
  assumes "length s < n"
  shows "store n s = Some (s @ NUL # replicate (n - length s - 1) NUL)"
proof -
  obtain k where "n = Suc (length s + k)" using less_imp_Suc_add [OF assms] by blast
  then show ?thesis by (simp add: store_def c_array_def min_def)
qed

lemma pad_digits_no_NUL: "2 \<le> base \<Longrightarrow> base \<le> 16 \<Longrightarrow> NUL \<notin> set (pad_digits base p n)"
  using pad_digits_all_digits [of base p n] by (auto simp: digit_val_def)

lemma fmt_no_NUL [simp]: "NUL \<notin> set (fmt_X p n)" "NUL \<notin> set (fmt_d p v)"
  by (simp_all add: fmt_X_def fmt_d_def pad_digits_no_NUL)

lemma length_digits_le: "0 < k \<Longrightarrow> 2 \<le> base \<Longrightarrow> n < base ^ k \<Longrightarrow> length (digits base n) \<le> k"
proof (induction k arbitrary: n)
  case (Suc k)
  show ?case
  proof (cases "n < base")
    case False
    with Suc.prems have "n div base < base ^ k" "0 < k"
      by (auto simp: less_mult_imp_div_less mult.commute intro!: Suc_leI) (cases k; simp)
    with Suc False show ?thesis by (subst digits.simps) simp
  qed (use Suc.prems in \<open>subst digits.simps, simp\<close>)
qed simp

lemma length_pad_digits:
  "0 < p \<Longrightarrow> 2 \<le> base \<Longrightarrow> n < base ^ p \<Longrightarrow> length (pad_digits base p n) = p"
  using length_digits_le [of p base n] by (simp add: pad_digits_def)

text \<open>A token that does not contain the delimiter.\<close>

lemma strtok_token:
  assumes "s \<noteq> []" "d \<notin> set s"
  shows "strtok d (s @ d # rest) = Some (s, rest)" "strtok d s = Some (s, [])"
proof -
  have "hd s \<noteq> d" using assms by (cases s) auto
  then have dw: "dropWhile (\<lambda>c. c = d) (s @ t) = s @ t" for t using assms(1) by (cases s) auto
  have tw: "takeWhile (\<lambda>c. c \<noteq> d) (s @ d # rest) = s" "dropWhile (\<lambda>c. c \<noteq> d) (s @ d # rest) = d # rest"
    "takeWhile (\<lambda>c. c \<noteq> d) s = s" "dropWhile (\<lambda>c. c \<noteq> d) s = []"
    using assms(2) by (auto simp: takeWhile_append dropWhile_append takeWhile_eq_all_conv dropWhile_eq_Nil_conv)
  show "strtok d (s @ d # rest) = Some (s, rest)" using dw [of "d # rest"] assms(1) by (simp add: strtok_def tw)
  show "strtok d s = Some (s, [])" using dw [of "[]"] assms(1) by (simp add: strtok_def tw)
qed

subsection \<open>Bytes as hexadecimal digits\<close>

definition hex_text :: "bytes \<Rightarrow> string" where
  "hex_text bs = concat (map (\<lambda>b. fmt_X 2 (unat b)) bs)"

lemma length_fmt_X_u8: "length (fmt_X 2 (unat (b :: u8))) = 2"
  using unat_u8_less [of b] by (simp add: fmt_X_def length_pad_digits)

lemma length_hex_text [simp]: "length (hex_text bs) = 2 * length bs"
  by (induction bs) (simp_all add: hex_text_def length_fmt_X_u8)

lemma take_hex_text: "j < length bs \<Longrightarrow> take 2 (drop (2 * j) (hex_text bs @ rest)) = fmt_X 2 (unat (bs ! j))"
proof (induction bs arbitrary: j)
  case (Cons b bs)
  then show ?case by (cases j) (simp_all add: hex_text_def length_fmt_X_u8)
qed simp

lemma strtol_two_hex: "n < 256 \<Longrightarrow> strtol (c_str (fmt_X 2 n @ NUL # rest)) 16 = int n"
  by (simp add: fmt_X_def pad_digits_no_NUL strtol_pad_digits)

end
