(* ===== verification/Dev_Control.thy ===== *)
theory Dev_Control
  imports Uart_Queue C_Library
begin

text \<open>
  The command frames of the Zigbee devices (\<open>src/src/dev_manage/dev_control.c\<close>,
  \<open>dev_control.h\<close>, \<open>dev.h\<close> and \<open>WriteToUart\<close> of \<open>uart.c\<close>). The \<open>write\<close> system call is a
  parameter \<open>wr\<close> that gives the number it returns for a buffer. A control function yields
  the bytes it hands to \<open>write\<close> and its return value; the switch functions, which wait for the
  reply, take the environment of \<open>uart_check_from_queue\<close> as well and may not return.
\<close>

subsection \<open>Enumerations and the command table\<close>

datatype control_cmd =
    CMD_SW_OPEN | CMD_SW_CLOSE | CMD_SW_TOGGLE | CMD_SW_GET_STATE
  | CMD_CL_OPEN | CMD_CL_CLOSE | CMD_CL_PAUSE | CMD_CL_GET_STATE
  | CMD_DOOR_OPEN | CMD_DOOR_CLOSE | CMD_DOOR_GET_STATE
  | CMD_HONGWAI_ADD | CMD_HONGWAI_DEL | CMD_HONGWAI_SEND
  | CMD_NULL

fun cmd_code :: "control_cmd \<Rightarrow> u8" where
  "cmd_code CMD_SW_OPEN = 0" | "cmd_code CMD_SW_CLOSE = 1"
| "cmd_code CMD_SW_TOGGLE = 2" | "cmd_code CMD_SW_GET_STATE = 3"
| "cmd_code CMD_CL_OPEN = 4" | "cmd_code CMD_CL_CLOSE = 5"
| "cmd_code CMD_CL_PAUSE = 6" | "cmd_code CMD_CL_GET_STATE = 7"
| "cmd_code CMD_DOOR_OPEN = 8" | "cmd_code CMD_DOOR_CLOSE = 9"
| "cmd_code CMD_DOOR_GET_STATE = 10" | "cmd_code CMD_HONGWAI_ADD = 11"
| "cmd_code CMD_HONGWAI_DEL = 12" | "cmd_code CMD_HONGWAI_SEND = 13"
| "cmd_code CMD_NULL = 14"

datatype type_index =
    TYPE_SW_DEV | TYPE_CL_DEV | TYPE_DOOR_DEV | TYPE_KONGTIAO_DEV | TYPE_TV_DEV
  | TYPE_WENSHIDU_DEV | TYPE_SOUND_DEV | TYPE_HONGWAI_DEV | TYPE_YANWU_DEV | TYPE_YUDI_DEV

datatype DEV_TYPE_LIST =
    DEV_NULL | DEV_ADD | DEV_SWITCH | DEV_CHUANGLIAN | DEV_DOOR | DEV_HONGWAI_REMOTE
  | DEV_YUDI | DEV_WENSHIDU | DEV_SOUND | DEV_HONGWAI | DEV_YANWU

fun dev_type_code :: "DEV_TYPE_LIST \<Rightarrow> u8" where
  "dev_type_code DEV_NULL = 0xFF" | "dev_type_code DEV_ADD = 0x01"
| "dev_type_code DEV_SWITCH = 0x02" | "dev_type_code DEV_CHUANGLIAN = 0x03"
| "dev_type_code DEV_DOOR = 0x04" | "dev_type_code DEV_HONGWAI_REMOTE = 0x05"
| "dev_type_code DEV_YUDI = 0x06" | "dev_type_code DEV_WENSHIDU = 0x07"
| "dev_type_code DEV_SOUND = 0x08" | "dev_type_code DEV_HONGWAI = 0x09"
| "dev_type_code DEV_YANWU = 0x10"

record dev_cmd_t =
  dev_index :: type_index
  header :: u8
  cmd_open :: u8
  cmd_close :: u8
  cmd_pause :: u8
  cmd_toggle :: u8
  cmd_get_state :: u8
  cmd_len :: nat

text \<open>The entries after the fifth are zero-initialised.\<close>

fun cmd_list :: "type_index \<Rightarrow> dev_cmd_t" where
  "cmd_list TYPE_SW_DEV = \<lparr>dev_index = TYPE_SW_DEV, header = dev_type_code DEV_SWITCH, cmd_open = 0x01, cmd_close = 0x02,
     cmd_pause = 0xff, cmd_toggle = 0x03, cmd_get_state = 0x04, cmd_len = 6\<rparr>"
| "cmd_list TYPE_CL_DEV = \<lparr>dev_index = TYPE_CL_DEV, header = dev_type_code DEV_CHUANGLIAN, cmd_open = 0x01, cmd_close = 0x02,
     cmd_pause = 0x03, cmd_toggle = 0xff, cmd_get_state = 0x04, cmd_len = 5\<rparr>"
| "cmd_list TYPE_DOOR_DEV = \<lparr>dev_index = TYPE_DOOR_DEV, header = dev_type_code DEV_DOOR, cmd_open = 0x01, cmd_close = 0xff,
     cmd_pause = 0xff, cmd_toggle = 0xff, cmd_get_state = 0xff, cmd_len = 5\<rparr>"
| "cmd_list TYPE_KONGTIAO_DEV = \<lparr>dev_index = TYPE_KONGTIAO_DEV, header = dev_type_code DEV_HONGWAI_REMOTE, cmd_open = 0x01,
     cmd_close = 0x02, cmd_pause = 0x03, cmd_toggle = 0xff, cmd_get_state = 0xff, cmd_len = 6\<rparr>"
| "cmd_list TYPE_TV_DEV = \<lparr>dev_index = TYPE_TV_DEV, header = dev_type_code DEV_HONGWAI_REMOTE, cmd_open = 0x01,
     cmd_close = 0x02, cmd_pause = 0x03, cmd_toggle = 0xff, cmd_get_state = 0xff, cmd_len = 6\<rparr>"
| "cmd_list _ = \<lparr>dev_index = TYPE_SW_DEV, header = 0, cmd_open = 0, cmd_close = 0,
     cmd_pause = 0, cmd_toggle = 0, cmd_get_state = 0, cmd_len = 0\<rparr>"

subsection \<open>Addresses\<close>

text \<open>
  \<open>get_ip_byte\<close> reads four characters from the pointer on; \<open>ip_str\<close> is \<^term>\<open>None\<close> for the
  null pointer, otherwise the memory it points to.
\<close>

definition get_ip_byte :: "string option \<Rightarrow> uart_error + (u8 \<times> u8)" where
  "get_ip_byte ip_str =
     (case ip_str of
        None \<Rightarrow> Inr (0xFF, 0xFF)
      | Some mem \<Rightarrow>
          if 4 \<le> length mem
          then (let bytes1 = c_str [mem ! 0, mem ! 1]; bytes2 = c_str [mem ! 2, mem ! 3]
                in Inr (to_uchar (strtol bytes2 16), to_uchar (strtol bytes1 16)))
          else Inl Buffer_Overrun)"

subsection \<open>Sending a command\<close>

definition WriteToUart :: "(bytes \<Rightarrow> int) \<Rightarrow> bytes \<Rightarrow> nat \<Rightarrow> bool" where
  "WriteToUart wr buffer len \<longleftrightarrow> wr (take len buffer) = int len"

text \<open>The frame a switch command sends: header, address, operation, number, expected state.\<close>

definition switch_cmd :: "u8 \<times> u8 \<Rightarrow> u8 \<Rightarrow> u8 \<Rightarrow> bytes" where
  "switch_cmd ip dev_cmd dev_number =
     (let sw = cmd_list TYPE_SW_DEV;
          (op, state) =
            (if dev_cmd = cmd_code CMD_SW_OPEN
             then (if dev_number = 0 then cmd_close sw else cmd_open sw,
                   if dev_number = 0 then 0x20 else 0x10)
             else if dev_cmd = cmd_code CMD_SW_CLOSE
             then (if dev_number = 0 then cmd_open sw else cmd_close sw,
                   if dev_number = 0 then 0x10 else 0x20)
             else if dev_cmd = cmd_code CMD_SW_TOGGLE then (cmd_toggle sw, 0x40)
             else if dev_cmd = cmd_code CMD_SW_GET_STATE then (cmd_get_state sw, 0x0F)
             else (0, 0))
      in [header sw, fst ip, snd ip, op, if dev_number = 0 then 1 else dev_number, state])"

type_synonym poll_env = "nat \<Rightarrow> uart_queue \<Rightarrow> uart_queue"

text \<open>\<open>env\<close> acts on the queue as it is when the wait begins; the result carries the queue
  left behind.\<close>

definition switch_dev_control_func ::
  "(bytes \<Rightarrow> int) \<Rightarrow> poll_env \<Rightarrow> uart_queue \<Rightarrow> string option \<Rightarrow> u8 \<Rightarrow> u8 \<Rightarrow>
   (uart_error + (bytes \<times> bool \<times> uart_queue)) option"
where
  "switch_dev_control_func wr env q ip dev_cmd dev_number =
     (case get_ip_byte ip of
        Inl e \<Rightarrow> Some (Inl e)
      | Inr addr \<Rightarrow>
          (let cmd = switch_cmd addr dev_cmd dev_number;
               len = cmd_len (cmd_list TYPE_SW_DEV)
           in if \<not> WriteToUart wr cmd len then Some (Inr (take len cmd, False, q))
              else map_option (map_sum id (\<lambda>(r, state, q'). (take len cmd, r, q')))
                     (uart_check_from_queue env cmd 6 (replicate 6 0) 6 q)))"

definition switch_dev_get_state ::
  "(bytes \<Rightarrow> int) \<Rightarrow> poll_env \<Rightarrow> uart_queue \<Rightarrow> string option \<Rightarrow> u8 \<Rightarrow>
   (uart_error + (bytes \<times> control_cmd \<times> uart_queue)) option"
where
  "switch_dev_get_state wr env q ip dev_number =
     (case get_ip_byte ip of
        Inl e \<Rightarrow> Some (Inl e)
      | Inr addr \<Rightarrow>
          (let sw = cmd_list TYPE_SW_DEV;
               cmd = [header sw, fst addr, snd addr, cmd_get_state sw, dev_number, 0xFF]
           in if \<not> WriteToUart wr cmd (cmd_len sw) then Some (Inr (take (cmd_len sw) cmd, CMD_NULL, q))
              else map_option (map_sum id (\<lambda>(r, state, q').
                     (take (cmd_len sw) cmd,
                      if \<not> r then CMD_NULL
                      else if state ! 5 = cmd ! 4
                      then (if dev_number = 0 then CMD_SW_CLOSE else CMD_SW_OPEN)
                      else (if dev_number = 0 then CMD_SW_OPEN else CMD_SW_CLOSE),
                      q')))
                     (uart_check_from_queue env cmd 5 (replicate 6 0) 6 q)))"

definition chuanglian_dev_control_func ::
  "(bytes \<Rightarrow> int) \<Rightarrow> string option \<Rightarrow> u8 \<Rightarrow> uart_error + (bytes \<times> bool)"
where
  "chuanglian_dev_control_func wr ip dev_cmd =
     map_sum id (\<lambda>addr.
       (let cl = cmd_list TYPE_CL_DEV;
            (op, state) =
              (if dev_cmd = cmd_code CMD_CL_OPEN then (cmd_open cl, 0x10)
               else if dev_cmd = cmd_code CMD_CL_CLOSE then (cmd_close cl, 0x20)
               else if dev_cmd = cmd_code CMD_CL_PAUSE then (cmd_pause cl, 0x30)
               else if dev_cmd = cmd_code CMD_CL_GET_STATE then (cmd_get_state cl, 0xFF)
               else (0, 0));
            cmd = [header cl, fst addr, snd addr, op, state]
        in (take (cmd_len cl) cmd, WriteToUart wr cmd (cmd_len cl))))
       (get_ip_byte ip)"

definition door_dev_control_func ::
  "(bytes \<Rightarrow> int) \<Rightarrow> string option \<Rightarrow> u8 \<Rightarrow> uart_error + (bytes \<times> bool)"
where
  "door_dev_control_func wr ip dev_cmd =
     map_sum id (\<lambda>addr.
       (let door = cmd_list TYPE_DOOR_DEV;
            op =
              (if dev_cmd = cmd_code CMD_DOOR_OPEN then cmd_open door
               else if dev_cmd = cmd_code CMD_DOOR_CLOSE then cmd_close door
               else if dev_cmd = cmd_code CMD_DOOR_GET_STATE then cmd_get_state door
               else 0);
            cmd = [header door, fst addr, snd addr, op, 0xFF, 0]
        in (take (cmd_len door) cmd, WriteToUart wr cmd (cmd_len door))))
       (get_ip_byte ip)"

text \<open>The air conditioner and the television are two copies of the same infrared function.\<close>

definition kongtiao_dev_control_func ::
  "(bytes \<Rightarrow> int) \<Rightarrow> string option \<Rightarrow> u8 \<Rightarrow> u8 \<Rightarrow> uart_error + (bytes \<times> bool)"
where
  "kongtiao_dev_control_func wr ip dev_cmd number =
     map_sum id (\<lambda>addr.
       (let kt = cmd_list TYPE_KONGTIAO_DEV;
            (op, state) =
              (if dev_cmd = cmd_code CMD_HONGWAI_ADD then (cmd_open kt, 0x10)
               else if dev_cmd = cmd_code CMD_HONGWAI_DEL then (cmd_close kt, 0x20)
               else if dev_cmd = cmd_code CMD_HONGWAI_SEND then (cmd_pause kt, 0x30)
               else (0, 0));
            cmd = [header kt, fst addr, snd addr, op, number, state]
        in (take (cmd_len kt) cmd, WriteToUart wr cmd (cmd_len kt))))
       (get_ip_byte ip)"

definition tv_dev_control_func ::
  "(bytes \<Rightarrow> int) \<Rightarrow> string option \<Rightarrow> u8 \<Rightarrow> u8 \<Rightarrow> uart_error + (bytes \<times> bool)"
where
  "tv_dev_control_func wr ip dev_cmd number =
     map_sum id (\<lambda>addr.
       (let tv = cmd_list TYPE_TV_DEV;
            (op, state) =
              (if dev_cmd = cmd_code CMD_HONGWAI_ADD then (cmd_open tv, 0x10)
               else if dev_cmd = cmd_code CMD_HONGWAI_DEL then (cmd_close tv, 0x20)
               else if dev_cmd = cmd_code CMD_HONGWAI_SEND then (cmd_pause tv, 0x30)
               else (0, 0));
            cmd = [header tv, fst addr, snd addr, op, number, state]
        in (take (cmd_len tv) cmd, WriteToUart wr cmd (cmd_len tv))))
       (get_ip_byte ip)"

subsection \<open>Addresses as text\<close>

lemma length_fmt_X_byte [simp]: "n < 256 \<Longrightarrow> length (fmt_X 2 n) = 2"
  by (simp add: fmt_X_def pad_digits_def digits.simps [of 16 n] digits.simps [of 16 "n div 16"])

lemma c_str_digits: "all_digits 16 s \<Longrightarrow> c_str s = s"
  unfolding c_str_def takeWhile_eq_all_conv
  by (metis digit_not_sign option.exhaust_sel order_refl)

lemma two_chars: "length s = 2 \<Longrightarrow> [s ! 0, s ! 1] = s"
  by (cases s; cases "tl s") auto

lemma strtol_fmt_X_byte: "n < 256 \<Longrightarrow> strtol (c_str (fmt_X 2 n)) 16 = int n"
  by (simp add: fmt_X_def c_str_digits pad_digits_all_digits strtol_pad_digits)

lemma get_ip_byte_text:
  "get_ip_byte (Some (fmt_X 2 (unat hi) @ fmt_X 2 (unat lo) @ rest)) = Inr (lo, hi)"
proof -
  define a where "a = fmt_X 2 (unat hi)"
  define b where "b = fmt_X 2 (unat lo)"
  have len: "length a = 2" "length b = 2"
    by (simp_all add: a_def b_def word_bounds)
  then have mem: "[(a @ b @ rest) ! 0, (a @ b @ rest) ! Suc 0] = a"
    "[(a @ b @ rest) ! 2, (a @ b @ rest) ! 3] = b"
    using two_chars [of a] two_chars [of b] by (simp_all add: nth_append)
  have "strtol (c_str a) 16 = int (unat hi)" "strtol (c_str b) 16 = int (unat lo)"
    by (simp_all add: a_def b_def strtol_fmt_X_byte word_bounds)
  then show ?thesis
    unfolding a_def [symmetric] b_def [symmetric]
    by (simp add: get_ip_byte_def len mem Let_def to_uchar_def)
qed

text \<open>
  An address printed as two two-digit hexadecimal bytes, high byte first, is read back as
  the two address bytes of a frame, low byte first, whatever follows it in memory.
\<close>

theorem get_ip_byte_roundtrip:
  "get_ip_byte (Some (fmt_X 2 (unat hi) @ fmt_X 2 (unat lo) @ rest)) = Inr (lo, hi)"
  by (rule get_ip_byte_text)

subsection \<open>Switch commands and their replies\<close>

lemma length_switch_cmd [simp]: "length (switch_cmd a c n) = 6"
  by (simp add: switch_cmd_def Let_def split: prod.split)

lemma matches_whole_frame:
  "length c = UART_DATA_NUM \<Longrightarrow> length d = UART_DATA_NUM \<Longrightarrow> matches c UART_DATA_NUM d \<longleftrightarrow> d = c"
  by (simp add: matches_def)

lemma pending_length: "uart_queue_ok q \<Longrightarrow> d \<in> set (pending q) \<Longrightarrow> length d = UART_DATA_NUM"
  using uart_queue_ok_sized by (auto simp: pending_def)

lemma queue_at_ok: "env_keeps_queue env \<Longrightarrow> uart_queue_ok q \<Longrightarrow> uart_queue_ok (queue_at env k q j)"
  by (induction j arbitrary: k q) (auto simp: env_keeps_queue_def)

lemma reply_waits_whole_frame:
  assumes "uart_queue_ok q" "length c = 6"
  shows "reply_waits c 6 q \<longleftrightarrow> c \<in> set (pending q)"
  using pending_length [OF assms(1)] assms(2) matches_whole_frame [of c]
  by (auto simp: reply_waits_def UART_DATA_NUM_def)

lemma switch_control_waits:
  assumes "get_ip_byte ip = Inr addr" "wr (switch_cmd addr dev_cmd n) = 6"
  shows "switch_dev_control_func wr env q ip dev_cmd n =
    map_option (map_sum id (\<lambda>(r, state, q'). (switch_cmd addr dev_cmd n, r, q')))
      (uart_check_from_queue env (switch_cmd addr dev_cmd n) 6 (replicate 6 0) 6 q)"
  using assms by (simp add: switch_dev_control_func_def Let_def WriteToUart_def)

lemma switch_control_outcome:
  assumes "get_ip_byte ip = Inr addr" "env_keeps_queue env" "uart_queue_ok q"
  shows "let cmd = switch_cmd addr dev_cmd n; res = switch_dev_control_func wr env q ip dev_cmd n in
    if wr cmd \<noteq> 6 then res = Some (Inr (cmd, False, q))
    else if \<exists>j. cmd \<in> set (pending (queue_at env 0 q j))
    then \<exists>q'. res = Some (Inr (cmd, True, q')) \<and> uart_queue_ok q'
    else res = None"
proof -
  let ?cmd = "switch_cmd addr dev_cmd n"
  let ?check = "uart_check_from_queue env ?cmd 6 (replicate 6 0) 6 q"
  have key: "reply_key_ok (?cmd, 6)" "6 \<le> UART_DATA_NUM" "6 \<le> length (replicate 6 (0 :: u8))"
    by (simp_all add: reply_key_ok_def UART_DATA_NUM_def)
  have ret: "(\<exists>r. ?check = Some r) \<longleftrightarrow> (\<exists>j. ?cmd \<in> set (pending (queue_at env 0 q j)))"
    using uart_check_from_queue_returns_iff [OF key assms(2,3)]
    by (simp add: reply_waits_whole_frame queue_at_ok assms(2,3))
  have short: "switch_dev_control_func wr env q ip dev_cmd n = Some (Inr (?cmd, False, q))"
    if "wr ?cmd \<noteq> 6"
    using assms(1) that by (simp add: switch_dev_control_func_def Let_def WriteToUart_def)
  have echo: "\<exists>q'. switch_dev_control_func wr env q ip dev_cmd n = Some (Inr (?cmd, True, q')) \<and> uart_queue_ok q'"
    if "wr ?cmd = 6" "?check = Some r" for r
    using uart_check_from_queue_result [OF key assms(2,3) that(2)]
    by (auto simp: switch_control_waits [of ip addr wr dev_cmd n, OF assms(1) that(1)] that(2))
  have silent: "switch_dev_control_func wr env q ip dev_cmd n = None"
    if "wr ?cmd = 6" "?check = None"
    by (simp add: switch_control_waits [of ip addr wr dev_cmd n, OF assms(1) that(1)] that(2))
  show ?thesis
    unfolding Let_def using short echo silent ret by (cases ?check) auto
qed

text \<open>
  C11: \<open>switch_dev_control_func\<close> sends the six bytes of the command and, when the whole frame
  was written, reports TRUE exactly when the switch echoes that very frame. A short write
  is reported as FALSE without waiting; after a full write the call comes back precisely if the
  echo is in the reply queue at one of the polls.
\<close>

theorem switch_dev_control_func_spec:
  assumes "get_ip_byte ip = Inr addr" "env_keeps_queue env" "uart_queue_ok q"
  shows "let cmd = switch_cmd addr dev_cmd n; res = switch_dev_control_func wr env q ip dev_cmd n in
    if wr cmd \<noteq> 6 then res = Some (Inr (cmd, False, q))
    else if \<exists>j. cmd \<in> set (pending (queue_at env 0 q j))
    then \<exists>q'. res = Some (Inr (cmd, True, q')) \<and> uart_queue_ok q'
    else res = None"
  by (rule switch_control_outcome [OF assms])

theorem switch_dev_control_func_spec_witness:
  "(\<exists>q'. switch_dev_control_func (\<lambda>b. int (length b)) (\<lambda>_. uart_put sw_reply)
        (uart_data_quene_init idle_slots) (Some ''0201'') 0 1 = Some (Inr (sw_reply, True, q')) \<and> uart_queue_ok q') \<and>
   switch_dev_control_func (\<lambda>_. -1) (\<lambda>_. uart_put sw_reply)
        (uart_data_quene_init idle_slots) (Some ''0201'') 0 1
     = Some (Inr (sw_reply, False, uart_data_quene_init idle_slots))"
proof -
  let ?q = "uart_data_quene_init idle_slots"
  have ip: "get_ip_byte (Some ''0201'') = Inr (1, 2)" by code_simp
  have ok: "uart_queue_ok ?q" by (rule uart_data_quene_init_ok [OF idle_slots_sized])
  have env: "env_keeps_queue (\<lambda>_. uart_put sw_reply)"
    by (simp add: env_keeps_queue_def uart_put_ok sw_reply_def UART_DATA_NUM_def)
  have cmd: "switch_cmd (1, 2) 0 1 = sw_reply" by code_simp
  have "sw_reply \<in> set (pending (queue_at (\<lambda>_. uart_put sw_reply) 0 ?q 1))" by code_simp
  then have seen: "\<exists>j. sw_reply \<in> set (pending (queue_at (\<lambda>_. uart_put sw_reply) 0 ?q j))" by blast
  have len: "length sw_reply = 6" by (simp add: sw_reply_def)
  show ?thesis
    using switch_dev_control_func_spec [OF ip env ok, of 0 1 "\<lambda>b. int (length b)"]
      switch_dev_control_func_spec [OF ip env ok, of 0 1 "\<lambda>_. -1"] seen
    by (simp add: cmd len Let_def)
qed

subsection \<open>What a command frame says\<close>

abbreviation "sw_cmds \<equiv> map cmd_code [CMD_SW_OPEN, CMD_SW_CLOSE, CMD_SW_TOGGLE, CMD_SW_GET_STATE]"

text \<open>
  A switch frame determines the device, the channel and the operation. Two commands out of
  open, close, toggle and get-state give the same frame exactly when they have the same address,
  the same operation and the same channel, with one exception: channel 0 is channel 1 with
  open and close exchanged.
\<close>

theorem switch_cmd_injective:
  assumes "c1 \<in> set sw_cmds" "c2 \<in> set sw_cmds"
  shows "switch_cmd a1 c1 n1 = switch_cmd a2 c2 n2 \<longleftrightarrow>
    a1 = a2 \<and>
    (n1 = n2 \<and> c1 = c2 \<or>
     {n1, n2} = {0, 1} \<and>
       (c1 = c2 \<and> c1 \<in> cmd_code ` {CMD_SW_TOGGLE, CMD_SW_GET_STATE} \<or>
        {c1, c2} = cmd_code ` {CMD_SW_OPEN, CMD_SW_CLOSE}))"
proof -
  have inj: "a1 = a2 \<longleftrightarrow> fst a1 = fst a2 \<and> snd a1 = snd a2" by (rule prod_eq_iff)
  show ?thesis
    using assms unfolding inj
    by (auto simp: switch_cmd_def Let_def doubleton_eq_iff)
qed

theorem switch_cmd_injective_witness:
  "switch_cmd (7, 9) (cmd_code CMD_SW_OPEN) 0 = switch_cmd (7, 9) (cmd_code CMD_SW_CLOSE) 1 \<and>
   switch_cmd (7, 9) (cmd_code CMD_SW_OPEN) 2 \<noteq> switch_cmd (7, 9) (cmd_code CMD_SW_CLOSE) 2"
  using switch_cmd_injective [of "cmd_code CMD_SW_OPEN" "cmd_code CMD_SW_CLOSE" "(7, 9)" 0 "(7, 9)" 1]
    switch_cmd_injective [of "cmd_code CMD_SW_OPEN" "cmd_code CMD_SW_CLOSE" "(7, 9)" 2 "(7, 9)" 2]
  by simp

end
