(* ===== verification/Sms.thy ===== *)
theory Sms
  imports C_Library
begin

text \<open>
  Text messages over the GSM modem (\<open>src/src/dev_manage/sms.c\<close> and \<open>gsmDecode7bit\<close> of
  \<open>sms_control.c\<close>). Buffers are lists of characters of the declared size; \<^term>\<open>None\<close> is an
  access outside a buffer. What is written to the modem is the list of the strings passed to
  \<open>write\<close>, whose return values the code does not use.
\<close>

subsection \<open>Phone numbers\<close>

definition CENTER_NUMBER :: string where
  "CENTER_NUMBER = ''+8613010888500''"

definition MAX_BUFFER_SIZE :: nat where
  "MAX_BUFFER_SIZE = 512"

text \<open>The loop that drops a leading plus; the string is not empty there, so its
  length minus one does not wrap.\<close>

function drop_plus :: "string \<Rightarrow> nat \<Rightarrow> string option" where
  "drop_plus to i =
     (case strlen to of
        None \<Rightarrow> None
      | Some n \<Rightarrow> if i < n - 1 then drop_plus (to[i := to ! (i + 1)]) (i + 1) else mput to i NUL)"
  by pat_completeness auto
termination
  by (relation "measure (\<lambda>(to, i). length to - i)") (auto simp: strlen_def Let_def split: if_splits)

function swap_loop :: "string \<Rightarrow> nat \<Rightarrow> string option" where
  "swap_loop to i =
     (case strlen to of
        None \<Rightarrow> None
      | Some n \<Rightarrow> if i < n then swap_loop (to[i := to ! (i + 1), i + 1 := to ! i]) (i + 2) else Some to)"
  by pat_completeness auto
termination
  by (relation "measure (\<lambda>(to, i). length to - i)") (auto simp: strlen_def Let_def split: if_splits)

declare drop_plus.simps [simp del] swap_loop.simps [simp del]

definition number_handler :: "string \<Rightarrow> string option" where
  "number_handler to =
     do {
       c \<leftarrow> mget to 0;
       to \<leftarrow> (if c = CHR ''+'' then drop_plus to 0 else Some to);
       n \<leftarrow> strlen to;
       to \<leftarrow> (if n mod 2 = 1 then do { to \<leftarrow> mput to n CHR ''F''; mput to (n + 1) NUL } else Some to);
       swap_loop to 0
     }"

fun shift_right2 :: "string \<Rightarrow> nat \<Rightarrow> string option" where
  "shift_right2 mem i =
     (if 2 \<le> i then do { c \<leftarrow> mget mem (i - 2); mem \<leftarrow> mput mem i c; shift_right2 mem (i - 1) }
      else Some mem)"

declare shift_right2.simps [simp del]

text \<open>Two characters are put in front of the string.\<close>

definition put_front :: "char \<Rightarrow> char \<Rightarrow> string \<Rightarrow> string option" where
  "put_front a b center =
     do {
       n \<leftarrow> strlen center;
       center \<leftarrow> shift_right2 center (n + 2);
       center \<leftarrow> mput center (n + 3) NUL;
       center \<leftarrow> mput center 0 a;
       mput center 1 b
     }"

definition center_next_handler :: "string \<Rightarrow> string option" where
  "center_next_handler center =
     do {
       center \<leftarrow> put_front CHR ''9'' CHR ''1'' center;
       n \<leftarrow> strlen center;
       put_front (char_of (n div 2 div 10 + 0x30)) (char_of (n div 2 mod 10 + 0x30)) center
     }"

subsection \<open>Substrings\<close>

fun copy_chars :: "string \<Rightarrow> string \<Rightarrow> nat \<Rightarrow> nat \<Rightarrow> nat \<Rightarrow> string option" where
  "copy_chars src dest i j 0 = mput dest j NUL"
| "copy_chars src dest i j (Suc n) =
     do { c \<leftarrow> mget src i; dest \<leftarrow> mput dest j c; copy_chars src dest (i + 1) (j + 1) n }"

text \<open>\<open>substring\<close> returns the destination array; a negative length copies nothing.\<close>

definition substring :: "string \<Rightarrow> string \<Rightarrow> int \<Rightarrow> int \<Rightarrow> string option" where
  "substring src dest index len =
     (if index < 0 \<and> 0 < len then None else copy_chars src dest (nat index) 0 (nat len))"

subsection \<open>Sending\<close>

definition write_to_uart :: "string \<Rightarrow> nat \<Rightarrow> string list option" where
  "write_to_uart final len =
     do {
       buffer \<leftarrow> store MAX_BUFFER_SIZE (''AT+CMGS='' @ fmt_d 2 (int len) @ [CHR 0x0D]);
       buffer2 \<leftarrow> store MAX_BUFFER_SIZE (final @ [CHR 0x1A]);
       Some [c_str buffer, c_str buffer2]
     }"

definition sms_send :: "string \<Rightarrow> string \<Rightarrow> string list option" where
  "sms_send to_number text =
     do {
       to \<leftarrow> store 20 (''+86'' @ to_number);
       to \<leftarrow> number_handler to;
       center \<leftarrow> store 20 CENTER_NUMBER;
       center \<leftarrow> number_handler center;
       center \<leftarrow> center_next_handler center;
       msg \<leftarrow> store MAX_BUFFER_SIZE (fmt_X 2 (length text div 2) @ text);
       final \<leftarrow> store MAX_BUFFER_SIZE
         (''1100'' @ fmt_X 2 (length to_number + 2) @ ''91'' @ c_str to @ ''000800'' @ c_str msg);
       n \<leftarrow> strlen final;
       write_to_uart (c_str final) (n div 2)
     }"

text \<open>The loop over the full parts of a long message; the part buffer has 290 characters.\<close>

fun send_parts :: "string \<Rightarrow> string \<Rightarrow> nat \<Rightarrow> nat \<Rightarrow> string list option" where
  "send_parts to_number text i 0 =
     do {
       part \<leftarrow> substring (text @ [NUL]) (replicate 290 NUL) (int i * 280) (int (length text) - int i * 280);
       sms_send to_number (c_str part)
     }"
| "send_parts to_number text i (Suc k) =
     do {
       part \<leftarrow> substring (text @ [NUL]) (replicate 290 NUL) (int i * 280) 280;
       sent \<leftarrow> sms_send to_number (c_str part);
       rest \<leftarrow> send_parts to_number text (i + 1) k;
       Some (sent @ rest)
     }"

definition sms_send_support_multi :: "string \<Rightarrow> string \<Rightarrow> string list option" where
  "sms_send_support_multi to_number text = send_parts to_number text 0 (length text div 280)"

text \<open>The whole entry point: its result and what was written. A null pointer is \<^term>\<open>None\<close>.\<close>

definition sms_send_to_user :: "string option \<Rightarrow> string option \<Rightarrow> (bool \<times> string list) option" where
  "sms_send_to_user to_number text =
     (case (to_number, text) of
        (Some t, Some m) \<Rightarrow>
          map_option (Pair True) (if length m \<le> 280 then sms_send t m else sms_send_support_multi t m)
      | _ \<Rightarrow> Some (False, []))"

definition gsm_init :: "string list" where
  "gsm_init = map (\<lambda>s. s @ [CHR 0x0D])
     [''AT'', ''ATE0'', ''AT+CNMI=2,1,0,2,1'',
      ''AT+CPMS='' @ [CHR 0x22] @ ''SM'' @ [CHR 0x22] @ '','' @ [CHR 0x22] @ ''SM'' @ [CHR 0x22]
        @ '','' @ [CHR 0x22] @ ''SM'' @ [CHR 0x22],
      ''AT+CMGF=0'']"

subsection \<open>Receiving\<close>

datatype charset_t = CHARSET_8BITS | CHARSET_7BITS | CHARSET_UCS2

record message_info_t =
  center_number :: string
  send_number :: string
  send_time :: string
  send_content :: string
  charset :: charset_t

text \<open>Two digits of the time stamp as an \<open>unsigned char\<close>, through the array \<open>t\<close>.\<close>

definition time_field :: "string \<Rightarrow> string \<Rightarrow> int \<Rightarrow> (u8 \<times> string) option" where
  "time_field stamp t i =
     do { t \<leftarrow> substring stamp t i 2; Some (to_uchar (atoi (c_str t)), t) }"

definition format_time :: "u8 \<Rightarrow> u8 \<Rightarrow> u8 \<Rightarrow> u8 \<Rightarrow> u8 \<Rightarrow> u8 \<Rightarrow> string" where
  "format_time year month day hour minute second =
     ''20'' @ fmt_d 2 (uint year) @ ''-'' @ fmt_d 2 (uint month) @ ''-'' @ fmt_d 2 (uint day) @ '' ''
       @ fmt_d 2 (uint hour) @ '':'' @ fmt_d 2 (uint minute) @ '':'' @ fmt_d 2 (uint second)"

text \<open>The six calls on the array \<open>t\<close> and the \<open>sprintf\<close> of the time.\<close>

definition read_time :: "string \<Rightarrow> string \<Rightarrow> string option" where
  "read_time stamp t =
     do {
       (year, t) \<leftarrow> time_field stamp t 0;
       (month, t) \<leftarrow> time_field stamp t 2;
       (day, t) \<leftarrow> time_field stamp t 4;
       (hour, t) \<leftarrow> time_field stamp t 6;
       (minute, t) \<leftarrow> time_field stamp t 8;
       (second, t) \<leftarrow> time_field stamp t 10;
       Some (format_time year month day hour minute second)
     }"

definition read_charset :: "string \<Rightarrow> charset_t \<Rightarrow> charset_t" where
  "read_charset temp_charset old =
     (if strstr temp_charset ''08'' \<noteq> None then CHARSET_UCS2
      else if strstr temp_charset ''00'' \<noteq> None then CHARSET_7BITS
      else if strstr temp_charset ''04'' \<noteq> None then CHARSET_8BITS
      else old)"

text \<open>
  \<open>handler_receive_msg\<close> takes the PDU apart. \<open>info\<close> is the uninitialised local structure. The
  arrays \<open>t\<close> and \<open>len\<close> have two characters; \<open>slack\<close> is the number of bytes behind each that the
  compiler leaves unused (0 for the arrays as declared), so that the terminator \<open>substring\<close>
  writes behind them can be judged both ways.
\<close>

definition handler_receive_msg :: "nat \<Rightarrow> message_info_t \<Rightarrow> string \<Rightarrow> message_info_t option" where
  "handler_receive_msg slack info src =
     do {
       cen \<leftarrow> substring src (center_number info) 6 12;
       cen \<leftarrow> number_handler cen;
       cen \<leftarrow> mput cen 11 NUL;
       lenb \<leftarrow> substring src (replicate (2 + slack) NUL) 20 2;
       let pre_length = strtol (c_str lenb) 16;
       let odd_len = (pre_length mod 2 = 1);
       let length' = (if odd_len then pre_length + 1 else pre_length);
       c1 \<leftarrow> mget src 22;
       c2 \<leftarrow> (if c1 = CHR ''9'' then mget src 23 else Some NUL);
       let intl = (c1 = CHR ''9'' \<and> c2 = CHR ''1'');
       num \<leftarrow> (if intl then substring src (send_number info) 26 (length' - 2)
              else substring src (send_number info) 24 length');
       num \<leftarrow> number_handler num;
       num \<leftarrow> (if odd_len
              then let cut = (if intl then pre_length - 2 else pre_length)
                   in if cut < 0 then None else mput num (nat cut) NUL
              else Some num);
       cs \<leftarrow> substring src (replicate 3 NUL) (26 + length') 2;
       let charset' = read_charset (c_str cs) (charset info);
       stamp \<leftarrow> substring src (send_time info) (28 + length') 12;
       stamp \<leftarrow> number_handler stamp;
       line \<leftarrow> read_time stamp (replicate (2 + slack) NUL);
       stamp \<leftarrow> (if length line < length stamp then Some (overwrite 0 (line @ [NUL]) stamp) else None);
       lenb \<leftarrow> substring src lenb (42 + length') 2;
       content \<leftarrow> substring src (send_content info) (44 + length') (strtol (c_str lenb) 16 * 2);
       Some \<lparr>center_number = cen, send_number = num, send_time = stamp, send_content = content,
             charset = charset'\<rparr>
     }"

subsection \<open>Seven-bit text\<close>

text \<open>The loop that reads the octets: it runs over as many octets as the text has characters,
  two characters each, and stores them in \<open>x\<close>.\<close>

fun hex_octets :: "string \<Rightarrow> bytes \<Rightarrow> nat \<Rightarrow> nat \<Rightarrow> bytes option" where
  "hex_octets src x i 0 = Some x"
| "hex_octets src x i (Suc n) =
     do {
       y \<leftarrow> substring src (replicate 3 NUL) (2 * int i) 2;
       x \<leftarrow> mput x i (to_uchar (strtol (c_str y) 16));
       hex_octets src x (i + 1) n
     }"

text \<open>The unpacking loop over the octets still to do; \<open>nLeft\<close> holds the bits carried over.
  No shift leaves the range of \<open>int\<close>.\<close>

fun unpack7 :: "bytes \<Rightarrow> nat \<Rightarrow> nat \<Rightarrow> nat list" where
  "unpack7 [] nByte nLeft = []"
| "unpack7 (b # bs) nByte nLeft =
     (let septet = (push_bit nByte (unat b) OR nLeft) AND 0x7f;
          left = drop_bit (7 - nByte) (unat b)
      in if nByte + 1 = 7 then septet # left # unpack7 bs 0 0
         else septet # unpack7 bs (nByte + 1) left)"

fun put_all :: "string \<Rightarrow> nat \<Rightarrow> nat list \<Rightarrow> string option" where
  "put_all dst i [] = mput dst i NUL"
| "put_all dst i (v # vs) = do { dst \<leftarrow> mput dst i (char_of v); put_all dst (i + 1) vs }"

text \<open>The result is the returned number and the destination buffer.\<close>

definition gsmDecode7bit :: "string \<Rightarrow> string \<Rightarrow> nat \<Rightarrow> (int \<times> string) option" where
  "gsmDecode7bit src dst nSrcLength =
     (if nSrcLength mod 2 \<noteq> 0 then Some (-1, dst)
      else do {
        x \<leftarrow> hex_octets src (replicate 50 0) 0 nSrcLength;
        let out = unpack7 (take nSrcLength x) 0 0;
        dst \<leftarrow> put_all dst 0 out;
        Some (int (length out), dst)
      })"

subsection \<open>Semi-octets\<close>

fun swap_pairs :: "string \<Rightarrow> string" where
  "swap_pairs (a # b # s) = b # a # swap_pairs s"
| "swap_pairs s = s"

definition semi_octets :: "string \<Rightarrow> string" where
  "semi_octets s = swap_pairs (if odd (length s) then s @ ''F'' else s)"

definition strip_plus :: "string \<Rightarrow> string" where
  "strip_plus s = (if s \<noteq> [] \<and> hd s = CHR ''+'' then tl s else s)"

lemma length_swap_pairs [simp]: "length (swap_pairs s) = length s"
  by (induction s rule: swap_pairs.induct) simp_all

lemma set_swap_pairs [simp]: "set (swap_pairs s) = set s"
  by (induction s rule: swap_pairs.induct) auto

lemma swap_pairs_swap_pairs [simp]: "swap_pairs (swap_pairs s) = s"
  by (induction s rule: swap_pairs.induct) simp_all

lemma swap_pairs_append: "even (length s) \<Longrightarrow> swap_pairs (s @ t) = swap_pairs s @ swap_pairs t"
  by (induction s rule: swap_pairs.induct) simp_all

lemma drop_plus_run:
  "NUL \<notin> set (pre @ x # s) \<Longrightarrow>
   drop_plus (pre @ x # s @ NUL # rest) (length pre) = Some (pre @ s @ NUL # NUL # rest)"
proof (induction s arbitrary: pre x)
  case Nil
  then have "strlen ((pre @ [x]) @ NUL # rest) = Some (length (pre @ [x]))"
    by (intro strlen_memory) simp
  then show ?case by (subst drop_plus.simps) simp
next
  case (Cons y s)
  then have "strlen ((pre @ x # y # s) @ NUL # rest) = Some (length (pre @ x # y # s))"
    by (intro strlen_memory) simp
  moreover have "drop_plus ((pre @ [y]) @ y # s @ NUL # rest) (length (pre @ [y]))
      = Some ((pre @ [y]) @ s @ NUL # NUL # rest)"
    using Cons.prems by (intro Cons.IH) simp
  ultimately show ?case by (subst drop_plus.simps) (simp add: nth_append)
qed

lemma swap_loop_run:
  "NUL \<notin> set (pre @ s) \<Longrightarrow> even (length s) \<Longrightarrow>
   swap_loop (pre @ s @ NUL # rest) (length pre) = Some (pre @ swap_pairs s @ NUL # rest)"
proof (induction s arbitrary: pre rule: swap_pairs.induct)
  case (1 a b s)
  then have "strlen ((pre @ a # b # s) @ NUL # rest) = Some (length (pre @ a # b # s))"
    by (intro strlen_memory) simp
  moreover have "swap_loop ((pre @ [b, a]) @ s @ NUL # rest) (length (pre @ [b, a]))
      = Some ((pre @ [b, a]) @ swap_pairs s @ NUL # rest)"
    using 1 by (intro "1.IH") simp_all
  ultimately show ?case by (subst swap_loop.simps) (simp add: nth_append list_update_append)
next
  case "2_1"
  then show ?case by (subst swap_loop.simps) simp
qed simp

lemma number_handler_plain:
  assumes "NUL \<notin> set s" "s = [] \<or> hd s \<noteq> CHR ''+''" "odd (length s) \<Longrightarrow> rest \<noteq> []"
  shows "\<exists>rest'. number_handler (s @ NUL # rest) = Some (semi_octets s @ NUL # rest') \<and>
    length (semi_octets s @ NUL # rest') = length (s @ NUL # rest)"
proof (cases "odd (length s)")
  case False
  then show ?thesis
    using assms(1,2) swap_loop_run [of "[]" s rest]
    by (auto simp: number_handler_def semi_octets_def mget_first)
next
  case True
  then obtain c rest' where rest: "rest = c # rest'" using assms(3) by (cases rest) auto
  have "swap_loop ((s @ ''F'') @ NUL # rest') 0 = Some (swap_pairs (s @ ''F'') @ NUL # rest')"
    using True assms(1) swap_loop_run [of "[]" "s @ ''F''" rest'] by simp
  moreover have "mput ((s @ ''F'') @ c # rest') (length s + 1) NUL = Some ((s @ ''F'') @ NUL # rest')"
    by (intro mput_append) simp
  ultimately show ?thesis
    using True assms(1,2)
    by (auto simp: number_handler_def semi_octets_def mget_first rest odd_iff_mod_2_eq_one)
qed

lemma number_handler_run:
  assumes "NUL \<notin> set s" "odd (length (strip_plus s)) \<Longrightarrow> strip_plus s = s \<Longrightarrow> rest \<noteq> []"
    and "s = [] \<or> tl s = [] \<or> hd (tl s) \<noteq> CHR ''+''"
  shows "\<exists>rest'. number_handler (s @ NUL # rest) = Some (semi_octets (strip_plus s) @ NUL # rest') \<and>
    length (semi_octets (strip_plus s) @ NUL # rest') = length (s @ NUL # rest)"
proof (cases "s \<noteq> [] \<and> hd s = CHR ''+''")
  case True
  then obtain t where s: "s = CHR ''+'' # t" by (cases s) auto
  have "drop_plus (s @ NUL # rest) 0 = Some (t @ NUL # NUL # rest)"
    using drop_plus_run [of "[]" "CHR ''+''" t rest] assms(1) by (simp add: s)
  moreover have "mget (s @ NUL # rest) 0 = Some CHR ''+''" using True by (simp add: mget_first)
  ultimately have "number_handler (s @ NUL # rest) = number_handler (t @ NUL # NUL # rest)"
    using assms(3) unfolding number_handler_def mget_first [of t] by (auto simp: s)
  then show ?thesis
    using number_handler_plain [of t "NUL # rest"] assms(1,3) by (auto simp: s strip_plus_def)
next
  case False
  then have "strip_plus s = s" by (auto simp: strip_plus_def)
  then show ?thesis using number_handler_plain [of s rest] assms(1,2) False by auto
qed

subsection \<open>The frames of an outgoing message\<close>

lemma center_number_encoded:
  "do { c \<leftarrow> store 20 CENTER_NUMBER; c \<leftarrow> number_handler c; center_next_handler c }
   = Some (''0891683110808805F0'' @ [NUL, NUL])"
  by code_simp

text \<open>The PDU of a text given in UCS2 hexadecimal, and the two strings the modem gets.\<close>

definition submit_pdu :: "string \<Rightarrow> string \<Rightarrow> string" where
  "submit_pdu to_number text =
     ''1100'' @ fmt_X 2 (length to_number + 2) @ ''91'' @ semi_octets (''86'' @ to_number) @ ''000800''
       @ fmt_X 2 (length text div 2) @ text"

definition modem_frames :: "string \<Rightarrow> string \<Rightarrow> string list" where
  "modem_frames to_number text =
     [''AT+CMGS='' @ fmt_d 2 (int (length (submit_pdu to_number text) div 2)) @ [CHR 0x0D],
      submit_pdu to_number text @ [CHR 0x1A]]"

lemma length_semi_octets_le: "length (semi_octets s) \<le> length s + 1"
  by (simp add: semi_octets_def)

lemma semi_octets_no_NUL: "NUL \<notin> set s \<Longrightarrow> NUL \<notin> set (semi_octets s)"
  by (simp add: semi_octets_def)

lemma length_submit_pdu_le:
  "length to_number \<le> 16 \<Longrightarrow> length text \<le> 280 \<Longrightarrow> length (submit_pdu to_number text) \<le> 320"
  using length_semi_octets_le [of "''86'' @ to_number"]
  by (simp add: submit_pdu_def fmt_X_def length_pad_digits)

lemma submit_pdu_no_NUL:
  "NUL \<notin> set to_number \<Longrightarrow> NUL \<notin> set text \<Longrightarrow> NUL \<notin> set (submit_pdu to_number text)"
  by (simp add: submit_pdu_def semi_octets_no_NUL)

lemma c_str_store: "NUL \<notin> set s \<Longrightarrow> length s < n \<Longrightarrow> \<exists>m. store n s = Some m \<and> c_str m = s \<and> strlen m = Some (length s)"
  by (simp add: store_memory)

lemma number_handler_to:
  assumes "NUL \<notin> set t" "length t \<le> 16"
  shows "\<exists>m. do { to \<leftarrow> store 20 (''+86'' @ t); number_handler to } = Some m \<and>
    c_str m = semi_octets (''86'' @ t)"
proof -
  let ?s = "''+86'' @ t"
  have strip: "strip_plus ?s = ''86'' @ t" by (simp add: strip_plus_def)
  have "\<exists>rest'. number_handler (?s @ NUL # replicate (20 - length ?s - 1) NUL)
      = Some (semi_octets (strip_plus ?s) @ NUL # rest') \<and>
    length (semi_octets (strip_plus ?s) @ NUL # rest') = length (?s @ NUL # replicate (20 - length ?s - 1) NUL)"
    by (rule number_handler_run) (use assms(1) strip in simp_all)
  then obtain rest' where "number_handler (?s @ NUL # replicate (20 - length ?s - 1) NUL)
      = Some (semi_octets (''86'' @ t) @ NUL # rest')"
    unfolding strip by blast
  moreover have "store 20 ?s = Some (?s @ NUL # replicate (20 - length ?s - 1) NUL)"
    using assms(2) by (intro store_memory) simp
  moreover have "c_str (semi_octets (''86'' @ t) @ NUL # rest') = semi_octets (''86'' @ t)"
    using assms(1) by (intro c_str_memory semi_octets_no_NUL) simp
  ultimately show ?thesis by simp
qed

lemma write_to_uart_run:
  assumes "NUL \<notin> set final" "length final \<le> 320"
  shows "write_to_uart final (length final div 2) =
    Some [''AT+CMGS='' @ fmt_d 2 (int (length final div 2)) @ [CHR 0x0D], final @ [CHR 0x1A]]"
proof -
  let ?n = "length final div 2"
  have "length (digits 10 ?n) \<le> 3"
    using assms(2) by (intro length_digits_le) simp_all
  then have "length (fmt_d 2 (int ?n)) \<le> 3"
    by (simp add: fmt_d_def pad_digits_def del: of_nat_div)
  then obtain m1 where "store MAX_BUFFER_SIZE (''AT+CMGS='' @ fmt_d 2 (int ?n) @ [CHR 0x0D]) = Some m1"
    "c_str m1 = ''AT+CMGS='' @ fmt_d 2 (int ?n) @ [CHR 0x0D]"
    using c_str_store [of "''AT+CMGS='' @ fmt_d 2 (int ?n) @ [CHR 0x0D]" MAX_BUFFER_SIZE]
    by (auto simp: MAX_BUFFER_SIZE_def simp del: of_nat_div)
  moreover obtain m2 where "store MAX_BUFFER_SIZE (final @ [CHR 0x1A]) = Some m2"
    "c_str m2 = final @ [CHR 0x1A]"
    using c_str_store [of "final @ [CHR 0x1A]" MAX_BUFFER_SIZE] assms
    by (auto simp: MAX_BUFFER_SIZE_def)
  ultimately show ?thesis by (simp add: write_to_uart_def del: of_nat_div)
qed

lemma sms_send_run:
  assumes "NUL \<notin> set t" "length t \<le> 16" "NUL \<notin> set text" "length text \<le> 280"
  shows "sms_send t text = Some (modem_frames t text)"
proof -
  let ?pdu = "submit_pdu t text"
  obtain to1 to2 where to: "store 20 (''+86'' @ t) = Some to1" "number_handler to1 = Some to2"
    "c_str to2 = semi_octets (''86'' @ t)"
    using number_handler_to [OF assms(1,2)] by (auto split: bind_splits)
  obtain c1 c2 c3 where center: "store 20 CENTER_NUMBER = Some c1" "number_handler c1 = Some c2"
    "center_next_handler c2 = Some c3"
    using center_number_encoded by (auto split: bind_splits)
  let ?body = "fmt_X 2 (length text div 2) @ text"
  have "length ?body < MAX_BUFFER_SIZE"
    using assms(4) by (simp add: fmt_X_def length_pad_digits MAX_BUFFER_SIZE_def)
  then obtain m where m: "store MAX_BUFFER_SIZE ?body = Some m" "c_str m = ?body"
    using c_str_store [of ?body MAX_BUFFER_SIZE] assms(3) by auto
  have len: "length ?pdu \<le> 320" using length_submit_pdu_le assms(2,4) by blast
  have nn: "NUL \<notin> set ?pdu" using submit_pdu_no_NUL assms(1,3) by blast
  obtain f where f: "store MAX_BUFFER_SIZE ?pdu = Some f" "c_str f = ?pdu" "strlen f = Some (length ?pdu)"
    using c_str_store [OF nn, of MAX_BUFFER_SIZE] len by (auto simp: MAX_BUFFER_SIZE_def)
  have pdu: "''1100'' @ fmt_X 2 (length t + 2) @ ''91'' @ c_str to2 @ ''000800'' @ c_str m = ?pdu"
    by (simp add: to(3) m(2) submit_pdu_def)
  show ?thesis
    unfolding sms_send_def to(1) Option.bind.simps to(2) center m(1) pdu f
    by (simp add: write_to_uart_run [OF nn len] modem_frames_def del: of_nat_div)
qed

subsection \<open>Long messages\<close>

lemma copy_chars_run:
  "i + n \<le> length src \<Longrightarrow> j + n < length dest \<Longrightarrow>
   copy_chars src dest i j n = Some (overwrite j (take n (drop i src) @ [NUL]) dest)"
proof (induction n arbitrary: i j dest)
  case 0
  then show ?case by (simp add: mput_def overwrite_def upd_conv_take_nth_drop)
next
  case (Suc n)
  then have "take (Suc n) (drop i src) = src ! i # take n (drop (Suc i) src)"
    by (simp add: Cons_nth_drop_Suc [symmetric])
  moreover have "overwrite (Suc j) ys (dest[j := c]) = overwrite j (c # ys) dest"
    if "j < length dest" for ys c
    using that by (simp add: overwrite_def take_Suc_conv_app_nth)
  ultimately show ?case using Suc by (simp add: mget_def mput_def)
qed

lemma substring_run:
  assumes "0 \<le> index" "nat index + n \<le> length src" "n < length dest"
  shows "substring src dest index (int n) = Some (overwrite 0 (take n (drop (nat index) src) @ [NUL]) dest)"
  using assms copy_chars_run [of "nat index" n src 0 dest] by (simp add: substring_def)

lemma substring_part:
  assumes "i * 280 + n \<le> length text" "n < 290" "NUL \<notin> set text"
  shows "\<exists>part. substring (text @ [NUL]) (replicate 290 NUL) (int i * 280) (int n) = Some part \<and>
    c_str part = take n (drop (i * 280) text)"
proof -
  have idx: "nat (int i * 280) = i * 280" by (simp add: nat_mult_distrib)
  have "NUL \<notin> set (take n (drop (i * 280) text))"
    using assms(3) by (meson in_set_dropD in_set_takeD)
  then show ?thesis
    using assms substring_run [of "int i * 280" n "text @ [NUL]" "replicate 290 NUL"]
    by (simp add: idx overwrite_def)
qed

text \<open>The parts of a long message from part \<open>i\<close> on: \<open>k\<close> full ones and what is left.\<close>

fun parts_from :: "string \<Rightarrow> nat \<Rightarrow> nat \<Rightarrow> string list" where
  "parts_from text i 0 = [drop (i * 280) text]"
| "parts_from text i (Suc k) = take 280 (drop (i * 280) text) # parts_from text (i + 1) k"

lemma send_parts_run:
  assumes "NUL \<notin> set t" "length t \<le> 16" "NUL \<notin> set text"
  shows "(i + k) * 280 \<le> length text \<Longrightarrow> length text < (i + k + 1) * 280 \<Longrightarrow>
    send_parts t text i k = Some (concat (map (modem_frames t) (parts_from text i k)))"
proof (induction k arbitrary: i)
  case 0
  let ?n = "length text - i * 280"
  have n: "int (length text) - int i * 280 = int ?n" using 0 by simp
  obtain part where "substring (text @ [NUL]) (replicate 290 NUL) (int i * 280) (int ?n) = Some part"
    "c_str part = take ?n (drop (i * 280) text)"
    using substring_part [of i ?n "text", OF _ _ assms(3)] 0 by fastforce
  moreover have "sms_send t (drop (i * 280) text) = Some (modem_frames t (drop (i * 280) text))"
    using 0 assms by (intro sms_send_run) (auto dest: in_set_dropD)
  ultimately show ?case by (simp add: n del: of_nat_diff)
next
  case (Suc k)
  obtain part where "substring (text @ [NUL]) (replicate 290 NUL) (int i * 280) (int 280) = Some part"
    "c_str part = take 280 (drop (i * 280) text)"
    using substring_part [of i 280 "text"] Suc.prems assms(3) by auto
  moreover have "sms_send t (take 280 (drop (i * 280) text))
      = Some (modem_frames t (take 280 (drop (i * 280) text)))"
    using assms by (intro sms_send_run) (auto dest: in_set_dropD in_set_takeD)
  ultimately show ?case using Suc.IH [of "i + 1"] Suc.prems by simp
qed

lemma concat_parts_from: "concat (parts_from text i k) = drop (i * 280) text"
proof (induction k arbitrary: i)
  case (Suc k)
  have "take 280 (drop (i * 280) text) @ drop (280 + i * 280) text = drop (i * 280) text"
    using append_take_drop_id [of 280 "drop (i * 280) text"] by (simp add: drop_drop)
  with Suc show ?case by (simp add: algebra_simps)
qed simp

lemma parts_from_bounds:
  "length text < (i + k + 1) * 280 \<Longrightarrow> \<forall>p\<in>set (parts_from text i k). length p \<le> 280"
proof (induction k arbitrary: i)
  case (Suc k)
  then have "\<forall>p\<in>set (parts_from text (i + 1) k). length p \<le> 280" by (intro Suc.IH) simp
  then show ?case by auto
qed simp

lemma length_parts_from [simp]: "length (parts_from text i k) = k + 1"
  by (induction k arbitrary: i) auto

lemma last_parts_from: "last (parts_from text i k) = drop ((i + k) * 280) text"
proof (induction k arbitrary: i)
  case (Suc k)
  have "parts_from text (i + 1) k \<noteq> []" using length_parts_from [of "text" "i + 1" k] by (metis length_0_conv add_is_0 one_neq_zero)
  with Suc show ?case by (simp add: add.assoc)
qed simp

text \<open>The parts of a text, and the sending of all of them.\<close>

definition text_parts :: "string \<Rightarrow> string list" where
  "text_parts text = (if length text \<le> 280 then [text] else parts_from text 0 (length text div 280))"

lemma text_parts_concat: "concat (text_parts text) = text"
  using concat_parts_from [of "text" 0 "length text div 280"] by (simp add: text_parts_def)

lemma sms_send_to_user_run:
  assumes "NUL \<notin> set t" "length t \<le> 16" "NUL \<notin> set text"
  shows "sms_send_to_user (Some t) (Some text) = Some (True, concat (map (modem_frames t) (text_parts text)))"
proof (cases "length text \<le> 280")
  case True
  then show ?thesis using sms_send_run [OF assms True] by (simp add: sms_send_to_user_def text_parts_def)
next
  case False
  have b: "(length text div 280) * 280 \<le> length text" "length text < (length text div 280 + 1) * 280"
    using div_times_less_eq_dividend [of "length text" 280] dividend_less_div_times [of 280 "length text"]
    by simp_all
  then show ?thesis
    using send_parts_run [OF assms, of 0 "length text div 280"] False
    by (simp add: sms_send_to_user_def sms_send_support_multi_def text_parts_def)
qed

text \<open>
  C19: a text of any length is handed to the modem completely and in order: it is cut into
  parts of at most 280 characters whose concatenation is the text, and every part is written as
  one length command and one PDU for the number. A text longer than one part whose length
  is a multiple of 280 is followed by one empty message.
\<close>

theorem sms_send_to_user_complete:
  assumes "NUL \<notin> set t" "length t \<le> 16" "NUL \<notin> set text"
  shows "\<exists>parts. sms_send_to_user (Some t) (Some text) = Some (True, concat (map (modem_frames t) parts)) \<and>
    concat parts = text \<and> (\<forall>p\<in>set parts. length p \<le> 280) \<and>
    (280 < length text \<longrightarrow> (last parts = [] \<longleftrightarrow> 280 dvd length text))"
proof -
  let ?k = "length text div 280"
  have b: "?k * 280 \<le> length text" "length text < (?k + 1) * 280"
    using div_times_less_eq_dividend [of "length text" 280] dividend_less_div_times [of 280 "length text"]
    by simp_all
  have "concat (text_parts text) = text" by (rule text_parts_concat)
  moreover have "\<forall>p\<in>set (text_parts text). length p \<le> 280"
    using parts_from_bounds [of "text" 0 ?k] b by (simp add: text_parts_def)
  moreover have "280 < length text \<longrightarrow> (last (text_parts text) = [] \<longleftrightarrow> 280 dvd length text)"
    using minus_div_mult_eq_mod [of "length text" 280] b(1) last_parts_from [of "text" 0 ?k]
    by (auto simp: text_parts_def dvd_eq_mod_eq_0)
  ultimately show ?thesis using sms_send_to_user_run [OF assms] by blast
qed

theorem sms_send_to_user_complete_witness:
  "\<exists>parts. sms_send_to_user (Some ''13812345678'') (Some (replicate 560 CHR ''0''))
      = Some (True, concat (map (modem_frames ''13812345678'') parts)) \<and>
    concat parts = replicate 560 CHR ''0'' \<and> last parts = []"
proof -
  let ?text = "replicate 560 CHR ''0''"
  have "NUL \<notin> set ?text" "length ?text = 560" by simp_all
  then show ?thesis
    using sms_send_to_user_complete [of "''13812345678''" ?text] by force
qed

subsection \<open>Unpacking is a change of base\<close>

lemma horner_digit:
  assumes "\<forall>d\<in>set ds. f d < B" "0 < B"
  shows "horner_sum f B ds div B ^ i mod B = (if i < length ds then f (ds ! i) else (0 :: nat))"
  using assms(1)
proof (induction ds arbitrary: i)
  case (Cons d ds)
  then have d: "f d < B" by simp
  show ?case
  proof (cases i)
    case 0
    then show ?thesis using d by simp
  next
    case (Suc j)
    have "(f d + B * horner_sum f B ds) div B = horner_sum f B ds"
      using d by simp
    then show ?thesis using Cons Suc by (simp add: div_mult2_eq)
  qed
qed simp

lemma horner_of_digits:
  "0 < B \<Longrightarrow> horner_sum id B (map (\<lambda>j. V div B ^ j mod B) [0..<m]) = V mod (B ^ m :: nat)"
proof (induction m arbitrary: V)
  case (Suc m)
  have "map (\<lambda>j. V div B ^ j mod B) [0..<Suc m]
      = V mod B # map (\<lambda>j. (V div B) div B ^ j mod B) [0..<m]"
    by (simp add: map_upt_Suc div_mult2_eq del: upt_Suc)
  then show ?case using Suc by (simp add: mod_mult2_eq del: upt_Suc)
qed simp

lemma septet_eq:
  assumes "l < 2 ^ k" "k < 7"
  shows "(push_bit k b OR l) AND 0x7f = (l + 2 ^ k * b) mod (128 :: nat)"
proof -
  have "push_bit k b AND l = 0"
  proof (rule bit_eqI)
    fix n
    show "bit (push_bit k b AND l) n = bit 0 n"
      using assms(1) by (auto simp: bit_and_iff bit_push_bit_iff)
        (metis bit_take_bit_iff not_le take_bit_nat_eq_self_iff)
  qed
  then have "push_bit k b OR l = l + 2 ^ k * b"
    by (simp add: disjunctive_add_eq_or [symmetric] push_bit_eq_mult ac_simps)
  moreover have "x AND 0x7f = x mod 128" for x :: nat
    using take_bit_eq_mask [of 7 x] by (simp add: mask_eq_exp_minus_1 take_bit_eq_mod)
  ultimately show ?thesis by simp
qed

lemma carry_eq:
  assumes "l < 2 ^ k" "k < 7"
  shows "(l + 2 ^ k * b) div 128 = (b :: nat) div 2 ^ (7 - k)"
proof -
  have exp: "(128 :: nat) = 2 ^ k * 2 ^ (7 - k)"
    using assms(2) by (simp flip: power_add)
  show ?thesis unfolding exp using assms(1) by (simp add: div_mult2_eq)
qed

text \<open>The septets are the digits to base 128 of the number whose digits to base 256 are the
  octets, low ones first.\<close>

lemma unpack7_digits:
  "k < 7 \<Longrightarrow> l < 2 ^ k \<Longrightarrow>
   unpack7 bs k l = map (\<lambda>i. (l + 2 ^ k * horner_sum unat 256 bs) div 128 ^ i mod 128)
     [0..<length bs + (k + length bs) div 7]"
proof (induction bs arbitrary: k l)
  case (Cons b bs)
  define H where "H = horner_sum unat 256 bs"
  define V where "V = l + 2 ^ k * (unat b + 256 * H)"
  have V: "V = (l + 2 ^ k * unat b) + 128 * (2 ^ Suc k * H)"
    by (simp add: V_def algebra_simps)
  have low: "(push_bit k (unat b) OR l) AND 0x7f = V mod 128"
    unfolding V septet_eq [OF Cons.prems(2,1)] by (rule mod_mult_self2 [symmetric])
  have high: "V div 128 = drop_bit (7 - k) (unat b) + 2 ^ Suc k * H"
    unfolding V using carry_eq [OF Cons.prems(2,1), of "unat b"]
    by (subst div_mult_self2) (simp_all add: drop_bit_eq_div)
  have "unat b < 2 ^ Suc k * 2 ^ (7 - k)"
    using unat_u8_less [of b] Cons.prems(1) by (simp flip: power_add power_Suc)
  then have left: "drop_bit (7 - k) (unat b) < 2 ^ Suc k"
    by (simp add: drop_bit_eq_div less_mult_imp_div_less)
  have split: "map (\<lambda>i. V div 128 ^ i mod 128) [0..<Suc n]
      = V mod 128 # map (\<lambda>i. (V div 128) div 128 ^ i mod 128) [0..<n]" for n
    by (simp add: map_upt_Suc div_mult2_eq del: upt_Suc)
  show ?case
  proof (cases "k = 6")
    case False
    then have "length (b # bs) + (k + length (b # bs)) div 7 = Suc (length bs + (Suc k + length bs) div 7)"
      by simp
    then show ?thesis
      using False Cons.IH [of "Suc k"] left Cons.prems(1) split low
      by (simp add: Let_def high H_def [symmetric] V_def [symmetric] del: upt_Suc)
  next
    case True
    define L where "L = drop_bit (7 - k) (unat b)"
    have L: "L < 128" "V div 128 = L + 128 * H" using left high True by (simp_all add: L_def)
    have tail: "map (\<lambda>i. (V div 128) div 128 ^ i mod 128) [0..<Suc n]
        = L # map (\<lambda>i. H div 128 ^ i mod 128) [0..<n]" for n
      using L by (simp add: map_upt_Suc div_mult2_eq del: upt_Suc)
    have "length (b # bs) + (k + length (b # bs)) div 7 = Suc (Suc (length bs + length bs div 7))"
      using True by simp
    moreover have "unpack7 (b # bs) k l = V mod 128 # L # unpack7 bs 0 0"
      using low True by (simp add: Let_def L_def)
    moreover have "l + 2 ^ k * horner_sum unat 256 (b # bs) = V" by (simp add: V_def H_def)
    ultimately show ?thesis
      using Cons.IH [of 0 0] by (simp only: split tail) (simp add: H_def)
  qed
qed simp

definition octet_at :: "string \<Rightarrow> nat \<Rightarrow> u8" where
  "octet_at src j = to_uchar (strtol (c_str (take 2 (drop (2 * j) src))) 16)"

lemma c_str_terminated [simp]: "c_str (s @ [NUL]) = c_str s"
  by (simp add: c_str_def takeWhile_tail)

lemma hex_octets_run:
  "2 * (i + n) \<le> length src \<Longrightarrow> i + n \<le> length x \<Longrightarrow>
   hex_octets src x i n = Some (overwrite i (map (octet_at src) [i..<i + n]) x)"
proof (induction n arbitrary: i x)
  case (Suc n)
  have "nat (2 * int i) = 2 * i" by simp
  then have "substring src (replicate 3 NUL) (2 * int i) 2 = Some (take 2 (drop (2 * i) src) @ [NUL])"
    using Suc.prems substring_run [of "2 * int i" 2 src "replicate 3 NUL"]
    by (simp add: overwrite_def numeral_3_eq_3)
  moreover have "hex_octets src (x[i := octet_at src i]) (i + 1) n
      = Some (overwrite (Suc i) (map (octet_at src) [Suc i..<Suc i + n]) (x[i := octet_at src i]))"
    using Suc.prems Suc.IH [of "i + 1" "x[i := octet_at src i]"] by simp
  moreover have "overwrite (Suc i) ys (x[i := c]) = overwrite i (c # ys) x" for ys c
    using Suc.prems by (simp add: overwrite_def take_Suc_conv_app_nth)
  moreover have "[i..<i + Suc n] = i # [Suc i..<Suc i + n]" by (simp add: upt_rec)
  ultimately show ?case
    using Suc.prems by (simp add: mput_def octet_at_def [symmetric] del: upt_Suc)
qed simp

lemma hex_octets_overrun: "length x < i + n \<Longrightarrow> i \<le> length x \<Longrightarrow> hex_octets src x i n = None"
proof (induction n arbitrary: i x)
  case (Suc n)
  then show ?case by (auto simp: mput_def split: bind_split)
qed simp

lemma put_all_run:
  "i + length vs < length dst \<Longrightarrow> put_all dst i vs = Some (overwrite i (map char_of vs @ [NUL]) dst)"
proof (induction vs arbitrary: i dst)
  case Nil
  then show ?case by (simp add: mput_def overwrite_def upd_conv_take_nth_drop)
next
  case (Cons v vs)
  moreover have "overwrite (Suc i) ys (dst[i := c]) = overwrite i (c # ys) dst" for ys c
    using Cons.prems by (simp add: overwrite_def take_Suc_conv_app_nth)
  ultimately show ?case by (simp add: mput_def)
qed

text \<open>
  The octet buffer of \<open>gsmDecode7bit\<close> is too small for its caller: any text of more than
  50 characters, of which \<open>user_msg_process\<close> lets up to 100 through, makes it write outside
  \<open>x[50]\<close>.
\<close>

theorem gsmDecode7bit_overrun:
  "even n \<Longrightarrow> 50 < n \<Longrightarrow> gsmDecode7bit src dst n = None"
  using hex_octets_overrun [of "replicate 50 0" 0 n src]
  by (simp add: gsmDecode7bit_def even_iff_mod_2_eq_zero)

theorem gsmDecode7bit_overrun_witness:
  "gsmDecode7bit (replicate 100 CHR ''4'') (replicate 100 NUL) 52 = None"
  using gsmDecode7bit_overrun [of 52 "replicate 100 CHR ''4''" "replicate 100 NUL"] by simp

text \<open>The sender's side: seven bits per character packed into octets, octets as two
  hexadecimal digits.\<close>

definition pack7 :: "string \<Rightarrow> bytes" where
  "pack7 s = map (\<lambda>j. of_nat (horner_sum of_char 128 s div 256 ^ j mod 256)) [0..<(7 * length s + 7) div 8]"

lemma octet_at_hex_text: "j < length bs \<Longrightarrow> octet_at (hex_text bs @ rest) j = bs ! j"
  using unat_u8_less [of "bs ! j"] unfolding octet_at_def
  by (subst take_hex_text)
    (simp_all add: c_str_no_NUL fmt_X_def pad_digits_no_NUL strtol_pad_digits to_uchar_def)

lemma octet_at_cleared:
  assumes "length bs \<le> j" "j < length bs + n"
  shows "octet_at (hex_text bs @ replicate (2 * n) NUL @ rest) j = 0"
proof -
  have "drop (2 * j) (hex_text bs @ replicate (2 * n) NUL @ rest)
      = NUL # NUL # replicate (2 * (n - Suc (j - length bs))) NUL @ rest"
    using assms by (simp add: replicate_Suc [symmetric] diff_mult_distrib2 del: replicate_Suc)
  then show ?thesis by (simp add: octet_at_def c_str_def strtol_def Let_def hex_prefix_def clamp_long_def
        to_uchar_def LONG_MAX_def)
qed

lemma octets_of_hex_text:
  "map (octet_at (hex_text bs @ replicate (2 * length bs) NUL @ rest)) [0..<2 * length bs]
   = bs @ replicate (length bs) 0"
proof (rule nth_equalityI)
  fix j assume "j < length (map (octet_at (hex_text bs @ replicate (2 * length bs) NUL @ rest)) [0..<2 * length bs])"
  then show "map (octet_at (hex_text bs @ replicate (2 * length bs) NUL @ rest)) [0..<2 * length bs] ! j
      = (bs @ replicate (length bs) 0) ! j"
    by (cases "j < length bs") (simp_all add: octet_at_hex_text octet_at_cleared nth_append)
qed simp

lemma horner_append_zeros: "f z = 0 \<Longrightarrow> horner_sum f B (xs @ replicate n z) = (horner_sum f B xs :: nat)"
  by (induction xs) (simp_all, induction n, simp_all)

lemma horner_less: "\<forall>d\<in>set ds. f d < B \<Longrightarrow> horner_sum f B ds < (B :: nat) ^ length ds"
proof (induction ds)
  case (Cons d ds)
  then have "f d + B * horner_sum f B ds < B * (horner_sum f B ds + 1)" by simp
  also have "\<dots> \<le> B * B ^ length ds" using Cons by (intro mult_le_mono) simp_all
  finally show ?case by simp
qed simp

lemma horner_pack7:
  assumes "\<forall>c\<in>set s. of_char c < (128 :: nat)"
  shows "horner_sum unat 256 (pack7 s) = (horner_sum of_char 128 s :: nat)"
proof -
  let ?V = "horner_sum of_char 128 s :: nat" and ?m = "(7 * length s + 7) div 8"
  have "?V < 128 ^ length s" using assms by (rule horner_less)
  also have "(128 :: nat) ^ length s = 2 ^ (7 * length s)" by (simp add: power_mult)
  also have "\<dots> \<le> 2 ^ (8 * ?m)" by (intro power_increasing) linarith+
  also have "(2 :: nat) ^ (8 * ?m) = 256 ^ ?m" by (simp add: power_mult)
  finally have small: "?V < 256 ^ ?m" .
  have "horner_sum unat 256 (pack7 s) = horner_sum id 256 (map unat (pack7 s))"
    by (simp add: horner_sum_eq_sum)
  also have "map unat (pack7 s) = map (\<lambda>j. ?V div 256 ^ j mod 256) [0..<?m]"
    by (simp add: pack7_def unat_of_nat_u8)
  also have "horner_sum id 256 \<dots> = ?V" using small by (subst horner_of_digits) simp_all
  finally show ?thesis .
qed

lemma char_of_zero: "char_of (0 :: nat) = NUL"
  by (simp add: char_of_def)

lemma septets_of_pack7:
  assumes "\<forall>c\<in>set s. of_char c < (128 :: nat)" "length s \<le> n + n div 7"
    and "horner_sum unat 256 bs = (horner_sum of_char 128 s :: nat)" "length bs = n"
  shows "unpack7 bs 0 0 = map of_char s @ replicate (n + n div 7 - length s) 0"
proof (rule nth_equalityI)
  show "length (unpack7 bs 0 0) = length (map of_char s @ replicate (n + n div 7 - length s) 0)"
    using assms by (simp add: unpack7_digits)
next
  fix i assume i: "i < length (unpack7 bs 0 0)"
  have "unpack7 bs 0 0 ! i = (if i < length s then of_char (s ! i) else 0)"
    using i assms horner_digit [OF assms(1), of i] by (simp add: unpack7_digits)
  then show "unpack7 bs 0 0 ! i = (map of_char s @ replicate (n + n div 7 - length s) 0) ! i"
    using i assms by (simp add: unpack7_digits nth_append)
qed

lemma gsmDecode7bit_text:
  assumes "\<forall>c\<in>set s. c \<noteq> NUL \<and> of_char c < (128 :: nat)" "length s \<le> 28" "length dst = 100"
  shows "\<exists>n r. gsmDecode7bit
      (hex_text (pack7 s) @ replicate (2 * length (pack7 s)) NUL @ rest) dst (2 * length (pack7 s))
      = Some (int n, s @ NUL # r)"
proof -
  let ?m = "length (pack7 s)"
  let ?src = "hex_text (pack7 s) @ replicate (2 * ?m) NUL @ rest"
  let ?bs = "pack7 s @ replicate ?m 0"
  let ?out = "unpack7 ?bs 0 0"
  have ascii: "\<forall>c\<in>set s. of_char c < (128 :: nat)" using assms(1) by blast
  have m: "?m = (7 * length s + 7) div 8" by (simp add: pack7_def)
  then have m25: "?m \<le> 25" "length s \<le> 2 * ?m" using assms(2) by linarith+
  have x: "hex_octets ?src (replicate 50 0) 0 (2 * ?m) = Some (overwrite 0 ?bs (replicate 50 0))"
    using m25 hex_octets_run [of 0 "2 * ?m" ?src "replicate 50 0"] by (simp add: octets_of_hex_text)
  have bs: "take (2 * ?m) (overwrite 0 ?bs (replicate 50 0)) = ?bs"
    by (simp add: overwrite_def)
  define k where "k = 2 * ?m + 2 * ?m div 7 - length s"
  have out: "?out = map of_char s @ replicate k 0"
    unfolding k_def using m25
    by (intro septets_of_pack7 ascii) (simp_all add: horner_append_zeros horner_pack7 [OF ascii])
  then have "length ?out < 100" using m25 by (simp add: k_def)
  then have put: "put_all dst 0 ?out = Some (overwrite 0 (map char_of ?out @ [NUL]) dst)"
    using assms(3) by (intro put_all_run) simp
  have "map char_of ?out @ NUL # drop (Suc (length ?out)) dst
      = s @ NUL # (replicate k NUL @ drop (Suc (length ?out)) dst)"
    unfolding out by (simp add: comp_def replicate_append_same [symmetric] char_of_zero)
  moreover have "overwrite 0 (map char_of ?out @ [NUL]) dst = map char_of ?out @ NUL # drop (Suc (length ?out)) dst"
    by (simp add: overwrite_def)
  ultimately have "overwrite 0 (map char_of ?out @ [NUL]) dst = s @ NUL # (replicate k NUL @ drop (Suc (length ?out)) dst)"
    by (simp only:)
  moreover have "gsmDecode7bit ?src dst (2 * ?m)
      = Some (int (length ?out), overwrite 0 (map char_of ?out @ [NUL]) dst)"
    by (simp add: gsmDecode7bit_def x bs put Let_def)
  ultimately show ?thesis by auto
qed

text \<open>
  C36: \<open>gsmDecode7bit\<close> recovers a text packed in seven-bit characters. For up to 28 non-zero
  characters, the hexadecimal text of their octets, with cleared memory behind it, is decoded
  into a buffer of 100 characters that then holds the text as a C string.
\<close>

theorem gsmDecode7bit_roundtrip:
  assumes "\<forall>c\<in>set s. c \<noteq> NUL \<and> of_char c < (128 :: nat)" "length s \<le> 28" "length dst = 100"
  shows "\<exists>n dst'. gsmDecode7bit
      (hex_text (pack7 s) @ replicate (2 * length (pack7 s)) NUL @ rest) dst (2 * length (pack7 s))
      = Some (n, dst') \<and> c_str dst' = s"
proof -
  obtain n r where "gsmDecode7bit
      (hex_text (pack7 s) @ replicate (2 * length (pack7 s)) NUL @ rest) dst (2 * length (pack7 s)) = Some (int n, s @ NUL # r)"
    using gsmDecode7bit_text [OF assms] by blast
  moreover have "NUL \<notin> set s" using assms(1) by blast
  ultimately show ?thesis by auto
qed

theorem gsmDecode7bit_roundtrip_witness:
  "\<exists>n dst'. gsmDecode7bit (hex_text (pack7 ''909'') @ replicate (2 * length (pack7 ''909'')) NUL @ [])
      (replicate 100 NUL) (2 * length (pack7 ''909'')) = Some (n, dst') \<and> c_str dst' = ''909''"
  by (rule gsmDecode7bit_roundtrip) simp_all

subsection \<open>Taking a received message apart\<close>

text \<open>A delivered PDU: service centre and sender with country code 86, data coding scheme,
  time stamp (twelve digits and the zone), length and content.\<close>

definition deliver_pdu :: "string \<Rightarrow> string \<Rightarrow> string \<Rightarrow> string \<Rightarrow> string \<Rightarrow> string \<Rightarrow> string" where
  "deliver_pdu center number dcs stamp zone content =
     ''089168'' @ semi_octets center @ ''24'' @ fmt_X 2 (length number + 2) @ ''91'' @ ''68''
       @ semi_octets number @ ''00'' @ dcs @ swap_pairs stamp @ zone
       @ fmt_X 2 (length content div 2) @ content"

lemma substring_middle:
  assumes "src = a @ b @ c" "index = int (length a)" "len = int (length b)" "length b < length dest"
  shows "substring src dest index len = Some (b @ NUL # drop (Suc (length b)) dest)"
  using assms substring_run [of index "length b" src dest] by (simp add: overwrite_def)

lemma substring_at:
  assumes "src = a @ b @ c" "index = int (length a)" "len = int (length b)" "length b < length dest"
    and "k = Suc (length b)"
  shows "substring src dest index len = Some (b @ NUL # drop k dest)"
  unfolding assms(5) using assms(1-4) by (rule substring_middle)

text \<open>
  The arrays \<open>len\<close> and \<open>t\<close> of \<open>handler_receive_msg\<close> are one character too short: with the
  two characters they are declared with, every received message makes it write outside them.
\<close>

theorem handler_receive_msg_overrun: "handler_receive_msg 0 info src = None"
proof -
  have "substring src (replicate 2 NUL) 20 2 = None"
    by (simp add: substring_def numeral_2_eq_2 mput_def split: bind_split)
  then show ?thesis by (simp add: handler_receive_msg_def split: bind_split)
qed

definition pad_F :: "string \<Rightarrow> string" where
  "pad_F s = (if odd (length s) then s @ ''F'' else s)"

lemma semi_octets_pad_F: "semi_octets s = swap_pairs (pad_F s)"
  by (simp add: semi_octets_def pad_F_def)

lemma even_length_pad_F [simp]: "even (length (pad_F s))"
  by (simp add: pad_F_def)

lemma number_handler_even:
  assumes "NUL \<notin> set s" "CHR ''+'' \<notin> set s" "even (length s)"
  shows "number_handler (swap_pairs s @ NUL # rest) = Some (s @ NUL # rest)"
proof -
  have "swap_pairs s = [] \<or> hd (swap_pairs s) \<noteq> CHR ''+''"
    using assms(2) set_swap_pairs [of s] by (metis list.set_sel(1))
  then have "mget (swap_pairs s @ NUL # rest) 0 \<noteq> Some CHR ''+''"
    by (auto simp: mget_first)
  then show ?thesis
    using assms swap_loop_run [of "[]" "swap_pairs s" rest] mget_first [of "swap_pairs s" rest]
    by (auto simp: number_handler_def)
qed

lemma time_field_run:
  assumes "mem = a @ pad_digits 10 2 v @ c" "i = int (length a)" "v < 100" "3 \<le> length t"
  shows "\<exists>t'. time_field mem t i = Some (of_nat v, t') \<and> length t' = length t"
proof -
  have len: "length (pad_digits 10 2 v) = 2" using assms(3) by (intro length_pad_digits) simp_all
  then have "substring mem t i 2 = Some (pad_digits 10 2 v @ NUL # drop 3 t)"
    using assms substring_middle [of mem a "pad_digits 10 2 v" c i 2 t] by (simp add: numeral_3_eq_3)
  moreover have "c_str (pad_digits 10 2 v @ NUL # drop 3 t) = pad_digits 10 2 v"
    by (simp add: pad_digits_no_NUL)
  ultimately show ?thesis
    using assms(3,4) len by (simp add: time_field_def atoi_def strtol_pad_digits)
qed

lemma deliver_fields:
  assumes lens: "length center = 11" "length dcs = 2" "length stamp = 12" "length zone = 2"
      "length number \<le> 18" "length content \<le> 510"
    and src: "src = deliver_pdu center number dcs stamp zone content @ rest"
    and L: "L = int (length (semi_octets number)) + 2"
  shows "12 < length d \<Longrightarrow> substring src d 6 12 = Some (semi_octets center @ NUL # drop 13 d)"
    and "2 < length d \<Longrightarrow> substring src d 20 2 = Some (fmt_X 2 (length number + 2) @ NUL # drop 3 d)"
    and "mget src 22 = Some CHR ''9''" "mget src 23 = Some CHR ''1''"
    and "length (semi_octets number) < length d \<Longrightarrow>
      substring src d 26 (L - 2) = Some (semi_octets number @ NUL # drop (Suc (length (semi_octets number))) d)"
    and "2 < length d \<Longrightarrow> substring src d (26 + L) 2 = Some (dcs @ NUL # drop 3 d)"
    and "12 < length d \<Longrightarrow> substring src d (28 + L) 12 = Some (swap_pairs stamp @ NUL # drop 13 d)"
    and "2 < length d \<Longrightarrow> substring src d (42 + L) 2 = Some (fmt_X 2 (length content div 2) @ NUL # drop 3 d)"
    and "length content < length d \<Longrightarrow>
      substring src d (44 + L) (int (length content)) = Some (content @ NUL # drop (Suc (length content)) d)"
proof -
  let ?n = "fmt_X 2 (length number + 2)" and ?k = "fmt_X 2 (length content div 2)"
  let ?a = "''089168'' @ semi_octets center @ ''24''"
  let ?b = "?a @ ?n @ ''9168'' @ semi_octets number @ ''00''"
  let ?c = "?k @ content @ rest"
  let ?r = "semi_octets number @ ''00'' @ dcs @ swap_pairs stamp @ zone @ ?c"
  have n0: "length ?n = 2" "length ?k = 2" "length (semi_octets center) = 12"
    using lens by (simp_all add: fmt_X_def length_pad_digits semi_octets_def)
  note n = n0 n0 [simplified]
  have eq: "src = ''089168'' @ semi_octets center @ ''24'' @ ?n @ ''9168'' @ ?r"
    by (simp add: src deliver_pdu_def)
  show "12 < length d \<Longrightarrow> substring src d 6 12 = Some (semi_octets center @ NUL # drop 13 d)"
    by (rule substring_at [where a = "''089168''" and c = "''24'' @ ?n @ ''9168'' @ ?r"]) (simp_all add: eq n)
  show "2 < length d \<Longrightarrow> substring src d 20 2 = Some (?n @ NUL # drop 3 d)"
    by (rule substring_at [where a = ?a and c = "''9168'' @ ?r"]) (simp_all add: eq n)
  have "src = (?a @ ?n) @ CHR ''9'' # ''168'' @ ?r" "src = (?a @ ?n @ ''9'') @ CHR ''1'' # ''68'' @ ?r"
    by (simp_all add: eq)
  then show "mget src 22 = Some CHR ''9''" "mget src 23 = Some CHR ''1''"
    using mget_append [of 22 "?a @ ?n" "CHR ''9''" "''168'' @ ?r"]
      mget_append [of 23 "?a @ ?n @ ''9''" "CHR ''1''" "''68'' @ ?r"] n by simp_all
  show "length (semi_octets number) < length d \<Longrightarrow> substring src d 26 (L - 2)
      = Some (semi_octets number @ NUL # drop (Suc (length (semi_octets number))) d)"
    by (rule substring_at [where a = "?a @ ?n @ ''9168''" and c = "''00'' @ dcs @ swap_pairs stamp @ zone @ ?c"])
      (simp_all add: eq n L)
  show "2 < length d \<Longrightarrow> substring src d (26 + L) 2 = Some (dcs @ NUL # drop 3 d)"
    by (rule substring_at [where a = ?b and c = "swap_pairs stamp @ zone @ ?c"]) (simp_all add: eq n lens L)
  show "12 < length d \<Longrightarrow> substring src d (28 + L) 12 = Some (swap_pairs stamp @ NUL # drop 13 d)"
    by (rule substring_at [where a = "?b @ dcs" and c = "zone @ ?c"]) (simp_all add: eq n lens L)
  show "2 < length d \<Longrightarrow> substring src d (42 + L) 2 = Some (?k @ NUL # drop 3 d)"
    by (rule substring_at [where a = "?b @ dcs @ swap_pairs stamp @ zone" and c = "content @ rest"])
      (simp_all add: eq n lens L)
  show "length content < length d \<Longrightarrow> substring src d (44 + L) (int (length content))
      = Some (content @ NUL # drop (Suc (length content)) d)"
    by (rule substring_at [where a = "?b @ dcs @ swap_pairs stamp @ zone @ ?k" and c = rest])
      (simp_all add: eq n lens L)
qed

definition stamp_digits :: "nat list \<Rightarrow> string" where
  "stamp_digits vs = concat (map (pad_digits 10 2) vs)"

lemma length_two_digits: "v < 100 \<Longrightarrow> length (pad_digits 10 2 v) = 2"
  by (intro length_pad_digits) simp_all

lemma fmt_d_u8: "v < 100 \<Longrightarrow> fmt_d 2 (uint (of_nat v :: u8)) = pad_digits 10 2 v"
  using unat_of_nat_u8 [of v] by (simp add: fmt_d_def uint_nat)

lemma read_time_run:
  assumes "\<forall>v\<in>set [y, mo, d, h, mi, se]. v < 100" "3 \<le> length t"
  shows "read_time (stamp_digits [y, mo, d, h, mi, se] @ rest) t =
    Some (''20'' @ pad_digits 10 2 y @ ''-'' @ pad_digits 10 2 mo @ ''-'' @ pad_digits 10 2 d @ '' ''
      @ pad_digits 10 2 h @ '':'' @ pad_digits 10 2 mi @ '':'' @ pad_digits 10 2 se)"
proof -
  let ?p = "pad_digits 10 2" and ?m = "stamp_digits [y, mo, d, h, mi, se] @ rest"
  note len = length_two_digits
  obtain t1 where t1: "time_field ?m t 0 = Some (of_nat y, t1)" "3 \<le> length t1"
    using time_field_run [of ?m "[]" y "?p mo @ ?p d @ ?p h @ ?p mi @ ?p se @ rest" 0 t] assms
    by (auto simp: stamp_digits_def)
  obtain t2 where t2: "time_field ?m t1 2 = Some (of_nat mo, t2)" "3 \<le> length t2"
    using time_field_run [of ?m "?p y" mo "?p d @ ?p h @ ?p mi @ ?p se @ rest" 2 t1] assms t1
    by (auto simp: stamp_digits_def len)
  obtain t3 where t3: "time_field ?m t2 4 = Some (of_nat d, t3)" "3 \<le> length t3"
    using time_field_run [of ?m "?p y @ ?p mo" d "?p h @ ?p mi @ ?p se @ rest" 4 t2] assms t2
    by (auto simp: stamp_digits_def len)
  obtain t4 where t4: "time_field ?m t3 6 = Some (of_nat h, t4)" "3 \<le> length t4"
    using time_field_run [of ?m "?p y @ ?p mo @ ?p d" h "?p mi @ ?p se @ rest" 6 t3] assms t3
    by (auto simp: stamp_digits_def len)
  obtain t5 where t5: "time_field ?m t4 8 = Some (of_nat mi, t5)" "3 \<le> length t5"
    using time_field_run [of ?m "?p y @ ?p mo @ ?p d @ ?p h" mi "?p se @ rest" 8 t4] assms t4
    by (auto simp: stamp_digits_def len)
  obtain t6 where t6: "time_field ?m t5 10 = Some (of_nat se, t6)"
    using time_field_run [of ?m "?p y @ ?p mo @ ?p d @ ?p h @ ?p mi" se rest 10 t5] assms t5
    by (auto simp: stamp_digits_def len)
  show ?thesis
    unfolding read_time_def t1(1) Option.bind.simps prod.case t2(1) t3(1) t4(1) t5(1) t6
    using assms(1) by (simp add: format_time_def fmt_d_u8)
qed

lemma all_digits_plain:
  "all_digits base s \<Longrightarrow> base \<le> 16 \<Longrightarrow> NUL \<notin> set s \<and> CHR ''+'' \<notin> set s"
  by (metis digit_not_sign option.exhaust_sel)

lemma pad_F_plain:
  "all_digits 10 s \<Longrightarrow> NUL \<notin> set (pad_F s) \<and> CHR ''+'' \<notin> set (pad_F s)"
  using all_digits_plain [of s 10] by (simp add: pad_F_def)

definition dcs_charset :: "string \<Rightarrow> charset_t" where
  "dcs_charset dcs = (if dcs = ''08'' then CHARSET_UCS2 else if dcs = ''00'' then CHARSET_7BITS else CHARSET_8BITS)"

lemma read_number:
  assumes "all_digits 10 number" "pre = int (length number) + 2"
  shows "\<exists>mem. do {
      num \<leftarrow> number_handler (semi_octets number @ NUL # rest);
      if pre mod 2 = 1 then (if pre - 2 < 0 then None else mput num (nat (pre - 2)) NUL) else Some num }
    = Some mem \<and> c_str mem = number"
proof -
  have plain: "NUL \<notin> set number" using all_digits_plain [of number 10] assms(1) by simp
  have nh: "number_handler (semi_octets number @ NUL # rest) = Some (pad_F number @ NUL # rest)"
    unfolding semi_octets_pad_F using pad_F_plain [OF assms(1)] by (intro number_handler_even) simp_all
  have "pre mod 2 = 1 \<longleftrightarrow> odd (length number)"
    using assms(2) by presburger
  moreover have "nat (pre - 2) = length number" "\<not> pre - 2 < 0" using assms(2) by simp_all
  ultimately show ?thesis
    using plain by (auto simp: nh pad_F_def)
qed

lemma length_stamp_digits: "\<forall>v\<in>set vs. v < 100 \<Longrightarrow> length (stamp_digits vs) = 2 * length vs"
  by (induction vs) (simp_all add: stamp_digits_def length_two_digits)

lemma stamp_digits_plain: "NUL \<notin> set (stamp_digits vs) \<and> CHR ''+'' \<notin> set (stamp_digits vs)"
  using all_digits_plain [OF pad_digits_all_digits [of 10], of 2] by (auto simp: stamp_digits_def)

lemma read_center:
  assumes "all_digits 10 center" "length center = 11"
  shows "number_handler (semi_octets center @ NUL # rest) = Some (center @ CHR ''F'' # NUL # rest)"
  using number_handler_even [of "pad_F center" rest] pad_F_plain [OF assms(1)] assms(2)
  by (simp add: semi_octets_pad_F pad_F_def)

text \<open>The parts of the round trip: the number with its terminator, the two lengths, and the printed time.\<close>

lemma number_read:
  assumes "all_digits 10 number" "pre = int (length number) + 2"
  obtains num' mem where "number_handler (semi_octets number @ NUL # rest) = Some num'"
    "(if pre mod 2 = 1 then (if pre - 2 < 0 then None else mput num' (nat (pre - 2)) NUL) else Some num') = Some mem"
    "c_str mem = number"
proof -
  obtain mem where mem: "do { num \<leftarrow> number_handler (semi_octets number @ NUL # rest);
      if pre mod 2 = 1 then (if pre - 2 < 0 then None else mput num (nat (pre - 2)) NUL) else Some num } = Some mem"
    "c_str mem = number"
    using read_number [OF assms] by blast
  then show thesis using that by (auto split: bind_splits)
qed

lemma length_digits_read:
  assumes "n < 256" "Suc 1 < length dest"
  defines "d \<equiv> fmt_X 2 n @ NUL # drop 3 dest"
  shows "strtol (c_str d) 16 = int n" "length d = length dest"
  using assms(1,2) strtol_two_hex [of n "drop 3 dest"] by (simp_all add: d_def fmt_X_def length_pad_digits del: add_2_eq_Suc')

lemma charset_read: "dcs \<in> {''00'', ''04'', ''08''} \<Longrightarrow> read_charset dcs c = dcs_charset dcs"
  by (auto simp: read_charset_def dcs_charset_def)

lemma time_line:
  assumes "\<forall>v\<in>set [y, mo, d, h, mi, se]. v < 100"
  shows "length (''20'' @ pad_digits 10 2 y @ ''-'' @ pad_digits 10 2 mo @ ''-'' @ pad_digits 10 2 d @ '' '' @
      pad_digits 10 2 h @ '':'' @ pad_digits 10 2 mi @ '':'' @ pad_digits 10 2 se) = 19"
    "NUL \<notin> set (''20'' @ pad_digits 10 2 y @ ''-'' @ pad_digits 10 2 mo @ ''-'' @ pad_digits 10 2 d @ '' '' @
      pad_digits 10 2 h @ '':'' @ pad_digits 10 2 mi @ '':'' @ pad_digits 10 2 se)"
  using assms by (simp_all add: length_two_digits pad_digits_no_NUL)



end
