(* ===== verification/Base64.thy ===== *)
theory Base64
  imports C_Library
begin

text \<open>
  The Base64 encoder of the mail client (\<open>con628\<close>, \<open>base64\<close> and \<open>struct data6\<close> of
  \<open>src/src/dev_manage/mail.c\<close>, \<open>mail.h\<close>). The encoder copies the text into a local buffer of
  256 bytes, swaps the outer bytes of every group of three in place and reads the group through
  a structure of four six-bit fields, which on the little-endian target lie in the low
  24 bits from \<open>d4\<close> up to \<open>d1\<close>. \<^term>\<open>None\<close> is an access outside a buffer.
\<close>

definition con628 :: "u8 \<Rightarrow> u8" where
  "con628 c6 =
     (if c6 < 26 then c6 + 65
      else if c6 < 52 then c6 + 71
      else if c6 < 62 then c6 - 4
      else if c6 = 62 then 43
      else 47)"

record data6 =
  d4 :: nat
  d3 :: nat
  d2 :: nat
  d1 :: nat

text \<open>The bit fields of the three bytes at \<open>tmp\<close>.\<close>

definition data6_at :: "u8 \<Rightarrow> u8 \<Rightarrow> u8 \<Rightarrow> data6" where
  "data6_at t0 t1 t2 =
     (let w = unat t0 + 2 ^ 8 * unat t1 + 2 ^ 16 * unat t2
      in \<lparr>d4 = w mod 64, d3 = w div 2 ^ 6 mod 64, d2 = w div 2 ^ 12 mod 64, d1 = w div 2 ^ 18 mod 64\<rparr>)"

text \<open>The swap and the cast for group \<open>g\<close> of the local buffer.\<close>

definition swap_group :: "bytes \<Rightarrow> nat \<Rightarrow> (data6 \<times> bytes) option" where
  "swap_group buf g =
     do {
       cc \<leftarrow> mget buf (g * 3 + 2);
       t0 \<leftarrow> mget buf (g * 3);
       buf \<leftarrow> mput buf (g * 3 + 2) t0;
       buf \<leftarrow> mput buf (g * 3) cc;
       t0 \<leftarrow> mget buf (g * 3);
       t1 \<leftarrow> mget buf (g * 3 + 1);
       t2 \<leftarrow> mget buf (g * 3 + 2);
       Some (data6_at t0 t1 t2, buf)
     }"

definition con628_field :: "nat \<Rightarrow> u8" where
  "con628_field v = con628 (of_nat v)"

definition put4 :: "bytes \<Rightarrow> nat \<Rightarrow> u8 \<Rightarrow> u8 \<Rightarrow> u8 \<Rightarrow> u8 \<Rightarrow> bytes option" where
  "put4 dbuf g a b c d =
     do {
       dbuf \<leftarrow> mput dbuf (g * 4 + 0) a;
       dbuf \<leftarrow> mput dbuf (g * 4 + 1) b;
       dbuf \<leftarrow> mput dbuf (g * 4 + 2) c;
       mput dbuf (g * 4 + 3) d
     }"

text \<open>The loop over the full groups, from group \<open>g\<close> on.\<close>

fun base64_loop :: "bytes \<Rightarrow> bytes \<Rightarrow> nat \<Rightarrow> nat \<Rightarrow> (bytes \<times> bytes) option" where
  "base64_loop dbuf buf g 0 = Some (dbuf, buf)"
| "base64_loop dbuf buf g (Suc n) =
     do {
       (ddd, buf) \<leftarrow> swap_group buf g;
       dbuf \<leftarrow> put4 dbuf g (con628_field (d1 ddd)) (con628_field (d2 ddd))
                (con628_field (d3 ddd)) (con628_field (d4 ddd));
       base64_loop dbuf buf (g + 1) n
     }"

abbreviation PAD :: u8 where
  "PAD \<equiv> 61 \<comment> \<open>the character \<open>=\<close>\<close>"

text \<open>\<open>buf128\<close> is a C string, given by its characters.\<close>

definition base64 :: "bytes \<Rightarrow> bytes \<Rightarrow> nat \<Rightarrow> bytes option" where
  "base64 dbuf buf128 len =
     (if length buf128 < 256 then
        do {
          let buf = buf128 @ replicate (256 - length buf128) 0;
          let g = len div 3;
          (dbuf, buf) \<leftarrow> base64_loop dbuf buf 0 g;
          if len mod 3 = 1 then
            do {
              (ddd, buf) \<leftarrow> swap_group buf g;
              put4 dbuf g (con628_field (d1 ddd)) (con628_field (d2 ddd)) PAD PAD
            }
          else if len mod 3 = 2 then
            do {
              (ddd, buf) \<leftarrow> swap_group buf g;
              put4 dbuf g (con628_field (d1 ddd)) (con628_field (d2 ddd)) (con628_field (d3 ddd)) PAD
            }
          else Some dbuf
        }
      else None)"

subsection \<open>The encoding of RFC 4648\<close>

definition letter_codes :: "nat list" where
  "letter_codes = [65..<91] @ [97..<123] @ [48..<58] @ [43, 47]"

definition alphabet :: bytes where
  "alphabet = map of_nat letter_codes"

text \<open>A 24-bit group as four letters, most significant sextet first.\<close>

definition sextets :: "nat \<Rightarrow> bytes" where
  "sextets v = map (\<lambda>i. alphabet ! (v div 64 ^ i mod 64)) [3, 2, 1, 0]"

definition group24 :: "u8 \<Rightarrow> u8 \<Rightarrow> u8 \<Rightarrow> nat" where
  "group24 a b c = (unat a * 256 + unat b) * 256 + unat c"

fun b64_encode :: "bytes \<Rightarrow> bytes" where
  "b64_encode (a # b # c # s) = sextets (group24 a b c) @ b64_encode s"
| "b64_encode [a, b] = take 3 (sextets (group24 a b 0)) @ [PAD]"
| "b64_encode [a] = take 2 (sextets (group24 a 0 0)) @ [PAD, PAD]"
| "b64_encode [] = []"

fun b64_decode :: "bytes \<Rightarrow> bytes" where
  "b64_decode (p # q # r # s # t) =
     (let v = (\<lambda>x. first_index (\<lambda>y. y = x) alphabet);
          w = ((v p * 64 + v q) * 64 + (if r = PAD then 0 else v r)) * 64 + (if s = PAD then 0 else v s)
      in take (if r = PAD then 1 else if s = PAD then 2 else 3)
           [of_nat (w div 65536), of_nat (w div 256), of_nat w] @ b64_decode t)"
| "b64_decode _ = []"

subsection \<open>The encoder follows the RFC\<close>

lemma con628_alphabet: "v < 64 \<Longrightarrow> con628_field v = alphabet ! v"
proof -
  have "\<forall>v\<in>set [0..<64]. con628_field v = alphabet ! v" by code_simp
  then show "v < 64 \<Longrightarrow> con628_field v = alphabet ! v" by simp
qed

lemma group24_less: "group24 a b c < 2 ^ 24"
  using unat_u8_less [of a] unat_u8_less [of b] unat_u8_less [of c] by (simp add: group24_def)

lemma data6_sextets:
  "map con628_field [d1 (data6_at c b a), d2 (data6_at c b a), d3 (data6_at c b a), d4 (data6_at c b a)]
   = sextets (group24 a b c)"
proof -
  have "unat c + 2 ^ 8 * unat b + 2 ^ 16 * unat a = group24 a b c" by (simp add: group24_def)
  then show ?thesis by (simp add: sextets_def data6_at_def Let_def con628_alphabet)
qed

lemma swap_group_run:
  assumes "length p = g * 3"
  shows "swap_group (p @ a # b # c # r) g = Some (data6_at c b a, p @ c # b # a # r)"
  using assms by (simp add: swap_group_def mget_def mput_def nth_append list_update_append)

lemma put4_run:
  assumes "length q = g * 4" "4 \<le> length d"
  shows "put4 (q @ d) g w x y z = Some (q @ [w, x, y, z] @ drop 4 d)"
proof -
  obtain d0 d1 d2 d3 r where "d = d0 # d1 # d2 # d3 # r"
    using assms(2) by (auto simp: Suc_le_length_iff eval_nat_numeral)
  then show ?thesis using assms(1) by (simp add: put4_def mput_def nth_append list_update_append)
qed

lemma group_of_three:
  "length s = 3 * Suc n \<Longrightarrow> \<exists>a b c s'. s = a # b # c # s' \<and> length s' = 3 * n"
  by (cases s; cases "tl s"; cases "tl (tl s)") auto

lemma b64_encode_append:
  "length s = 3 * n \<Longrightarrow> b64_encode (s @ t) = b64_encode s @ b64_encode t"
proof (induction n arbitrary: s)
  case (Suc n)
  then obtain a b c s' where "s = a # b # c # s'" "length s' = 3 * n"
    using group_of_three [of s n] by auto
  with Suc.IH [of s'] show ?case by simp
qed simp

lemma length_sextets [simp]: "length (sextets v) = 4"
  by (simp add: sextets_def)

lemma base64_loop_run:
  "length s = 3 * n \<Longrightarrow> length p = g * 3 \<Longrightarrow> length q = g * 4 \<Longrightarrow> 4 * n \<le> length d \<Longrightarrow>
   \<exists>p'. length p' = (g + n) * 3 \<and>
     base64_loop (q @ d) (p @ s @ r) g n = Some (q @ b64_encode s @ drop (4 * n) d, p' @ r)"
proof (induction n arbitrary: s p q d g)
  case (Suc n)
  then obtain a b c s' where s: "s = a # b # c # s'" "length s' = 3 * n"
    using group_of_three [of s n] by auto
  let ?q = "q @ sextets (group24 a b c)"
  have "\<exists>p'. length p' = (g + 1 + n) * 3 \<and>
     base64_loop (?q @ drop 4 d) ((p @ [c, b, a]) @ s' @ r) (g + 1) n
     = Some (?q @ b64_encode s' @ drop (4 * n) (drop 4 d), p' @ r)"
    using Suc.prems s by (intro Suc.IH) simp_all
  moreover have "put4 (q @ d) g (con628_field (d1 (data6_at c b a))) (con628_field (d2 (data6_at c b a)))
      (con628_field (d3 (data6_at c b a))) (con628_field (d4 (data6_at c b a))) = Some (?q @ drop 4 d)"
    using Suc.prems by (subst put4_run) (simp_all add: data6_sextets [symmetric])
  ultimately show ?case
    using Suc.prems s by (simp add: swap_group_run drop_drop add.commute)
qed simp

lemma length_b64_encode: "length (b64_encode s) = (length s + 2) div 3 * 4"
proof (induction s rule: b64_encode.induct)
  case (1 a b c s)
  have "(length (a # b # c # s) + 2) div 3 = 1 + (length s + 2) div 3"
    using div_add_self1 [of 3 "length s + 2"] by simp
  with 1 show ?case by simp
qed simp_all

lemma base64_groups:
  assumes "length s1 = 3 * n" "length s2 < 3" "length (s1 @ s2) < 256"
    and room: "4 * n + length (b64_encode s2) \<le> length dbuf"
  shows "base64 dbuf (s1 @ s2) (length (s1 @ s2))
    = Some (b64_encode s1 @ b64_encode s2 @ drop (length (b64_encode s2)) (drop (4 * n) dbuf))"
proof -
  define z where "z = replicate (256 - length (s1 @ s2)) (0 :: u8)"
  have div: "length (s1 @ s2) div 3 = n" "length (s1 @ s2) mod 3 = length s2"
    using assms(1,2) by simp_all
  obtain p' where p': "length p' = n * 3"
    "base64_loop dbuf (s1 @ s2 @ z) 0 n = Some (b64_encode s1 @ drop (4 * n) dbuf, p' @ s2 @ z)"
    using base64_loop_run [of s1 n "[]" 0 "[]" dbuf "s2 @ z"] assms(1) room by auto
  have enc: "length (b64_encode s1) = n * 4" using assms(1) by (simp add: length_b64_encode)
  have run: "base64 dbuf (s1 @ s2) (length (s1 @ s2)) =
      (if length s2 = 1 then
         do { (ddd, buf) \<leftarrow> swap_group (p' @ s2 @ z) n;
              put4 (b64_encode s1 @ drop (4 * n) dbuf) n (con628_field (d1 ddd)) (con628_field (d2 ddd)) PAD PAD }
       else if length s2 = 2 then
         do { (ddd, buf) \<leftarrow> swap_group (p' @ s2 @ z) n;
              put4 (b64_encode s1 @ drop (4 * n) dbuf) n
                (con628_field (d1 ddd)) (con628_field (d2 ddd)) (con628_field (d3 ddd)) PAD }
       else Some (b64_encode s1 @ drop (4 * n) dbuf))"
    using assms(3) unfolding base64_def div Let_def z_def [symmetric] append_assoc p'(2) by simp
  have four: "Suc (Suc (Suc (Suc m))) = 4 + m" for m by simp
  consider "s2 = []" | a where "s2 = [a]" | a b where "s2 = [a, b]"
    using assms(2) by (cases s2; cases "tl s2"; cases "tl (tl s2)") auto
  then show ?thesis
  proof cases
    case 1
    then show ?thesis using run by simp
  next
    case 2
    then have "256 - length (s1 @ s2) = Suc (Suc (254 - length (s1 @ s2)))" using assms(1,3) by simp
    then have "z = 0 # 0 # replicate (254 - length (s1 @ s2)) 0" by (simp add: z_def)
    moreover have "take 2 (sextets (group24 a 0 0))
        = [con628_field (d1 (data6_at 0 0 a)), con628_field (d2 (data6_at 0 0 a))]"
      by (simp flip: data6_sextets)
    ultimately show ?thesis
      using 2 run room by (simp add: swap_group_run p'(1) put4_run enc four)
  next
    case 3
    then have "256 - length (s1 @ s2) = Suc (255 - length (s1 @ s2))" using assms(3) by simp
    then have "z = 0 # replicate (255 - length (s1 @ s2)) 0" by (simp add: z_def)
    moreover have "take 3 (sextets (group24 a b 0)) = [con628_field (d1 (data6_at 0 b a)),
        con628_field (d2 (data6_at 0 b a)), con628_field (d3 (data6_at 0 b a))]"
      by (simp flip: data6_sextets)
    ultimately show ?thesis
      using 3 run room by (simp add: swap_group_run p'(1) put4_run enc four)
  qed
qed

subsection \<open>Decoding\<close>

lemma letter_codes_facts:
  "length letter_codes = 64" "distinct letter_codes" "\<forall>c\<in>set letter_codes. c < 256 \<and> c \<noteq> 61"
  by (auto simp only: letter_codes_def set_append set_upt length_append length_upt distinct_append distinct_upt) auto

lemma unat_alphabet: "v < 64 \<Longrightarrow> unat (alphabet ! v) = letter_codes ! v"
  using letter_codes_facts(1,3) nth_mem [of v letter_codes]
  by (simp add: alphabet_def unat_of_nat_u8)

lemma alphabet_letter:
  assumes "v < 64"
  shows "first_index (\<lambda>y. y = alphabet ! v) alphabet = v" "alphabet ! v \<noteq> PAD"
proof -
  have len: "length alphabet = 64" by (simp add: alphabet_def letter_codes_facts)
  have "alphabet ! j \<noteq> alphabet ! v" if "j < v" for j
    using that assms unat_alphabet [of j] unat_alphabet [of v]
      nth_eq_iff_index_eq [OF letter_codes_facts(2), of j v] letter_codes_facts(1) by fastforce
  then show "first_index (\<lambda>y. y = alphabet ! v) alphabet = v"
    using assms len by (intro first_index_eqI) simp_all
  have "letter_codes ! v \<noteq> 61"
    using nth_mem [of v letter_codes] assms letter_codes_facts(1,3) by simp
  then have "unat (alphabet ! v) \<noteq> 61" using unat_alphabet [OF assms] by simp
  then show "alphabet ! v \<noteq> PAD" by auto
qed

lemma group24_bytes:
  "of_nat (group24 a b c div 65536) = a" "of_nat (group24 a b c div 256) = b" "of_nat (group24 a b c) = c"
proof -
  have high: "group24 a b c div 65536 = unat a" "group24 a b c div 256 = unat a * 256 + unat b"
    using unat_u8_less [of b] unat_u8_less [of c] by (simp_all add: group24_def)
  have low: "of_nat (x * 256 + unat y) = y" for x and y :: u8
  proof -
    have z: "(256 :: u8) = 0" by simp
    have "of_nat x * (256 :: u8) = 0" by (simp only: z mult_zero_right)
    then show ?thesis by simp
  qed
  show "of_nat (group24 a b c div 65536) = a" by (simp add: high)
  show "of_nat (group24 a b c div 256) = b" unfolding high by (rule low)
  show "of_nat (group24 a b c) = c" unfolding group24_def by (rule low)
qed

lemma regroup:
  assumes "v < 2 ^ 24"
  shows "((v div 64 ^ 3 mod 64 * 64 + v div 64 ^ 2 mod 64) * 64 + v div 64 mod 64) * 64 + v mod 64 = (v :: nat)"
proof -
  have "v div 64 div 64 * 64 + v div 64 mod 64 = v div 64" "v div 64 * 64 + v mod 64 = v"
    "v div 64 div 64 div 64 * 64 + v div 64 div 64 mod 64 = v div 64 div 64" by simp_all
  moreover have "v div 64 ^ 3 mod 64 = v div 64 div 64 div 64"
    using assms by (simp add: div_mult2_eq [symmetric] mod_less)
  moreover have "v div 64 ^ 2 mod 64 = v div 64 div 64 mod 64" by (simp add: div_mult2_eq [symmetric])
  ultimately show ?thesis by metis
qed

lemma decode_sextets:
  assumes "v < 2 ^ 24"
  shows "b64_decode (sextets v @ t) = [of_nat (v div 65536), of_nat (v div 256), of_nat v] @ b64_decode t"
    and "v mod 64 = 0 \<Longrightarrow>
      b64_decode (take 3 (sextets v) @ [PAD]) = [of_nat (v div 65536), of_nat (v div 256)]"
    and "v mod 64 = 0 \<Longrightarrow> v div 64 mod 64 = 0 \<Longrightarrow>
      b64_decode (take 2 (sextets v) @ [PAD, PAD]) = [of_nat (v div 65536)]"
proof -
  let ?x = "\<lambda>i. alphabet ! (v div 64 ^ i mod 64)"
  have x: "sextets v @ t = ?x 3 # ?x 2 # ?x 1 # ?x 0 # t" "take 3 (sextets v) = [?x 3, ?x 2, ?x 1]"
    "take 2 (sextets v) = [?x 3, ?x 2]"
    by (simp_all add: sextets_def)
  have l: "first_index (\<lambda>y. y = ?x i) alphabet = v div 64 ^ i mod 64" "?x i \<noteq> PAD" for i
    by (simp_all add: alphabet_letter)
  have r: "((v div 64 ^ 3 mod 64 * 64 + v div 64 ^ 2 mod 64) * 64 + v div 64 ^ 1 mod 64) * 64
      + v div 64 ^ 0 mod 64 = v"
    using regroup [OF assms] by (simp only: power_one_right power_0 div_by_1)
  show "b64_decode (sextets v @ t) = [of_nat (v div 65536), of_nat (v div 256), of_nat v] @ b64_decode t"
    unfolding x b64_decode.simps Let_def l if_not_P [OF l(2)] r by simp
  show "b64_decode (take 3 (sextets v) @ [PAD]) = [of_nat (v div 65536), of_nat (v div 256)]"
    if "v mod 64 = 0"
  proof -
    have w: "((v div 64 ^ 3 mod 64 * 64 + v div 64 ^ 2 mod 64) * 64 + v div 64 ^ 1 mod 64) * 64 + 0 = v"
      using r that by (simp only: power_0 div_by_1)
    show ?thesis
      unfolding x append.simps b64_decode.simps Let_def l if_not_P [OF l(2)] if_P [OF refl] w by simp
  qed
  show "b64_decode (take 2 (sextets v) @ [PAD, PAD]) = [of_nat (v div 65536)]"
    if "v mod 64 = 0" "v div 64 mod 64 = 0"
  proof -
    have w: "((v div 64 ^ 3 mod 64 * 64 + v div 64 ^ 2 mod 64) * 64 + 0) * 64 + 0 = v"
      using r that by (simp only: power_0 power_one_right div_by_1)
    show ?thesis
      unfolding x append.simps b64_decode.simps Let_def l if_P [OF refl] w by simp
  qed
qed

lemma b64_decode_encode: "b64_decode (b64_encode s) = s"
proof (induction s rule: b64_encode.induct)
  case (1 a b c s)
  then show ?case by (simp add: decode_sextets(1) [OF group24_less] group24_bytes)
next
  case (2 a b)
  have "group24 a b 0 mod 64 = 0" by (simp add: group24_def)
  then show ?case by (simp add: decode_sextets(2) [OF group24_less] group24_bytes)
next
  case (3 a)
  have "group24 a 0 0 mod 64 = 0" "group24 a 0 0 div 64 mod 64 = 0"
    by (simp_all add: group24_def)
  then show ?case by (simp add: decode_sextets(3) [OF group24_less] group24_bytes)
qed simp

lemma base64_run:
  assumes "length s < 256" "(length s + 2) div 3 * 4 \<le> length dbuf"
  shows "base64 dbuf s (length s) = Some (overwrite 0 (b64_encode s) dbuf)"
proof -
  let ?n = "length s div 3"
  define s1 s2 where "s1 = take (3 * ?n) s" and "s2 = drop (3 * ?n) s"
  have s: "s1 @ s2 = s" by (simp add: s1_def s2_def)
  have len: "length s1 = 3 * ?n" "length s2 = length s mod 3"
    by (simp_all add: s1_def s2_def minus_mult_div_eq_mod)
  have enc: "b64_encode s = b64_encode s1 @ b64_encode s2"
    using b64_encode_append [OF len(1), of s2] by (simp add: s)
  have n: "length (b64_encode s1) = 4 * ?n" using len(1) by (simp add: length_b64_encode)
  have "4 * ?n + length (b64_encode s2) \<le> length dbuf"
    using assms(2) length_b64_encode [of s] unfolding enc by (simp add: n)
  then have "base64 dbuf (s1 @ s2) (length (s1 @ s2))
      = Some (b64_encode s1 @ b64_encode s2 @ drop (length (b64_encode s2)) (drop (4 * ?n) dbuf))"
    using len assms(1) by (intro base64_groups) (simp_all add: s)
  moreover have "overwrite 0 (b64_encode s) dbuf
      = b64_encode s1 @ b64_encode s2 @ drop (length (b64_encode s2)) (drop (4 * ?n) dbuf)"
    unfolding enc by (simp add: overwrite_def n add.commute)
  ultimately show ?thesis by (simp add: s)
qed

text \<open>
  C24: \<open>base64\<close> is the Base64 encoding of RFC 4648: a text of fewer than 256 characters is
  written to the front of the destination, padding included, whenever the
  destination has room for it, nothing else of the destination changes, and the
  encoding decodes to the text.
\<close>

theorem base64_is_rfc4648:
  assumes "length s < 256" "(length s + 2) div 3 * 4 \<le> length dbuf"
  shows "base64 dbuf s (length s) = Some (overwrite 0 (b64_encode s) dbuf) \<and>
    b64_decode (b64_encode s) = s"
  using base64_run [OF assms] by (simp add: b64_decode_encode)

theorem base64_is_rfc4648_witness:
  "base64 (replicate 8 0) [77, 97, 110, 77] (length [77, 97, 110, 77 :: u8])
   = Some (overwrite 0 (b64_encode [77, 97, 110, 77]) (replicate 8 0)) \<and>
   b64_decode (b64_encode [77, 97, 110, 77]) = [77, 97, 110, 77]"
  by (rule base64_is_rfc4648) simp_all

end
