(* ===== verification/Adpcm.thy ===== *)
theory Adpcm
  imports C_Library
begin

text \<open>
  The Intel/DVI ADPCM voice codec (\<open>src/src/voice_comm/src/voice/lib/adpcm.c\<close>). The locals of
  the coder and decoder are mathematical integers (they stay far inside \<open>int\<close>); samples, code
  bytes and the state the caller keeps between calls have their machine width. A call that
  would read outside a buffer or the step table is \<^term>\<open>None\<close>.
\<close>

definition indexTable :: "int list" where
  "indexTable = [-1, -1, -1, -1, 2, 4, 6, 8, -1, -1, -1, -1, 2, 4, 6, 8]"

definition stepsizeTable :: "int list" where
  "stepsizeTable =
    [7, 8, 9, 10, 11, 12, 13, 14, 16, 17,
     19, 21, 23, 25, 28, 31, 34, 37, 41, 45,
     50, 55, 60, 66, 73, 80, 88, 97, 107, 118,
     130, 143, 157, 173, 190, 209, 230, 253, 279, 307,
     337, 371, 408, 449, 494, 544, 598, 658, 724, 796,
     876, 963, 1060, 1166, 1282, 1411, 1552, 1707, 1878, 2066,
     2272, 2499, 2749, 3024, 3327, 3660, 4026, 4428, 4871, 5358,
     5894, 6484, 7132, 7845, 8630, 9493, 10442, 11487, 12635, 13899,
     15289, 16818, 18500, 20350, 22385, 24623, 27086, 29794, 32767]"

record adpcm_state =
  valprev :: u16 \<comment> \<open>\<open>short\<close>\<close>
  index :: u8 \<comment> \<open>\<open>char\<close>\<close>

definition clamp16 :: "int \<Rightarrow> int" where
  "clamp16 v = (if v > 32767 then 32767 else if v < -32768 then -32768 else v)"

definition next_index :: "int \<Rightarrow> int \<Rightarrow> int" where
  "next_index idx delta =
     (let i = idx + indexTable ! nat delta; i = (if i < 0 then 0 else i) in if i > 88 then 88 else i)"

abbreviation step_of :: "int \<Rightarrow> int" where
  "step_of idx \<equiv> stepsizeTable ! nat idx"

text \<open>Step 2 of the coder: the magnitude of the code and the change of the prediction.\<close>

definition quantise :: "int \<Rightarrow> int \<Rightarrow> int \<times> int" where
  "quantise diff step =
     (let vpdiff = drop_bit 3 step;
          (delta, diff, vpdiff) = (if diff \<ge> step then (4, diff - step, vpdiff + step) else (0, diff, vpdiff));
          step = drop_bit 1 step;
          (delta, diff, vpdiff) =
            (if diff \<ge> step then (delta OR 2, diff - step, vpdiff + step) else (delta, diff, vpdiff));
          step = drop_bit 1 step
      in if diff \<ge> step then (delta OR 1, vpdiff + step) else (delta, vpdiff))"

text \<open>One round of the coder's loop: the code \<open>delta\<close> and the new \<open>valpred\<close>, \<open>index\<close>, \<open>step\<close>.\<close>

definition coder_step :: "int \<Rightarrow> int \<Rightarrow> int \<Rightarrow> int \<Rightarrow> int \<times> int \<times> int \<times> int" where
  "coder_step valpred idx step val =
     (let diff = val - valpred;
          sign = (if diff < 0 then 8 else 0);
          diff = (if sign \<noteq> 0 then - diff else diff);
          (delta, vpdiff) = quantise diff step;
          valpred = clamp16 (if sign \<noteq> 0 then valpred - vpdiff else valpred + vpdiff);
          delta = delta OR sign;
          idx = next_index idx delta
      in (delta, valpred, idx, step_of idx))"

fun coder_loop :: "int list \<Rightarrow> int \<Rightarrow> int \<Rightarrow> int \<Rightarrow> bool \<Rightarrow> int \<Rightarrow> bytes \<times> int \<times> int" where
  "coder_loop [] valpred idx step bufferstep outputbuffer =
     (if \<not> bufferstep then [word_of_int outputbuffer] else [], valpred, idx)"
| "coder_loop (val # vals) valpred idx step bufferstep outputbuffer =
     (let (delta, valpred, idx, step) = coder_step valpred idx step val in
      if bufferstep
      then coder_loop vals valpred idx step False (push_bit 4 delta AND 0xf0)
      else let (out, st) = coder_loop vals valpred idx step True outputbuffer
           in (word_of_int ((delta AND 0x0f) OR outputbuffer) # out, st))"

definition adpcm_coder :: "u16 list \<Rightarrow> nat \<Rightarrow> adpcm_state \<Rightarrow> (bytes \<times> adpcm_state) option" where
  "adpcm_coder indata len state =
     (if len \<le> length indata \<and> unat (index state) < length stepsizeTable
      then let idx = uint (index state);
               (out, valpred, idx) =
                 coder_loop (map sint (take len indata)) (sint (valprev state)) idx (step_of idx) True 0
           in Some (out, \<lparr>valprev = word_of_int valpred, index = word_of_int idx\<rparr>)
      else None)"

text \<open>One round of the decoder's loop on a four-bit code.\<close>

definition decoder_step :: "int \<Rightarrow> int \<Rightarrow> int \<Rightarrow> int \<Rightarrow> int \<times> int \<times> int" where
  "decoder_step valpred idx step delta =
     (let idx = next_index idx delta;
          sign = delta AND 8;
          delta = delta AND 7;
          vpdiff = drop_bit 3 step;
          vpdiff = (if delta AND 4 \<noteq> 0 then vpdiff + step else vpdiff);
          vpdiff = (if delta AND 2 \<noteq> 0 then vpdiff + drop_bit 1 step else vpdiff);
          vpdiff = (if delta AND 1 \<noteq> 0 then vpdiff + drop_bit 2 step else vpdiff);
          valpred = clamp16 (if sign \<noteq> 0 then valpred - vpdiff else valpred + vpdiff)
      in (valpred, idx, step_of idx))"

fun decoder_loop ::
  "bytes \<Rightarrow> nat \<Rightarrow> int \<Rightarrow> int \<Rightarrow> int \<Rightarrow> bool \<Rightarrow> int \<Rightarrow> (int list \<times> int \<times> int) option"
where
  "decoder_loop inp 0 valpred idx step bufferstep inputbuffer = Some ([], valpred, idx)"
| "decoder_loop inp (Suc len) valpred idx step bufferstep inputbuffer =
     do {
       (delta, inputbuffer, inp) \<leftarrow>
         (if bufferstep then Some (inputbuffer AND 0xf, inputbuffer, inp)
          else case inp of
                 [] \<Rightarrow> None
               | b # inp \<Rightarrow> Some (drop_bit 4 (sint b) AND 0xf, sint b, inp));
       let (valpred, idx, step) = decoder_step valpred idx step delta;
       (out, st) \<leftarrow> decoder_loop inp len valpred idx step (\<not> bufferstep) inputbuffer;
       Some (valpred # out, st)
     }"

definition adpcm_decoder :: "bytes \<Rightarrow> nat \<Rightarrow> adpcm_state \<Rightarrow> (u16 list \<times> adpcm_state) option" where
  "adpcm_decoder indata len state =
     (if unat (index state) < length stepsizeTable
      then do {
        let idx = uint (index state);
        (out, valpred, idx) \<leftarrow> decoder_loop indata len (sint (valprev state)) idx (step_of idx) False 0;
        Some (map word_of_int out, \<lparr>valprev = word_of_int valpred, index = word_of_int idx\<rparr>)
      }
      else None)"

subsection \<open>One round\<close>

lemma length_stepsizeTable [simp]: "length stepsizeTable = 89"
  by (simp add: stepsizeTable_def)

lemma step_of_bounds:
  assumes "0 \<le> idx" "idx \<le> 88"
  shows "7 \<le> step_of idx" "step_of idx \<le> 32767"
proof -
  have "\<forall>s\<in>set stepsizeTable. 7 \<le> s \<and> s \<le> 32767" by (simp add: stepsizeTable_def)
  moreover have "step_of idx \<in> set stepsizeTable" using assms by (intro nth_mem) simp
  ultimately show "7 \<le> step_of idx" "step_of idx \<le> 32767" by blast+
qed

lemma next_index_bounds: "0 \<le> next_index idx delta" "next_index idx delta \<le> 88"
  by (simp_all add: next_index_def Let_def)

lemma clamp16_bounds: "-32768 \<le> clamp16 v" "clamp16 v \<le> 32767"
  by (simp_all add: clamp16_def)

definition codec_ok :: "int \<Rightarrow> int \<Rightarrow> bool" where
  "codec_ok valpred idx \<longleftrightarrow> -32768 \<le> valpred \<and> valpred \<le> 32767 \<and> 0 \<le> idx \<and> idx \<le> 88"

abbreviation nibbles :: "int set" where
  "nibbles \<equiv> set (map int [0..<16])"

lemma quantise_decoded:
  assumes "quantise diff step = (delta, vpdiff)"
  shows "delta \<in> {0, 1, 2, 3, 4, 5, 6, 7}"
    and "vpdiff = (let v = drop_bit 3 step;
          v = (if delta AND 4 \<noteq> 0 then v + step else v);
          v = (if delta AND 2 \<noteq> 0 then v + drop_bit 1 step else v)
      in if delta AND 1 \<noteq> 0 then v + drop_bit 2 step else v)"
  using assms by (auto simp: quantise_def Let_def numeral_2_eq_2 split: if_splits)

text \<open>The decoder's round undoes the coder's on the code it produced.\<close>

lemma coder_decoder_step:
  assumes "coder_step valpred idx step val = (delta, valpred', idx', step')"
  shows "decoder_step valpred idx step delta = (valpred', idx', step')" "delta \<in> set (map int [0..<16])"
proof -
  obtain d w where q: "quantise (if val < valpred then - (val - valpred) else val - valpred) step = (d, w)"
    by fastforce
  define sign where "sign = (if val < valpred then 8 else 0 :: int)"
  have res: "delta = d OR sign" "valpred' = clamp16 (if sign \<noteq> 0 then valpred - w else valpred + w)"
    "idx' = next_index idx delta" "step' = step_of idx'"
    using assms q by (auto simp: coder_step_def Let_def sign_def split: if_splits)
  have s: "sign \<in> {0, 8}" by (simp add: sign_def)
  have "\<forall>d\<in>set [0, 1, 2, 3, 4, 5, 6, 7]. \<forall>s\<in>set [0, 8 :: int].
      (d OR s) AND 8 = s \<and> (d OR s) AND 7 = d \<and> d OR s \<in> nibbles"
    by code_simp
  then have d: "delta AND 8 = sign" "delta AND 7 = d" "delta \<in> nibbles"
    using quantise_decoded(1) [OF q] s unfolding res(1) by (metis list.set(1,2))+
  then show "delta \<in> nibbles" by blast
  show "decoder_step valpred idx step delta = (valpred', idx', step')"
    by (simp only: decoder_step_def Let_def d(1,2) res(2-4) quantise_decoded(2) [OF q, unfolded Let_def, symmetric])
qed

lemma coder_step_ok:
  assumes "coder_step valpred idx step val = (delta, valpred', idx', step')"
  shows "codec_ok valpred' idx'" "step' = step_of idx'"
  using assms clamp16_bounds next_index_bounds
  by (auto simp: coder_step_def Let_def codec_ok_def split: prod.splits)

lemma quantise_error:
  assumes "quantise diff step = (delta, vpdiff)" "0 \<le> diff" "diff < 2 * step"
  shows "\<bar>diff - vpdiff\<bar> \<le> step div 8 + 2"
proof -
  define h q e where "h = step div 2" and "q = step div 4" and "e = step div 8"
  have b: "2 * h \<le> step" "step \<le> 2 * h + 1" "2 * q \<le> h" "h \<le> 2 * q + 1" "2 * e \<le> q" "q \<le> 2 * e + 1"
    unfolding h_def q_def e_def by presburger+
  have shifts: "drop_bit (Suc 0) step = h" "drop_bit (Suc 0) h = q" "drop_bit 3 step = e"
    by (simp_all add: drop_bit_eq_div h_def q_def e_def)
  show ?thesis
    unfolding e_def [symmetric] using assms b
    by (auto simp: quantise_def Let_def shifts simp del: drop_bit_drop_bit split: if_splits)
qed

lemma clamp16_closer: "-32768 \<le> val \<Longrightarrow> val \<le> 32767 \<Longrightarrow> \<bar>val - clamp16 v\<bar> \<le> \<bar>val - v\<bar>"
  by (auto simp: clamp16_def)

text \<open>Unless the slope is too steep, the new prediction is within an eighth of the step (and
  the rounding of the shifts) of the sample.\<close>

lemma coder_step_error:
  assumes "coder_step valpred idx step val = (delta, valpred', idx', step')"
    and "-32768 \<le> val" "val \<le> 32767" "\<bar>val - valpred\<bar> < 2 * step"
  shows "\<bar>val - valpred'\<bar> \<le> step div 8 + 2"
proof -
  let ?diff = "if val < valpred then - (val - valpred) else val - valpred"
  obtain d w where q: "quantise ?diff step = (d, w)" by fastforce
  define v where "v = (if val < valpred then valpred - w else valpred + w)"
  have "valpred' = clamp16 v"
    using assms(1) q by (auto simp: coder_step_def Let_def v_def split: if_splits)
  moreover have "\<bar>?diff - w\<bar> \<le> step div 8 + 2"
    using quantise_error [OF q] assms(4) by (auto split: if_splits)
  then have "\<bar>val - v\<bar> \<le> step div 8 + 2" by (auto simp: v_def split: if_splits)
  ultimately show ?thesis using clamp16_closer [OF assms(2,3), of v] by simp
qed

subsection \<open>Whole buffers\<close>

text \<open>The predictions the coder makes over a list of samples, with its final state.\<close>

fun coder_run :: "int list \<Rightarrow> int \<Rightarrow> int \<Rightarrow> int \<Rightarrow> int list \<times> int \<times> int" where
  "coder_run [] valpred idx step = ([], valpred, idx)"
| "coder_run (val # vals) valpred idx step =
     (let (delta, valpred, idx, step) = coder_step valpred idx step val;
          (ps, st) = coder_run vals valpred idx step
      in (valpred # ps, st))"

lemma code_byte:
  assumes "a \<in> nibbles" "b \<in> nibbles"
  shows "drop_bit 4 (sint (word_of_int ((b AND 0x0f) OR (push_bit 4 a AND 0xf0)) :: u8)) AND 0xf = a"
    and "sint (word_of_int ((b AND 0x0f) OR (push_bit 4 a AND 0xf0)) :: u8) AND 0xf = b"
proof -
  have "\<forall>a\<in>nibbles. \<forall>b\<in>nibbles.
      let w = word_of_int ((b AND 0x0f) OR (push_bit 4 a AND 0xf0)) :: u8
      in drop_bit 4 (sint w) AND 0xf = a \<and> sint w AND 0xf = b"
    by code_simp
  with assms show "drop_bit 4 (sint (word_of_int ((b AND 0x0f) OR (push_bit 4 a AND 0xf0)) :: u8)) AND 0xf = a"
    "sint (word_of_int ((b AND 0x0f) OR (push_bit 4 a AND 0xf0)) :: u8) AND 0xf = b"
    by (meson Let_def)+
qed

lemma zero_nibble: "0 \<in> nibbles"
  by force

lemma coder_loop_state: "snd (coder_loop vals vp i s bs ob) = snd (coder_run vals vp i s)"
proof (induction vals arbitrary: vp i s bs ob)
  case (Cons v vals)
  obtain d vp' i' s' where "coder_step vp i s v = (d, vp', i', s')" by (metis prod_cases4)
  with Cons.IH show ?case by (simp add: case_prod_unfold Let_def)
qed simp

lemma length_coder_loop:
  "length (fst (coder_loop vals vp i s bs ob)) = (length vals + (if bs then 1 else 2)) div 2"
proof (induction vals arbitrary: vp i s bs ob)
  case (Cons v vals)
  obtain d vp' i' s' where "coder_step vp i s v = (d, vp', i', s')" by (metis prod_cases4)
  with Cons.IH show ?case by (simp add: case_prod_unfold Let_def)
qed simp

text \<open>Coder and decoder in lock step, in both phases of the byte they share: after a full byte
  (\<open>bs\<close>), and after the first code \<open>a\<close> of a byte the coder has not put out yet.\<close>

lemma lockstep:
  "n \<le> length vals \<Longrightarrow>
   \<forall>ob ib. decoder_loop (fst (coder_loop vals vp i s True ob) @ rest) n vp i s False ib = Some (coder_run (take n vals) vp i s)"
  "n \<le> length vals \<Longrightarrow> a \<in> nibbles \<Longrightarrow>
   \<exists>b out. fst (coder_loop vals vp i s False (push_bit 4 a AND 0xf0)) = b # out \<and>
     drop_bit 4 (sint b) AND 0xf = a \<and>
     decoder_loop (out @ rest) n vp i s True (sint b) = Some (coder_run (take n vals) vp i s)"
proof (induction vals arbitrary: n vp i s a)
  case Nil
  {
    case 1
    then show ?case by simp
  next
    case 2
    then show ?case using code_byte(1) [OF 2(2) zero_nibble] by simp
  }
next
  case (Cons v vals)
  {
    case 1
    obtain d vp' i' s' where c: "coder_step vp i s v = (d, vp', i', s')" by (metis prod_cases4)
    note dec = coder_decoder_step [OF c]
    show ?case
    proof (cases n)
      case (Suc m)
      then have "m \<le> length vals" using 1 by simp
      then obtain b out where "fst (coder_loop vals vp' i' s' False (push_bit 4 d AND 0xf0)) = b # out"
        "drop_bit 4 (sint b) AND 0xf = d"
        "decoder_loop (out @ rest) m vp' i' s' True (sint b) = Some (coder_run (take m vals) vp' i' s')"
        using Cons.IH(2) [OF _ dec(2)] by blast
      then show ?thesis using Suc dec(1) by (simp add: c case_prod_unfold Let_def)
    qed simp
  next
    case 2
    obtain d vp' i' s' where c: "coder_step vp i s v = (d, vp', i', s')" by (metis prod_cases4)
    note dec = coder_decoder_step [OF c]
    let ?b = "word_of_int ((d AND 0x0f) OR (push_bit 4 a AND 0xf0)) :: u8"
    have "decoder_loop (fst (coder_loop vals vp' i' s' True (push_bit 4 a AND 0xf0)) @ rest) n vp i s True (sint ?b)
        = Some (coder_run (take n (v # vals)) vp i s)"
    proof (cases n)
      case (Suc m)
      then show ?thesis
        using Cons.IH(1) [of m] 2 dec code_byte(2) [OF 2(2) dec(2)]
        by (simp add: c case_prod_unfold Let_def)
    qed simp
    then show ?case using code_byte(1) [OF 2(2) dec(2)] by (simp add: c case_prod_unfold Let_def)
  }
qed

definition adpcm_state_ok :: "adpcm_state \<Rightarrow> bool" where
  "adpcm_state_ok st \<longleftrightarrow> unat (index st) \<le> 88"

lemma coder_run_ok:
  "codec_ok vp i \<Longrightarrow> s = step_of i \<Longrightarrow> coder_run vals vp i s = (ps, vp', i') \<Longrightarrow>
   codec_ok vp' i' \<and> length ps = length vals \<and> (\<forall>p\<in>set ps. -32768 \<le> p \<and> p \<le> 32767)"
proof (induction vals arbitrary: vp i s ps)
  case (Cons v vals)
  obtain d vp1 i1 s1 where c: "coder_step vp i s v = (d, vp1, i1, s1)" by (metis prod_cases4)
  then obtain qs where qs: "ps = vp1 # qs" "coder_run vals vp1 i1 s1 = (qs, vp', i')"
    using Cons.prems(3) by (cases "coder_run vals vp1 i1 s1") (auto simp: Let_def)
  with Cons.IH [OF coder_step_ok(1,2) [OF c] qs(2)] show ?case
    using coder_step_ok(1) [OF c] by (auto simp: codec_ok_def)
qed auto

lemma sint_u16_bounds: "-32768 \<le> sint (x :: u16)" "sint (x :: u16) \<le> 32767"
  using sint_greater_eq [of x] sint_less [of x] by simp_all

lemma sint_of_int_u16: "-32768 \<le> v \<Longrightarrow> v \<le> 32767 \<Longrightarrow> sint (word_of_int v :: u16) = v"
  by (simp add: signed_of_int signed_take_bit_int_eq_self)

lemma uint_of_int_u8: "0 \<le> v \<Longrightarrow> v \<le> 255 \<Longrightarrow> uint (word_of_int v :: u8) = v"
  by (simp add: unsigned_of_int take_bit_int_eq_self)

lemma coder_run_snoc:
  assumes "coder_run vals vp i (step_of i) = (ps, vp1, i1)" "coder_step vp1 i1 (step_of i1) v = (d, vp2, i2, s2)"
  shows "coder_run (vals @ [v]) vp i (step_of i) = (ps @ [vp2], vp2, i2)"
  using assms(1)
proof (induction vals arbitrary: vp i ps)
  case Nil
  with assms(2) show ?case by simp
next
  case (Cons w vals)
  obtain d' vp' i' s' where c: "coder_step vp i (step_of i) w = (d', vp', i', s')" by (metis prod_cases4)
  then obtain qs where qs: "ps = vp' # qs" "coder_run vals vp' i' s' = (qs, vp1, i1)"
    using Cons.prems by (cases "coder_run vals vp' i' s'") (auto simp: Let_def)
  moreover have "s' = step_of i'" using coder_step_ok(2) [OF c] .
  ultimately show ?case using Cons.IH [of vp' i' qs] by (simp add: c)
qed

text \<open>What the coder keeps in the caller's state and what the decoder makes of its output.\<close>

definition run_of :: "u16 list \<Rightarrow> adpcm_state \<Rightarrow> int list \<times> int \<times> int" where
  "run_of xs st = coder_run (map sint xs) (sint (valprev st)) (uint (index st)) (step_of (uint (index st)))"

definition pack_run :: "int list \<times> int \<times> int \<Rightarrow> u16 list \<times> adpcm_state" where
  "pack_run r = (map word_of_int (fst r),
     \<lparr>valprev = word_of_int (fst (snd r)), index = word_of_int (snd (snd r))\<rparr>)"

lemma codec_ok_state: "adpcm_state_ok st \<Longrightarrow> codec_ok (sint (valprev st)) (uint (index st))"
  using sint_u16_bounds [of "valprev st"]
  by (simp only: adpcm_state_ok_def codec_ok_def unat_le_iff_uint) simp

lemma adpcm_coder_run:
  assumes "adpcm_state_ok st"
  shows "\<exists>bs. adpcm_coder xs (length xs) st = Some (bs, snd (pack_run (run_of xs st))) \<and>
    length bs = (length xs + 1) div 2 \<and>
    (\<forall>n \<le> length xs. \<forall>rest. adpcm_decoder (bs @ rest) n st = Some (pack_run (run_of (take n xs) st)))"
proof -
  let ?c = "coder_loop (map sint xs) (sint (valprev st)) (uint (index st)) (step_of (uint (index st))) True 0"
  have ok: "unat (index st) < 89" using assms by (simp add: adpcm_state_ok_def)
  have "adpcm_coder xs (length xs) st = Some (fst ?c, snd (pack_run (run_of xs st)))"
    using ok coder_loop_state [of "map sint xs"]
    by (simp add: adpcm_coder_def Let_def case_prod_unfold pack_run_def run_of_def)
  moreover have "length (fst ?c) = (length xs + 1) div 2"
    using length_coder_loop [of "map sint xs"] by simp
  moreover have "adpcm_decoder (fst ?c @ rest) n st = Some (pack_run (run_of (take n xs) st))"
    if "n \<le> length xs" for n rest
    using ok lockstep(1) [of n "map sint xs"] that
    by (simp add: adpcm_decoder_def Let_def case_prod_unfold pack_run_def run_of_def take_map)
  ultimately show ?thesis by blast
qed

lemma run_of_ok:
  assumes "adpcm_state_ok st" "run_of xs st = (ps, vp, i)"
  shows "codec_ok vp i" "length ps = length xs" "\<forall>p\<in>set ps. -32768 \<le> p \<and> p \<le> 32767"
  using coder_run_ok [OF codec_ok_state [OF assms(1)] refl assms(2) [unfolded run_of_def]] by simp_all

lemma pack_run_ok:
  assumes "adpcm_state_ok st"
  shows "adpcm_state_ok (snd (pack_run (run_of xs st)))" "length (fst (pack_run (run_of xs st))) = length xs"
proof -
  obtain ps vp i where r: "run_of xs st = (ps, vp, i)" by (metis prod_cases3)
  have "unat (word_of_int i :: u8) \<le> 88"
    using run_of_ok(1) [OF assms r] uint_of_int_u8 [of i] unfolding unat_le_iff_uint codec_ok_def by simp
  then show "adpcm_state_ok (snd (pack_run (run_of xs st)))" "length (fst (pack_run (run_of xs st))) = length xs"
    using run_of_ok(2) [OF assms r] by (simp_all add: adpcm_state_ok_def pack_run_def r)
qed

text \<open>
  C15: the decoder stays in step with the coder. From a valid state, the coder packs the samples
  into half as many bytes, the decoder reads the same number of samples back out of them, and
  both end in the same valid state, so that consecutive packets can be coded and decoded
  independently.
\<close>

theorem adpcm_in_step:
  assumes "adpcm_state_ok st"
  shows "\<exists>bs ys st'. adpcm_coder xs (length xs) st = Some (bs, st') \<and> length bs = (length xs + 1) div 2 \<and>
    adpcm_decoder (bs @ rest) (length xs) st = Some (ys, st') \<and> length ys = length xs \<and> adpcm_state_ok st'"
proof -
  obtain bs where bs: "adpcm_coder xs (length xs) st = Some (bs, snd (pack_run (run_of xs st)))"
    "length bs = (length xs + 1) div 2"
    "adpcm_decoder (bs @ rest) (length xs) st = Some (pack_run (run_of xs st))"
    using adpcm_coder_run [OF assms, of xs] by fastforce
  with pack_run_ok [OF assms, of xs] show ?thesis by (metis prod.collapse)
qed

theorem adpcm_in_step_witness:
  "\<exists>bs ys st'. adpcm_coder [100, 200, 1000] (length [100, 200, 1000 :: u16]) \<lparr>valprev = 0, index = 0\<rparr> = Some (bs, st') \<and>
    length bs = (length [100, 200, 1000 :: u16] + 1) div 2 \<and>
    adpcm_decoder (bs @ []) (length [100, 200, 1000 :: u16]) \<lparr>valprev = 0, index = 0\<rparr> = Some (ys, st') \<and>
    length ys = length [100, 200, 1000 :: u16] \<and> adpcm_state_ok st'"
  by (rule adpcm_in_step) (simp add: adpcm_state_ok_def)

text \<open>
  C37: the quantisation error of the codec. If the next sample is less than two steps away from
  the last decoded value, the value decoded for it is within an eighth of the step plus 2 of
  the sample. The step is the one of the decoder's state after the samples before it.
\<close>

theorem adpcm_error:
  assumes "adpcm_state_ok st" "adpcm_coder xs (length xs) st = Some (bs, st')" "k < length xs"
    and "adpcm_decoder bs k st = Some (ys, stk)" "adpcm_decoder bs (Suc k) st = Some (zs, stk')"
    and "\<bar>sint (xs ! k) - sint (valprev stk)\<bar> < 2 * step_of (uint (index stk))"
  shows "\<bar>sint (xs ! k) - sint (zs ! k)\<bar> \<le> step_of (uint (index stk)) div 8 + 2"
proof -
  obtain ps vp i where r: "run_of (take k xs) st = (ps, vp, i)" by (metis prod_cases3)
  obtain d vp2 i2 s2 where c: "coder_step vp i (step_of i) (sint (xs ! k)) = (d, vp2, i2, s2)"
    by (metis prod_cases4)
  have r2: "run_of (take (Suc k) xs) st = (ps @ [vp2], vp2, i2)"
    using coder_run_snoc [OF r [unfolded run_of_def] c] assms(3)
    by (simp add: run_of_def take_Suc_conv_app_nth)
  obtain cs where "adpcm_coder xs (length xs) st = Some (cs, snd (pack_run (run_of xs st)))"
    and dec: "\<forall>n \<le> length xs. \<forall>rest. adpcm_decoder (cs @ rest) n st = Some (pack_run (run_of (take n xs) st))"
    using adpcm_coder_run [OF assms(1), of xs] by blast
  with assms(2) have "cs = bs" by simp
  then have "adpcm_decoder bs k st = Some (pack_run (ps, vp, i))"
    "adpcm_decoder bs (Suc k) st = Some (pack_run (ps @ [vp2], vp2, i2))"
    using dec [rule_format, of k "[]"] dec [rule_format, of "Suc k" "[]"] assms(3) by (simp_all add: r r2)
  with assms(4,5) have out: "stk = \<lparr>valprev = word_of_int vp, index = word_of_int i\<rparr>"
    "zs = map word_of_int (ps @ [vp2])"
    by (simp_all add: pack_run_def)
  have ok: "codec_ok vp i" "codec_ok vp2 i2" "length ps = k"
    using run_of_ok [OF assms(1) r] run_of_ok [OF assms(1) r2] assms(3) by simp_all
  then have "sint (valprev stk) = vp" "uint (index stk) = i" "sint (zs ! k) = vp2"
    by (simp_all add: out codec_ok_def sint_of_int_u16 uint_of_int_u8 nth_append)
  then show ?thesis
    using coder_step_error [OF c sint_u16_bounds] assms(6) by simp
qed

theorem adpcm_error_witness:
  "\<bar>sint (10 :: u16) - sint (the (map_option (\<lambda>r. fst r ! 0)
      (adpcm_decoder [0x60] 1 \<lparr>valprev = 0, index = 0\<rparr>)))\<bar> \<le> step_of 0 div 8 + 2"
proof -
  let ?st = "\<lparr>valprev = 0, index = 0\<rparr>"
  have "adpcm_coder [10] 1 ?st = Some ([0x60], \<lparr>valprev = 10, index = 6\<rparr>)"
    "adpcm_decoder [0x60] 0 ?st = Some ([], ?st)"
    "adpcm_decoder [0x60] 1 ?st = Some ([10], \<lparr>valprev = 10, index = 6\<rparr>)" by code_simp+
  then show ?thesis
    using adpcm_error [of ?st "[10]" "[0x60]" "\<lparr>valprev = 10, index = 6\<rparr>" 0 "[]" ?st "[10]"]
    by (simp add: adpcm_state_ok_def stepsizeTable_def)
qed

end
