(* ===== verification/Stream_Hash.thy ===== *)
theory Stream_Hash
  imports C_Library
begin

text \<open>
  The interface of an incremental hash: a context is initialised, fed with pieces of a message
  and finalised. The contract relates a context to the bytes it has absorbed; what a client gets
  is that the digest does not depend on how the message was cut into pieces.
\<close>

fun feed :: "('c \<Rightarrow> 'p \<Rightarrow> 'c option) \<Rightarrow> 'c \<Rightarrow> 'p list \<Rightarrow> 'c option" where
  "feed update c [] = Some c"
| "feed update c (p # ps) = do { c \<leftarrow> update c p; feed update c ps }"

locale stream_hash =
  fixes init :: "'c \<Rightarrow> 'c"
    and update :: "'c \<Rightarrow> bytes \<Rightarrow> 'c option"
    and final :: "'c \<Rightarrow> bytes option"
    and fresh :: "'c \<Rightarrow> bool"
    and piece_ok :: "bytes \<Rightarrow> bool"
    and holds :: "'c \<Rightarrow> bytes \<Rightarrow> bool"
    and digest :: "bytes \<Rightarrow> bytes"
  assumes holds_init: "fresh c \<Longrightarrow> holds (init c) []"
    and holds_update: "holds c m \<Longrightarrow> piece_ok p \<Longrightarrow> \<exists>c'. update c p = Some c' \<and> holds c' (m @ p)"
    and final_digest: "holds c m \<Longrightarrow> final c = Some (digest m)"
begin

lemma holds_feed:
  "holds c m \<Longrightarrow> \<forall>p\<in>set ps. piece_ok p \<Longrightarrow> \<exists>c'. feed update c ps = Some c' \<and> holds c' (m @ concat ps)"
proof (induction ps arbitrary: c m)
  case (Cons p ps)
  obtain c' where "update c p = Some c'" "holds c' (m @ p)"
    using holds_update Cons.prems by fastforce
  with Cons.IH [of c' "m @ p"] Cons.prems show ?case by auto
qed simp

lemma pieces_do_not_matter:
  assumes "fresh c" "\<forall>p\<in>set ps. piece_ok p"
  shows "do { c \<leftarrow> feed update (init c) ps; final c } = Some (digest (concat ps))"
  using holds_feed [OF holds_init [OF assms(1)] assms(2)] final_digest by fastforce

end

end
