(* ===== verification/Rfc1321.thy ===== *)
theory Rfc1321
  imports C_Library
begin

text \<open>
  The MD5 message digest as RFC 1321 defines it, apart from any implementation: the auxiliary functions, the table, the
  operation \<open>[abcd k s i]\<close> with the schedule of \<open>k\<close>, \<open>s\<close> and \<open>i\<close> in the four rounds, the padding and the order of the
  bytes (sections 2 and 3 of the document). Rotation is \<^const>\<open>word_rotl\<close> of the library.
\<close>

subsection \<open>Bytes, words and blocks\<close>

text \<open>Words are four bytes with the low-order byte first.\<close>

definition rfc_word :: "bytes \<Rightarrow> u32" where
  "rfc_word bs = of_nat (\<Sum>j<4. unat (bs ! j) * 256 ^ j)"

definition rfc_words :: "bytes \<Rightarrow> u32 list" where
  "rfc_words block = map (\<lambda>i. rfc_word (take 4 (drop (4 * i) block))) [0..<16]"

definition rfc_bytes :: "nat \<Rightarrow> nat \<Rightarrow> bytes" where
  "rfc_bytes n x = map (\<lambda>i. of_nat (x div 256 ^ i)) [0..<n]"

function blocks64 :: "bytes \<Rightarrow> bytes list" where
  "blocks64 xs = (if length xs < 64 then [] else take 64 xs # blocks64 (drop 64 xs))"
  by pat_completeness auto
termination
  by (relation "measure length") auto

declare blocks64.simps [simp del]

subsection \<open>Padding\<close>

text \<open>A single one bit, zeros up to 56 bytes modulo 64, and the number of bits in 64 bits.\<close>

definition rfc_padding :: "bytes \<Rightarrow> bytes" where
  "rfc_padding m = m @ 0x80 # replicate ((119 - length m mod 64) mod 64) 0 @ rfc_bytes 8 (8 * length m)"

lemma length_rfc_padding: "64 dvd length (rfc_padding m)"
proof -
  define q r where "q = length m div 64" and "r = length m mod 64"
  have m: "length m = 64 * q + r" "r < 64" by (simp_all add: q_def r_def)
  have "r + (119 - r) mod 64 + 9 = 64 \<or> r + (119 - r) mod 64 + 9 = 128"
  proof (cases "r \<le> 55")
    case True
    then have "(119 - r) mod 64 = 55 - r" by (simp add: le_mod_geq)
    then show ?thesis using True by simp
  next
    case False
    then show ?thesis using m(2) by simp
  qed
  moreover have "length (rfc_padding m) = 64 * q + (r + (119 - r) mod 64 + 9)"
    unfolding r_def by (simp add: rfc_padding_def rfc_bytes_def q_def)
  ultimately show ?thesis by auto
qed

subsection \<open>The transformation\<close>

definition rfc_table :: "u32 list" where
  "rfc_table = [
     0xd76aa478, 0xe8c7b756, 0x242070db, 0xc1bdceee,
     0xf57c0faf, 0x4787c62a, 0xa8304613, 0xfd469501,
     0x698098d8, 0x8b44f7af, 0xffff5bb1, 0x895cd7be,
     0x6b901122, 0xfd987193, 0xa679438e, 0x49b40821,
     0xf61e2562, 0xc040b340, 0x265e5a51, 0xe9b6c7aa,
     0xd62f105d, 0x02441453, 0xd8a1e681, 0xe7d3fbc8,
     0x21e1cde6, 0xc33707d6, 0xf4d50d87, 0x455a14ed,
     0xa9e3e905, 0xfcefa3f8, 0x676f02d9, 0x8d2a4c8a,
     0xfffa3942, 0x8771f681, 0x6d9d6122, 0xfde5380c,
     0xa4beea44, 0x4bdecfa9, 0xf6bb4b60, 0xbebfbc70,
     0x289b7ec6, 0xeaa127fa, 0xd4ef3085, 0x04881d05,
     0xd9d4d039, 0xe6db99e5, 0x1fa27cf8, 0xc4ac5665,
     0xf4292244, 0x432aff97, 0xab9423a7, 0xfc93a039,
     0x655b59c3, 0x8f0ccc92, 0xffeff47d, 0x85845dd1,
     0x6fa87e4f, 0xfe2ce6e0, 0xa3014314, 0x4e0811a1,
     0xf7537e82, 0xbd3af235, 0x2ad7d2bb, 0xeb86d391]"

definition rfc_fun :: "nat \<Rightarrow> u32 \<Rightarrow> u32 \<Rightarrow> u32 \<Rightarrow> u32" where
  "rfc_fun i x y z =
     (if i < 16 then (x AND y) OR (NOT x AND z)
      else if i < 32 then (x AND z) OR (y AND NOT z)
      else if i < 48 then x XOR y XOR z
      else y XOR (x OR NOT z))"

definition rfc_index :: "nat \<Rightarrow> nat" where
  "rfc_index i =
     (if i < 16 then i else if i < 32 then (1 + 5 * i) mod 16 else if i < 48 then (5 + 3 * i) mod 16 else 7 * i mod 16)"

definition rfc_shift :: "nat \<Rightarrow> nat" where
  "rfc_shift i = [[7, 12, 17, 22], [5, 9, 14, 20], [4, 11, 16, 23], [6, 10, 15, 21]] ! (i div 16) ! (i mod 4)"

definition rfc_op :: "u32 list \<Rightarrow> nat \<Rightarrow> u32 \<Rightarrow> u32 \<Rightarrow> u32 \<Rightarrow> u32 \<Rightarrow> u32" where
  "rfc_op X i a b c d = b + word_rotl (rfc_shift i) (a + rfc_fun i b c d + X ! rfc_index i + rfc_table ! i)"

definition rfc_step :: "u32 list \<Rightarrow> u32 \<times> u32 \<times> u32 \<times> u32 \<Rightarrow> nat \<Rightarrow> u32 \<times> u32 \<times> u32 \<times> u32" where
  "rfc_step X = (\<lambda>(a, b, c, d) i. (d, rfc_op X i a b c d, b, c))"

definition rfc_block :: "u32 \<times> u32 \<times> u32 \<times> u32 \<Rightarrow> bytes \<Rightarrow> u32 \<times> u32 \<times> u32 \<times> u32" where
  "rfc_block = (\<lambda>(A, B, C, D) block.
     (let (a, b, c, d) = foldl (rfc_step (rfc_words block)) (A, B, C, D) [0..<64] in (A + a, B + b, C + c, D + d)))"

text \<open>The message digest: the initial buffer has the bytes \<open>01 23 45 67 89 ab cd ef fe dc ba 98 76 54 32 10\<close>.\<close>

definition rfc1321 :: "bytes \<Rightarrow> bytes" where
  "rfc1321 m =
     (let (A, B, C, D) = foldl rfc_block (0x67452301, 0xefcdab89, 0x98badcfe, 0x10325476) (blocks64 (rfc_padding m)) in
      concat (map (\<lambda>w. rfc_bytes 4 (unat w)) [A, B, C, D]))"

end
