(* ===== verification/Md5.thy ===== *)
theory Md5
  imports Stream_Hash Rfc1321
begin

text \<open>
  The MD5 implementation of the voice link (\<open>src/src/voice_comm/src/voice/lib/md5.c\<close>, \<open>md5.h\<close>),
  translated statement by statement: the sixty-four macro steps of the transformation, the
  incremental update with its 64-bit bit counter in two words, and the final padding.
  \<open>unsigned int\<close> arithmetic wraps at 32 bits; an access outside the input is \<^term>\<open>None\<close>.
\<close>

abbreviation (input) "S11 \<equiv> 7 :: nat"
abbreviation (input) "S12 \<equiv> 12 :: nat"
abbreviation (input) "S13 \<equiv> 17 :: nat"
abbreviation (input) "S14 \<equiv> 22 :: nat"
abbreviation (input) "S21 \<equiv> 5 :: nat"
abbreviation (input) "S22 \<equiv> 9 :: nat"
abbreviation (input) "S23 \<equiv> 14 :: nat"
abbreviation (input) "S24 \<equiv> 20 :: nat"
abbreviation (input) "S31 \<equiv> 4 :: nat"
abbreviation (input) "S32 \<equiv> 11 :: nat"
abbreviation (input) "S33 \<equiv> 16 :: nat"
abbreviation (input) "S34 \<equiv> 23 :: nat"
abbreviation (input) "S41 \<equiv> 6 :: nat"
abbreviation (input) "S42 \<equiv> 10 :: nat"
abbreviation (input) "S43 \<equiv> 15 :: nat"
abbreviation (input) "S44 \<equiv> 21 :: nat"

definition PADDING :: bytes where
  "PADDING = 0x80 # replicate 63 0"

definition F :: "u32 \<Rightarrow> u32 \<Rightarrow> u32 \<Rightarrow> u32" where
  "F x y z = (x AND y) OR (NOT x AND z)"

definition G :: "u32 \<Rightarrow> u32 \<Rightarrow> u32 \<Rightarrow> u32" where
  "G x y z = (x AND z) OR (y AND NOT z)"

definition H :: "u32 \<Rightarrow> u32 \<Rightarrow> u32 \<Rightarrow> u32" where
  "H x y z = x XOR y XOR z"

definition I :: "u32 \<Rightarrow> u32 \<Rightarrow> u32 \<Rightarrow> u32" where
  "I x y z = y XOR (x OR NOT z)"

definition ROTATE_LEFT :: "u32 \<Rightarrow> nat \<Rightarrow> u32" where
  "ROTATE_LEFT x n = push_bit n x OR drop_bit (32 - n) x"

definition FF :: "u32 \<Rightarrow> u32 \<Rightarrow> u32 \<Rightarrow> u32 \<Rightarrow> u32 \<Rightarrow> nat \<Rightarrow> u32 \<Rightarrow> u32" where
  "FF a b c d x s ac = ROTATE_LEFT (a + (F b c d + x + ac)) s + b"

definition GG :: "u32 \<Rightarrow> u32 \<Rightarrow> u32 \<Rightarrow> u32 \<Rightarrow> u32 \<Rightarrow> nat \<Rightarrow> u32 \<Rightarrow> u32" where
  "GG a b c d x s ac = ROTATE_LEFT (a + (G b c d + x + ac)) s + b"

definition HH :: "u32 \<Rightarrow> u32 \<Rightarrow> u32 \<Rightarrow> u32 \<Rightarrow> u32 \<Rightarrow> nat \<Rightarrow> u32 \<Rightarrow> u32" where
  "HH a b c d x s ac = ROTATE_LEFT (a + (H b c d + x + ac)) s + b"

definition II :: "u32 \<Rightarrow> u32 \<Rightarrow> u32 \<Rightarrow> u32 \<Rightarrow> u32 \<Rightarrow> nat \<Rightarrow> u32 \<Rightarrow> u32" where
  "II a b c d x s ac = ROTATE_LEFT (a + (I b c d + x + ac)) s + b"

definition Encode :: "u32 list \<Rightarrow> nat \<Rightarrow> bytes" where
  "Encode input len = concat (map (\<lambda>i.
     [ucast (input ! i AND 0xff), ucast (drop_bit 8 (input ! i) AND 0xff),
      ucast (drop_bit 16 (input ! i) AND 0xff), ucast (drop_bit 24 (input ! i) AND 0xff)]) [0..<len div 4])"

definition Decode :: "bytes \<Rightarrow> nat \<Rightarrow> u32 list" where
  "Decode input len = map (\<lambda>i. ucast (input ! (4 * i)) OR push_bit 8 (ucast (input ! (4 * i + 1))) OR
     push_bit 16 (ucast (input ! (4 * i + 2))) OR push_bit 24 (ucast (input ! (4 * i + 3)))) [0..<len div 4]"

definition MD5Transform :: "u32 list \<Rightarrow> bytes \<Rightarrow> u32 list" where
  "MD5Transform state block =
     (let a = state ! 0; b = state ! 1; c = state ! 2; d = state ! 3;
          x = Decode block 64;
          a = FF a b c d (x ! 0) S11 0xd76aa478;
          d = FF d a b c (x ! 1) S12 0xe8c7b756;
          c = FF c d a b (x ! 2) S13 0x242070db;
          b = FF b c d a (x ! 3) S14 0xc1bdceee;
          a = FF a b c d (x ! 4) S11 0xf57c0faf;
          d = FF d a b c (x ! 5) S12 0x4787c62a;
          c = FF c d a b (x ! 6) S13 0xa8304613;
          b = FF b c d a (x ! 7) S14 0xfd469501;
          a = FF a b c d (x ! 8) S11 0x698098d8;
          d = FF d a b c (x ! 9) S12 0x8b44f7af;
          c = FF c d a b (x ! 10) S13 0xffff5bb1;
          b = FF b c d a (x ! 11) S14 0x895cd7be;
          a = FF a b c d (x ! 12) S11 0x6b901122;
          d = FF d a b c (x ! 13) S12 0xfd987193;
          c = FF c d a b (x ! 14) S13 0xa679438e;
          b = FF b c d a (x ! 15) S14 0x49b40821;
          a = GG a b c d (x ! 1) S21 0xf61e2562;
          d = GG d a b c (x ! 6) S22 0xc040b340;
          c = GG c d a b (x ! 11) S23 0x265e5a51;
          b = GG b c d a (x ! 0) S24 0xe9b6c7aa;
          a = GG a b c d (x ! 5) S21 0xd62f105d;
          d = GG d a b c (x ! 10) S22 0x2441453;
          c = GG c d a b (x ! 15) S23 0xd8a1e681;
          b = GG b c d a (x ! 4) S24 0xe7d3fbc8;
          a = GG a b c d (x ! 9) S21 0x21e1cde6;
          d = GG d a b c (x ! 14) S22 0xc33707d6;
          c = GG c d a b (x ! 3) S23 0xf4d50d87;
          b = GG b c d a (x ! 8) S24 0x455a14ed;
          a = GG a b c d (x ! 13) S21 0xa9e3e905;
          d = GG d a b c (x ! 2) S22 0xfcefa3f8;
          c = GG c d a b (x ! 7) S23 0x676f02d9;
          b = GG b c d a (x ! 12) S24 0x8d2a4c8a;
          a = HH a b c d (x ! 5) S31 0xfffa3942;
          d = HH d a b c (x ! 8) S32 0x8771f681;
          c = HH c d a b (x ! 11) S33 0x6d9d6122;
          b = HH b c d a (x ! 14) S34 0xfde5380c;
          a = HH a b c d (x ! 1) S31 0xa4beea44;
          d = HH d a b c (x ! 4) S32 0x4bdecfa9;
          c = HH c d a b (x ! 7) S33 0xf6bb4b60;
          b = HH b c d a (x ! 10) S34 0xbebfbc70;
          a = HH a b c d (x ! 13) S31 0x289b7ec6;
          d = HH d a b c (x ! 0) S32 0xeaa127fa;
          c = HH c d a b (x ! 3) S33 0xd4ef3085;
          b = HH b c d a (x ! 6) S34 0x4881d05;
          a = HH a b c d (x ! 9) S31 0xd9d4d039;
          d = HH d a b c (x ! 12) S32 0xe6db99e5;
          c = HH c d a b (x ! 15) S33 0x1fa27cf8;
          b = HH b c d a (x ! 2) S34 0xc4ac5665;
          a = II a b c d (x ! 0) S41 0xf4292244;
          d = II d a b c (x ! 7) S42 0x432aff97;
          c = II c d a b (x ! 14) S43 0xab9423a7;
          b = II b c d a (x ! 5) S44 0xfc93a039;
          a = II a b c d (x ! 12) S41 0x655b59c3;
          d = II d a b c (x ! 3) S42 0x8f0ccc92;
          c = II c d a b (x ! 10) S43 0xffeff47d;
          b = II b c d a (x ! 1) S44 0x85845dd1;
          a = II a b c d (x ! 8) S41 0x6fa87e4f;
          d = II d a b c (x ! 15) S42 0xfe2ce6e0;
          c = II c d a b (x ! 6) S43 0xa3014314;
          b = II b c d a (x ! 13) S44 0x4e0811a1;
          a = II a b c d (x ! 4) S41 0xf7537e82;
          d = II d a b c (x ! 11) S42 0xbd3af235;
          c = II c d a b (x ! 2) S43 0x2ad7d2bb;
          b = II b c d a (x ! 9) S44 0xeb86d391
      in [state ! 0 + a, state ! 1 + b, state ! 2 + c, state ! 3 + d])"

record MD5_CTX =
  count :: "u32 list"
  state :: "u32 list"
  buffer :: bytes

definition MD5Init :: "MD5_CTX \<Rightarrow> MD5_CTX" where
  "MD5Init context = context\<lparr>count := [0, 0],
     state := [0x67452301, 0xefcdab89, 0x98badcfe, 0x10325476]\<rparr>"

text \<open>The loop over whole blocks of the input; \<open>i + 63\<close> is computed in 32 bits.\<close>

function update_loop :: "u32 list \<Rightarrow> bytes \<Rightarrow> u32 \<Rightarrow> nat \<Rightarrow> (u32 list \<times> nat) option" where
  "update_loop st input inputLen i =
     (if of_nat i + 63 < inputLen
      then if i + 64 \<le> length input
           then update_loop (MD5Transform st (take 64 (drop i input))) input inputLen (i + 64)
           else None
      else Some (st, i))"
  by pat_completeness auto
termination
  by (relation "measure (\<lambda>(st, input, n, i). length input - i)") auto

declare update_loop.simps [simp del]

definition count_bits :: "u32 list \<Rightarrow> u32 \<Rightarrow> u32 list" where
  "count_bits cnt inputLen =
     (let c0 = cnt ! 0 + push_bit 3 inputLen;
          c1 = (if c0 < push_bit 3 inputLen then cnt ! 1 + 1 else cnt ! 1)
      in [c0, c1 + drop_bit 29 inputLen])"

definition MD5Update :: "MD5_CTX \<Rightarrow> bytes \<Rightarrow> u32 \<Rightarrow> MD5_CTX option" where
  "MD5Update context input inputLen =
     (let idx = unat (drop_bit 3 (count context ! 0) AND 0x3F);
          n = unat inputLen;
          context = context\<lparr>count := count_bits (count context) inputLen\<rparr>;
          partLen = 64 - idx
      in if length input < n then None
         else if n \<ge> partLen
         then do {
           let buf = overwrite idx (take partLen input) (buffer context);
           (st, i) \<leftarrow> update_loop (MD5Transform (state context) buf) input inputLen partLen;
           Some (context\<lparr>state := st, buffer := overwrite 0 (take (n - i) (drop i input)) buf\<rparr>)
         }
         else Some (context\<lparr>buffer := overwrite idx (take n input) (buffer context)\<rparr>))"

text \<open>The digest; the context is cleared afterwards.\<close>

definition MD5Final :: "MD5_CTX \<Rightarrow> (bytes \<times> MD5_CTX) option" where
  "MD5Final context =
     do {
       let bits = Encode (count context) 8;
       let idx = unat (drop_bit 3 (count context ! 0) AND 0x3f);
       let padLen = (if idx < 56 then 56 - idx else 120 - idx);
       context \<leftarrow> MD5Update context PADDING (of_nat padLen);
       context \<leftarrow> MD5Update context bits 8;
       Some (Encode (state context) 16,
             \<lparr>count = [0, 0], state = [0, 0, 0, 0], buffer = replicate 64 0\<rparr>)
     }"

subsection \<open>The digest of a whole message\<close>

text \<open>The padding of \<open>MD5Final\<close>, and the transformation over the blocks of a padded message.\<close>

abbreviation IV :: "u32 list" where
  "IV \<equiv> [0x67452301, 0xefcdab89, 0x98badcfe, 0x10325476]"

definition hash_blocks :: "u32 list \<Rightarrow> bytes \<Rightarrow> u32 list" where
  "hash_blocks st xs = foldl MD5Transform st (blocks64 xs)"

definition pad_len :: "nat \<Rightarrow> nat" where
  "pad_len n = (if n mod 64 < 56 then 56 - n mod 64 else 120 - n mod 64)"

definition md5_pad :: "bytes \<Rightarrow> bytes" where
  "md5_pad m = m @ 0x80 # replicate (pad_len (length m) - 1) 0 @ rfc_bytes 8 (8 * length m)"

definition md5_digest :: "bytes \<Rightarrow> bytes" where
  "md5_digest m = Encode (hash_blocks IV (md5_pad m)) 16"

subsection \<open>The transformation of RFC 1321\<close>

lemma ROTATE_LEFT_rotl:
  assumes "0 < n" "n < 32"
  shows "ROTATE_LEFT x n = word_rotl n x"
proof (rule bit_word_eqI)
  fix j assume j: "j < LENGTH(32)"
  show "bit (ROTATE_LEFT x n) j = bit (word_rotl n x) j"
  proof (cases "n \<le> j")
    case True
    have "(j + (32 - n)) mod 32 = j - n"
    proof -
      have "j + (32 - n) = (j - n) + 32" using True assms by simp
      then show ?thesis using j by (simp only: mod_add_self2) simp
    qed
    then show ?thesis using j assms True
      by (auto simp: ROTATE_LEFT_def bit_simps bit_word_rotl_iff dest: bit_imp_le_length)
  next
    case False
    then have "j + 32 - n < 32" using assms by simp
    then show ?thesis using j assms False
      by (auto simp: ROTATE_LEFT_def bit_simps bit_word_rotl_iff add.commute [of 32 j])
  qed
qed

lemma rfc_shift_bounds: "i < 64 \<Longrightarrow> 0 < rfc_shift i \<and> rfc_shift i < 32"
proof -
  assume "i < 64"
  moreover have "list_all (\<lambda>i. 0 < rfc_shift i \<and> rfc_shift i < 32) [0..<64]" by code_simp
  ultimately show ?thesis by (simp add: list_all_iff)
qed

definition round_function :: "nat \<Rightarrow> u32 \<Rightarrow> u32 \<Rightarrow> u32 \<Rightarrow> u32 \<Rightarrow> u32 \<Rightarrow> nat \<Rightarrow> u32 \<Rightarrow> u32" where
  "round_function i = (if i < 16 then FF else if i < 32 then GG else if i < 48 then HH else II)"

lemma rfc_op_round:
  assumes "i < 64"
  shows "rfc_op X i a b c d = round_function i a b c d (X ! rfc_index i) (rfc_shift i) (rfc_table ! i)"
  using ROTATE_LEFT_rotl rfc_shift_bounds [OF assms]
  by (simp add: rfc_op_def round_function_def rfc_fun_def FF_def GG_def HH_def II_def F_def G_def H_def I_def ac_simps)

definition round_data :: "((u32 \<Rightarrow> u32 \<Rightarrow> u32 \<Rightarrow> u32 \<Rightarrow> u32 \<Rightarrow> nat \<Rightarrow> u32 \<Rightarrow> u32) \<times> nat \<times> nat \<times> u32) list" where
  "round_data = map (\<lambda>i. (round_function i, rfc_index i, rfc_shift i, rfc_table ! i)) [0..<64]"

definition round_step where
  "round_step X = (\<lambda>(a, b, c, d) (f, k, s, t). (d, f a b c d (X ! k) s t :: u32, b :: u32, c :: u32))"

lemma foldl_round_data: "foldl (rfc_step X) s [0..<64] = foldl (round_step X) s round_data"
proof -
  have "foldl (rfc_step X) s is = foldl (round_step X) s (map (\<lambda>i. (round_function i, rfc_index i, rfc_shift i, rfc_table ! i)) is)"
    if "list_all (\<lambda>i. i < 64) is" for "is"
    using that
  proof (induction "is" arbitrary: s)
    case (Cons i "is")
    have "rfc_step X s i = round_step X s (round_function i, rfc_index i, rfc_shift i, rfc_table ! i)"
      using Cons.prems by (cases s) (simp add: rfc_step_def round_step_def rfc_op_round)
    then show ?case using Cons by simp
  qed simp
  then show ?thesis by (simp add: round_data_def list_all_iff)
qed

lemma foldl_let:
  "(case foldl (round_step X) (a, b, c, d) ((f, k, s, t) # is) of (a, b, c, d) \<Rightarrow> P a b c d) =
   (let b' = f a b c d (X ! k) s t in case foldl (round_step X) (d, b', b, c) is of (a, b, c, d) \<Rightarrow> P a b c d)"
  "(case foldl (round_step X) (a, b, c, d) [] of (a, b, c, d) \<Rightarrow> P a b c d) = P a b c d"
  by (simp_all add: round_step_def)

lemma upto64: "[0..<64] = [0, 1, 2, 3, 4, 5, 6, 7, 8, 9, 10, 11, 12, 13, 14, 15, 16, 17, 18, 19, 20, 21, 22, 23, 24, 25, 26, 27, 28, 29, 30, 31, 32, 33, 34, 35, 36, 37, 38, 39, 40, 41, 42, 43, 44, 45, 46, 47, 48, 49, 50, 51, 52, 53, 54, 55, 56, 57, 58, 59, 60, 61, 62, 63 :: nat]"
  by (simp add: upt_rec)

lemmas round_list = round_data_def [unfolded upto64 list.map, simplified round_function_def rfc_index_def rfc_shift_def rfc_table_def, simplified]

lemma sum4: "(\<Sum>j<4. f j) = f 0 + f 1 + f 2 + f (3 :: nat)" for f :: "nat \<Rightarrow> nat"
  by (simp add: numeral_eq_Suc)

lemma rfc_word_or:
  assumes "length bs = 4"
  shows "rfc_word bs = ucast (bs ! 0) OR push_bit 8 (ucast (bs ! 1)) OR push_bit 16 (ucast (bs ! 2)) OR push_bit 24 (ucast (bs ! 3))"
proof -
  have part: "push_bit n (ucast (x :: u8)) = (of_nat (unat x * 2 ^ n) :: u32)" for n x
    by (simp add: push_bit_eq_mult)
  have add: "x + push_bit k y = x OR push_bit k y" if "\<And>n. k \<le> n \<Longrightarrow> \<not> bit x n" for x y :: u32 and k
    by (rule disjunctive_add) (use that in \<open>auto simp: bit_simps\<close>)
  have small: "8 \<le> n \<Longrightarrow> \<not> bit (x :: u8) n" for x n using bit_imp_le_length [of x n] by auto
  let ?p = "\<lambda>k i. push_bit k (ucast (bs ! i)) :: u32"
  let ?a = "ucast (bs ! 0) :: u32"
  have "?a + ?p 8 1 = ?a OR ?p 8 1" by (rule add) (simp add: bit_simps small)
  moreover have "(?a OR ?p 8 1) + ?p 16 2 = (?a OR ?p 8 1) OR ?p 16 2" by (rule add) (simp add: bit_simps small)
  moreover have "(?a OR ?p 8 1 OR ?p 16 2) + ?p 24 3 = (?a OR ?p 8 1 OR ?p 16 2) OR ?p 24 3"
    by (rule add) (simp add: bit_simps small)
  ultimately have "?a OR ?p 8 1 OR ?p 16 2 OR ?p 24 3 = ((?a + ?p 8 1) + ?p 16 2) + ?p 24 3"
    by (simp only: or.assoc)
  also have "\<dots> = rfc_word bs"
    using part [of 0] by (simp add: part sum4 rfc_word_def)
  finally show ?thesis by simp
qed

lemma decode_words: "length block = 64 \<Longrightarrow> Decode block 64 = rfc_words block"
  by (simp add: Decode_def rfc_words_def rfc_word_or)

lemma transform_foldl:
  assumes "length block = 64"
  shows "MD5Transform st block = (case foldl (round_step (rfc_words block)) (st ! 0, st ! 1, st ! 2, st ! 3) round_data of
    (a, b, c, d) \<Rightarrow> [st ! 0 + a, st ! 1 + b, st ! 2 + c, st ! 3 + d])"
  unfolding MD5Transform_def decode_words [OF assms] One_nat_def Let_def [of "st ! i" for i] Let_def [of "rfc_words block"] 
   round_list foldl_let
  by (rule refl)

lemma transform_rfc:
  assumes "length block = 64" "rfc_block (A, B, C, D) block = (a, b, c, d)"
  shows "MD5Transform [A, B, C, D] block = [a, b, c, d]"
  using assms(2) unfolding transform_foldl [OF assms(1)]
  by (auto simp: rfc_block_def foldl_round_data split: prod.splits)

lemma blocks_rfc:
  "\<forall>x\<in>set xs. length x = 64 \<Longrightarrow> foldl rfc_block (A, B, C, D) xs = (a, b, c, d) \<Longrightarrow> foldl MD5Transform [A, B, C, D] xs = [a, b, c, d]"
proof (induction xs arbitrary: A B C D)
  case (Cons x xs)
  obtain A1 B1 C1 D1 where "rfc_block (A, B, C, D) x = (A1, B1, C1, D1)" by (metis prod.collapse)
  with Cons transform_rfc [of x A B C D A1 B1 C1 D1] show ?case by simp
qed simp

lemma blocks64_length: "x \<in> set (blocks64 xs) \<Longrightarrow> length x = 64"
proof (induction xs rule: blocks64.induct)
  case (1 xs)
  then show ?case by (subst (asm) (2) blocks64.simps) (auto split: if_splits)
qed

lemma and_ff: "(x :: u32) AND 0xff = take_bit 8 x"
  by (simp add: take_bit_eq_mask mask_eq_exp_minus_1)

lemma byte_of_word:
  assumes "n \<le> 24"
  shows "ucast (drop_bit n (of_nat x :: u32) AND 0xff) = (of_nat (x div 2 ^ n) :: u8)"
proof (rule bit_word_eqI)
  fix j assume "j < LENGTH(8)"
  then show "bit (ucast (drop_bit n (of_nat x :: u32) AND 0xff) :: u8) j = bit (of_nat (x div 2 ^ n) :: u8) j"
    using assms unfolding and_ff
    by (auto simp: bit_simps drop_bit_eq_div [where 'a = nat, symmetric])
qed

lemma upto4: "[0..<4] = [0, 1, 2, 3 :: nat]"
  by (simp add: upt_rec)

lemma encode_word:
  "[ucast (w AND 0xff), ucast (drop_bit 8 w AND 0xff), ucast (drop_bit 16 w AND 0xff), ucast (drop_bit 24 w AND 0xff)] =
     rfc_bytes 4 (unat (w :: u32))"
  using byte_of_word [of 0 "unat w"] byte_of_word [of 8 "unat w"] byte_of_word [of 16 "unat w"] byte_of_word [of 24 "unat w"]
  by (simp add: rfc_bytes_def upto4)

lemma pad_rfc: "md5_pad m = rfc_padding m"
proof -
  define r where "r = length m mod 64"
  have "r < 64" by (simp add: r_def)
  moreover have "(119 - r) mod 64 = 55 - r" if "r < 56" using that by (simp add: le_mod_geq)
  ultimately have "pad_len (length m) - 1 = (119 - r) mod 64" by (simp add: pad_len_def r_def [symmetric])
  then show ?thesis by (simp add: md5_pad_def rfc_padding_def rfc_bytes_def r_def)
qed

lemma digest_rfc: "md5_digest m = rfc1321 m"
proof -
  obtain a b c d where r: "foldl rfc_block (0x67452301, 0xefcdab89, 0x98badcfe, 0x10325476) (blocks64 (rfc_padding m)) = (a, b, c, d)"
    by (metis prod.collapse)
  have "hash_blocks IV (md5_pad m) = [a, b, c, d]"
    using blocks_rfc [OF _ r] blocks64_length unfolding hash_blocks_def pad_rfc by blast
  then show ?thesis
    by (simp add: md5_digest_def rfc1321_def r Encode_def encode_word [symmetric] upto4)
qed

subsection \<open>Blocks\<close>

lemma blocks64_short: "length xs < 64 \<Longrightarrow> blocks64 xs = []"
  by (simp add: blocks64.simps)

lemma blocks64_cons: "length x = 64 \<Longrightarrow> blocks64 (x @ xs) = x # blocks64 xs"
  by (subst blocks64.simps) simp

lemma blocks64_append: "64 dvd length xs \<Longrightarrow> blocks64 (xs @ ys) = blocks64 xs @ blocks64 ys"
proof (induction xs rule: blocks64.induct)
  case (1 xs)
  show ?case
  proof (cases "xs = []")
    case True
    then show ?thesis by (simp add: blocks64_short)
  next
    case False
    with 1 have "64 \<le> length xs" by (auto dest: dvd_imp_le)
    moreover from this have "64 dvd length (drop 64 xs)" using "1.prems" by (simp add: dvd_diff_nat)
    ultimately show ?thesis
      using "1.IH" by (subst (1 2) blocks64.simps) simp
  qed
qed

lemma hash_blocks_append:
  "64 dvd length xs \<Longrightarrow> hash_blocks st (xs @ ys) = hash_blocks (hash_blocks st xs) ys"
  by (simp add: hash_blocks_def blocks64_append)

lemma hash_blocks_short: "length xs < 64 \<Longrightarrow> hash_blocks st xs = st"
  by (simp add: hash_blocks_def blocks64_short)

lemma hash_blocks_one: "length x = 64 \<Longrightarrow> hash_blocks st x = MD5Transform st x"
  using blocks64_cons [of x "[]"] by (simp add: hash_blocks_def blocks64_short)

lemma update_loop_run:
  assumes "unat len \<le> length input" "unat len + 64 < 2 ^ 32"
  shows "i \<le> unat len \<Longrightarrow> update_loop st input len i
    = Some (hash_blocks st (drop i (take (unat len) input)), i + 64 * ((unat len - i) div 64))"
  using assms
proof (induction st input len i rule: update_loop.induct)
  case (1 st input len i)
  have "i + 63 < 4294967296" using "1.prems" by simp
  then have "unat (of_nat i + 63 :: u32) = i + 63"
    using unat_of_nat_u32 [of "i + 63"] by simp
  then have guard: "of_nat i + 63 < len \<longleftrightarrow> i + 63 < unat len"
    by (simp add: word_less_nat_alt)
  show ?case
  proof (cases "i + 63 < unat len")
    case True
    let ?x = "take 64 (drop i input)" and ?r = "drop (i + 64) (take (unat len) input)"
    have "drop i (take (unat len) input) = ?x @ ?r"
    proof -
      have "take 64 (drop i (take (unat len) input)) = ?x" using True by (simp add: drop_take min_def)
      then show ?thesis
        using append_take_drop_id [of 64 "drop i (take (unat len) input)"] by (simp add: add.commute)
    qed
    moreover have "length ?x = 64" using True "1.prems" by simp
    ultimately have "hash_blocks st (drop i (take (unat len) input)) = hash_blocks (MD5Transform st ?x) ?r"
      by (simp add: hash_blocks_append hash_blocks_one)
    moreover have "64 + 64 * ((unat len - (i + 64)) div 64) = 64 * ((unat len - i) div 64)"
      using True div_add_self1 [of 64 "unat len - (i + 64)"] by simp
    ultimately show ?thesis
      using True guard "1.IH" "1.prems" by (subst update_loop.simps) simp
  next
    case False
    then show ?thesis
      using guard "1.prems" by (subst update_loop.simps) (simp add: hash_blocks_short)
  qed
qed

subsection \<open>The bit counter\<close>

definition bit_count :: "nat \<Rightarrow> u32 list" where
  "bit_count n = [of_nat (8 * n), of_nat (8 * n div 2 ^ 32)]"

lemma add_carry:
  fixes x y B :: nat
  assumes "0 < B"
  shows "(x + y) div B = x div B + y div B + (if (x + y) mod B < y mod B then 1 else 0)"
proof -
  let ?s = "x mod B + y mod B"
  have m: "(x + y) mod B = ?s mod B" by (simp add: mod_add_eq)
  have d: "(x + y) div B = x div B + y div B + ?s div B" by (rule div_add1_eq)
  have less: "x mod B < B" "y mod B < B" using assms by simp_all
  show ?thesis
  proof (cases "?s < B")
    case True
    then show ?thesis unfolding m d by simp
  next
    case False
    have "?s < 2 * B" using less by linarith
    with False have "?s div B = 1" "?s mod B = ?s - B"
      by (auto intro!: div_nat_eqI simp: le_mod_geq)
    moreover have "?s - B < y mod B" using less False by linarith
    ultimately show ?thesis unfolding m d by simp
  qed
qed

lemma count_bits_add:
  assumes "n < 2 ^ 32"
  shows "count_bits (bit_count l) (of_nat n) = bit_count (l + n)"
proof -
  have shift: "push_bit 3 (of_nat n :: u32) = of_nat (8 * n)"
    by (simp add: push_bit_eq_mult)
  have high: "drop_bit 29 (of_nat n :: u32) = of_nat (8 * n div 2 ^ 32)"
  proof -
    have "unat (drop_bit 29 (of_nat n :: u32)) = n div 2 ^ 29"
      using assms by (simp only: unat_drop_bit unat_of_nat_u32 power_numeral)
        (simp add: unat_of_nat_u32)
    moreover have "unat (of_nat (8 * n div 2 ^ 32) :: u32) = n div 2 ^ 29"
      using assms by (subst unat_of_nat_u32) simp_all
    ultimately show ?thesis by (metis word_unat_eq_iff)
  qed
  have low: "(of_nat (8 * l) + of_nat (8 * n) :: u32) = of_nat (8 * (l + n))" by (simp add: algebra_simps)
  have less: "(of_nat (8 * (l + n)) :: u32) < of_nat (8 * n) \<longleftrightarrow>
      (8 * l + 8 * n) mod 2 ^ 32 < 8 * n mod 2 ^ 32"
    by (simp only: word_less_nat_alt unsigned_of_nat take_bit_eq_mod distrib_left) simp
  have carry: "8 * (l + n) div 2 ^ 32 = 8 * l div 2 ^ 32 + 8 * n div 2 ^ 32 +
      (if (of_nat (8 * (l + n)) :: u32) < of_nat (8 * n) then 1 else 0)"
    unfolding less using add_carry [of "2 ^ 32" "8 * l" "8 * n"] by (simp add: distrib_left)
  show ?thesis
    unfolding count_bits_def bit_count_def shift high Let_def
    by (simp only: nth_Cons_0 low nth_Cons_Suc One_nat_def carry) (simp add: algebra_simps)
qed

lemma buffered_bytes: "unat (drop_bit 3 (of_nat (8 * l) :: u32) AND 0x3F) = l mod 64"
proof -
  have "unat (drop_bit 3 (of_nat (8 * l) :: u32)) = 8 * l mod 2 ^ 32 div 2 ^ 3"
    by (simp only: unat_drop_bit unsigned_of_nat take_bit_eq_mod) simp
  also have "\<dots> = l mod 2 ^ 29"
    using mod_mult_mult1 [of 8 l "2 ^ 29"] by simp
  finally have shift: "unat (drop_bit 3 (of_nat (8 * l) :: u32)) = l mod 2 ^ 29" .
  have "unat (x AND 0x3F) = unat x mod 64" for x :: u32
    using unat_and_mask [of x 6] by (simp add: mask_eq_exp_minus_1)
  then have "unat (drop_bit 3 (of_nat (8 * l) :: u32) AND 0x3F) = l mod 2 ^ 29 mod 64"
    by (simp only: shift)
  then show ?thesis by (simp only: mod_mod_cancel) (simp add: mod_mod_cancel)
qed

subsection \<open>What a context stands for\<close>

text \<open>After the bytes \<open>m\<close> the state holds the hash of the whole blocks, the buffer the rest and
  the counter the number of bits modulo $2^{64}$.\<close>

definition absorbed :: "MD5_CTX \<Rightarrow> bytes \<Rightarrow> bool" where
  "absorbed c m \<longleftrightarrow> length (buffer c) = 64 \<and> count c = bit_count (length m) \<and>
     (\<exists>a b. m = a @ b \<and> 64 dvd length a \<and> length b < 64 \<and>
        state c = hash_blocks IV a \<and> take (length b) (buffer c) = b)"

lemma absorbedI:
  assumes "m = a @ b" "64 dvd length a" "length b < 64" "state c = hash_blocks IV a"
    "take (length b) (buffer c) = b" "length (buffer c) = 64" "count c = bit_count (length m)"
  shows "absorbed c m"
  using assms unfolding absorbed_def by blast

lemma absorbed_init: "length (buffer c) = 64 \<Longrightarrow> absorbed (MD5Init c) []"
  by (simp add: absorbed_def MD5Init_def bit_count_def hash_blocks_short)

lemma absorbed_update_short:
  assumes "absorbed c m" "n \<le> length xs" "length m mod 64 + n < 64"
  shows "\<exists>c'. MD5Update c xs (of_nat n) = Some c' \<and> absorbed c' (m @ take n xs)"
proof -
  obtain a b where ab: "m = a @ b" "64 dvd length a" "length b < 64" "state c = hash_blocks IV a"
    "take (length b) (buffer c) = b" "length (buffer c) = 64" "count c = bit_count (length m)"
    using assms(1) by (auto simp: absorbed_def)
  have idx: "unat (drop_bit 3 (count c ! 0) AND 0x3F) = length b"
    using ab buffered_bytes [of "length m"] by (auto simp: bit_count_def elim!: dvdE)
  have n: "unat (of_nat n :: u32) = n" "length b + n < 64" "n < 2 ^ 32"
    using assms(3) ab(1,2,3) by (auto simp: unat_of_nat_u32 elim!: dvdE)
  let ?c = "c\<lparr>count := bit_count (length m + n), buffer := overwrite (length b) (take n xs) (buffer c)\<rparr>"
  have "\<not> 64 - length b \<le> n" using n(2) by linarith
  then have "MD5Update c xs (of_nat n) = Some ?c"
    unfolding MD5Update_def idx Let_def n(1) using n assms(2) ab(7)
    by (simp add: count_bits_add)
  moreover have "absorbed ?c (m @ take n xs)"
    by (rule absorbedI [of _ a "b @ take n xs"])
      (use ab n assms(2) in \<open>simp_all add: overwrite_def add.assoc\<close>)
  ultimately show ?thesis by blast
qed

lemma absorbed_update_blocks:
  assumes "absorbed c m" "n \<le> length xs" "64 \<le> length m mod 64 + n" "n + 64 < 2 ^ 32"
  shows "\<exists>c'. MD5Update c xs (of_nat n) = Some c' \<and> absorbed c' (m @ take n xs)"
proof -
  obtain a b where ab: "m = a @ b" "64 dvd length a" "length b < 64" "state c = hash_blocks IV a"
    "take (length b) (buffer c) = b" "length (buffer c) = 64" "count c = bit_count (length m)"
    using assms(1) by (auto simp: absorbed_def)
  have idx: "unat (drop_bit 3 (count c ! 0) AND 0x3F) = length b"
    using ab buffered_bytes [of "length m"] by (auto simp: bit_count_def elim!: dvdE)
  have n: "unat (of_nat n :: u32) = n" "64 \<le> length b + n" "n < 2 ^ 32"
    using assms(3,4) ab(1,2,3) by (auto simp: unat_of_nat_u32 elim!: dvdE)
  define p where "p = 64 - length b"
  define buf where "buf = overwrite (length b) (take p xs) (buffer c)"
  define i where "i = p + 64 * ((n - p) div 64)"
  have p: "p \<le> n" "length b + p = 64" using n(2) ab(3) by (simp_all add: p_def)
  have buf: "buf = b @ take p xs" "length buf = 64"
    using ab(5,6) p assms(2) by (simp_all add: buf_def overwrite_def)
  have loop: "update_loop (MD5Transform (state c) buf) xs (of_nat n) p
      = Some (hash_blocks (MD5Transform (state c) buf) (drop p (take n xs)), i)"
    unfolding i_def using update_loop_run [of "of_nat n" xs p] n(1) assms(2,4) p(1) by simp
  let ?c = "c\<lparr>count := bit_count (length m + n),
      state := hash_blocks (MD5Transform (state c) buf) (drop p (take n xs)),
      buffer := overwrite 0 (take (n - i) (drop i xs)) buf\<rparr>"
  have "MD5Update c xs (of_nat n) = Some ?c"
    unfolding MD5Update_def idx Let_def n(1) p_def [symmetric] buf_def [symmetric]
    using n p assms(2) ab(7) by (simp add: count_bits_add loop buf_def [symmetric])
  moreover have "absorbed ?c (m @ take n xs)"
  proof -
    define w where "w = drop p (take i xs)"
    define b' where "b' = take (n - i) (drop i xs)"
    have i: "p \<le> i" "i \<le> n" "n - i = (n - p) mod 64" "64 dvd i - p"
      using p(1) by (simp_all add: i_def minus_mult_div_eq_mod [symmetric])
    have w: "64 dvd length w" "length b' < 64" "length b' = n - i"
      using i assms(2) by (simp_all add: w_def b'_def)
    have n_split: "take n xs = take i xs @ b'"
      using i(2) take_add [of i "n - i" xs] by (simp add: b'_def)
    have i_split: "take i xs = take p xs @ w"
      using i(1) append_take_drop_id [of p "take i xs"] by (simp add: w_def min_def)
    have "drop p (take n xs) = w @ b'"
      unfolding n_split using i(1) i(2) assms(2) by (simp add: w_def)
    then have "hash_blocks (MD5Transform (state c) buf) (drop p (take n xs)) = hash_blocks IV (a @ buf @ w)"
      using w ab(2,4) buf(2) by (simp add: hash_blocks_append hash_blocks_short hash_blocks_one)
    moreover have "a @ buf @ w = m @ take i xs" by (simp add: buf(1) i_split ab(1))
    moreover have "64 dvd length (a @ buf @ w)" using ab(2) buf(2) w(1) by simp
    moreover have "take (length b') (overwrite 0 b' buf) = b'" by (simp add: overwrite_def)
    moreover have "min (length xs) i = i" using i(2) assms(2) by simp
    ultimately show ?thesis
      by (intro absorbedI [of _ "m @ take i xs" b']) (use w buf(2) i(2) in \<open>simp_all add: n_split b'_def\<close>)
  qed
  ultimately show ?thesis by blast
qed

lemma absorbed_update:
  assumes "absorbed c m" "n \<le> length xs" "n + 64 < 2 ^ 32"
  shows "\<exists>c'. MD5Update c xs (of_nat n) = Some c' \<and> absorbed c' (m @ take n xs)"
proof (cases "length m mod 64 + n < 64")
  case True
  with assms show ?thesis by (intro absorbed_update_short)
next
  case False
  with assms show ?thesis by (intro absorbed_update_blocks) simp_all
qed

subsection \<open>The final padding\<close>

lemma encode_bit_count: "Encode (bit_count l) 8 = rfc_bytes 8 (8 * l)"
proof -
  have enc: "[ucast ((of_nat x :: u32) AND 0xff), ucast (drop_bit 8 (of_nat x :: u32) AND 0xff),
      ucast (drop_bit 16 (of_nat x :: u32) AND 0xff), ucast (drop_bit 24 (of_nat x :: u32) AND 0xff)]
      = map (\<lambda>i. of_nat (x div 256 ^ i) :: u8) [0..<4]" for x
    using byte_of_word [of 0 x] byte_of_word [of 8 x] byte_of_word [of 16 x] byte_of_word [of 24 x]
    by (simp add: upto4)
  have "Encode (bit_count l) 8 = map (\<lambda>i. of_nat (8 * l div 256 ^ i)) [0..<4]
      @ map (\<lambda>i. of_nat (8 * l div 2 ^ 32 div 256 ^ i)) [0..<4]"
    unfolding Encode_def by (simp only: enc [symmetric]) (simp add: bit_count_def upt_rec)
  also have "\<dots> = rfc_bytes 8 (8 * l)"
    by (simp add: rfc_bytes_def upt_rec div_mult2_eq [symmetric])
  finally show ?thesis .
qed

lemma padding_prefix: "0 < n \<Longrightarrow> n \<le> 64 \<Longrightarrow> take n PADDING = 0x80 # replicate (n - 1) 0"
  by (cases n) (simp_all add: PADDING_def)

lemma absorbed_whole: "absorbed c m \<Longrightarrow> 64 dvd length m \<Longrightarrow> state c = hash_blocks IV m"
proof -
  assume "absorbed c m" "64 dvd length m"
  then obtain a b where "m = a @ b" "64 dvd length a" "length b < 64" "state c = hash_blocks IV a" "64 dvd length (a @ b)"
    by (auto simp: absorbed_def)
  then show ?thesis by (simp add: hash_blocks_append hash_blocks_short)
qed

lemma pad_len_bounds: "0 < pad_len n" "pad_len n \<le> 64"
  using mod_less_divisor [of 64 n] unfolding pad_len_def by (auto split: if_splits)

lemma length_md5_pad: "64 dvd length (md5_pad m)"
proof -
  define q r where "q = length m div 64" and "r = length m mod 64"
  have m: "length m = 64 * q + r" "r < 64" by (simp_all add: q_def r_def)
  have "length (md5_pad m) = length m + pad_len (length m) + 8"
    using pad_len_bounds(1) [of "length m"] by (simp add: md5_pad_def rfc_bytes_def)
  also have "\<dots> = (if r < 56 then 64 * (q + 1) else 64 * (q + 2))"
    using m unfolding pad_len_def r_def [symmetric] by simp
  finally show ?thesis by (simp split: if_splits)
qed

lemma MD5Final_digest:
  assumes "absorbed c m"
  shows "\<exists>c'. MD5Final c = Some (md5_digest m, c')"
proof -
  have cnt: "count c = bit_count (length m)" using assms by (simp add: absorbed_def)
  have idx: "unat (drop_bit 3 (bit_count (length m) ! 0) AND 0x3f) = length m mod 64"
    using buffered_bytes [of "length m"] by (simp add: bit_count_def)
  let ?n = "pad_len (length m)"
  have n: "0 < ?n" "?n \<le> 64" using pad_len_bounds [of "length m"] by simp_all
  obtain c1 where c1: "MD5Update c PADDING (of_nat ?n) = Some c1" "absorbed c1 (m @ take ?n PADDING)"
    using absorbed_update [OF assms, of ?n PADDING] n by (auto simp: PADDING_def)
  obtain c2 where c2: "MD5Update c1 (rfc_bytes 8 (8 * length m)) 8 = Some c2"
    "absorbed c2 ((m @ take ?n PADDING) @ take 8 (rfc_bytes 8 (8 * length m)))"
    using absorbed_update [OF c1(2), of 8 "rfc_bytes 8 (8 * length m)"] by (auto simp: rfc_bytes_def)
  have "(m @ take ?n PADDING) @ take 8 (rfc_bytes 8 (8 * length m)) = md5_pad m"
    by (simp add: md5_pad_def padding_prefix n rfc_bytes_def)
  with c2 have "state c2 = hash_blocks IV (md5_pad m)"
    using absorbed_whole length_md5_pad by metis
  then show ?thesis
    unfolding MD5Final_def cnt idx Let_def encode_bit_count pad_len_def [symmetric] c1 Option.bind.simps c2
    by (simp add: md5_digest_def)
qed

subsection \<open>The contract of an incremental hash\<close>

text \<open>A piece is an input of less than $2^{32} - 64$ bytes, given with its length.\<close>

definition md5_update :: "MD5_CTX \<Rightarrow> bytes \<Rightarrow> MD5_CTX option" where
  "md5_update c xs = MD5Update c xs (of_nat (length xs))"

definition md5_final :: "MD5_CTX \<Rightarrow> bytes option" where
  "md5_final c = map_option fst (MD5Final c)"

interpretation md5h: stream_hash MD5Init md5_update md5_final "\<lambda>c. length (buffer c) = 64"
  "\<lambda>xs. length xs + 64 < 2 ^ 32" absorbed rfc1321
proof
  fix c m and p :: bytes assume "absorbed c m" "length p + 64 < (2 :: nat) ^ 32"
  then show "\<exists>c'. md5_update c p = Some c' \<and> absorbed c' (m @ p)"
    using absorbed_update [of c m "length p" p] by (simp add: md5_update_def)
next
  fix c m assume "absorbed c m"
  then show "md5_final c = Some (rfc1321 m)"
    using MD5Final_digest digest_rfc by (fastforce simp: md5_final_def)
qed (rule absorbed_init)

text \<open>
  C21: the MD5 digest is the one of RFC 1321 however the message is fed in. Initialising a
  context, updating it with any sequence of pieces of fewer than $2^{32} - 64$ bytes and finalising
  it succeeds and gives \<open>rfc1321\<close>, the digest of the document, of the concatenation of the pieces.
\<close>

theorem md5_incremental:
  assumes "length (buffer c) = 64" "\<forall>p\<in>set ps. length p + 64 < 2 ^ 32"
  shows "do { c \<leftarrow> feed md5_update (MD5Init c) ps; md5_final c } = Some (rfc1321 (concat ps))"
  using assms by (rule md5h.pieces_do_not_matter)

definition blank_ctx :: MD5_CTX where
  "blank_ctx = \<lparr>count = [0, 0], state = [0, 0, 0, 0], buffer = replicate 64 0\<rparr>"

theorem md5_incremental_witness:
  "rfc1321 (concat [[97], [98, 99]]) = [0x90, 0x01, 0x50, 0x98, 0x3c, 0xd2, 0x4f, 0xb0,
     0xd6, 0x96, 0x3f, 0x7d, 0x28, 0xe1, 0x7f, 0x72]"
proof -
  have "length (buffer blank_ctx) = 64" "\<forall>p\<in>set [[97], [98, 99 :: u8]]. length p + 64 < 2 ^ 32"
    by (simp_all add: blank_ctx_def)
  note run = md5_incremental [OF this]
  have "do { c \<leftarrow> feed md5_update (MD5Init blank_ctx) [[97], [98, 99]]; md5_final c }
      = Some [0x90, 0x01, 0x50, 0x98, 0x3c, 0xd2, 0x4f, 0xb0, 0xd6, 0x96, 0x3f, 0x7d, 0x28, 0xe1, 0x7f, 0x72]"
    by code_simp
  with run show ?thesis by (simp only: option.inject)
qed

end
