(* ===== verification/Md5_User.thy ===== *)
theory Md5_User
  imports Md5
begin

text \<open>
  The MD5 implementation of the user manager (\<open>src/src/user_manage/md5.c\<close>, \<open>md5.h\<close>; the copy in
  \<open>src/src/md5\<close> differs in one name only). It was written separately from the one of the voice
  link; the theory translates it on its own and then shows the two to be the same function.
\<close>

definition user_F :: "u32 \<Rightarrow> u32 \<Rightarrow> u32 \<Rightarrow> u32" where
  "user_F x y z = (x AND y) OR (NOT x AND z)"

definition user_G :: "u32 \<Rightarrow> u32 \<Rightarrow> u32 \<Rightarrow> u32" where
  "user_G x y z = (x AND z) OR (y AND NOT z)"

definition user_H :: "u32 \<Rightarrow> u32 \<Rightarrow> u32 \<Rightarrow> u32" where
  "user_H x y z = x XOR y XOR z"

definition user_I :: "u32 \<Rightarrow> u32 \<Rightarrow> u32 \<Rightarrow> u32" where
  "user_I x y z = y XOR (x OR NOT z)"

definition user_ROTATE_LEFT :: "u32 \<Rightarrow> nat \<Rightarrow> u32" where
  "user_ROTATE_LEFT x n = push_bit n x OR drop_bit (32 - n) x"

definition user_FF :: "u32 \<Rightarrow> u32 \<Rightarrow> u32 \<Rightarrow> u32 \<Rightarrow> u32 \<Rightarrow> nat \<Rightarrow> u32 \<Rightarrow> u32" where
  "user_FF a b c d x s ac =
     (let a = a + (user_F b c d + x + ac); a = user_ROTATE_LEFT a s in a + b)"

definition user_GG :: "u32 \<Rightarrow> u32 \<Rightarrow> u32 \<Rightarrow> u32 \<Rightarrow> u32 \<Rightarrow> nat \<Rightarrow> u32 \<Rightarrow> u32" where
  "user_GG a b c d x s ac =
     (let a = a + (user_G b c d + x + ac); a = user_ROTATE_LEFT a s in a + b)"

definition user_HH :: "u32 \<Rightarrow> u32 \<Rightarrow> u32 \<Rightarrow> u32 \<Rightarrow> u32 \<Rightarrow> nat \<Rightarrow> u32 \<Rightarrow> u32" where
  "user_HH a b c d x s ac =
     (let a = a + (user_H b c d + x + ac); a = user_ROTATE_LEFT a s in a + b)"

definition user_II :: "u32 \<Rightarrow> u32 \<Rightarrow> u32 \<Rightarrow> u32 \<Rightarrow> u32 \<Rightarrow> nat \<Rightarrow> u32 \<Rightarrow> u32" where
  "user_II a b c d x s ac =
     (let a = a + (user_I b c d + x + ac); a = user_ROTATE_LEFT a s in a + b)"

definition user_PADDING :: bytes where
  "user_PADDING = 0x80 # replicate 63 0"

text \<open>The while loops of \<open>MD5Encode\<close> and \<open>MD5Decode\<close> from position \<open>j\<close> on.\<close>

function MD5Encode :: "u32 list \<Rightarrow> nat \<Rightarrow> nat \<Rightarrow> nat \<Rightarrow> bytes" where
  "MD5Encode input len i j =
     (if j < len
      then [ucast (input ! i AND 0xFF), ucast (drop_bit 8 (input ! i) AND 0xFF),
            ucast (drop_bit 16 (input ! i) AND 0xFF), ucast (drop_bit 24 (input ! i) AND 0xFF)]
           @ MD5Encode input len (i + 1) (j + 4)
      else [])"
  by pat_completeness auto
termination
  by (relation "measure (\<lambda>(input, len, i, j). len - j)") auto

function MD5Decode :: "bytes \<Rightarrow> nat \<Rightarrow> nat \<Rightarrow> u32 list" where
  "MD5Decode input len j =
     (if j < len
      then (ucast (input ! j) OR push_bit 8 (ucast (input ! (j + 1))) OR
            push_bit 16 (ucast (input ! (j + 2))) OR push_bit 24 (ucast (input ! (j + 3))))
           # MD5Decode input len (j + 4)
      else [])"
  by pat_completeness auto
termination
  by (relation "measure (\<lambda>(input, len, j). len - j)") auto

declare MD5Encode.simps [simp del] MD5Decode.simps [simp del]

definition user_MD5Transform :: "u32 list \<Rightarrow> bytes \<Rightarrow> u32 list" where
  "user_MD5Transform st block =
     (let a = st ! 0; b = st ! 1; c = st ! 2; d = st ! 3;
          x = MD5Decode block 64 0;
          a = user_FF a b c d (x ! 0) 7 0xd76aa478;
          d = user_FF d a b c (x ! 1) 12 0xe8c7b756;
          c = user_FF c d a b (x ! 2) 17 0x242070db;
          b = user_FF b c d a (x ! 3) 22 0xc1bdceee;
          a = user_FF a b c d (x ! 4) 7 0xf57c0faf;
          d = user_FF d a b c (x ! 5) 12 0x4787c62a;
          c = user_FF c d a b (x ! 6) 17 0xa8304613;
          b = user_FF b c d a (x ! 7) 22 0xfd469501;
          a = user_FF a b c d (x ! 8) 7 0x698098d8;
          d = user_FF d a b c (x ! 9) 12 0x8b44f7af;
          c = user_FF c d a b (x ! 10) 17 0xffff5bb1;
          b = user_FF b c d a (x ! 11) 22 0x895cd7be;
          a = user_FF a b c d (x ! 12) 7 0x6b901122;
          d = user_FF d a b c (x ! 13) 12 0xfd987193;
          c = user_FF c d a b (x ! 14) 17 0xa679438e;
          b = user_FF b c d a (x ! 15) 22 0x49b40821;
          a = user_GG a b c d (x ! 1) 5 0xf61e2562;
          d = user_GG d a b c (x ! 6) 9 0xc040b340;
          c = user_GG c d a b (x ! 11) 14 0x265e5a51;
          b = user_GG b c d a (x ! 0) 20 0xe9b6c7aa;
          a = user_GG a b c d (x ! 5) 5 0xd62f105d;
          d = user_GG d a b c (x ! 10) 9 0x2441453;
          c = user_GG c d a b (x ! 15) 14 0xd8a1e681;
          b = user_GG b c d a (x ! 4) 20 0xe7d3fbc8;
          a = user_GG a b c d (x ! 9) 5 0x21e1cde6;
          d = user_GG d a b c (x ! 14) 9 0xc33707d6;
          c = user_GG c d a b (x ! 3) 14 0xf4d50d87;
          b = user_GG b c d a (x ! 8) 20 0x455a14ed;
          a = user_GG a b c d (x ! 13) 5 0xa9e3e905;
          d = user_GG d a b c (x ! 2) 9 0xfcefa3f8;
          c = user_GG c d a b (x ! 7) 14 0x676f02d9;
          b = user_GG b c d a (x ! 12) 20 0x8d2a4c8a;
          a = user_HH a b c d (x ! 5) 4 0xfffa3942;
          d = user_HH d a b c (x ! 8) 11 0x8771f681;
          c = user_HH c d a b (x ! 11) 16 0x6d9d6122;
          b = user_HH b c d a (x ! 14) 23 0xfde5380c;
          a = user_HH a b c d (x ! 1) 4 0xa4beea44;
          d = user_HH d a b c (x ! 4) 11 0x4bdecfa9;
          c = user_HH c d a b (x ! 7) 16 0xf6bb4b60;
          b = user_HH b c d a (x ! 10) 23 0xbebfbc70;
          a = user_HH a b c d (x ! 13) 4 0x289b7ec6;
          d = user_HH d a b c (x ! 0) 11 0xeaa127fa;
          c = user_HH c d a b (x ! 3) 16 0xd4ef3085;
          b = user_HH b c d a (x ! 6) 23 0x4881d05;
          a = user_HH a b c d (x ! 9) 4 0xd9d4d039;
          d = user_HH d a b c (x ! 12) 11 0xe6db99e5;
          c = user_HH c d a b (x ! 15) 16 0x1fa27cf8;
          b = user_HH b c d a (x ! 2) 23 0xc4ac5665;
          a = user_II a b c d (x ! 0) 6 0xf4292244;
          d = user_II d a b c (x ! 7) 10 0x432aff97;
          c = user_II c d a b (x ! 14) 15 0xab9423a7;
          b = user_II b c d a (x ! 5) 21 0xfc93a039;
          a = user_II a b c d (x ! 12) 6 0x655b59c3;
          d = user_II d a b c (x ! 3) 10 0x8f0ccc92;
          c = user_II c d a b (x ! 10) 15 0xffeff47d;
          b = user_II b c d a (x ! 1) 21 0x85845dd1;
          a = user_II a b c d (x ! 8) 6 0x6fa87e4f;
          d = user_II d a b c (x ! 15) 10 0xfe2ce6e0;
          c = user_II c d a b (x ! 6) 15 0xa3014314;
          b = user_II b c d a (x ! 13) 21 0x4e0811a1;
          a = user_II a b c d (x ! 4) 6 0xf7537e82;
          d = user_II d a b c (x ! 11) 10 0xbd3af235;
          c = user_II c d a b (x ! 2) 15 0x2ad7d2bb;
          b = user_II b c d a (x ! 9) 21 0xeb86d391
      in [st ! 0 + a, st ! 1 + b, st ! 2 + c, st ! 3 + d])"

definition user_MD5Init :: "MD5_CTX \<Rightarrow> MD5_CTX" where
  "user_MD5Init context = context\<lparr>count := [0, 0],
     state := [0x67452301, 0xEFCDAB89, 0x98BADCFE, 0x10325476]\<rparr>"

text \<open>The loop over whole blocks; \<open>i + 64\<close> is computed in 32 bits.\<close>

function user_update_loop :: "u32 list \<Rightarrow> bytes \<Rightarrow> u32 \<Rightarrow> nat \<Rightarrow> (u32 list \<times> nat) option" where
  "user_update_loop st input inputlen i =
     (if of_nat i + 64 \<le> inputlen
      then if i + 64 \<le> length input
           then user_update_loop (user_MD5Transform st (take 64 (drop i input))) input inputlen (i + 64)
           else None
      else Some (st, i))"
  by pat_completeness auto
termination
  by (relation "measure (\<lambda>(st, input, n, i). length input - i)") auto

declare user_update_loop.simps [simp del]

definition user_MD5Update :: "MD5_CTX \<Rightarrow> bytes \<Rightarrow> u32 \<Rightarrow> MD5_CTX option" where
  "user_MD5Update context input inputlen =
     (let idx = unat (drop_bit 3 (count context ! 0) AND 0x3F);
          n = unat inputlen;
          partlen = 64 - idx;
          c0 = count context ! 0 + push_bit 3 inputlen;
          c1 = (if c0 < push_bit 3 inputlen then count context ! 1 + 1 else count context ! 1);
          context = context\<lparr>count := [c0, c1 + drop_bit 29 inputlen]\<rparr>
      in if length input < n then None
         else if n \<ge> partlen
         then do {
           let buf = overwrite idx (take partlen input) (buffer context);
           (st, i) \<leftarrow> user_update_loop (user_MD5Transform (state context) buf) input inputlen partlen;
           Some (context\<lparr>state := st, buffer := overwrite 0 (take (n - i) (drop i input)) buf\<rparr>)
         }
         else Some (context\<lparr>buffer := overwrite idx (take n input) (buffer context)\<rparr>))"

definition user_MD5Final :: "MD5_CTX \<Rightarrow> (bytes \<times> MD5_CTX) option" where
  "user_MD5Final context =
     do {
       let idx = unat (drop_bit 3 (count context ! 0) AND 0x3F);
       let padlen = (if idx < 56 then 56 - idx else 120 - idx);
       let bits = MD5Encode (count context) 8 0 0;
       context \<leftarrow> user_MD5Update context user_PADDING (of_nat padlen);
       context \<leftarrow> user_MD5Update context bits 8;
       Some (MD5Encode (state context) 16 0 0, context)
     }"

text \<open>The entry point: the digest as 32 hexadecimal digits. \<open>ctx\<close> is the uninitialised local
  context.\<close>

definition md5 :: "MD5_CTX \<Rightarrow> string \<Rightarrow> string option" where
  "md5 ctx input =
     do {
       c \<leftarrow> user_MD5Update (user_MD5Init ctx) (map (\<lambda>ch. of_nat (of_char ch)) input) (of_nat (length input));
       (decrypt, c) \<leftarrow> user_MD5Final c;
       Some (concat (map (\<lambda>i. fmt_X 2 (unat (decrypt ! i))) [0..<16]))
     }"

subsection \<open>The same function as the one of the voice link\<close>

lemmas user_round_defs = user_FF_def FF_def user_GG_def GG_def user_HH_def HH_def user_II_def II_def
  user_F_def F_def user_G_def G_def user_H_def H_def user_I_def I_def
  user_ROTATE_LEFT_def ROTATE_LEFT_def Let_def

lemma user_round_functions: "user_FF = FF" "user_GG = GG" "user_HH = HH" "user_II = II"
  unfolding user_round_defs by (rule refl)+

lemma upt_add_Suc: "[i..<i + Suc k] = i # [i + 1..<i + 1 + k]"
  by (simp add: upt_conv_Cons)

lemma MD5Encode_Encode: "MD5Encode ws (4 * n) 0 0 = Encode ws (4 * n)"
proof -
  have "MD5Encode ws (4 * (i + k)) i (4 * i) = concat (map (\<lambda>i.
     [ucast (ws ! i AND 0xff), ucast (drop_bit 8 (ws ! i) AND 0xff),
      ucast (drop_bit 16 (ws ! i) AND 0xff), ucast (drop_bit 24 (ws ! i) AND 0xff)]) [i..<i + k])" for i k
  proof (induction k arbitrary: i)
    case (Suc k)
    show ?case
      using Suc.IH [of "i + 1"] unfolding upt_add_Suc
      by (subst MD5Encode.simps) (simp add: add.commute del: upt_Suc)
  qed (simp add: MD5Encode.simps)
  from this [of 0 n] show ?thesis by (simp add: Encode_def)
qed

lemma MD5Decode_Decode: "MD5Decode bs (4 * n) 0 = Decode bs (4 * n)"
proof -
  have "MD5Decode bs (4 * (i + k)) (4 * i) = map (\<lambda>i.
     ucast (bs ! (4 * i)) OR push_bit 8 (ucast (bs ! (4 * i + 1))) OR
     push_bit 16 (ucast (bs ! (4 * i + 2))) OR push_bit 24 (ucast (bs ! (4 * i + 3)))) [i..<i + k]" for i k
  proof (induction k arbitrary: i)
    case (Suc k)
    show ?case
      using Suc.IH [of "i + 1"] unfolding upt_add_Suc
      by (subst MD5Decode.simps) (simp add: add.commute del: upt_Suc)
  qed (simp add: MD5Decode.simps)
  from this [of 0 n] show ?thesis by (simp add: Decode_def)
qed

lemma user_transform: "user_MD5Transform st block = MD5Transform st block"
proof -
  have decode: "MD5Decode block 64 0 = Decode block 64"
    using MD5Decode_Decode [of block 16] by simp
  show ?thesis
    unfolding user_MD5Transform_def MD5Transform_def user_round_functions decode by (rule refl)
qed

text \<open>The loop conditions \<open>i + 64 <= n\<close> and \<open>i + 63 < n\<close> agree as long as neither sum wraps.\<close>

lemma user_update_loop_eq:
  assumes "unat len \<le> length input" "unat len + 64 < 2 ^ 32"
  shows "i \<le> unat len \<Longrightarrow> user_update_loop st input len i = update_loop st input len i"
  using assms
proof (induction st input len i rule: update_loop.induct)
  case (1 st input len i)
  have "i + 64 < 4294967296" using "1.prems" by simp
  then have "unat (of_nat i + 64 :: u32) = i + 64" "unat (of_nat i + 63 :: u32) = i + 63"
    using unat_of_nat_u32 [of "i + 64"] unat_of_nat_u32 [of "i + 63"] by simp_all
  then have guard: "of_nat i + 64 \<le> len \<longleftrightarrow> i + 64 \<le> unat len" "of_nat i + 63 < len \<longleftrightarrow> i + 64 \<le> unat len"
    by (auto simp: word_less_nat_alt word_le_nat_alt)
  then show ?case
    using 1 by (subst user_update_loop.simps, subst update_loop.simps) (auto simp: user_transform)
qed

lemma user_update_eq:
  assumes "unat len \<le> length input" "unat len + 64 < 2 ^ 32"
  shows "user_MD5Update c input len = MD5Update c input len"
  using user_update_loop_eq [OF assms]
  by (simp add: user_MD5Update_def MD5Update_def count_bits_def Let_def user_transform)

lemma user_final_eq: "map_option fst (user_MD5Final c) = map_option fst (MD5Final c)"
proof -
  have enc: "MD5Encode ws 8 0 0 = Encode ws 8" "MD5Encode ws 16 0 0 = Encode ws 16" for ws
    using MD5Encode_Encode [of ws 2] MD5Encode_Encode [of ws 4] by simp_all
  have idx: "unat (drop_bit 3 (count c ! 0) AND 0x3F) < 64"
    using unat_and_mask [of "drop_bit 3 (count c ! 0)" 6] by (simp add: mask_eq_exp_minus_1)
  define n where "n = (let idx = unat (drop_bit 3 (count c ! 0) AND 0x3F)
    in if idx < 56 then 56 - idx else 120 - idx)"
  have "n \<le> 64" using idx by (auto simp: n_def Let_def)
  then have n: "unat (of_nat n :: u32) = n" "n \<le> 64" by (simp_all add: unat_of_nat_u32)
  have up1: "user_MD5Update c user_PADDING (of_nat n) = MD5Update c PADDING (of_nat n)"
    using n by (subst user_update_eq) (simp_all add: user_PADDING_def PADDING_def)
  have up2: "user_MD5Update c' (Encode (count c) 8) 8 = MD5Update c' (Encode (count c) 8) 8" for c'
    by (intro user_update_eq) (simp_all add: Encode_def upt_rec)
  show ?thesis
    unfolding user_MD5Final_def MD5Final_def Let_def enc n_def [unfolded Let_def, symmetric] up1 up2
    by (simp add: map_option_bind o_def)
qed

subsection \<open>The contract of an incremental hash\<close>

definition user_update :: "MD5_CTX \<Rightarrow> bytes \<Rightarrow> MD5_CTX option" where
  "user_update c xs = user_MD5Update c xs (of_nat (length xs))"

definition user_final :: "MD5_CTX \<Rightarrow> bytes option" where
  "user_final c = map_option fst (user_MD5Final c)"

lemma user_init_eq: "user_MD5Init = MD5Init"
  by (rule ext) (simp add: user_MD5Init_def MD5Init_def)

lemma user_update_piece: "length xs + 64 < 2 ^ 32 \<Longrightarrow> user_update c xs = md5_update c xs"
  unfolding user_update_def md5_update_def
  by (intro user_update_eq) (simp_all add: unat_of_nat_u32)

interpretation user_md5h: stream_hash user_MD5Init user_update user_final "\<lambda>c. length (buffer c) = 64"
  "\<lambda>xs. length xs + 64 < 2 ^ 32" absorbed rfc1321
proof
  fix c m and p :: bytes assume "absorbed c m" "length p + 64 < 2 ^ 32"
  then show "\<exists>c'. user_update c p = Some c' \<and> absorbed c' (m @ p)"
    using md5h.holds_update user_update_piece by metis
next
  fix c m assume "absorbed c m"
  then show "user_final c = Some (rfc1321 m)"
    unfolding user_final_def user_final_eq using md5h.final_digest by (simp add: md5_final_def)
qed (simp add: user_init_eq absorbed_init)

text \<open>
  The two MD5 implementations in the repository compute the same function: fed with the
  same pieces of a message, the user manager's and the voice link's context give the same digest.
\<close>

theorem md5_implementations_agree:
  assumes "length (buffer c1) = 64" "length (buffer c2) = 64"
    and "\<forall>p\<in>set ps. length p + 64 < 2 ^ 32"
  shows "do { c \<leftarrow> feed user_update (user_MD5Init c1) ps; user_final c } =
         do { c \<leftarrow> feed md5_update (MD5Init c2) ps; md5_final c }"
  using user_md5h.pieces_do_not_matter [OF assms(1,3)] md5h.pieces_do_not_matter [OF assms(2,3)]
  by simp

theorem md5_implementations_agree_witness:
  "do { c \<leftarrow> feed user_update (user_MD5Init blank_ctx) [[97], [98, 99]]; user_final c } =
   do { c \<leftarrow> feed md5_update (MD5Init blank_ctx) [[97], [98, 99]]; md5_final c }"
  by (rule md5_implementations_agree) (simp_all add: blank_ctx_def)

text \<open>
  \<open>md5\<close> gives the RFC 1321 digest of a string as 32 upper-case hexadecimal digits.
\<close>

theorem md5_text:
  assumes "length (buffer ctx) = 64" "length input + 64 < 2 ^ 32"
  shows "\<exists>out. md5 ctx input = Some out \<and> length out = 32 \<and>
    out = concat (map (\<lambda>b. fmt_X 2 (unat b)) (rfc1321 (map (\<lambda>ch. of_nat (of_char ch)) input)))"
proof -
  let ?m = "map (\<lambda>ch. of_nat (of_char ch)) input :: bytes"
  have len: "length (rfc1321 ?m) = 16" by (simp add: rfc1321_def rfc_bytes_def split: prod.splits)
  obtain c where c: "user_MD5Update (user_MD5Init ctx) ?m (of_nat (length input)) = Some c" "absorbed c ?m"
    using user_md5h.holds_update [OF user_md5h.holds_init [OF assms(1)], of ?m] assms(2)
    by (auto simp: user_update_def)
  obtain c' where "user_MD5Final c = Some (rfc1321 ?m, c')"
    using user_md5h.final_digest [OF c(2)] by (auto simp: user_final_def)
  moreover have "map (\<lambda>i. fmt_X 2 (unat (rfc1321 ?m ! i))) [0..<16] = map (\<lambda>b. fmt_X 2 (unat b)) (rfc1321 ?m)"
    using len by (intro nth_equalityI) simp_all
  moreover have "length (concat (map (\<lambda>b. fmt_X 2 (unat b)) bs)) = 2 * length bs" for bs :: bytes
    by (induction bs) (simp_all add: fmt_X_def length_pad_digits unat_u8_less)
  ultimately show ?thesis using c(1) len by (simp add: md5_def)
qed

theorem md5_text_witness:
  "\<exists>out. md5 blank_ctx ''abc'' = Some out \<and> length out = 32 \<and>
    out = concat (map (\<lambda>b. fmt_X 2 (unat b)) (rfc1321 (map (\<lambda>ch. of_nat (of_char ch)) ''abc'')))"
  by (rule md5_text) (simp_all add: blank_ctx_def)

end
