(* ===== verification/Rand32.thy ===== *)
theory Rand32
  imports Md5
begin

text \<open>
  Random numbers of the voice link: the multiply-with-carry generator
  (\<open>src/src/voice_comm/src/voice/lib/mwc1616.c\<close>) and the 32-bit numbers derived from clock, seeds
  and MD5 (\<open>rand32.c\<close>). \<open>unsigned long\<close> has 32 bits; the clock readings are arguments.
\<close>

record mwc1616 =
  mwc1616_x :: u32
  mwc1616_y :: u32

definition mwc1616_initial :: mwc1616 where
  "mwc1616_initial = \<lparr>mwc1616_x = 1, mwc1616_y = 2\<rparr>"

definition seed_rand_mwc1616 :: "u32 \<Rightarrow> mwc1616 \<Rightarrow> mwc1616" where
  "seed_rand_mwc1616 seed g = g\<lparr>mwc1616_x := seed OR 1, mwc1616_y := seed OR 2\<rparr>"

definition rand_mwc1616 :: "mwc1616 \<Rightarrow> u32 \<times> mwc1616" where
  "rand_mwc1616 g =
     (let x = 18000 * (mwc1616_x g AND 0xffff) + drop_bit 16 (mwc1616_x g);
          y = 30903 * (mwc1616_y g AND 0xffff) + drop_bit 16 (mwc1616_y g)
      in (push_bit 16 x + (y AND 0xffff), \<lparr>mwc1616_x = x, mwc1616_y = y\<rparr>))"

text \<open>The little-endian bytes of an \<open>unsigned long\<close> and the words of a byte array.\<close>

definition bytes_of_long :: "u32 \<Rightarrow> bytes" where
  "bytes_of_long w = [ucast w, ucast (drop_bit 8 w), ucast (drop_bit 16 w), ucast (drop_bit 24 w)]"

definition long_of_bytes :: "bytes \<Rightarrow> nat \<Rightarrow> u32" where
  "long_of_bytes bs i = ucast (bs ! (4 * i)) OR push_bit 8 (ucast (bs ! (4 * i + 1))) OR
     push_bit 16 (ucast (bs ! (4 * i + 2))) OR push_bit 24 (ucast (bs ! (4 * i + 3)))"

text \<open>\<open>ctx\<close> is the uninitialised local context.\<close>

definition md_32 :: "MD5_CTX \<Rightarrow> bytes \<Rightarrow> u32 \<Rightarrow> u32 option" where
  "md_32 ctx string lenght =
     do {
       context \<leftarrow> MD5Update (MD5Init ctx) string lenght;
       (digest, context) \<leftarrow> MD5Final context;
       Some (fold (\<lambda>i r. r XOR long_of_bytes digest i) [0..<3] 0)
     }"

text \<open>\<open>tv_sec\<close>, \<open>tv_usec\<close> and \<open>cpu\<close> are what \<open>gettimeofday\<close> and \<open>clock\<close> report.\<close>

definition rand32 :: "MD5_CTX \<Rightarrow> u32 \<Rightarrow> u32 \<Rightarrow> u32 \<Rightarrow> mwc1616 \<Rightarrow> (u32 \<times> mwc1616) option" where
  "rand32 ctx tv_sec tv_usec cpu g =
     (let g = seed_rand_mwc1616 tv_usec g;
          (x, g) = rand_mwc1616 g;
          g = seed_rand_mwc1616 tv_sec g;
          (y, g) = rand_mwc1616 g;
          s = bytes_of_long cpu @ bytes_of_long x @ bytes_of_long y
      in map_option (\<lambda>r. (r, g)) (md_32 ctx s 12))"

subsection \<open>Multiply with carry\<close>

text \<open>One generator with multiplier \<open>a\<close> on numbers.\<close>

definition mwc_step :: "nat \<Rightarrow> nat \<Rightarrow> nat" where
  "mwc_step a x = a * (x mod 2 ^ 16) + x div 2 ^ 16"

lemma mwc_step_congruence: "(a * 2 ^ 16 * (x mod 2 ^ 16) + 2 ^ 16 * (x div 2 ^ 16)) = 2 ^ 16 * mwc_step a x"
  by (simp add: mwc_step_def algebra_simps)

text \<open>Modulo \<open>a * 2^16 - 1\<close> a step is division by \<open>2^16\<close>.\<close>

lemma mwc_step_mod:
  assumes "1 < a"
  shows "2 ^ 16 * mwc_step a x mod (a * 2 ^ 16 - 1) = x mod (a * 2 ^ 16 - 1)"
proof -
  let ?m = "a * 2 ^ 16 - 1" and ?l = "x mod 2 ^ 16" and ?h = "x div 2 ^ 16"
  have "a * 2 ^ 16 = ?m + 1" using assms by simp
  then have "2 ^ 16 * mwc_step a x = (?m + 1) * ?l + 2 ^ 16 * ?h"
    by (simp only: mwc_step_congruence [symmetric])
  also have "\<dots> = ?m * ?l + x" by (simp add: algebra_simps)
  finally show ?thesis by simp
qed

lemma mwc_step_range:
  assumes "1 < a" "0 < x" "x < a * 2 ^ 16"
  shows "0 < mwc_step a x" "mwc_step a x < a * 2 ^ 16"
proof -
  let ?l = "x mod 2 ^ 16" and ?h = "x div 2 ^ 16"
  have "x = 2 ^ 16 * ?h + ?l" by simp
  then have "0 < ?l \<or> 0 < ?h" using assms(2) by (metis add_is_0 gr0I mult_0_right)
  then show "0 < mwc_step a x" using assms(1) by (auto simp: mwc_step_def)
  have "?h < a" using assms(3) by (simp add: less_mult_imp_div_less)
  moreover have "?l \<le> 2 ^ 16 - 1" using mod_less_divisor [of "2 ^ 16" x] by simp
  then have "a * ?l \<le> a * (2 ^ 16 - 1)" by (rule mult_le_mono2)
  ultimately have "mwc_step a x < a * (2 ^ 16 - 1) + a" unfolding mwc_step_def by linarith
  then show "mwc_step a x < a * 2 ^ 16" by (simp add: algebra_simps)
qed

lemma word_eq_of_nat: "unat w = n \<Longrightarrow> w = of_nat n"
  by auto

lemma word_of_nat_mwc: "of_nat a * (x AND 0xffff) + drop_bit 16 x = (of_nat (mwc_step a (unat x)) :: u32)"
proof -
  have "unat (x AND 0xffff) = unat x mod 2 ^ 16"
    using unat_and_mask [of x 16] by (simp add: mask_eq_exp_minus_1)
  then have low: "x AND 0xffff = of_nat (unat x mod 2 ^ 16)" by (rule word_eq_of_nat)
  have high: "drop_bit 16 x = of_nat (unat x div 2 ^ 16)"
    using unat_drop_bit [of 16 x] by (rule word_eq_of_nat)
  show ?thesis
    unfolding low high mwc_step_def by (simp only: of_nat_add of_nat_mult)
qed

lemma mwc_step_fits: "a \<le> 2 ^ 15 \<Longrightarrow> x < 2 ^ 32 \<Longrightarrow> mwc_step a x < 2 ^ 32"
proof -
  assume a: "a \<le> 2 ^ 15" and x: "x < 2 ^ 32"
  have "a * (x mod 2 ^ 16) \<le> 2 ^ 15 * (2 ^ 16 - 1)"
    using a mod_less_divisor [of "2 ^ 16" x] by (intro mult_le_mono) simp_all
  moreover have "x div 2 ^ 16 < 2 ^ 16" using x by (simp add: less_mult_imp_div_less)
  ultimately show ?thesis by (simp add: mwc_step_def)
qed

lemma unat_mwc: "a \<le> 2 ^ 15 \<Longrightarrow> unat (of_nat a * (x AND 0xffff) + drop_bit 16 x :: u32) = mwc_step a (unat x)"
  unfolding word_of_nat_mwc using mwc_step_fits [of a "unat x"] unat_u32_less [of x]
  by (intro unat_of_nat_u32) simp

lemma unat_side_by_side:
  "unat (push_bit 16 x + (y AND 0xffff) :: u32) = (unat x mod 2 ^ 16) * 2 ^ 16 + unat y mod 2 ^ 16"
proof -
  let ?n = "(unat x mod 2 ^ 16) * 2 ^ 16 + unat y mod 2 ^ 16"
  have "unat (push_bit 16 x) = unat x * 2 ^ 16 mod 2 ^ 32"
    by (simp only: unsigned_push_bit_eq push_bit_eq_mult [where 'a = nat] take_bit_eq_mod [where 'a = nat]) simp
  also have "\<dots> = (unat x mod 2 ^ 16) * 2 ^ 16"
    using mod_mult_mult2 [of "unat x" "2 ^ 16" "2 ^ 16"] by simp
  finally have high: "push_bit 16 x = of_nat ((unat x mod 2 ^ 16) * 2 ^ 16)" by (rule word_eq_of_nat)
  have "unat (y AND 0xffff) = unat y mod 2 ^ 16"
    using unat_and_mask [of y 16] by (simp add: mask_eq_exp_minus_1)
  then have low: "y AND 0xffff = of_nat (unat y mod 2 ^ 16)" by (rule word_eq_of_nat)
  have "unat x mod 2 ^ 16 \<le> 2 ^ 16 - 1" "unat y mod 2 ^ 16 < 2 ^ 16"
    using mod_less_divisor [of "2 ^ 16" "unat x"] by simp_all
  then have "?n < 4294967296" by simp
  then show ?thesis unfolding high low of_nat_add [symmetric] by (rule unat_of_nat_u32)
qed

text \<open>
  Both generators are multiply-with-carry generators computed without overflow: with
  multiplier a, the product of the new state and $2^{16}$ is congruent to the old state
  modulo $a \cdot 2^{16} - 1$, a state strictly between 0 and $a \cdot 2^{16}$ is followed by one in
  the same range, so that the generator never degenerates to zero, and the 32-bit result puts
  the low halves of both states side by side.
\<close>

theorem rand_mwc1616_recurrence:
  assumes "rand_mwc1616 g = (r, g')"
  shows "unat (mwc1616_x g') * 2 ^ 16 mod (18000 * 2 ^ 16 - 1) = unat (mwc1616_x g) mod (18000 * 2 ^ 16 - 1) \<and>
    unat (mwc1616_y g') * 2 ^ 16 mod (30903 * 2 ^ 16 - 1) = unat (mwc1616_y g) mod (30903 * 2 ^ 16 - 1) \<and>
    (0 < unat (mwc1616_x g) \<and> unat (mwc1616_x g) < 18000 * 2 ^ 16 \<longrightarrow>
     0 < unat (mwc1616_x g') \<and> unat (mwc1616_x g') < 18000 * 2 ^ 16) \<and>
    (0 < unat (mwc1616_y g) \<and> unat (mwc1616_y g) < 30903 * 2 ^ 16 \<longrightarrow>
     0 < unat (mwc1616_y g') \<and> unat (mwc1616_y g') < 30903 * 2 ^ 16) \<and>
    unat r = (unat (mwc1616_x g') mod 2 ^ 16) * 2 ^ 16 + unat (mwc1616_y g') mod 2 ^ 16"
proof -
  have x: "unat (mwc1616_x g') = mwc_step 18000 (unat (mwc1616_x g))"
    and y: "unat (mwc1616_y g') = mwc_step 30903 (unat (mwc1616_y g))"
    using assms unat_mwc [of 18000 "mwc1616_x g"] unat_mwc [of 30903 "mwc1616_y g"]
    by (auto simp: rand_mwc1616_def Let_def)
  have r: "r = push_bit 16 (mwc1616_x g') + (mwc1616_y g' AND 0xffff)"
    using assms by (auto simp: rand_mwc1616_def Let_def)
  have "unat r = (unat (mwc1616_x g') mod 2 ^ 16) * 2 ^ 16 + unat (mwc1616_y g') mod 2 ^ 16"
    unfolding r by (rule unat_side_by_side)
  moreover have "unat (mwc1616_x g') * 2 ^ 16 mod (18000 * 2 ^ 16 - 1) = unat (mwc1616_x g) mod (18000 * 2 ^ 16 - 1)"
    "unat (mwc1616_y g') * 2 ^ 16 mod (30903 * 2 ^ 16 - 1) = unat (mwc1616_y g) mod (30903 * 2 ^ 16 - 1)"
    unfolding x y by (subst mult.commute, rule mwc_step_mod, simp)+
  ultimately show ?thesis
    unfolding x y using mwc_step_range [of 18000 "unat (mwc1616_x g)"]
      mwc_step_range [of 30903 "unat (mwc1616_y g)"] by simp
qed

theorem rand_mwc1616_recurrence_witness:
  "0 < unat (mwc1616_x (snd (rand_mwc1616 mwc1616_initial)))"
  using rand_mwc1616_recurrence [of mwc1616_initial "fst (rand_mwc1616 mwc1616_initial)"
      "snd (rand_mwc1616 mwc1616_initial)"]
  by (simp add: mwc1616_initial_def)

subsection \<open>A client of MD5\<close>

lemma length_bytes_of_long [simp]: "length (bytes_of_long w) = 4"
  by (simp add: bytes_of_long_def)

text \<open>
  \<open>rand32\<close> always returns: the number is the exclusive or of the first three words of the
  MD5 digest of the clock reading and one value of each seeded generator, twelve bytes in all.
\<close>

theorem rand32_value:
  assumes "length (buffer ctx) = 64"
  shows "\<exists>g'. rand32 ctx tv_sec tv_usec cpu g =
    (let x = fst (rand_mwc1616 (seed_rand_mwc1616 tv_usec g));
         y = fst (rand_mwc1616 (seed_rand_mwc1616 tv_sec g));
         d = md5_digest (bytes_of_long cpu @ bytes_of_long x @ bytes_of_long y)
     in Some ((long_of_bytes d 0 XOR long_of_bytes d 1) XOR long_of_bytes d 2, g'))"
proof -
  let ?x = "fst (rand_mwc1616 (seed_rand_mwc1616 tv_usec g))"
  let ?y = "fst (rand_mwc1616 (seed_rand_mwc1616 tv_sec g))"
  let ?s = "bytes_of_long cpu @ bytes_of_long ?x @ bytes_of_long ?y"
  obtain c where c: "MD5Update (MD5Init ctx) ?s 12 = Some c" "absorbed c ?s"
    using md5h.holds_update [OF md5h.holds_init [OF assms], of ?s] by (auto simp: md5_update_def)
  obtain c' where "MD5Final c = Some (md5_digest ?s, c')"
    using MD5Final_digest [OF c(2)] by blast
  moreover have "rand_mwc1616 (seed_rand_mwc1616 tv_sec (snd (rand_mwc1616 (seed_rand_mwc1616 tv_usec g))))
      = rand_mwc1616 (seed_rand_mwc1616 tv_sec g)"
    by (simp add: rand_mwc1616_def seed_rand_mwc1616_def)
  ultimately show ?thesis
    using c(1) by (simp add: rand32_def md_32_def case_prod_unfold Let_def upt_rec numeral_2_eq_2)
qed

theorem rand32_value_witness:
  "\<exists>g'. rand32 blank_ctx 1 2 3 mwc1616_initial =
    (let x = fst (rand_mwc1616 (seed_rand_mwc1616 2 mwc1616_initial));
         y = fst (rand_mwc1616 (seed_rand_mwc1616 1 mwc1616_initial));
         d = md5_digest (bytes_of_long 3 @ bytes_of_long x @ bytes_of_long y)
     in Some ((long_of_bytes d 0 XOR long_of_bytes d 1) XOR long_of_bytes d 2, g'))"
  by (rule rand32_value) (simp add: blank_ctx_def)

end
