(* ===== verification/Net_Bytes.thy ===== *)
theory Net_Bytes
  imports C_Library
begin

text \<open>
  Integers in memory: the little-endian layout of the target, the byte swaps \<open>htons\<close> and
  \<open>htonl\<close> (which are their own inverses, \<open>ntohs\<close> and \<open>ntohl\<close>), loads, stores and bit fields of a
  structure that is laid over a block of bytes. Loads and stores are used inside the block only.
\<close>

definition htons :: "u16 \<Rightarrow> u16" where
  "htons v = push_bit 8 v OR drop_bit 8 v"

definition htonl :: "u32 \<Rightarrow> u32" where
  "htonl v = push_bit 24 v OR push_bit 16 (take_bit 8 (drop_bit 8 v)) OR
     push_bit 8 (take_bit 8 (drop_bit 16 v)) OR drop_bit 24 v"

definition le16 :: "u16 \<Rightarrow> bytes" where
  "le16 v = [ucast v, ucast (drop_bit 8 v)]"

definition le32 :: "u32 \<Rightarrow> bytes" where
  "le32 v = [ucast v, ucast (drop_bit 8 v), ucast (drop_bit 16 v), ucast (drop_bit 24 v)]"

definition st16 :: "nat \<Rightarrow> u16 \<Rightarrow> bytes \<Rightarrow> bytes" where
  "st16 i v mem = overwrite i (le16 v) mem"

definition st32 :: "nat \<Rightarrow> u32 \<Rightarrow> bytes \<Rightarrow> bytes" where
  "st32 i v mem = overwrite i (le32 v) mem"

definition ld16 :: "bytes \<Rightarrow> nat \<Rightarrow> u16" where
  "ld16 mem i = ucast (mem ! i) OR push_bit 8 (ucast (mem ! (i + 1)))"

definition ld32 :: "bytes \<Rightarrow> nat \<Rightarrow> u32" where
  "ld32 mem i = ucast (mem ! i) OR push_bit 8 (ucast (mem ! (i + 1))) OR
     push_bit 16 (ucast (mem ! (i + 2))) OR push_bit 24 (ucast (mem ! (i + 3)))"

text \<open>A bit field of \<open>w\<close> bits at bit \<open>b\<close> of the byte at \<open>i\<close>.\<close>

definition st_bits :: "nat \<Rightarrow> nat \<Rightarrow> nat \<Rightarrow> u8 \<Rightarrow> bytes \<Rightarrow> bytes" where
  "st_bits i b w v mem = mem[i := (mem ! i AND NOT (push_bit b (mask w))) OR push_bit b (v AND mask w)]"

definition ld_bits :: "bytes \<Rightarrow> nat \<Rightarrow> nat \<Rightarrow> nat \<Rightarrow> u8" where
  "ld_bits mem i b w = drop_bit b (mem ! i) AND mask w"

subsection \<open>Network order\<close>

definition be16 :: "u16 \<Rightarrow> bytes" where
  "be16 v = [ucast (drop_bit 8 v), ucast v]"

definition be32 :: "u32 \<Rightarrow> bytes" where
  "be32 v = [ucast (drop_bit 24 v), ucast (drop_bit 16 v), ucast (drop_bit 8 v), ucast v]"

lemma length_net [simp]:
  "length (le16 v) = 2" "length (be16 v) = 2" "length (le32 w) = 4" "length (be32 w) = 4"
  by (simp_all add: le16_def be16_def le32_def be32_def)

lemma byte_cases:
  assumes "n < (32::nat)"
  obtains k where "k < 8" "n = k" | k where "k < 8" "n = 8 + k" | k where "k < 8" "n = 16 + k" | k where "k < 8" "n = 24 + k"
proof -
  have "n < 8 \<or> n = 8 + (n - 8) \<and> n - 8 < 8 \<or> n = 16 + (n - 16) \<and> n - 16 < 8 \<or> n = 24 + (n - 24) \<and> n - 24 < 8"
    using assms by linarith
  then show ?thesis using that by blast
qed

lemma htons_htons [simp]: "htons (htons v) = v"
  by (rule bit_word_eqI) (auto simp: htons_def bit_simps)

lemma htons_eq_0 [simp]: "htons v = 0 \<longleftrightarrow> v = 0"
proof
  have "htons 0 = 0" by (simp add: htons_def)
  then show "htons v = 0 \<Longrightarrow> v = 0" by (metis htons_htons)
qed (simp add: htons_def)

lemma htonl_htonl [simp]: "htonl (htonl v) = v"
proof (rule bit_word_eqI)
  fix n assume "n < LENGTH(32)"
  then have "n < 32" by simp
  then show "bit (htonl (htonl v)) n = bit v n"
    by (cases rule: byte_cases) (simp_all add: htonl_def bit_simps)
qed

lemma le16_htons [simp]: "le16 (htons v) = be16 v"
  by (auto simp: le16_def be16_def htons_def intro!: bit_word_eqI simp: bit_simps)

lemma le32_htonl [simp]: "le32 (htonl v) = be32 v"
  by (auto simp: le32_def be32_def htonl_def intro!: bit_word_eqI simp: bit_simps)

lemma ld16_le16: "ld16 (xs @ le16 v @ ys) (length xs) = v"
  by (rule bit_word_eqI) (auto simp: ld16_def le16_def nth_append bit_simps)

lemma ld32_le32: "ld32 (xs @ le32 v @ ys) (length xs) = v"
proof (rule bit_word_eqI)
  fix n assume "n < LENGTH(32)"
  then have "n < 32" by simp
  then show "bit (ld32 (xs @ le32 v @ ys) (length xs)) n = bit v n"
    by (cases rule: byte_cases) (simp_all add: ld32_def le32_def nth_append bit_simps)
qed

lemma ld16_be16: "ld16 (xs @ be16 v @ ys) (length xs) = htons v"
  unfolding le16_htons [symmetric] by (rule ld16_le16)

lemma ld32_be32: "ld32 (xs @ be32 v @ ys) (length xs) = htonl v"
  unfolding le32_htonl [symmetric] by (rule ld32_le32)

lemma be16_inject: "be16 v = be16 w \<Longrightarrow> v = w"
  using ld16_be16 [of "[]" v "[]"] ld16_be16 [of "[]" w "[]"] by (metis htons_htons)

lemma be32_inject: "be32 v = be32 w \<Longrightarrow> v = w"
  using ld32_be32 [of "[]" v "[]"] ld32_be32 [of "[]" w "[]"] by (metis htonl_htonl)

lemma ld16_take: "i + 2 \<le> n \<Longrightarrow> ld16 (take n mem) i = ld16 mem i"
  by (simp add: ld16_def)

lemma ld32_take: "i + 4 \<le> n \<Longrightarrow> ld32 (take n mem) i = ld32 mem i"
  by (simp add: ld32_def)

subsection \<open>Stores into a block that is split around the field\<close>

lemma overwrite_split: "length zs = length ys \<Longrightarrow> n = length xs \<Longrightarrow> overwrite n ys (xs @ zs @ ws) = xs @ ys @ ws"
  by (simp add: overwrite_def)

lemma st16_split: "n = length xs \<Longrightarrow> st16 n v (xs @ a # b # ws) = xs @ le16 v @ ws"
  using overwrite_split [of "[a, b]" "le16 v" n xs ws] by (simp add: st16_def)

lemma st32_split: "n = length xs \<Longrightarrow> st32 n v (xs @ a # b # c # d # ws) = xs @ le32 v @ ws"
  using overwrite_split [of "[a, b, c, d]" "le32 v" n xs ws] by (simp add: st32_def)

definition set_bits :: "nat \<Rightarrow> nat \<Rightarrow> u8 \<Rightarrow> u8 \<Rightarrow> u8" where
  "set_bits b w v old = (old AND NOT (push_bit b (mask w))) OR push_bit b (v AND mask w)"

lemma st_bits_split: "n = length xs \<Longrightarrow> st_bits n b w v (xs @ a # ws) = xs @ set_bits b w v a # ws"
  by (simp add: st_bits_def set_bits_def)

lemma ld_bits_split: "n = length xs \<Longrightarrow> ld_bits (xs @ a # ws) n b w = drop_bit b a AND mask w"
  by (simp add: ld_bits_def)

lemma ld16_split: "n = length xs \<Longrightarrow> ld16 (xs @ le16 v @ ws) n = v"
  using ld16_le16 by simp

lemma ld32_split: "n = length xs \<Longrightarrow> ld32 (xs @ le32 v @ ws) n = v"
  using ld32_le32 by simp

lemma ld16_split_be: "n = length xs \<Longrightarrow> ld16 (xs @ be16 v @ ws) n = htons v"
  using ld16_be16 by simp

lemma ld32_split_be: "n = length xs \<Longrightarrow> ld32 (xs @ be32 v @ ws) n = htonl v"
  using ld32_be32 by simp

lemma less_8_cases: "n < 8 \<Longrightarrow> n = 0 \<or> n = 1 \<or> n = 2 \<or> n = 3 \<or> n = 4 \<or> n = 5 \<or> n = 6 \<or> n = (7::nat)"
  by linarith

lemma u8_eqI: "(\<And>n. n < 8 \<Longrightarrow> bit (a :: u8) n = bit b n) \<Longrightarrow> a = b"
  by (rule bit_word_eqI) simp

end
