(* ===== verification/Vstr.thy ===== *)
theory Vstr
  imports C_Library
begin

text \<open>
  The virtual stream of the voice link (\<open>src/src/voice_comm/src/voice/lib/vstr.c\<close>, \<open>vstr.h\<close>): a
  block of memory with a head and a tail pointer and their distance. Pointers are offsets into
  the block; they are integers because nothing in the code keeps them inside it. A copy that
  touches memory outside the block is \<^term>\<open>None\<close>. \<open>size\<close> and offsets do not leave \<open>int\<close>.
\<close>

record vstr_t =
  max :: int
  size :: int
  head :: int
  tail :: int
  data :: bytes

definition vstr_init :: "bytes \<Rightarrow> vstr_t" where
  "vstr_init block = \<lparr>max = int (length block), size = 0, head = 0, tail = 0, data = block\<rparr>"

definition vstr_map :: "bytes \<Rightarrow> int \<Rightarrow> vstr_t" where
  "vstr_map block sz = \<lparr>max = sz, size = sz, head = 0, tail = sz, data = block\<rparr>"

definition vstr_flush :: "vstr_t \<Rightarrow> vstr_t" where
  "vstr_flush v = v\<lparr>size := 0, head := 0, tail := 0\<rparr>"

definition vstr_set :: "vstr_t \<Rightarrow> int \<Rightarrow> int \<Rightarrow> vstr_t" where
  "vstr_set v h t = v\<lparr>head := h, tail := t, size := t - h\<rparr>"

definition vstr_adv_head :: "vstr_t \<Rightarrow> int \<Rightarrow> vstr_t" where
  "vstr_adv_head v len = v\<lparr>head := head v + len, size := size v - len\<rparr>"

definition vstr_adv_tail :: "vstr_t \<Rightarrow> int \<Rightarrow> vstr_t" where
  "vstr_adv_tail v len = v\<lparr>tail := tail v + len, size := size v + len\<rparr>"

definition vstr_rev_tail :: "vstr_t \<Rightarrow> int \<Rightarrow> vstr_t" where
  "vstr_rev_tail v len = v\<lparr>tail := tail v - len, size := size v - len\<rparr>"

definition vstr_rev_head :: "vstr_t \<Rightarrow> int \<Rightarrow> vstr_t" where
  "vstr_rev_head v len = v\<lparr>head := head v - len, size := size v + len\<rparr>"

text \<open>\<open>memcpy\<close> into and out of the block; a negative length would be huge as \<open>size_t\<close>.\<close>

definition copy_in :: "vstr_t \<Rightarrow> int \<Rightarrow> bytes \<Rightarrow> vstr_t option" where
  "copy_in v off xs =
     (if 0 \<le> off \<and> off + int (length xs) \<le> int (length (data v))
      then Some (v\<lparr>data := overwrite (nat off) xs (data v)\<rparr>) else None)"

definition copy_out :: "vstr_t \<Rightarrow> int \<Rightarrow> int \<Rightarrow> bytes option" where
  "copy_out v off len =
     (if 0 \<le> off \<and> 0 \<le> len \<and> off + len \<le> int (length (data v))
      then Some (take (nat len) (drop (nat off) (data v))) else None)"

definition vstr_put_tail :: "vstr_t \<Rightarrow> bytes \<Rightarrow> vstr_t option" where
  "vstr_put_tail v xs =
     do {
       v \<leftarrow> copy_in v (tail v) xs;
       Some (v\<lparr>tail := tail v + int (length xs), size := size v + int (length xs)\<rparr>)
     }"

definition vstr_put_head :: "vstr_t \<Rightarrow> bytes \<Rightarrow> vstr_t option" where
  "vstr_put_head v xs =
     do {
       let v = v\<lparr>head := head v - int (length xs)\<rparr>;
       v \<leftarrow> copy_in v (head v) xs;
       Some (v\<lparr>size := size v + int (length xs)\<rparr>)
     }"

definition vstr_get_head :: "vstr_t \<Rightarrow> int \<Rightarrow> (bytes \<times> vstr_t) option" where
  "vstr_get_head v len =
     do {
       xs \<leftarrow> copy_out v (head v) len;
       Some (xs, v\<lparr>head := head v + len, size := size v - len\<rparr>)
     }"

definition vstr_get_tail :: "vstr_t \<Rightarrow> int \<Rightarrow> (bytes \<times> vstr_t) option" where
  "vstr_get_tail v len =
     do {
       let v = v\<lparr>tail := tail v - len\<rparr>;
       xs \<leftarrow> copy_out v (tail v) len;
       Some (xs, v\<lparr>size := size v - len\<rparr>)
     }"

definition vstr_zero_tail :: "vstr_t \<Rightarrow> nat \<Rightarrow> vstr_t option" where
  "vstr_zero_tail v len =
     do {
       v \<leftarrow> copy_in v (tail v) (replicate len 0);
       Some (vstr_adv_tail v (int len))
     }"

definition vstr_zero_head :: "vstr_t \<Rightarrow> nat \<Rightarrow> vstr_t option" where
  "vstr_zero_head v len =
     do {
       let v = vstr_rev_head v (int len);
       copy_in v (head v) (replicate len 0)
     }"

subsection \<open>Invariant and contents\<close>

definition vstr_ok :: "vstr_t \<Rightarrow> bool" where
  "vstr_ok v \<longleftrightarrow> 0 \<le> head v \<and> head v \<le> tail v \<and> tail v \<le> int (length (data v)) \<and>
     size v = tail v - head v \<and> max v = int (length (data v))"

definition contents :: "vstr_t \<Rightarrow> bytes" where
  "contents v = take (nat (tail v - head v)) (drop (nat (head v)) (data v))"

text \<open>The room behind the tail and before the head.\<close>

definition room_tail :: "vstr_t \<Rightarrow> nat" where
  "room_tail v = nat (int (length (data v)) - tail v)"

definition room_head :: "vstr_t \<Rightarrow> nat" where
  "room_head v = nat (head v)"

lemma vstr_okE:
  assumes "vstr_ok v"
  obtains h t where "head v = int h" "tail v = int t" "h \<le> t" "t \<le> length (data v)" "size v = int t - int h"
    "contents v = take (t - h) (drop h (data v))" "max v = int (length (data v))"
proof (rule that [of "nat (head v)" "nat (tail v)"])
  show "contents v = take (nat (tail v) - nat (head v)) (drop (nat (head v)) (data v))"
    using assms by (simp add: contents_def vstr_ok_def nat_diff_distrib)
qed (use assms in \<open>auto simp: vstr_ok_def nat_le_iff\<close>)

lemma length_contents: "vstr_ok v \<Longrightarrow> int (length (contents v)) = size v"
  by (erule vstr_okE) simp

lemma vstr_init_ok [inv_intros]: "vstr_ok (vstr_init block)" "contents (vstr_init block) = []"
  by (simp_all add: vstr_ok_def vstr_init_def contents_def)

lemma put_tail_ok:
  assumes "vstr_ok v" "length xs \<le> room_tail v"
  shows "\<exists>v'. vstr_put_tail v xs = Some v' \<and> vstr_ok v' \<and> contents v' = contents v @ xs \<and>
    room_tail v' = room_tail v - length xs \<and> room_head v' = room_head v"
proof -
  obtain h t where v: "head v = int h" "tail v = int t" "h \<le> t" "t \<le> length (data v)" "size v = int t - int h"
    "contents v = take (t - h) (drop h (data v))" "max v = int (length (data v))"
    using assms(1) by (rule vstr_okE)
  have fit: "t + length xs \<le> length (data v)" using assms(2) v by (simp add: room_tail_def nat_le_iff)
  let ?d = "overwrite t xs (data v)"
  let ?v = "v\<lparr>data := ?d, tail := int t + int (length xs), size := size v + int (length xs)\<rparr>"
  have "vstr_put_tail v xs = Some ?v"
    using fit v(2) by (simp add: vstr_put_tail_def copy_in_def)
  moreover have "contents ?v = contents v @ xs"
  proof -
    have "take (t - h + length xs) (drop h ?d) = take (t - h) (drop h (data v)) @ xs"
      using v(3) fit by (simp add: overwrite_def take_drop)
    moreover have "nat (int t + int (length xs) - int h) = t - h + length xs" using v(3) by simp
    ultimately show ?thesis unfolding v(6) by (simp add: contents_def v(1))
  qed
  ultimately show ?thesis
    using v fit by (simp add: vstr_ok_def room_tail_def room_head_def nat_diff_distrib)
qed

lemma put_head_ok:
  assumes "vstr_ok v" "length xs \<le> room_head v"
  shows "\<exists>v'. vstr_put_head v xs = Some v' \<and> vstr_ok v' \<and> contents v' = xs @ contents v \<and>
    room_head v' = room_head v - length xs \<and> room_tail v' = room_tail v"
proof -
  obtain h t where v: "head v = int h" "tail v = int t" "h \<le> t" "t \<le> length (data v)" "size v = int t - int h"
    "contents v = take (t - h) (drop h (data v))" "max v = int (length (data v))"
    using assms(1) by (rule vstr_okE)
  obtain h' where h': "h = h' + length xs"
    using assms(2) v(1) by (metis add.commute le_add_diff_inverse nat_int room_head_def)
  let ?d = "overwrite h' xs (data v)"
  let ?v = "v\<lparr>head := int h', data := ?d, size := size v + int (length xs)\<rparr>"
  have "vstr_put_head v xs = Some ?v"
    using v h' by (simp add: vstr_put_head_def copy_in_def)
  moreover have "contents ?v = xs @ contents v"
  proof -
    have "take (t - h') (drop h' ?d) = xs @ take (t - h) (drop h (data v))"
      using v(3,4) h' by (simp add: overwrite_def take_drop add.commute)
    moreover have "nat (int t - int h') = t - h'" using v(3) h' by simp
    ultimately show ?thesis unfolding v(6) by (simp add: contents_def v(2))
  qed
  ultimately show ?thesis
    using v h' by (simp add: vstr_ok_def room_tail_def room_head_def)
qed

lemma get_head_ok:
  assumes "vstr_ok v" "n \<le> length (contents v)"
  shows "\<exists>v'. vstr_get_head v (int n) = Some (take n (contents v), v') \<and> vstr_ok v' \<and>
    contents v' = drop n (contents v) \<and> room_head v' = room_head v + n \<and> room_tail v' = room_tail v"
proof -
  obtain h t where v: "head v = int h" "tail v = int t" "h \<le> t" "t \<le> length (data v)" "size v = int t - int h"
    "contents v = take (t - h) (drop h (data v))" "max v = int (length (data v))"
    using assms(1) by (rule vstr_okE)
  have n: "n \<le> t - h" using assms(2) v by simp
  let ?v = "v\<lparr>head := int h + int n, size := size v - int n\<rparr>"
  have "vstr_get_head v (int n) = Some (take n (contents v), ?v)"
    using v n by (simp add: vstr_get_head_def copy_out_def)
  moreover have "contents ?v = drop n (contents v)"
    using n unfolding v(6)
    by (simp add: contents_def v(1,2) drop_take add.commute nat_diff_distrib nat_add_distrib)
       (metis diff_diff_eq nat_int nat_minus_as_int of_nat_add diff_diff_add)
  ultimately show ?thesis
    using v n by (simp add: vstr_ok_def room_tail_def room_head_def nat_add_distrib)
qed

lemma get_tail_ok:
  assumes "vstr_ok v" "n \<le> length (contents v)"
  shows "\<exists>v'. vstr_get_tail v (int n) = Some (drop (length (contents v) - n) (contents v), v') \<and> vstr_ok v' \<and>
    contents v' = take (length (contents v) - n) (contents v) \<and>
    room_head v' = room_head v \<and> room_tail v' = room_tail v + n"
proof -
  obtain h t where v: "head v = int h" "tail v = int t" "h \<le> t" "t \<le> length (data v)" "size v = int t - int h"
    "contents v = take (t - h) (drop h (data v))" "max v = int (length (data v))"
    using assms(1) by (rule vstr_okE)
  have n: "n \<le> t - h" using assms(2) v by simp
  have len: "length (contents v) = t - h" using v by simp
  let ?v = "v\<lparr>tail := int t - int n, size := size v - int n\<rparr>"
  have "take n (drop (t - n) (data v)) = drop (t - h - n) (contents v)"
    using v(3,4) n unfolding v(6) by (simp add: drop_take)
  then have "vstr_get_tail v (int n) = Some (drop (length (contents v) - n) (contents v), ?v)"
    using v(1-5) n len by (simp add: vstr_get_tail_def copy_out_def nat_diff_distrib Let_def)
  moreover have "contents ?v = take (length (contents v) - n) (contents v)"
  proof -
    have "nat (int t - int n - int h) = t - h - n" using n v(3) by simp
    then show ?thesis unfolding len using n by (simp add: contents_def v(1,2) min_def)
  qed
  moreover have "room_tail ?v = room_tail v + n" "int h \<le> int t - int n"
    using v(2-4) n by (simp_all add: room_tail_def)
  ultimately show ?thesis
    using v by (simp add: vstr_ok_def room_head_def)
qed


lemma zero_tail_put: "vstr_zero_tail v n = vstr_put_tail v (replicate n 0)"
  by (simp add: vstr_zero_tail_def vstr_put_tail_def vstr_adv_tail_def)

lemma zero_head_put: "vstr_zero_head v n = vstr_put_head v (replicate n 0)"
  by (simp add: vstr_zero_head_def vstr_put_head_def vstr_rev_head_def copy_in_def Let_def)

lemma rev_tail_ok:
  assumes "vstr_ok v" "n \<le> length (contents v)"
  shows "vstr_ok (vstr_rev_tail v (int n))"
    and "contents (vstr_rev_tail v (int n)) = take (length (contents v) - n) (contents v)"
    and "room_tail (vstr_rev_tail v (int n)) = room_tail v + n"
proof -
  obtain v' where get: "vstr_get_tail v (int n) = Some (drop (length (contents v) - n) (contents v), v')"
    and ok: "vstr_ok v'" "contents v' = take (length (contents v) - n) (contents v)"
      "room_tail v' = room_tail v + n"
    using get_tail_ok [OF assms] by blast
  have eq: "vstr_rev_tail v (int n) = v'"
    using get by (simp add: vstr_get_tail_def vstr_rev_tail_def copy_out_def Let_def split: if_splits)
  show "vstr_ok (vstr_rev_tail v (int n))"
    "contents (vstr_rev_tail v (int n)) = take (length (contents v) - n) (contents v)"
    "room_tail (vstr_rev_tail v (int n)) = room_tail v + n"
    by (simp_all add: eq ok)
qed

lemma adv_head_ok:
  assumes "vstr_ok v" "n \<le> length (contents v)"
  shows "vstr_ok (vstr_adv_head v (int n))"
    and "contents (vstr_adv_head v (int n)) = drop n (contents v)"
proof -
  obtain v' where get: "vstr_get_head v (int n) = Some (take n (contents v), v')"
    and ok: "vstr_ok v'" "contents v' = drop n (contents v)"
    using get_head_ok [OF assms] by blast
  have eq: "vstr_adv_head v (int n) = v'"
    using get by (simp add: vstr_get_head_def vstr_adv_head_def copy_out_def split: if_splits)
  show "vstr_ok (vstr_adv_head v (int n))" "contents (vstr_adv_head v (int n)) = drop n (contents v)"
    by (simp_all add: eq ok)
qed

lemma map_ok:
  "vstr_ok (vstr_map block (int (length block)))" "contents (vstr_map block (int (length block))) = block"
  by (simp_all add: vstr_ok_def vstr_map_def contents_def)

lemma flush_ok: "vstr_ok v \<Longrightarrow> vstr_ok (vstr_flush v) \<and> contents (vstr_flush v) = [] \<and>
    room_tail (vstr_flush v) = length (data v)"
  by (simp add: vstr_ok_def vstr_flush_def contents_def room_tail_def)

subsection \<open>The contract of a stream\<close>

text \<open>
  What the packet code relies on: writing at an end appends there if there is room, reading at an
  end takes from there if there is enough, the other end and its room stay as they are.
\<close>

locale byte_deque =
  fixes ok :: "'s \<Rightarrow> bool"
    and abs :: "'s \<Rightarrow> bytes"
    and behind before :: "'s \<Rightarrow> nat"
    and put_back put_front :: "'s \<Rightarrow> bytes \<Rightarrow> 's option"
    and get_front get_back :: "'s \<Rightarrow> nat \<Rightarrow> (bytes \<times> 's) option"
  assumes put_back: "\<lbrakk>ok v; length xs \<le> behind v\<rbrakk> \<Longrightarrow> \<exists>v'. put_back v xs = Some v' \<and> ok v' \<and>
      abs v' = abs v @ xs \<and> behind v' = behind v - length xs \<and> before v' = before v"
    and put_front: "\<lbrakk>ok v; length xs \<le> before v\<rbrakk> \<Longrightarrow> \<exists>v'. put_front v xs = Some v' \<and> ok v' \<and>
      abs v' = xs @ abs v \<and> before v' = before v - length xs \<and> behind v' = behind v"
    and get_front: "\<lbrakk>ok v; n \<le> length (abs v)\<rbrakk> \<Longrightarrow> \<exists>v'. get_front v n = Some (take n (abs v), v') \<and>
      ok v' \<and> abs v' = drop n (abs v) \<and> before v' = before v + n \<and> behind v' = behind v"
    and get_back: "\<lbrakk>ok v; n \<le> length (abs v)\<rbrakk> \<Longrightarrow> \<exists>v'.
      get_back v n = Some (drop (length (abs v) - n) (abs v), v') \<and> ok v' \<and>
      abs v' = take (length (abs v) - n) (abs v) \<and> before v' = before v \<and> behind v' = behind v + n"
begin

fun put_pieces :: "'s \<Rightarrow> bytes list \<Rightarrow> 's option" where
  "put_pieces v [] = Some v"
| "put_pieces v (xs # xss) = do { v \<leftarrow> put_back v xs; put_pieces v xss }"

fun get_pieces :: "'s \<Rightarrow> nat list \<Rightarrow> (bytes list \<times> 's) option" where
  "get_pieces v [] = Some ([], v)"
| "get_pieces v (n # ns) = do { (xs, v) \<leftarrow> get_front v n; (xss, v) \<leftarrow> get_pieces v ns; Some (xs # xss, v) }"

lemma put_pieces_ok:
  "\<lbrakk>ok v; length (concat xss) \<le> behind v\<rbrakk> \<Longrightarrow> \<exists>v'. put_pieces v xss = Some v' \<and> ok v' \<and>
     abs v' = abs v @ concat xss \<and> behind v' = behind v - length (concat xss) \<and> before v' = before v"
proof (induction xss arbitrary: v)
  case (Cons xs xss)
  have len: "length xs + length (concat xss) \<le> behind v" using Cons.prems(2) by simp
  obtain v1 where v1: "put_back v xs = Some v1" "ok v1" "abs v1 = abs v @ xs"
      "behind v1 = behind v - length xs" "before v1 = before v"
    using put_back [OF Cons.prems(1), of xs] len by fastforce
  obtain v2 where v2: "put_pieces v1 xss = Some v2" "ok v2" "abs v2 = abs v1 @ concat xss"
      "behind v2 = behind v1 - length (concat xss)" "before v2 = before v1"
    using Cons.IH [OF v1(2)] v1(4) len by fastforce
  show ?case by (rule exI [of _ v2]) (use v1 v2 in \<open>simp del: length_concat\<close>)
qed simp

lemma get_pieces_ok:
  "\<lbrakk>ok v; abs v = concat xss @ ys\<rbrakk> \<Longrightarrow>
     \<exists>v'. get_pieces v (map length xss) = Some (xss, v') \<and> ok v' \<and> abs v' = ys"
proof (induction xss arbitrary: v)
  case (Cons xs xss)
  obtain v1 where v1: "get_front v (length xs) = Some (xs, v1)" "ok v1" "abs v1 = concat xss @ ys"
    using get_front [OF Cons.prems(1), of "length xs"] Cons.prems(2) by auto
  show ?case using Cons.IH [OF v1(2,3)] v1(1) by fastforce
qed simp

lemma fifo:
  assumes "ok v" "length (concat xss) \<le> behind v"
  shows "\<exists>v' xs0 v''. put_pieces v xss = Some v' \<and> get_pieces v' (length (abs v) # map length xss) = Some (xs0 # xss, v'') \<and>
    xs0 = abs v \<and> ok v'' \<and> abs v'' = []"
proof -
  obtain v1 where v1: "put_pieces v xss = Some v1" "ok v1" "abs v1 = abs v @ concat xss"
    using put_pieces_ok [OF assms] by blast
  have "abs v1 = concat (abs v # xss) @ []" using v1(3) by simp
  from get_pieces_ok [OF v1(2) this] v1(1) show ?thesis by auto
qed

lemma framing:
  assumes "ok v" "length hdr \<le> before v" "length trl \<le> behind v"
  shows "\<exists>v1 v2 v3 v4. put_front v hdr = Some v1 \<and> put_back v1 trl = Some v2 \<and>
    abs v2 = hdr @ abs v @ trl \<and> get_front v2 (length hdr) = Some (hdr, v3) \<and>
    get_back v3 (length trl) = Some (trl, v4) \<and> ok v4 \<and> abs v4 = abs v \<and>
    before v4 = before v \<and> behind v4 = behind v"
proof -
  obtain v1 where v1: "put_front v hdr = Some v1" "ok v1" "abs v1 = hdr @ abs v"
      "before v1 = before v - length hdr" "behind v1 = behind v"
    using put_front [OF assms(1,2)] by blast
  obtain v2 where v2: "put_back v1 trl = Some v2" "ok v2" "abs v2 = abs v1 @ trl"
      "behind v2 = behind v1 - length trl" "before v2 = before v1"
    using put_back [OF v1(2)] assms(3) v1(5) by force
  obtain v3 where v3: "get_front v2 (length hdr) = Some (hdr, v3)" "ok v3" "abs v3 = abs v @ trl"
      "before v3 = before v2 + length hdr" "behind v3 = behind v2"
    using get_front [OF v2(2), of "length hdr"] v2(3) v1(3) by auto
  obtain v4 where v4: "get_back v3 (length trl) = Some (trl, v4)" "ok v4" "abs v4 = abs v"
      "before v4 = before v3" "behind v4 = behind v3 + length trl"
    using get_back [OF v3(2), of "length trl"] v3(3) by auto
  show ?thesis using v1 v2 v3 v4 assms(2,3) by simp
qed

end

interpretation vs: byte_deque vstr_ok contents room_tail room_head vstr_put_tail vstr_put_head
  "\<lambda>v n. vstr_get_head v (int n)" "\<lambda>v n. vstr_get_tail v (int n)"
  by unfold_locales (simp_all only: put_tail_ok put_head_ok get_head_ok get_tail_ok)

text \<open>
  C25: the stream is a queue of bytes. Whatever is put at the tail of a consistent stream with room
  for it is read back at the head, after what the stream held, piece by piece, and the stream is then
  empty and consistent.
\<close>

theorem vstr_fifo:
  assumes "vstr_ok v" "length xs + length ys \<le> room_tail v"
  shows "\<exists>v1 v2 v3 v4. vstr_put_tail v xs = Some v1 \<and> vstr_put_tail v1 ys = Some v2 \<and>
    vstr_get_head v2 (size v) = Some (contents v, v3) \<and>
    vstr_get_head v3 (int (length xs)) = Some (xs, v4) \<and> contents v4 = ys \<and> vstr_ok v4 \<and>
    size v4 = int (length ys)"
proof -
  have sz: "size v = int (length (contents v))" using length_contents [OF assms(1)] by simp
  obtain v2 where v2: "vs.put_pieces v [xs, ys] = Some v2" "vstr_ok v2" "contents v2 = contents v @ xs @ ys"
    using vs.put_pieces_ok [OF assms(1), of "[xs, ys]"] assms(2) by auto
  then obtain v1 where v1: "vstr_put_tail v xs = Some v1" "vstr_put_tail v1 ys = Some v2"
    by (auto split: Option.bind_splits)
  obtain v4 where v4: "vs.get_pieces v2 [length (contents v), length xs] = Some ([contents v, xs], v4)"
      "vstr_ok v4" "contents v4 = ys"
    using vs.get_pieces_ok [OF v2(2), of "[contents v, xs]" ys] v2(3) by auto
  then show ?thesis
    using v1 sz length_contents [OF v4(2)] by (auto split: Option.bind_splits)
qed

lemma vstr_fifo_witness:
  "\<exists>v1 v2 v3 v4. vstr_put_tail (vstr_init [0, 0, 0, 0]) [1, 2] = Some v1 \<and> vstr_put_tail v1 [3] = Some v2 \<and>
    vstr_get_head v2 (size (vstr_init [0, 0, 0, 0])) = Some (contents (vstr_init [0, 0, 0, 0]), v3) \<and>
    vstr_get_head v3 (int (length [1, 2 :: 8 word])) = Some ([1, 2], v4) \<and> contents v4 = [3] \<and> vstr_ok v4 \<and>
    size v4 = int (length [3 :: 8 word])"
  by (rule vstr_fifo) (simp_all add: vstr_ok_def vstr_init_def room_tail_def)

text \<open>
  A header written before the head and a trailer behind the tail enclose the contents, and
  reading them off again restores the contents and the room on both sides; this is how a packet gets
  its headers in place.
\<close>

theorem vstr_framing:
  assumes "vstr_ok v" "length hdr \<le> room_head v" "length trl \<le> room_tail v"
  shows "\<exists>v1 v2 v3 v4. vstr_put_head v hdr = Some v1 \<and> vstr_put_tail v1 trl = Some v2 \<and>
    contents v2 = hdr @ contents v @ trl \<and> vstr_get_head v2 (int (length hdr)) = Some (hdr, v3) \<and>
    vstr_get_tail v3 (int (length trl)) = Some (trl, v4) \<and> vstr_ok v4 \<and> contents v4 = contents v \<and>
    room_head v4 = room_head v \<and> room_tail v4 = room_tail v"
  using vs.framing [OF assms] .

lemma vstr_framing_witness:
  "\<exists>v1 v2 v3 v4. vstr_put_head (vstr_set (vstr_init [0, 0, 7, 8, 0]) 2 4) [1, 2] = Some v1 \<and>
    vstr_put_tail v1 [9] = Some v2 \<and> contents v2 = [1, 2] @ contents (vstr_set (vstr_init [0, 0, 7, 8, 0]) 2 4) @ [9] \<and>
    vstr_get_head v2 (int (length [1, 2 :: 8 word])) = Some ([1, 2], v3) \<and>
    vstr_get_tail v3 (int (length [9 :: 8 word])) = Some ([9], v4) \<and> vstr_ok v4 \<and>
    contents v4 = contents (vstr_set (vstr_init [0, 0, 7, 8, 0]) 2 4) \<and>
    room_head v4 = room_head (vstr_set (vstr_init [0, 0, 7, 8, 0]) 2 4) \<and>
    room_tail v4 = room_tail (vstr_set (vstr_init [0, 0, 7, 8, 0]) 2 4)"
  by (rule vstr_framing) (simp_all add: vstr_init_def vstr_set_def vstr_ok_def room_head_def room_tail_def)

end
