(* ===== verification/Ohtbl.thy ===== *)
theory Ohtbl
  imports C_Library
begin

text \<open>
  The open-addressed hash table of the voice link (\<open>src/src/voice_comm/src/voice/lib/ohtbl.c\<close>,
  \<open>ohtbl.h\<close>): double hashing over an array whose used entries are chained in the order of
  insertion; the entry behind the last position is the list head. Pointers into the array are
  indices, \<^term>\<open>None\<close> is a pointer that was never written, and following one makes the operation
  \<^term>\<open>None\<close>. \<open>ohtbl_lookup\<close> hands the address of the sentinel to \<open>match\<close>, which reads memory
  behind it: what it then answers for a key is the field \<open>stray\<close>.
\<close>

datatype 'a slot = NULL | Vacated | Item 'a

record 'a ohtbl_item =
  item_prev :: "nat option"
  item_next :: "nat option"
  item_data :: "'a slot"

record 'a ohtbl_t =
  positions :: u32
  tolerance :: u32
  cur :: "nat option"
  h1 :: "'a \<Rightarrow> u32"
  h2 :: "'a \<Rightarrow> u32"
  match :: "'a \<Rightarrow> 'a \<Rightarrow> bool"
  stray :: "'a \<Rightarrow> bool"
  ht_size :: u32
  ht_head :: nat
  ht_tail :: nat
  table :: "'a ohtbl_item list"

definition ohtbl_init ::
  "u32 \<Rightarrow> ('a \<Rightarrow> u32) \<Rightarrow> ('a \<Rightarrow> u32) \<Rightarrow> ('a \<Rightarrow> 'a \<Rightarrow> bool) \<Rightarrow> ('a \<Rightarrow> bool) \<Rightarrow> u32 \<Rightarrow> 'a ohtbl_t" where
  "ohtbl_init n f g m s tol =
     \<lparr>positions = n, tolerance = tol, cur = None, h1 = f, h2 = g, match = m, stray = s,
      ht_size = 0, ht_head = unat n, ht_tail = unat n,
      table = replicate (unat n + 1) \<lparr>item_prev = None, item_next = None, item_data = NULL\<rparr>\<rparr>"

definition probe :: "'a ohtbl_t \<Rightarrow> 'a \<Rightarrow> nat \<Rightarrow> nat" where
  "probe h k i = unat ((h1 h k + of_nat i * h2 h k) mod positions h)"

abbreviation slot_at :: "'a ohtbl_t \<Rightarrow> nat \<Rightarrow> 'a slot" where
  "slot_at h p \<equiv> item_data (table h ! p)"

definition match_slot :: "'a ohtbl_t \<Rightarrow> 'a slot \<Rightarrow> 'a \<Rightarrow> bool" where
  "match_slot h s k = (case s of NULL \<Rightarrow> False | Vacated \<Rightarrow> stray h k | Item x \<Rightarrow> match h x k)"

fun lookup_loop :: "'a ohtbl_t \<Rightarrow> 'a \<Rightarrow> nat list \<Rightarrow> 'a slot" where
  "lookup_loop h k [] = NULL"
| "lookup_loop h k (i # is) =
     (let position = probe h k i in
      if slot_at h position = NULL then NULL
      else if match_slot h (slot_at h position) k then slot_at h position
      else lookup_loop h k is)"

definition ohtbl_lookup :: "'a ohtbl_t \<Rightarrow> 'a \<Rightarrow> 'a slot" where
  "ohtbl_lookup h k = lookup_loop h k [0 ..< unat (positions h)]"

text \<open>The assignments of an insertion; \<open>tail -> next\<close> is \<open>position\<close> when the tail advances to it.\<close>

definition link_item :: "'a ohtbl_t \<Rightarrow> nat \<Rightarrow> 'a \<Rightarrow> 'a ohtbl_t" where
  "link_item h position x =
     (let t = (table h)[position := (table h ! position)\<lparr>item_data := Item x\<rparr>];
          t = t[ht_tail h := (t ! ht_tail h)\<lparr>item_next := Some position\<rparr>];
          t = t[position := (t ! position)\<lparr>item_prev := Some (ht_tail h)\<rparr>]
      in h\<lparr>ht_size := ht_size h + 1, table := t, ht_tail := position\<rparr>)"

fun insert_loop :: "'a ohtbl_t \<Rightarrow> 'a \<Rightarrow> nat list \<Rightarrow> int \<times> 'a ohtbl_t" where
  "insert_loop h x [] = (-2, h)"
| "insert_loop h x (i # is) =
     (let position = probe h x i in
      if slot_at h position = NULL \<or> slot_at h position = Vacated then (0, link_item h position x)
      else insert_loop h x is)"

definition ohtbl_insert :: "'a ohtbl_t \<Rightarrow> 'a \<Rightarrow> int \<times> 'a ohtbl_t" where
  "ohtbl_insert h x =
     (if ht_size h = tolerance h then (-1, h)
      else if ohtbl_lookup h x \<noteq> NULL then (1, h)
      else insert_loop h x [0 ..< unat (positions h)])"

definition ohtbl_flush :: "'a ohtbl_t \<Rightarrow> 'a ohtbl_t" where
  "ohtbl_flush h = h\<lparr>cur := Some (ht_head h)\<rparr>"

definition ohtbl_traverse :: "'a ohtbl_t \<Rightarrow> ('a slot \<times> 'a ohtbl_t) option" where
  "ohtbl_traverse h =
     (if cur h = Some (ht_tail h) then Some (NULL, h)
      else do {
        c \<leftarrow> cur h;
        n \<leftarrow> item_next (table h ! c);
        Some (slot_at h n, h\<lparr>cur := Some n\<rparr>)
      })"

text \<open>The assignments of a removal: the neighbours of the entry are joined, the sentinel is stored.\<close>

definition unlink_item :: "'a ohtbl_t \<Rightarrow> nat \<Rightarrow> 'a ohtbl_t option" where
  "unlink_item h position =
     do {
       let t = table h;
       p \<leftarrow> item_prev (t ! position);
       let t = t[p := (t ! p)\<lparr>item_next := item_next (t ! position)\<rparr>];
       n \<leftarrow> item_next (t ! position);
       let t = t[n := (t ! n)\<lparr>item_prev := item_prev (t ! position)\<rparr>];
       let t = t[position := (t ! position)\<lparr>item_data := Vacated\<rparr>];
       Some (h\<lparr>ht_size := ht_size h - 1, table := t\<rparr>)
     }"

fun remove_loop :: "'a ohtbl_t \<Rightarrow> 'a \<Rightarrow> nat list \<Rightarrow> ('a slot \<times> 'a ohtbl_t) option" where
  "remove_loop h k [] = Some (NULL, h)"
| "remove_loop h k (i # is) =
     (let position = probe h k i in
      case slot_at h position of
        NULL \<Rightarrow> Some (NULL, h)
      | Vacated \<Rightarrow> remove_loop h k is
      | Item x \<Rightarrow>
          if match h x k then do {
            h \<leftarrow> unlink_item h position;
            Some (slot_at h position, h)
          }
          else remove_loop h k is)"

definition ohtbl_remove :: "'a ohtbl_t \<Rightarrow> 'a \<Rightarrow> ('a slot \<times> 'a ohtbl_t) option" where
  "ohtbl_remove h k = remove_loop h k [0 ..< unat (positions h)]"

text \<open>What \<open>ohtbl_destroy\<close> hands to the user's destructor, in its order.\<close>

fun item_list :: "'a slot \<Rightarrow> 'a list" where
  "item_list (Item x) = [x]"
| "item_list _ = []"

definition ohtbl_destroy :: "'a ohtbl_t \<Rightarrow> 'a list" where
  "ohtbl_destroy h = concat (map (\<lambda>i. item_list (slot_at h i)) [0 ..< unat (positions h)])"

subsection \<open>The loops as searches\<close>

lemma find_upt_Some: "find P [0 ..< n] = Some i \<longleftrightarrow> i < n \<and> P i \<and> (\<forall>j<i. \<not> P j)"
  by (auto simp: find_Some_iff)

lemma find_upt_None: "find P [0 ..< n] = None \<longleftrightarrow> (\<forall>i<n. \<not> P i)"
  by (auto simp: find_None_iff)

lemma find_upt_least: "P i \<Longrightarrow> i < n \<Longrightarrow> \<exists>j\<le>i. find P [0 ..< n] = Some j"
  by (rule exI [of _ "LEAST i. P i"])
     (auto simp: find_upt_Some intro: LeastI Least_le order_le_less_trans [OF Least_le] dest: not_less_Least)

lemma lookup_loop_find:
  "lookup_loop h k is =
     (case find (\<lambda>i. slot_at h (probe h k i) = NULL \<or> match_slot h (slot_at h (probe h k i)) k) is of
        None \<Rightarrow> NULL | Some i \<Rightarrow> slot_at h (probe h k i))"
  by (induction "is") (auto simp: Let_def)

lemma insert_loop_find:
  "insert_loop h x is =
     (case find (\<lambda>i. slot_at h (probe h x i) = NULL \<or> slot_at h (probe h x i) = Vacated) is of
        None \<Rightarrow> (-2, h) | Some i \<Rightarrow> (0, link_item h (probe h x i) x))"
  by (induction "is") (auto simp: Let_def)

definition stops_remove :: "'a ohtbl_t \<Rightarrow> 'a \<Rightarrow> 'a slot \<Rightarrow> bool" where
  "stops_remove h k s \<longleftrightarrow> (case s of NULL \<Rightarrow> True | Vacated \<Rightarrow> False | Item x \<Rightarrow> match h x k)"

lemma remove_loop_find:
  "remove_loop h k is =
     (case find (\<lambda>i. stops_remove h k (slot_at h (probe h k i))) is of
        None \<Rightarrow> Some (NULL, h)
      | Some i \<Rightarrow>
          let position = probe h k i in
          if slot_at h position = NULL then Some (NULL, h)
          else do { h \<leftarrow> unlink_item h position; Some (slot_at h position, h) })"
  by (induction "is") (auto simp: Let_def stops_remove_def probe_def unlink_item_def split: slot.splits Option.bind_splits)

lemma probe_less: "positions h \<noteq> 0 \<Longrightarrow> probe h k i < unat (positions h)"
  by (simp add: probe_def unat_mod unat_gt_0)

lemma probe_cong: "\<lbrakk>positions h' = positions h; h1 h' = h1 h; h2 h' = h2 h\<rbrakk> \<Longrightarrow> probe h' = probe h"
  by (intro ext) (simp add: probe_def)

subsection \<open>The chain of entries\<close>

fun chain :: "'a ohtbl_item list \<Rightarrow> nat \<Rightarrow> nat list \<Rightarrow> bool" where
  "chain t p [] = True"
| "chain t p (q # qs) = (item_next (t ! p) = Some q \<and> item_prev (t ! q) = Some p \<and> chain t q qs)"

lemma chain_append: "chain t p (qs @ rs) \<longleftrightarrow> chain t p qs \<and> chain t (last (p # qs)) rs"
  by (induction qs arbitrary: p) auto

lemma last_notin_butlast: "distinct xs \<Longrightarrow> xs \<noteq> [] \<Longrightarrow> last xs \<notin> set (butlast xs)"
  by (cases xs rule: rev_cases) auto

lemma chain_cong:
  "\<lbrakk>\<forall>q\<in>set (butlast (p # qs)). item_next (t' ! q) = item_next (t ! q);
    \<forall>q\<in>set qs. item_prev (t' ! q) = item_prev (t ! q)\<rbrakk> \<Longrightarrow> chain t' p qs = chain t p qs"
  by (induction qs arbitrary: p) (auto split: if_splits)

subsection \<open>The invariant\<close>

text \<open>\<open>ps\<close> is the list of used positions in the order of insertion.\<close>

definition reaches :: "'a ohtbl_t \<Rightarrow> nat \<Rightarrow> bool" where
  "reaches h p \<longleftrightarrow> (\<forall>x. slot_at h p = Item x \<longrightarrow>
     (\<exists>i<unat (positions h). probe h x i = p \<and> (\<forall>j<i. slot_at h (probe h x j) \<noteq> NULL)))"

fun the_item :: "'a slot \<Rightarrow> 'a" where
  "the_item (Item x) = x"

definition elems :: "'a ohtbl_t \<Rightarrow> nat list \<Rightarrow> 'a list" where
  "elems h ps = map (\<lambda>p. the_item (slot_at h p)) ps"

definition ohtbl_ok :: "('a \<Rightarrow> 'k) \<Rightarrow> 'a ohtbl_t \<Rightarrow> nat list \<Rightarrow> bool" where
  "ohtbl_ok key h ps \<longleftrightarrow>
     length (table h) = Suc (unat (positions h)) \<and> ht_head h = unat (positions h) \<and>
     ht_tail h = last (unat (positions h) # ps) \<and> unat (ht_size h) = length ps \<and>
     distinct ps \<and> set ps \<subseteq> {..<unat (positions h)} \<and>
     chain (table h) (unat (positions h)) ps \<and>
     (\<forall>p<unat (positions h). p \<in> set ps \<longleftrightarrow> (\<exists>x. slot_at h p = Item x)) \<and>
     (\<forall>p\<in>set ps. reaches h p) \<and> distinct (map key (elems h ps))"

lemma ohtbl_init_ok [inv_intros]: "ohtbl_ok key (ohtbl_init n f g m s tol) []"
  by (simp add: ohtbl_ok_def ohtbl_init_def elems_def del: replicate_Suc)

lemma ok_item: "ohtbl_ok key h ps \<Longrightarrow> p \<in> set ps \<Longrightarrow> slot_at h p = Item (the_item (slot_at h p))"
  by (auto simp: ohtbl_ok_def)

lemma ok_same_key:
  assumes "ohtbl_ok key h ps" "p < unat (positions h)" "q < unat (positions h)"
    "slot_at h p = Item x" "slot_at h q = Item y" "key x = key y"
  shows "p = q"
proof -
  have "p \<in> set ps" "q \<in> set ps" using assms(1-5) by (auto simp: ohtbl_ok_def)
  moreover have "inj_on (\<lambda>p. key (the_item (slot_at h p))) (set ps)"
    using assms(1) by (simp add: ohtbl_ok_def elems_def distinct_map comp_def)
  ultimately show ?thesis using assms(4-6) by (metis (no_types, lifting) inj_onD the_item.simps)
qed

lemma ok_free:
  assumes "ohtbl_ok key h ps" "length ps < unat (positions h)"
  shows "\<exists>p<unat (positions h). slot_at h p = NULL \<or> slot_at h p = Vacated"
proof -
  have "card (set ps) < card {..<unat (positions h)}"
    using assms by (simp add: ohtbl_ok_def distinct_card)
  then obtain p where "p < unat (positions h)" "p \<notin> set ps"
    by (metis card_mono finite_set lessThan_iff not_le subsetI)
  then show ?thesis using assms(1) unfolding ohtbl_ok_def by (metis slot.exhaust)
qed

lemma in_elems:
  assumes "ohtbl_ok key h ps"
  shows "x \<in> set (elems h ps) \<longleftrightarrow> (\<exists>p<unat (positions h). slot_at h p = Item x)"
proof
  assume "x \<in> set (elems h ps)"
  then obtain p where "p \<in> set ps" "x = the_item (slot_at h p)" by (auto simp: elems_def)
  with assms show "\<exists>p<unat (positions h). slot_at h p = Item x"
    using ok_item [OF assms] by (auto simp: ohtbl_ok_def)
next
  assume "\<exists>p<unat (positions h). slot_at h p = Item x"
  then obtain p where p: "p < unat (positions h)" "slot_at h p = Item x" by blast
  then have "p \<in> set ps" using assms by (auto simp: ohtbl_ok_def)
  with p(2) show "x \<in> set (elems h ps)" by (force simp: elems_def)
qed

subsection \<open>Effect of linking and unlinking\<close>

lemma link_item_simps [simp]:
  "positions (link_item h p x) = positions h" "h1 (link_item h p x) = h1 h" "h2 (link_item h p x) = h2 h"
  "match (link_item h p x) = match h" "stray (link_item h p x) = stray h"
  "tolerance (link_item h p x) = tolerance h"
  "ht_head (link_item h p x) = ht_head h" "ht_tail (link_item h p x) = p"
  "ht_size (link_item h p x) = ht_size h + 1" "length (table (link_item h p x)) = length (table h)"
  by (simp_all add: link_item_def Let_def)

lemma link_item_table:
  assumes "p < length (table h)" "ht_tail h < length (table h)" "p \<noteq> ht_tail h"
  shows "slot_at (link_item h p x) q = (if q = p then Item x else slot_at h q)"
    and "item_next (table (link_item h p x) ! q) = (if q = ht_tail h then Some p else item_next (table h ! q))"
    and "item_prev (table (link_item h p x) ! q) = (if q = p then Some (ht_tail h) else item_prev (table h ! q))"
  using assms by (auto simp: link_item_def Let_def nth_list_update)

lemma link_item_ok:
  assumes ok: "ohtbl_ok key h ps" and p: "p < unat (positions h)"
    and free: "slot_at h p = NULL \<or> slot_at h p = Vacated"
    and i: "i < unat (positions h)" "probe h x i = p" "\<forall>j<i. slot_at h (probe h x j) \<noteq> NULL"
    and new: "key x \<notin> key ` set (elems h ps)"
  shows "ohtbl_ok key (link_item h p x) (ps @ [p])" "elems (link_item h p x) (ps @ [p]) = elems h ps @ [x]"
proof -
  let ?h = "link_item h p x" and ?P = "unat (positions h)"
  have notin: "p \<notin> set ps" using ok p free by (auto simp: ohtbl_ok_def)
  have ps: "set ps \<subseteq> {..<?P}" "distinct ps" using ok by (simp_all add: ohtbl_ok_def)
  have len: "length (table h) = Suc ?P" and tl: "ht_tail h = last (?P # ps)"
    using ok by (simp_all add: ohtbl_ok_def)
  have tl_in: "ht_tail h \<in> insert ?P (set ps)" using tl by (cases ps) auto
  have ne: "p \<noteq> ht_tail h" using tl_in notin p by auto
  have rng: "p < length (table h)" "ht_tail h < length (table h)" using len p tl_in ps(1) by auto
  note t = link_item_table [OF rng ne]
  show el: "elems ?h (ps @ [p]) = elems h ps @ [x]"
    using notin by (auto simp: elems_def t)
  have pr: "probe ?h = probe h" by (rule probe_cong) simp_all
  have ch: "chain (table ?h) ?P (ps @ [p])"
  proof -
    have "distinct (?P # ps)" using ps by auto
    then have "ht_tail h \<notin> set (butlast (?P # ps))" unfolding tl by (rule last_notin_butlast) simp
    then have "chain (table ?h) ?P ps = chain (table h) ?P ps"
      using notin by (intro chain_cong) (auto simp: t)
    moreover have "chain (table h) ?P ps" using ok by (simp add: ohtbl_ok_def)
    ultimately show ?thesis using tl by (simp add: chain_append t)
  qed
  have lt: "length ps < ?P"
    using notin ps p by (metis card_lessThan distinct_card finite_lessThan lessThan_iff psubsetI psubset_card_mono subset_iff)
  have sz: "unat (ht_size h + 1) = Suc (length ps)"
  proof -
    have "ht_size h = of_nat (length ps)"
      using ok unfolding ohtbl_ok_def by (metis of_nat_unat ucast_id)
    then have "ht_size h + 1 = of_nat (Suc (length ps))" by simp
    then show ?thesis using lt unat_u32_less [of "positions h"] by (simp only:) (rule unat_of_nat_u32, simp)
  qed
  have re: "\<forall>q\<in>set (ps @ [p]). reaches ?h q"
    using ok i by (auto simp: reaches_def t pr ohtbl_ok_def) blast
  show "ohtbl_ok key ?h (ps @ [p])"
    unfolding ohtbl_ok_def
    using ok ps p notin len ch sz re new el by (auto simp: ohtbl_ok_def t)
qed

definition same_functions :: "'a ohtbl_t \<Rightarrow> 'a ohtbl_t \<Rightarrow> bool" where
  "same_functions h h' \<longleftrightarrow> positions h' = positions h \<and> h1 h' = h1 h \<and> h2 h' = h2 h \<and> match h' = match h \<and>
     stray h' = stray h \<and> tolerance h' = tolerance h"

lemma unlink_item_table:
  assumes prev: "item_prev (table h ! p) = Some a" and nxt: "item_next (table h ! p) = Some b"
    and ne: "a \<noteq> p" "b \<noteq> p" "a \<noteq> b"
    and rng: "a < length (table h)" "b < length (table h)" "p < length (table h)"
  obtains h' where "unlink_item h p = Some h'" "same_functions h h'" "ht_head h' = ht_head h" "ht_tail h' = ht_tail h"
    "ht_size h' = ht_size h - 1" "length (table h') = length (table h)"
    "\<And>q. slot_at h' q = (if q = p then Vacated else slot_at h q)"
    "\<And>q. item_next (table h' ! q) = (if q = a then Some b else item_next (table h ! q))"
    "\<And>q. item_prev (table h' ! q) = (if q = b then Some a else item_prev (table h ! q))"
proof
  let ?t = "(table h)[a := (table h ! a)\<lparr>item_next := Some b\<rparr>, b := (table h ! b)\<lparr>item_prev := Some a\<rparr>,
    p := (table h ! p)\<lparr>item_data := Vacated\<rparr>]"
  let ?h = "h\<lparr>ht_size := ht_size h - 1, table := ?t\<rparr>"
  show "unlink_item h p = Some ?h"
    using assms by (simp add: unlink_item_def Let_def)
  show "same_functions h ?h" by (simp add: same_functions_def)
qed (use assms in \<open>auto simp: nth_list_update\<close>)

lemma unlink_item_ok:
  assumes ok: "ohtbl_ok key h (as @ p # b # bs)"
  shows "\<exists>h'. unlink_item h p = Some h' \<and> same_functions h h' \<and> ohtbl_ok key h' (as @ b # bs) \<and>
    elems h' (as @ b # bs) = elems h as @ elems h (b # bs) \<and> slot_at h' p = Vacated"
proof -
  let ?P = "unat (positions h)" and ?a = "last (unat (positions h) # as)"
  have set: "set (as @ p # b # bs) \<subseteq> {..<?P}" "distinct (as @ p # b # bs)" "length (table h) = Suc ?P"
    "chain (table h) ?P (as @ p # b # bs)"
    using ok by (simp_all only: ohtbl_ok_def)
  have a: "?a \<in> insert ?P (set as)" by simp
  have links: "item_prev (table h ! p) = Some ?a" "item_next (table h ! p) = Some b"
    using set(4) by (simp_all add: chain_append)
  have ne: "?a \<noteq> p" "b \<noteq> p" "?a \<noteq> b" using a set(1,2) by (auto split: if_splits)
  have "?a < Suc ?P" using a
  proof
    assume "?a \<in> set as"
    then have "?a \<in> {..<?P}" using set(1) by (intro subsetD [OF set(1)]) simp
    then show ?thesis by (simp only: lessThan_iff)
  qed simp
  then have rng: "?a < length (table h)" "b < length (table h)" "p < length (table h)"
    using set(1,3) by simp_all
  obtain h' where h': "unlink_item h p = Some h'" "same_functions h h'" "ht_head h' = ht_head h" "ht_tail h' = ht_tail h"
    "ht_size h' = ht_size h - 1" "length (table h') = length (table h)"
    and t: "\<And>q. slot_at h' q = (if q = p then Vacated else slot_at h q)"
      "\<And>q. item_next (table h' ! q) = (if q = ?a then Some b else item_next (table h ! q))"
      "\<And>q. item_prev (table h' ! q) = (if q = b then Some ?a else item_prev (table h ! q))"
    using unlink_item_table [OF links ne rng] by blast
  have pos: "positions h' = positions h" and pr: "probe h' = probe h"
    using h'(2) probe_cong [of h' h] by (simp_all add: same_functions_def)
  have el: "elems h' (as @ b # bs) = elems h as @ elems h (b # bs)"
    using set(2) by (auto simp: elems_def t)
  have ch: "chain (table h') ?P (as @ b # bs)"
  proof -
    have "distinct (?P # as)" using set(1,2) by auto
    then have "?a \<notin> set (butlast (?P # as))" by (rule last_notin_butlast) simp
    moreover have "?a \<notin> set (b # bs)" using a
    proof
      assume "?a \<in> set as"
      then show ?thesis using set(2) by (metis distinct_append disjoint_iff list.set_intros(2))
    qed (use set(1) in auto)
    ultimately have "chain (table h') ?P as = chain (table h) ?P as" "chain (table h') b bs = chain (table h) b bs"
      using set(2) by (auto intro!: chain_cong simp: t dest: in_set_butlastD split: if_splits)
    with set(4) show ?thesis by (simp add: chain_append t)
  qed
  have sz: "unat (ht_size h - 1) = length (as @ b # bs)"
  proof -
    have "unat (ht_size h) = Suc (length (as @ b # bs))" using ok by (simp add: ohtbl_ok_def)
    then show ?thesis by (metis diff_Suc_1 unat_minus_one nat.distinct(1) unat_0)
  qed
  have re: "\<forall>q\<in>set (as @ b # bs). reaches h' q"
  proof
    fix q assume "q \<in> set (as @ b # bs)"
    then have "reaches h q" "q \<noteq> p" using ok set(2) by (auto simp: ohtbl_ok_def)
    then show "reaches h' q" unfolding reaches_def t pr pos by (metis slot.distinct(1))
  qed
  have dk: "distinct (map key (elems h' (as @ b # bs)))"
    unfolding el using ok by (simp add: ohtbl_ok_def elems_def)
  have used: "\<forall>q<?P. q \<in> set (as @ b # bs) \<longleftrightarrow> (\<exists>x. slot_at h' q = Item x)"
    using ok set(2) by (auto simp: ohtbl_ok_def t)
  have "ohtbl_ok key h' (as @ b # bs)"
    unfolding ohtbl_ok_def pos using ok set h' ch sz re dk used by (simp add: ohtbl_ok_def)
  with h' el t show ?thesis by auto
qed

text \<open>A table nothing was removed from: the entry at the tail has no successor yet.\<close>

definition unlinked :: "'a ohtbl_t \<Rightarrow> bool" where
  "unlinked h \<longleftrightarrow> item_next (table h ! ht_tail h) = None \<and>
     (\<forall>q<unat (positions h). slot_at h q \<noteq> Vacated \<and> (slot_at h q = NULL \<longrightarrow> item_next (table h ! q) = None))"

lemma unlinked_init: "unlinked (ohtbl_init n f g m s tol)"
  by (simp add: unlinked_def ohtbl_init_def del: replicate_Suc)

lemma insert_unlinked:
  assumes ok: "ohtbl_ok key h ps" and un: "unlinked h" and ins: "ohtbl_insert h x = (0, h')"
  shows "unlinked h'"
proof -
  obtain i where i: "i < unat (positions h)" "h' = link_item h (probe h x i) x"
      "slot_at h (probe h x i) = NULL \<or> slot_at h (probe h x i) = Vacated"
    using ins by (auto simp: ohtbl_insert_def insert_loop_find find_upt_Some split: if_splits option.splits)
  let ?p = "probe h x i"
  have p: "?p < unat (positions h)" using i(1) by (intro probe_less) auto
  have null: "slot_at h ?p = NULL" using i(3) un p by (auto simp: unlinked_def)
  have tl: "ht_tail h \<in> insert (unat (positions h)) (set ps)" "length (table h) = Suc (unat (positions h))"
    "set ps \<subseteq> {..<unat (positions h)}"
    using ok by (auto simp: ohtbl_ok_def)
  then have rng: "?p < length (table h)" "ht_tail h < length (table h)" using p by auto
  have ne: "?p \<noteq> ht_tail h"
  proof
    assume "?p = ht_tail h"
    then have "?p \<in> set ps" using tl(1) p by auto
    then show False using ok null p by (auto simp: ohtbl_ok_def)
  qed
  have item: "slot_at h (ht_tail h) \<noteq> NULL" if "ht_tail h < unat (positions h)"
    using ok tl that by (auto simp: ohtbl_ok_def)
  show ?thesis
    using un p null ne item by (auto simp: unlinked_def i(2) link_item_table [OF rng ne])
qed

subsection \<open>Traversal\<close>

fun traverse_steps :: "nat \<Rightarrow> 'a ohtbl_t \<Rightarrow> ('a slot list \<times> 'a ohtbl_t) option" where
  "traverse_steps 0 h = Some ([], h)"
| "traverse_steps (Suc n) h =
     do { (s, h) \<leftarrow> ohtbl_traverse h; (ss, h) \<leftarrow> traverse_steps n h; Some (s # ss, h) }"

lemma traverse_from:
  "\<lbrakk>ohtbl_ok key h (as @ bs); cur h = Some (last (unat (positions h) # as))\<rbrakk> \<Longrightarrow>
   traverse_steps (Suc (length bs)) h = Some (map Item (elems h bs) @ [NULL], h\<lparr>cur := Some (ht_tail h)\<rparr>)"
proof (induction bs arbitrary: as h)
  case Nil
  then show ?case by (auto simp: elems_def ohtbl_ok_def ohtbl_traverse_def)
next
  case (Cons b bs)
  let ?P = "unat (positions h)" and ?h = "h\<lparr>cur := Some b\<rparr>"
  have "distinct (?P # as @ b # bs)" "ht_tail h = last (b # bs)"
    using Cons.prems(1) by (auto simp: ohtbl_ok_def)
  then have ne: "last (?P # as) \<noteq> ht_tail h"
    by (metis append_Cons distinct_append disjoint_iff last_in_set list.discI)
  have "item_next (table h ! last (?P # as)) = Some b"
    using Cons.prems(1) by (simp add: ohtbl_ok_def chain_append)
  then have step: "ohtbl_traverse h = Some (slot_at h b, ?h)"
    using Cons.prems(2) ne by (simp add: ohtbl_traverse_def)
  have "ohtbl_ok key ?h ((as @ [b]) @ bs)"
    using Cons.prems(1) by (simp add: ohtbl_ok_def reaches_def elems_def probe_def)
  moreover have "cur ?h = Some (last (unat (positions ?h) # as @ [b]))" by simp
  ultimately have "traverse_steps (Suc (length bs)) ?h = Some (map Item (elems ?h bs) @ [NULL], ?h\<lparr>cur := Some (ht_tail ?h)\<rparr>)"
    by (rule Cons.IH)
  moreover have "slot_at h b = Item (the_item (slot_at h b))"
    by (rule ok_item [OF Cons.prems(1)]) simp
  ultimately show ?case unfolding list.size(4) add_Suc_right add_0_right
    using step by (subst traverse_steps.simps(2)) (simp add: elems_def del: traverse_steps.simps)
qed

lemma traverse_all:
  assumes "ohtbl_ok key h ps"
  shows "traverse_steps (Suc (length ps)) (ohtbl_flush h) =
    Some (map Item (elems h ps) @ [NULL], h\<lparr>cur := Some (ht_tail h)\<rparr>)"
proof -
  have "ohtbl_ok key (ohtbl_flush h) ([] @ ps)"
    using assms by (simp add: ohtbl_ok_def reaches_def elems_def probe_def ohtbl_flush_def)
  from traverse_from [OF this] assms show ?thesis
    by (simp add: ohtbl_flush_def elems_def ohtbl_ok_def)
qed

subsection \<open>The contract of the table\<close>

text \<open>
  What a client has to supply: a match that compares keys, hashes that only depend on the key, and a
  probe sequence that reaches every position.
\<close>

locale hashed_keys =
  fixes key :: "'a \<Rightarrow> 'k"
    and f g :: "'a \<Rightarrow> u32"
    and m :: "'a \<Rightarrow> 'a \<Rightarrow> bool"
    and n :: u32
  assumes match_key: "m x y \<longleftrightarrow> key x = key y"
    and hash_key: "key x = key y \<Longrightarrow> f x = f y \<and> g x = g y"
    and covers: "p < unat n \<Longrightarrow> \<exists>i<unat n. unat ((f x + of_nat i * g x) mod n) = p"
begin

definition uses :: "'a ohtbl_t \<Rightarrow> bool" where
  "uses h \<longleftrightarrow> positions h = n \<and> h1 h = f \<and> h2 h = g \<and> match h = m"

lemma probe_key: "uses h \<Longrightarrow> key x = key y \<Longrightarrow> probe h x = probe h y"
  using hash_key [of x y] by (simp add: uses_def probe_def fun_eq_iff)

lemma probe_covers: "uses h \<Longrightarrow> p < unat n \<Longrightarrow> \<exists>i<unat n. probe h x i = p"
  using covers [of p x] by (simp add: uses_def probe_def)

lemma first_probe:
  assumes ok: "ohtbl_ok key h ps" and u: "uses h" and p: "p < unat n" "slot_at h p = Item x" "key x = key k"
  obtains i where "i < unat n" "probe h k i = p"
    "\<And>j. j < i \<Longrightarrow> slot_at h (probe h k j) \<noteq> NULL"
    "\<And>j y. \<lbrakk>j < i; slot_at h (probe h k j) = Item y\<rbrakk> \<Longrightarrow> key y \<noteq> key k"
proof -
  have pos: "positions h = n" using u by (simp add: uses_def)
  then have n0: "positions h \<noteq> 0" using p(1) by auto
  have pk: "probe h x = probe h k" by (rule probe_key [OF u p(3)])
  have "p \<in> set ps" using ok p pos by (auto simp: ohtbl_ok_def)
  then have "reaches h p" using ok by (simp add: ohtbl_ok_def)
  then obtain i0 where i0: "i0 < unat n" "probe h k i0 = p" "\<forall>j<i0. slot_at h (probe h k j) \<noteq> NULL"
    using p(2) unfolding reaches_def pos pk [symmetric] by blast
  define i where "i = (LEAST i. probe h k i = p)"
  have i: "probe h k i = p" "i \<le> i0" "\<And>j. j < i \<Longrightarrow> probe h k j \<noteq> p"
    using i0(2) unfolding i_def by (rule LeastI, rule Least_le) (use not_less_Least in blast)
  show ?thesis
  proof (rule that [of i])
    show "i < unat n" "probe h k i = p" using i i0(1) by auto
    show "slot_at h (probe h k j) \<noteq> NULL" if "j < i" for j using i0(3) i(2) that by auto
    show "key y \<noteq> key k" if j: "j < i" and y: "slot_at h (probe h k j) = Item y" for j y
    proof
      assume "key y = key k"
      then have "probe h k j = p"
        using ok_same_key [OF ok probe_less [OF n0, of k j] _ y p(2)] p pos by simp
      with i(3) j show False by blast
    qed
  qed
qed

lemma lookup_present:
  assumes "ohtbl_ok key h ps" "uses h" "\<not> stray h k" "x \<in> set (elems h ps)" "key x = key k"
  shows "ohtbl_lookup h k = Item x"
proof -
  have pos: "positions h = n" "match h = m" using assms(2) by (simp_all add: uses_def)
  obtain p where p: "p < unat n" "slot_at h p = Item x"
    using assms(4) in_elems [OF assms(1)] pos by auto
  then obtain i where i: "i < unat n" "probe h k i = p" "\<And>j. j < i \<Longrightarrow> slot_at h (probe h k j) \<noteq> NULL"
    "\<And>j y. \<lbrakk>j < i; slot_at h (probe h k j) = Item y\<rbrakk> \<Longrightarrow> key y \<noteq> key k"
    using first_probe [OF assms(1,2) p assms(5)] by metis
  let ?Q = "\<lambda>i. slot_at h (probe h k i) = NULL \<or> match_slot h (slot_at h (probe h k i)) k"
  have "find ?Q [0 ..< unat n] = Some i"
    unfolding find_upt_Some
    using i p(2) assms(3,5) pos match_key by (auto simp: match_slot_def split: slot.splits)
  then show ?thesis using i(2) p(2) pos by (simp add: ohtbl_lookup_def lookup_loop_find)
qed

lemma lookup_absent:
  assumes "ohtbl_ok key h ps" "uses h" "\<not> stray h k" "key k \<notin> key ` set (elems h ps)"
  shows "ohtbl_lookup h k = NULL"
proof -
  have pos: "positions h = n" "match h = m" using assms(2) by (simp_all add: uses_def)
  have no: "\<not> match_slot h (slot_at h (probe h k i)) k" if "i < unat n" for i
  proof -
    have "positions h \<noteq> 0" using that pos by auto
    from probe_less [OF this] in_elems [OF assms(1)] assms(3,4) show ?thesis
      by (auto simp: match_slot_def pos match_key split: slot.splits) (metis imageI pos(1))
  qed
  then show ?thesis
    by (auto simp: ohtbl_lookup_def lookup_loop_find pos find_upt_Some split: option.splits)
qed

lemma insert_new:
  assumes ok: "ohtbl_ok key h ps" and u: "uses h" and ns: "\<not> stray h x"
    and tol: "length ps < unat (tolerance h)" "unat (tolerance h) \<le> unat n"
    and new: "key x \<notin> key ` set (elems h ps)"
  shows "\<exists>h' p. ohtbl_insert h x = (0, h') \<and> ohtbl_ok key h' (ps @ [p]) \<and>
    elems h' (ps @ [p]) = elems h ps @ [x] \<and> same_functions h h'"
proof -
  have pos: "positions h = n" using u by (simp add: uses_def)
  let ?Q = "\<lambda>i. slot_at h (probe h x i) = NULL \<or> slot_at h (probe h x i) = Vacated"
  have "length ps < unat (positions h)" using tol pos by simp
  then obtain p where p: "p < unat n" "slot_at h p = NULL \<or> slot_at h p = Vacated"
    using ok_free [OF ok] pos by auto
  obtain i where i: "i < unat n" "probe h x i = p" using probe_covers [OF u p(1)] by blast
  then obtain j where j: "find ?Q [0 ..< unat n] = Some j" using find_upt_least [of ?Q i "unat n"] p(2) by auto
  then have j': "j < unat n" "?Q j" "\<forall>k<j. slot_at h (probe h x k) \<noteq> NULL" by (auto simp: find_upt_Some)
  have lt: "probe h x j < unat (positions h)" using probe_less p(1) pos by (metis unat_0 not_less0)
  have "ht_size h \<noteq> tolerance h" using ok tol(1) by (auto simp: ohtbl_ok_def)
  then have "ohtbl_insert h x = (0, link_item h (probe h x j) x)"
    using lookup_absent [OF ok u ns new] j pos by (simp add: ohtbl_insert_def insert_loop_find)
  moreover have "same_functions h (link_item h (probe h x j) x)" by (simp add: same_functions_def)
  moreover note link_item_ok [OF ok lt j'(2) _ refl j'(3) new] j'(1)
  ultimately show ?thesis using pos by blast
qed

lemma insert_full: "ohtbl_ok key h ps \<Longrightarrow> length ps = unat (tolerance h) \<Longrightarrow> ohtbl_insert h x = (-1, h)"
  by (simp add: ohtbl_ok_def ohtbl_insert_def word_unat_eq_iff)

lemma insert_known:
  assumes "ohtbl_ok key h ps" "uses h" "\<not> stray h x" "length ps \<noteq> unat (tolerance h)"
    "key x \<in> key ` set (elems h ps)"
  shows "ohtbl_insert h x = (1, h)"
proof -
  obtain y where "y \<in> set (elems h ps)" "key y = key x" using assms(5) by auto
  from lookup_present [OF assms(1-3) this] have "ohtbl_lookup h x = Item y" .
  moreover have "ht_size h \<noteq> tolerance h" using assms(1,4) by (auto simp: ohtbl_ok_def)
  ultimately show ?thesis by (simp add: ohtbl_insert_def)
qed

lemma find_remove:
  assumes ok: "ohtbl_ok key h ps" and u: "uses h" and p: "p < unat n" "slot_at h p = Item x" "key x = key k"
  shows "ohtbl_remove h k = do { h \<leftarrow> unlink_item h p; Some (slot_at h p, h) }"
proof -
  have pos: "positions h = n" "match h = m" using u by (simp_all add: uses_def)
  obtain i where i: "i < unat n" "probe h k i = p" "\<And>j. j < i \<Longrightarrow> slot_at h (probe h k j) \<noteq> NULL"
    "\<And>j y. \<lbrakk>j < i; slot_at h (probe h k j) = Item y\<rbrakk> \<Longrightarrow> key y \<noteq> key k"
    using first_probe [OF ok u p] by metis
  have "find (\<lambda>i. stops_remove h k (slot_at h (probe h k i))) [0 ..< unat n] = Some i"
    unfolding find_upt_Some using i p(2,3) pos match_key
    by (auto simp: stops_remove_def split: slot.splits)
  then show ?thesis using i(2) p(2) pos by (simp add: ohtbl_remove_def remove_loop_find)
qed

lemma remove_inner:
  assumes ok: "ohtbl_ok key h (as @ p # b # bs)" and u: "uses h" and k: "key k = key (the_item (slot_at h p))"
  shows "\<exists>h'. ohtbl_remove h k = Some (Vacated, h') \<and> ohtbl_ok key h' (as @ b # bs) \<and>
    elems h' (as @ b # bs) = elems h as @ elems h (b # bs) \<and> same_functions h h'"
proof -
  have "p < unat n" "slot_at h p = Item (the_item (slot_at h p))"
    using ok u ok_item [OF ok, of p] by (auto simp: ohtbl_ok_def uses_def)
  from find_remove [OF ok u this k [symmetric]] unlink_item_ok [OF ok] show ?thesis by auto
qed

lemma remove_absent:
  assumes "ohtbl_ok key h ps" "uses h" "key k \<notin> key ` set (elems h ps)"
  shows "ohtbl_remove h k = Some (NULL, h)"
proof -
  have pos: "positions h = n" "match h = m" using assms(2) by (simp_all add: uses_def)
  have "stops_remove h k (slot_at h (probe h k i)) \<Longrightarrow> slot_at h (probe h k i) = NULL" if "i < unat n" for i
  proof -
    assume s: "stops_remove h k (slot_at h (probe h k i))"
    have "positions h \<noteq> 0" using that pos by auto
    from probe_less [OF this] in_elems [OF assms(1)] assms(3) s show ?thesis
      by (auto simp: stops_remove_def pos match_key split: slot.splits) (metis imageI pos(1))
  qed
  then show ?thesis
    by (auto simp: ohtbl_remove_def remove_loop_find pos find_upt_Some split: option.splits)
qed

end

end
