(* ===== verification/Phtbl.thy ===== *)
theory Phtbl
  imports C_Library
begin

text \<open>
  The hash table without chaining of the voice link (\<open>src/src/voice_comm/src/voice/lib/phtbl.c\<close>,
  \<open>phtbl.h\<close>), the buffer that puts received packets back in order. Every operation holds the
  mutex of the one position it touches, so it is atomic with respect to that position. \<^term>\<open>None\<close>
  is undefined behaviour: hashing into a table without positions, and what \<open>match\<close> does with the
  null pointer that \<open>phtbl_lookup\<close> hands it (field \<open>match_null\<close>). Operations that release an
  element return it.
\<close>

record 'a phtbl_t =
  ph_positions :: u32
  hash :: "'a \<Rightarrow> u32"
  solve :: "'a \<Rightarrow> 'a \<Rightarrow> bool"
  ph_match :: "'a \<Rightarrow> 'a \<Rightarrow> bool"
  match_null :: "'a \<Rightarrow> bool option"
  has_destroy :: bool
  ph_table :: "'a option list"

definition phtbl_init ::
  "u32 \<Rightarrow> ('a \<Rightarrow> u32) \<Rightarrow> ('a \<Rightarrow> 'a \<Rightarrow> bool) \<Rightarrow> ('a \<Rightarrow> bool option) \<Rightarrow> bool \<Rightarrow> ('a \<Rightarrow> 'a \<Rightarrow> bool) \<Rightarrow> 'a phtbl_t" where
  "phtbl_init n hs m mn d sv =
     \<lparr>ph_positions = n, hash = hs, solve = sv, ph_match = m, match_null = mn, has_destroy = d,
      ph_table = replicate (unat n) None\<rparr>"

definition ph_position :: "'a phtbl_t \<Rightarrow> 'a \<Rightarrow> nat option" where
  "ph_position h x = (if ph_positions h = 0 then None else Some (unat (hash h x mod ph_positions h)))"

fun option_list :: "'a option \<Rightarrow> 'a list" where
  "option_list None = []"
| "option_list (Some x) = [x]"

definition destroyed :: "'a phtbl_t \<Rightarrow> 'a option list \<Rightarrow> 'a list" where
  "destroyed h xs = (if has_destroy h then concat (map option_list xs) else [])"

definition phtbl_clean :: "'a phtbl_t \<Rightarrow> 'a list \<times> 'a phtbl_t" where
  "phtbl_clean h =
     (destroyed h (take (unat (ph_positions h)) (ph_table h)),
      h\<lparr>ph_table := replicate (unat (ph_positions h)) None @ drop (unat (ph_positions h)) (ph_table h)\<rparr>)"

definition phtbl_destroy :: "'a phtbl_t \<Rightarrow> 'a list" where
  "phtbl_destroy h = destroyed h (take (unat (ph_positions h)) (ph_table h))"

definition phtbl_insert :: "'a phtbl_t \<Rightarrow> 'a \<Rightarrow> (int \<times> 'a list \<times> 'a phtbl_t) option" where
  "phtbl_insert h x =
     do {
       position \<leftarrow> ph_position h x;
       let (released, current) =
         (case ph_table h ! position of
            None \<Rightarrow> ([], None)
          | Some y \<Rightarrow>
              if solve h y x then ((if has_destroy h then [y] else []), None)
              else ([], Some y));
       Some (case current of
               None \<Rightarrow> (0, released, h\<lparr>ph_table := (ph_table h)[position := Some x]\<rparr>)
             | Some _ \<Rightarrow> (-1, released, h))
     }"

definition phtbl_remove :: "'a phtbl_t \<Rightarrow> 'a \<Rightarrow> ('a option \<times> 'a phtbl_t) option" where
  "phtbl_remove h k =
     do {
       position \<leftarrow> ph_position h k;
       Some (case ph_table h ! position of
               None \<Rightarrow> (None, h)
             | Some y \<Rightarrow>
                 if ph_match h y k then (Some y, h\<lparr>ph_table := (ph_table h)[position := None]\<rparr>)
                 else (None, h))
     }"

definition phtbl_lookup :: "'a phtbl_t \<Rightarrow> 'a \<Rightarrow> 'a option option" where
  "phtbl_lookup h k =
     do {
       position \<leftarrow> ph_position h k;
       found \<leftarrow> (case ph_table h ! position of None \<Rightarrow> match_null h k | Some y \<Rightarrow> Some (ph_match h y k));
       Some (if found then ph_table h ! position else None)
     }"

subsection \<open>Invariant\<close>

text \<open>Every stored element sits at the position its hash gives.\<close>

definition phtbl_ok :: "'a phtbl_t \<Rightarrow> bool" where
  "phtbl_ok h \<longleftrightarrow> ph_positions h \<noteq> 0 \<and> length (ph_table h) = unat (ph_positions h) \<and>
     (\<forall>p<length (ph_table h). \<forall>x. ph_table h ! p = Some x \<longrightarrow> ph_position h x = Some p)"

text \<open>The table as a partial map from positions to elements.\<close>

definition ph_abs :: "'a phtbl_t \<Rightarrow> nat \<Rightarrow> 'a option" where
  "ph_abs h p = (if p < length (ph_table h) then ph_table h ! p else None)"

abbreviation ph_pos :: "'a phtbl_t \<Rightarrow> 'a \<Rightarrow> nat" where
  "ph_pos h x \<equiv> unat (hash h x mod ph_positions h)"

lemma ok_pos: "phtbl_ok h \<Longrightarrow> ph_position h x = Some (ph_pos h x) \<and> ph_pos h x < length (ph_table h)"
  by (auto simp: phtbl_ok_def ph_position_def unat_mod unat_gt_0)

lemma phtbl_init_ok [inv_intros]: "n \<noteq> 0 \<Longrightarrow> phtbl_ok (phtbl_init n hs m mn d sv)"
  by (simp add: phtbl_ok_def phtbl_init_def)

lemma ph_position_table [simp]:
  "ph_position (h\<lparr>ph_table := t\<rparr>) x = ph_position h x"
  by (simp add: ph_position_def)

lemma ok_update:
  assumes "phtbl_ok h" "case v of None \<Rightarrow> True | Some x \<Rightarrow> ph_pos h x = p" "p < length (ph_table h)"
  shows "phtbl_ok (h\<lparr>ph_table := (ph_table h)[p := v]\<rparr>)"
    and "ph_abs (h\<lparr>ph_table := (ph_table h)[p := v]\<rparr>) = (ph_abs h)(p := v)"
proof -
  show "phtbl_ok (h\<lparr>ph_table := (ph_table h)[p := v]\<rparr>)"
    using assms ok_pos [OF assms(1)] by (auto simp: phtbl_ok_def nth_list_update split: if_splits)
  show "ph_abs (h\<lparr>ph_table := (ph_table h)[p := v]\<rparr>) = (ph_abs h)(p := v)"
    using assms(3) by (auto simp: ph_abs_def fun_eq_iff nth_list_update)
qed

lemma insert_ok:
  assumes "phtbl_ok h"
  shows "\<exists>r rel t. phtbl_insert h x = Some (r, rel, h\<lparr>ph_table := t\<rparr>) \<and> phtbl_ok (h\<lparr>ph_table := t\<rparr>) \<and>
    (case ph_abs h (ph_pos h x) of
       Some y \<Rightarrow> if solve h y x then r = 0 \<and> ph_abs (h\<lparr>ph_table := t\<rparr>) = (ph_abs h)(ph_pos h x \<mapsto> x) \<and>
                   rel = (if has_destroy h then [y] else [])
                 else r = -1 \<and> t = ph_table h \<and> rel = []
     | None \<Rightarrow> r = 0 \<and> ph_abs (h\<lparr>ph_table := t\<rparr>) = (ph_abs h)(ph_pos h x \<mapsto> x) \<and> rel = [])"
proof -
  note pos = ok_pos [OF assms, of x]
  have abs: "ph_abs h (ph_pos h x) = ph_table h ! ph_pos h x" using pos by (simp add: ph_abs_def)
  let ?t = "(ph_table h)[ph_pos h x := Some x]"
  have new: "phtbl_ok (h\<lparr>ph_table := ?t\<rparr>)" "ph_abs (h\<lparr>ph_table := ?t\<rparr>) = (ph_abs h)(ph_pos h x \<mapsto> x)"
    using ok_update [where v = "Some x" and p = "ph_pos h x", OF assms] pos by simp_all
  have keep: "phtbl_insert h x = Some (-1, [], h\<lparr>ph_table := ph_table h\<rparr>)" "phtbl_ok (h\<lparr>ph_table := ph_table h\<rparr>)"
    if "ph_table h ! ph_pos h x = Some y" "\<not> solve h y x" for y
    using that pos assms by (simp_all add: phtbl_insert_def)
  show ?thesis
  proof (cases "\<exists>y. ph_table h ! ph_pos h x = Some y \<and> \<not> solve h y x")
    case True
    then show ?thesis using keep abs by force
  next
    case False
    then have "phtbl_insert h x = Some (0, (case ph_table h ! ph_pos h x of None \<Rightarrow> [] | Some y \<Rightarrow>
        if has_destroy h then [y] else []), h\<lparr>ph_table := ?t\<rparr>)"
      using pos by (auto simp: phtbl_insert_def split: option.splits)
    with False new abs show ?thesis by (auto split: option.splits)
  qed
qed

lemma remove_ok:
  assumes "phtbl_ok h"
  shows "\<exists>t. phtbl_remove h k =
      Some ((case ph_abs h (ph_pos h k) of Some y \<Rightarrow> if ph_match h y k then Some y else None | None \<Rightarrow> None),
            h\<lparr>ph_table := t\<rparr>) \<and>
    phtbl_ok (h\<lparr>ph_table := t\<rparr>) \<and>
    ph_abs (h\<lparr>ph_table := t\<rparr>) = (case ph_abs h (ph_pos h k) of
       Some y \<Rightarrow> if ph_match h y k then (ph_abs h)(ph_pos h k := None) else ph_abs h | None \<Rightarrow> ph_abs h)"
proof -
  note pos = ok_pos [OF assms, of k]
  have abs: "ph_abs h (ph_pos h k) = ph_table h ! ph_pos h k" using pos by (simp add: ph_abs_def)
  let ?t = "(ph_table h)[ph_pos h k := None]"
  have new: "phtbl_ok (h\<lparr>ph_table := ?t\<rparr>)" "ph_abs (h\<lparr>ph_table := ?t\<rparr>) = (ph_abs h)(ph_pos h k := None)"
    using ok_update [where v = None and p = "ph_pos h k", OF assms] pos by simp_all
  show ?thesis
  proof (cases "\<exists>y. ph_table h ! ph_pos h k = Some y \<and> ph_match h y k")
    case True
    then show ?thesis
      using new pos abs by (intro exI [of _ ?t]) (auto simp: phtbl_remove_def)
  next
    case False
    then show ?thesis
      using pos abs assms by (intro exI [of _ "ph_table h"]) (auto simp: phtbl_remove_def split: option.splits)
  qed
qed

end
