(* ===== verification/Rtp.thy ===== *)
theory Rtp
  imports Net_Bytes Vstr Ohtbl Phtbl "HOL-Library.Signed_Division"
begin

text \<open>
  RTP sessions (\<open>src/src/voice_comm/src/voice/lib/rtp.c\<close>, \<open>rtp.h\<close>): the contributing sources, the
  table of members, building and parsing packets, and the queue that reorders what a member sent.

  A packet structure lies over a block of bytes: 16 bytes that only the host uses (\<open>xdef\<close> and
  \<open>xlen\<close> first, then the pointers \<open>xhdr\<close>, \<open>payload\<close> and the length \<open>pay_len\<close>, which are fields of
  the record \<open>rtp_packet_t\<close> here), then the packet as it is on the wire. A member is referred to by its address,
  an index into \<open>sources\<close>; the table holds the address together with the \<open>ssrc\<close> found there, which
  no operation changes. \<open>long\<close> has 32 bits and wraps around. Mutexes are left out: each is held for
  the whole access it protects. \<^term>\<open>None\<close> is an access outside a block or through the sentinel of
  the table.
\<close>

definition RTP_VERSION :: u8 where "RTP_VERSION = 2"
definition RTP_MTU_SIZE :: nat where "RTP_MTU_SIZE = 1500"
definition RTP_MAX_QUEUE :: u16 where "RTP_MAX_QUEUE = 32"
definition RTP_SOLVE_TIME :: u32 where "RTP_SOLVE_TIME = 1024"
definition RTP_SDES_MAX :: nat where "RTP_SDES_MAX = 255"
definition RTP_MAX_FAIL_COUNT :: int where "RTP_MAX_FAIL_COUNT = 5"
definition RTP_HEADER_SIZE :: int where "RTP_HEADER_SIZE = 12"
definition RTP_HASH_SIZE :: u32 where "RTP_HASH_SIZE = 103"
definition RTP_HASH_TOLERANCE :: u32 where "RTP_HASH_TOLERANCE = 50"
definition RTP_PACKET_IDX :: nat where "RTP_PACKET_IDX = 16"
definition RTP_PACKET_SIZE :: nat where "RTP_PACKET_SIZE = RTP_PACKET_IDX + RTP_MTU_SIZE"

definition FLAG_MARKER :: u8 where "FLAG_MARKER = 1"
definition FLAG_PADDING :: u8 where "FLAG_PADDING = 2"
definition FLAG_EXTENSION :: u8 where "FLAG_EXTENSION = 4"
definition RTCP_TYPE_MIN :: u8 where "RTCP_TYPE_MIN = 72"
definition RTCP_TYPE_MAX :: u8 where "RTCP_TYPE_MAX = 76"

lemmas rtp_consts = RTP_VERSION_def RTP_MTU_SIZE_def RTP_MAX_QUEUE_def RTP_SOLVE_TIME_def RTP_SDES_MAX_def
  RTP_MAX_FAIL_COUNT_def RTP_HEADER_SIZE_def RTP_HASH_SIZE_def RTP_HASH_TOLERANCE_def RTP_PACKET_IDX_def
  RTP_PACKET_SIZE_def FLAG_MARKER_def FLAG_PADDING_def FLAG_EXTENSION_def RTCP_TYPE_MIN_def RTCP_TYPE_MAX_def

subsection \<open>Data\<close>

record rtp_packet_t =
  mem :: bytes
  xhdr :: "int option"
  pay_len :: int
  payload :: int

text \<open>The fields on the wire, at their offsets in the block.\<close>

definition pkt_ver :: "bytes \<Rightarrow> u8" where "pkt_ver m = ld_bits m 16 6 2"
definition pkt_p :: "bytes \<Rightarrow> u8" where "pkt_p m = ld_bits m 16 5 1"
definition pkt_x :: "bytes \<Rightarrow> u8" where "pkt_x m = ld_bits m 16 4 1"
definition pkt_cc :: "bytes \<Rightarrow> u8" where "pkt_cc m = ld_bits m 16 0 4"
definition pkt_m :: "bytes \<Rightarrow> u8" where "pkt_m m = ld_bits m 17 7 1"
definition pkt_pt :: "bytes \<Rightarrow> u8" where "pkt_pt m = ld_bits m 17 0 7"
definition pkt_seq :: "bytes \<Rightarrow> u16" where "pkt_seq m = ld16 m 18"
definition pkt_ts :: "bytes \<Rightarrow> u32" where "pkt_ts m = ld32 m 20"
definition pkt_ssrc :: "bytes \<Rightarrow> u32" where "pkt_ssrc m = ld32 m 24"

lemmas pkt_fields = pkt_ver_def pkt_p_def pkt_x_def pkt_cc_def pkt_m_def pkt_pt_def pkt_seq_def pkt_ts_def pkt_ssrc_def

text \<open>\<open>sdes\<close> are the arrays \<open>cname\<close>, \<open>name\<close>, \<open>email\<close>, \<open>phone\<close>, \<open>loc\<close>, \<open>tool\<close>, \<open>note\<close>, in this order.\<close>

record rtp_source_t =
  src_ssrc :: u32
  max_seq :: u16
  src_cycles :: u16
  received :: u32
  lost :: u32
  frac :: u8
  last_seq :: u32
  transit :: u32
  jitter :: u32
  rtt :: u32
  lsr :: u32
  dlsr :: u32
  min_seq :: u16
  fail_count :: u32
  pqueue :: "rtp_packet_t phtbl_t"
  src_sdes :: "bytes list"

type_synonym member_ref = "u32 \<times> nat"

record rtp_t =
  ssrc :: u32
  cc :: nat
  csrc :: "u32 list"
  seq :: u16
  cycles :: u16
  pcount :: u32
  ocount :: u32
  sdes :: "bytes list"
  members :: "member_ref ohtbl_t"
  flags :: u32
  sources :: "rtp_source_t list"

record rtp_param_t =
  prm_flags :: u8
  prm_xdef :: u16
  prm_xlen :: u16
  prm_xhdr :: bytes
  prm_pt :: u8
  prm_len :: int
  prm_payload :: bytes

subsection \<open>Session and contributing sources\<close>

definition rtp_members_h1 :: "member_ref \<Rightarrow> u32" where
  "rtp_members_h1 key = fst key mod RTP_HASH_SIZE"

definition rtp_members_h2 :: "member_ref \<Rightarrow> u32" where
  "rtp_members_h2 key = 1 + fst key mod (RTP_HASH_SIZE - 2)"

definition rtp_members_match :: "member_ref \<Rightarrow> member_ref \<Rightarrow> bool" where
  "rtp_members_match key1 key2 \<longleftrightarrow> fst key1 = fst key2"

definition ascii :: "string \<Rightarrow> bytes" where
  "ascii s = map of_char s"

text \<open>\<open>sprintf\<close> into a cleared array of \<open>RTP_SDES_MAX\<close> bytes.\<close>

definition sdes_array :: "bytes \<Rightarrow> bytes option" where
  "sdes_array s = (if length s < RTP_SDES_MAX then Some (s @ replicate (RTP_SDES_MAX - length s) 0) else None)"

text \<open>The environment gives user and host name, \<open>rand32\<close> the two random numbers, \<open>stray\<close> what the
  match function finds behind the sentinel, and \<open>old\<close> what the memory of the list held.\<close>

definition rtp_init :: "bytes \<Rightarrow> bytes \<Rightarrow> u32 \<Rightarrow> u32 \<Rightarrow> (member_ref \<Rightarrow> bool) \<Rightarrow> u32 list \<Rightarrow> u32 \<Rightarrow> rtp_t option" where
  "rtp_init username hostname r1 r2 strays old fl =
     do {
       cname \<leftarrow> sdes_array (username @ ascii ''@'' @ hostname);
       tool \<leftarrow> sdes_array (ascii ''e-Comm (C) ComunIP'');
       let empty = replicate RTP_SDES_MAX 0;
       Some \<lparr>ssrc = r2, cc = 0, csrc = old, seq = ucast r1, cycles = 0, pcount = 0, ocount = 0,
             sdes = [cname, empty, empty, empty, empty, tool, empty],
             members = ohtbl_init RTP_HASH_SIZE rtp_members_h1 rtp_members_h2 rtp_members_match strays
                         (RTP_HASH_TOLERANCE div 2),
             flags = fl, sources = []\<rparr>
     }"

fun csrc_known :: "u32 list \<Rightarrow> u32 \<Rightarrow> nat \<Rightarrow> nat \<Rightarrow> bool" where
  "csrc_known cs c idx 0 = False"
| "csrc_known cs c idx (Suc n) = (if cs ! idx = c then True else csrc_known cs c (Suc idx) n)"

definition rtp_add_csrc :: "rtp_t \<Rightarrow> u32 \<Rightarrow> int \<times> rtp_t" where
  "rtp_add_csrc s c =
     (let c = htonl c in
      if cc s \<ge> 15 then (0, s)
      else if csrc_known (csrc s) c 0 (cc s) then (0, s)
      else (1, s\<lparr>csrc := (csrc s)[cc s := c], cc := cc s + 1\<rparr>))"

text \<open>The loop that closes the gap; it reads \<open>csrc[cc]\<close> behind the list after a hit, \<^term>\<open>None\<close> behind the
  array.\<close>

fun del_csrc_loop :: "u32 \<Rightarrow> nat \<Rightarrow> nat \<Rightarrow> nat \<Rightarrow> u32 list \<Rightarrow> (nat \<times> u32 list) option" where
  "del_csrc_loop c cr prev 0 cs = Some (cr, cs)"
| "del_csrc_loop c cr prev (Suc n) cs =
     do {
       v \<leftarrow> mget cs cr;
       let cr = (if v = c then cr + 1 else cr);
       v \<leftarrow> mget cs cr;
       cs \<leftarrow> mput cs prev v;
       del_csrc_loop c (cr + 1) (prev + 1) n cs
     }"

definition rtp_del_csrc :: "rtp_t \<Rightarrow> u32 \<Rightarrow> (int \<times> rtp_t) option" where
  "rtp_del_csrc s c =
     do {
       (cr, cs) \<leftarrow> del_csrc_loop (htonl c) 0 0 (cc s) (csrc s);
       let s' = s\<lparr>csrc := cs\<rparr>;
       Some (if cc s > 0 \<and> cc s \<noteq> cr then (1, s'\<lparr>cc := cc s - 1\<rparr>) else (0, s'))
     }"

subsection \<open>Members\<close>

definition rtp_find_member :: "member_ref ohtbl_t \<Rightarrow> u32 \<Rightarrow> member_ref slot" where
  "rtp_find_member htbl sid = ohtbl_lookup htbl (sid, 0)"

definition rtp_add_member :: "member_ref ohtbl_t \<Rightarrow> member_ref \<Rightarrow> int \<times> member_ref ohtbl_t" where
  "rtp_add_member htbl member = ohtbl_insert htbl member"

definition rtp_remove_member :: "member_ref ohtbl_t \<Rightarrow> u32 \<Rightarrow> (member_ref slot \<times> member_ref ohtbl_t) option" where
  "rtp_remove_member htbl sid = ohtbl_remove htbl (sid, 0)"

definition rtp_pqueue_hash :: "rtp_packet_t \<Rightarrow> u32" where
  "rtp_pqueue_hash key = ucast (pkt_seq (mem key))"

definition rtp_pqueue_match :: "rtp_packet_t \<Rightarrow> rtp_packet_t \<Rightarrow> bool" where
  "rtp_pqueue_match key1 key2 \<longleftrightarrow> pkt_seq (mem key1) = pkt_seq (mem key2)"

definition rtp_pqueue_solve :: "rtp_packet_t \<Rightarrow> rtp_packet_t \<Rightarrow> bool" where
  "rtp_pqueue_solve key1 key2 =
     (let current = pkt_ts (mem key1); next_ts = pkt_ts (mem key2) in
      if current < - RTP_SOLVE_TIME then next_ts > current
      else next_ts + RTP_SOLVE_TIME > current + RTP_SOLVE_TIME)"

text \<open>\<open>old\<close> is what the allocated memory held; fields that are not set keep it.\<close>

definition rtp_new_member :: "rtp_source_t \<Rightarrow> u32 \<Rightarrow> rtp_source_t" where
  "rtp_new_member old sid =
     old\<lparr>src_ssrc := sid, max_seq := 0, src_cycles := 0, received := 0, lost := 0, frac := 0, last_seq := 0,
         transit := 0, jitter := 0, lsr := 0, dlsr := 0, min_seq := 0, fail_count := 0,
         src_sdes := map (\<lambda>a. a[0 := 0]) (src_sdes old),
         pqueue := phtbl_init (ucast RTP_MAX_QUEUE) rtp_pqueue_hash rtp_pqueue_match (\<lambda>k. None) True rtp_pqueue_solve\<rparr>"

subsection \<open>The list of contributing sources\<close>

definition csrcs :: "rtp_t \<Rightarrow> u32 list" where
  "csrcs s = take (cc s) (csrc s)"

definition csrc_ok :: "rtp_t \<Rightarrow> bool" where
  "csrc_ok s \<longleftrightarrow> length (csrc s) = 15 \<and> cc s \<le> 15 \<and> distinct (csrcs s)"

lemma csrc_known_iff:
  "idx + n \<le> length cs \<Longrightarrow> csrc_known cs c idx n \<longleftrightarrow> c \<in> set (take n (drop idx cs))"
proof (induction n arbitrary: idx)
  case (Suc n)
  then have "drop idx cs = cs ! idx # drop (Suc idx) cs" by (simp add: Cons_nth_drop_Suc)
  with Suc show ?case by auto
qed simp

lemma rtp_add_csrc_ok:
  assumes "csrc_ok s"
  shows "rtp_add_csrc s c =
      (if cc s < 15 \<and> htonl c \<notin> set (csrcs s) then (1, s\<lparr>csrc := (csrc s)[cc s := htonl c], cc := cc s + 1\<rparr>) else (0, s))"
    and "csrc_ok (snd (rtp_add_csrc s c))"
    and "csrcs (snd (rtp_add_csrc s c)) =
      (if cc s < 15 \<and> htonl c \<notin> set (csrcs s) then csrcs s @ [htonl c] else csrcs s)"
proof -
  have known: "csrc_known (csrc s) (htonl c) 0 (cc s) \<longleftrightarrow> htonl c \<in> set (csrcs s)"
    using assms by (simp add: csrc_known_iff csrc_ok_def csrcs_def)
  show eq: "rtp_add_csrc s c =
      (if cc s < 15 \<and> htonl c \<notin> set (csrcs s) then (1, s\<lparr>csrc := (csrc s)[cc s := htonl c], cc := cc s + 1\<rparr>) else (0, s))"
    by (simp add: rtp_add_csrc_def Let_def known)
  have "csrcs (s\<lparr>csrc := (csrc s)[cc s := htonl c], cc := cc s + 1\<rparr>) = csrcs s @ [htonl c]" if "cc s < 15"
    using that assms by (simp add: csrcs_def csrc_ok_def take_Suc_conv_app_nth)
  then show "csrcs (snd (rtp_add_csrc s c)) =
      (if cc s < 15 \<and> htonl c \<notin> set (csrcs s) then csrcs s @ [htonl c] else csrcs s)"
    and "csrc_ok (snd (rtp_add_csrc s c))"
    using assms by (auto simp: eq csrc_ok_def)
qed

text \<open>The loop after the hit: the reading index is ahead of the writing index.\<close>

lemma del_csrc_shift:
  "\<lbrakk>k + Suc n + 1 < length cs; c \<notin> set (take n (drop (k + 1) cs))\<rbrakk> \<Longrightarrow>
   \<exists>cr cs'. del_csrc_loop c (k + 1) k (Suc n) cs = Some (cr, cs') \<and> k + Suc n < cr \<and> length cs' = length cs \<and>
     take (k + n) cs' = take k cs @ take n (drop (k + 1) cs)"
proof (induction n arbitrary: k cs)
  case 0
  then show ?case by (simp add: mget_def mput_def)
next
  case (Suc n)
  let ?cs = "cs[k := cs ! (k + 1)]"
  have dr: "drop (k + 1) cs = cs ! (k + 1) # drop (k + 2) cs"
    using Suc.prems(1) by (simp add: Cons_nth_drop_Suc)
  then have v: "cs ! (k + 1) \<noteq> c" and rest: "c \<notin> set (take n (drop (k + 2) cs))" using Suc.prems(2) by auto
  have "del_csrc_loop c (k + 1) k (Suc (Suc n)) cs = del_csrc_loop c (Suc k + 1) (Suc k) (Suc n) ?cs"
    using Suc.prems(1) v by (simp add: mget_def mput_def)
  moreover obtain cr cs' where "del_csrc_loop c (Suc k + 1) (Suc k) (Suc n) ?cs = Some (cr, cs')"
      "Suc k + Suc n < cr" "length cs' = length ?cs"
      "take (Suc k + n) cs' = take (Suc k) ?cs @ take n (drop (Suc k + 1) ?cs)"
    using Suc.IH [of "Suc k" ?cs] Suc.prems(1) rest by auto
  moreover have "take (Suc k) ?cs = take k cs @ [cs ! (k + 1)]"
    using Suc.prems(1) by (simp add: take_Suc_conv_app_nth)
  ultimately show ?case using dr Suc.prems(1) by (auto simp del: del_csrc_loop.simps)
qed

lemma del_csrc_skip:
  "\<lbrakk>j + n \<le> length cs; m \<le> n; c \<notin> set (take m (drop j cs))\<rbrakk> \<Longrightarrow>
   del_csrc_loop c j j n cs = del_csrc_loop c (j + m) (j + m) (n - m) cs"
proof (induction m arbitrary: j n)
  case (Suc m)
  then obtain n' where n: "n = Suc n'" by (cases n) auto
  have dr: "drop j cs = cs ! j # drop (Suc j) cs" using Suc.prems(1) n by (simp add: Cons_nth_drop_Suc)
  have "cs ! j \<noteq> c" using Suc.prems(3) dr by auto
  then have "del_csrc_loop c j j n cs = del_csrc_loop c (Suc j) (Suc j) n' cs"
    using Suc.prems n by (simp add: mget_def mput_def)
  also have "\<dots> = del_csrc_loop c (Suc j + m) (Suc j + m) (n' - m) cs"
    using Suc.prems n dr by (intro Suc.IH) auto
  finally show ?case using n by simp
qed simp

lemma del_csrc_hit:
  assumes "as @ c # bs = take n cs" "n + 1 < length cs" "distinct (take n cs)"
  shows "\<exists>cr cs'. del_csrc_loop c 0 0 n cs = Some (cr, cs') \<and> n < cr \<and> length cs' = length cs \<and>
    take (n - 1) cs' = as @ bs"
proof -
  let ?i = "length as"
  have len: "length (as @ c # bs) = n" using assms(1,2) by simp
  have at: "cs ! ?i = c" and tk: "take ?i cs = as" and bs: "take (length bs) (drop (Suc ?i) cs) = bs"
  proof -
    have lt: "?i < n" using len by simp
    then have "cs ! ?i = (as @ c # bs) ! ?i" unfolding assms(1) by simp
    then show "cs ! ?i = c" by simp
    have "take ?i cs = take ?i (as @ c # bs)" unfolding assms(1) using lt by simp
    then show "take ?i cs = as" by simp
    have "take (length bs) (drop (Suc ?i) cs) = drop (Suc ?i) (as @ c # bs)"
    proof -
      have "n - Suc ?i = length bs" using len by auto
      then show ?thesis unfolding assms(1) drop_take by simp
    qed
    then show "take (length bs) (drop (Suc ?i) cs) = bs" by simp
  qed
  have "c \<notin> set as" "c \<notin> set bs" using assms(3) unfolding assms(1) [symmetric] by auto
  have skip: "del_csrc_loop c 0 0 n cs = del_csrc_loop c ?i ?i (Suc (length bs)) cs"
  proof -
    have "n - ?i = Suc (length bs)" using len by auto
    then show ?thesis
      using del_csrc_skip [of 0 n cs ?i c] \<open>c \<notin> set as\<close> tk len assms(2) by (simp del: del_csrc_loop.simps)
  qed
  let ?cs = "cs[?i := cs ! Suc ?i]"
  have hit: "del_csrc_loop c ?i ?i (Suc (length bs)) cs = del_csrc_loop c (Suc ?i + 1) (Suc ?i) (length bs) ?cs"
    using at len assms(2) by (simp add: mget_def mput_def)
  show ?thesis
  proof (cases bs)
    case Nil
    then have n: "n = Suc ?i" using len by simp
    show ?thesis using skip hit tk Nil unfolding n by simp
  next
    case (Cons b bs')
    have nth: "cs ! Suc ?i = b" and tk': "take (length bs') (drop (Suc ?i + 1) cs) = bs'"
      using bs Cons len assms(2) by (simp_all add: take_Suc_conv_app_nth Cons_nth_drop_Suc [symmetric])
    have "c \<notin> set (take (length bs') (drop (Suc ?i + 1) ?cs))"
      using \<open>c \<notin> set bs\<close> tk' Cons by simp
    then obtain cr cs' where "del_csrc_loop c (Suc ?i + 1) (Suc ?i) (Suc (length bs')) ?cs = Some (cr, cs')"
        "Suc ?i + Suc (length bs') < cr" "length cs' = length ?cs"
        "take (Suc ?i + length bs') cs' = take (Suc ?i) ?cs @ take (length bs') (drop (Suc ?i + 1) ?cs)"
      using del_csrc_shift [of "Suc ?i" "length bs'" ?cs c] len Cons assms(2) by auto
    moreover have "take (Suc ?i) ?cs = as @ [b]"
      using nth tk len Cons assms(2) by (simp add: take_Suc_conv_app_nth)
    moreover have "n - 1 = Suc ?i + length bs'" using len Cons by simp
    ultimately show ?thesis using skip hit Cons tk' len by (simp del: del_csrc_loop.simps)
  qed
qed

text \<open>With the reading index ahead, the loop runs out of an array it was to fill to the end.\<close>

lemma del_csrc_run_out:
  "\<lbrakk>k < cr; length cs \<le> k + n; 0 < n\<rbrakk> \<Longrightarrow> del_csrc_loop c cr k n cs = None"
proof (induction n arbitrary: k cr cs)
  case (Suc n)
  show ?case
  proof (cases "cr < length cs \<and> (cs ! cr = c \<longrightarrow> cr + 1 < length cs)")
    case True
    then have "0 < n" using Suc.prems(1,2) by auto
    then show ?thesis using True Suc.prems Suc.IH by (auto simp: mget_def mput_def Let_def)
  qed (auto simp: mget_def mput_def)
qed simp

text \<open>
  Removing a contributing source from a list of at most 13 removes exactly that source and keeps
  the order of the others; a source that is not in the list leaves it as it is and 0 is returned.
\<close>

theorem rtp_del_csrc_spec:
  assumes "csrc_ok s" "cc s \<le> 13"
  shows "\<exists>s'. rtp_del_csrc s c = Some ((if htonl c \<in> set (csrcs s) then 1 else 0), s') \<and> csrc_ok s' \<and>
    csrcs s' = remove1 (htonl c) (csrcs s)"
proof (cases "htonl c \<in> set (csrcs s)")
  case True
  let ?c = "htonl c"
  obtain as bs where split: "csrcs s = as @ ?c # bs" "?c \<notin> set as" using split_list_first [OF True] by blast
  then have eq: "as @ ?c # bs = take (cc s) (csrc s)" by (simp add: csrcs_def)
  have "distinct (take (cc s) (csrc s))" "cc s + 1 < length (csrc s)"
    using assms by (simp_all add: csrc_ok_def csrcs_def)
  then obtain cr cs' where loop: "del_csrc_loop ?c 0 0 (cc s) (csrc s) = Some (cr, cs')" "cc s < cr"
      "length cs' = length (csrc s)" "take (cc s - 1) cs' = as @ bs"
    using del_csrc_hit [OF eq] by blast
  have pos: "cc s > 0" using split(1) by (cases "cc s") (auto simp: csrcs_def)
  let ?s = "s\<lparr>csrc := cs', cc := cc s - 1\<rparr>"
  have "rtp_del_csrc s c = Some (1, ?s)" using loop(1,2) pos by (simp add: rtp_del_csrc_def)
  moreover have "csrcs ?s = remove1 ?c (csrcs s)"
  proof -
    have "csrcs ?s = as @ bs" using loop(4) by (simp add: csrcs_def)
    then show ?thesis using split by (simp add: remove1_append)
  qed
  moreover have "csrc_ok ?s" using assms loop(3) calculation(2) by (auto simp: csrc_ok_def)
  ultimately show ?thesis using True by auto
next
  case False
  have "del_csrc_loop (htonl c) 0 0 (cc s) (csrc s) = Some (cc s, csrc s)"
    using del_csrc_skip [of 0 "cc s" "csrc s" "cc s" "htonl c"] False assms by (simp add: csrc_ok_def csrcs_def)
  then have "rtp_del_csrc s c = Some (0, s)" by (simp add: rtp_del_csrc_def)
  then show ?thesis using False assms by (simp add: remove1_idem)
qed

lemma rtp_del_csrc_spec_witness:
  "\<exists>s'. rtp_del_csrc
      \<lparr>ssrc = 0, cc = 2, csrc = [htonl 5, htonl 6, 0, 0, 0, 0, 0, 0, 0, 0, 0, 0, 0, 0, 0], seq = 0, cycles = 0, pcount = 0,
       ocount = 0, sdes = [], members = ohtbl_init 1 fst fst (=) (\<lambda>k. False) 1, flags = 0, sources = []\<rparr> 5 =
      Some ((if htonl 5 \<in> set [htonl 5, htonl 6] then 1 else 0), s') \<and> csrc_ok s' \<and>
      csrcs s' = remove1 (htonl 5) [htonl 5, htonl 6]"
  using rtp_del_csrc_spec [of "\<lparr>ssrc = 0, cc = 2, csrc = [htonl 5, htonl 6, 0, 0, 0, 0, 0, 0, 0, 0, 0, 0, 0, 0, 0],
      seq = 0, cycles = 0, pcount = 0, ocount = 0, sdes = [], members = ohtbl_init 1 fst fst (=) (\<lambda>k. False) 1, flags = 0,
      sources = []\<rparr>" 5]
  by (simp add: csrc_ok_def csrcs_def htonl_def)

text \<open>
  Removing a source from a full list of 15 reads the entry behind the array, whichever of the 15 it is.
\<close>

theorem rtp_del_csrc_overrun:
  assumes "csrc_ok s" "cc s = 15" "htonl c \<in> set (csrcs s)"
  shows "rtp_del_csrc s c = None"
proof -
  have len: "length (csrc s) = 15" "csrcs s = csrc s" using assms by (auto simp: csrc_ok_def csrcs_def)
  obtain as bs where split: "csrc s = as @ htonl c # bs" "htonl c \<notin> set as"
    using split_list_first [OF assms(3)] len by auto
  have "del_csrc_loop (htonl c) 0 0 15 (csrc s) = None"
  proof -
    let ?i = "length as"
    have lens: "?i + length bs = 14" using len split by simp
    have "15 - ?i = Suc (length bs)" using lens by simp
    then have "del_csrc_loop (htonl c) 0 0 15 (csrc s) = del_csrc_loop (htonl c) ?i ?i (Suc (length bs)) (csrc s)"
      using del_csrc_skip [of 0 15 "csrc s" ?i "htonl c"] len split lens by (simp del: del_csrc_loop.simps)
    also have "\<dots> = None"
    proof (cases bs)
      case (Cons b bs')
      then have "del_csrc_loop (htonl c) (Suc ?i + 1) (Suc ?i) (length bs) ((csrc s)[?i := csrc s ! Suc ?i]) = None"
        using len(1) lens by (intro del_csrc_run_out) simp_all
      moreover have "csrc s ! ?i = htonl c" "Suc ?i < length (csrc s)" using split len(1) lens Cons by simp_all
      ultimately show ?thesis by (simp add: mget_def mput_def)
    qed (use split len(1) lens in \<open>simp add: mget_def nth_append\<close>)
    finally show ?thesis .
  qed
  then show ?thesis using assms(2) by (simp add: rtp_del_csrc_def)
qed

lemma rtp_del_csrc_overrun_witness:
  "rtp_del_csrc
      \<lparr>ssrc = 0, cc = 15, csrc = map (of_nat :: nat \<Rightarrow> u32) [0 ..< 15], seq = 0, cycles = 0, pcount = 0,
       ocount = 0, sdes = [], members = ohtbl_init 1 fst fst (=) (\<lambda>k. False) 1, flags = 0, sources = []\<rparr> 0 = None"
  by (rule rtp_del_csrc_overrun) (simp_all add: csrc_ok_def csrcs_def htonl_def upt_rec)

subsection \<open>The table of members\<close>

lemma coprime_103: "0 < g \<Longrightarrow> g < 102 \<Longrightarrow> coprime g (103::nat)"
proof -
  have "\<forall>g\<in>set [1 ..< 102]. coprime g (103::nat)" by code_simp
  then show "0 < g \<Longrightarrow> g < 102 \<Longrightarrow> coprime g 103" by simp
qed

text \<open>103 is prime and the step is between 1 and 101, so the probe sequence visits every position.\<close>

lemma probe_inj:
  assumes "0 < g" "g < 102" "i < 103" "j < 103" "(f + i * g) mod 103 = (f + j * g) mod (103::nat)"
  shows "i = j"
  using assms(3-5)
proof (induction i j rule: linorder_wlog)
  case (le a b)
  have "103 dvd (f + b * g) - (f + a * g)"
    using mod_eq_dvd_iff_nat [of "f + a * g" "f + b * g" 103] le by (metis add_le_cancel_left mult_le_mono1)
  moreover have "(f + b * g) - (f + a * g) = (b - a) * g" by (simp add: diff_mult_distrib)
  ultimately have "103 dvd (b - a) * g" by simp
  then have "103 dvd b - a"
    using coprime_103 [OF assms(1,2)] by (simp add: coprime_dvd_mult_left_iff coprime_commute)
  with le show ?case by (auto dest: dvd_imp_le)
qed (simp add: eq_commute)

lemma probe_onto:
  assumes "0 < g" "g < 102" "p < 103"
  shows "\<exists>i<103. (f + i * g) mod 103 = (p::nat)"
proof -
  let ?h = "\<lambda>i. (f + i * g) mod 103"
  have "inj_on ?h {..<103}" by (rule inj_onI) (rule probe_inj [OF assms(1,2)]; simp)
  moreover have "?h ` {..<103} \<subseteq> {..<103}" by (rule image_subsetI) simp
  ultimately have eq: "?h ` {..<103} = {..<103}" using endo_inj_surj [OF finite_lessThan] by blast
  have "p \<in> ?h ` {..<103}" unfolding eq using assms(3) by simp
  then show ?thesis by blast
qed

lemma unat_probe:
  assumes "i < 103"
  shows "unat ((rtp_members_h1 k + of_nat i * rtp_members_h2 k) mod RTP_HASH_SIZE) =
    (unat (fst k) mod 103 + i * (1 + unat (fst k) mod 101)) mod 103"
proof -
  let ?a = "unat (fst k) mod 103" and ?b = "1 + unat (fst k) mod 101"
  have a: "rtp_members_h1 k = of_nat ?a" "rtp_members_h2 k = of_nat ?b"
  proof -
    have m: "fst k mod n = of_nat (unat (fst k) mod unat n)" for n
      by (simp only: unat_mod [symmetric] of_nat_unat ucast_id)
    show "rtp_members_h1 k = of_nat ?a" by (simp add: rtp_members_h1_def rtp_consts m)
    show "rtp_members_h2 k = of_nat ?b" by (simp add: rtp_members_h2_def rtp_consts m)
  qed
  have "i * ?b \<le> 102 * 101" using assms by (intro mult_le_mono) auto
  moreover have "?a \<le> 102" by simp
  ultimately have bound: "?a + i * ?b < 4294967296" by linarith
  have "rtp_members_h1 k + of_nat i * rtp_members_h2 k = of_nat (?a + i * ?b)" by (simp add: a distrib_left)
  then show ?thesis by (simp only: unat_mod unat_of_nat_u32 [OF bound]) (simp add: RTP_HASH_SIZE_def)
qed

interpretation rm: hashed_keys fst rtp_members_h1 rtp_members_h2 rtp_members_match RTP_HASH_SIZE
proof
  fix x y :: member_ref and p
  show "rtp_members_match x y = (fst x = fst y)" by (simp add: rtp_members_match_def)
  show "fst x = fst y \<Longrightarrow> rtp_members_h1 x = rtp_members_h1 y \<and> rtp_members_h2 x = rtp_members_h2 y"
    by (simp add: rtp_members_h1_def rtp_members_h2_def)
  assume "p < unat RTP_HASH_SIZE"
  then have "p < 103" by (simp add: RTP_HASH_SIZE_def)
  then obtain i where "i < 103" "(unat (fst x) mod 103 + i * (1 + unat (fst x) mod 101)) mod 103 = p"
    using probe_onto [of "1 + unat (fst x) mod 101" p "unat (fst x) mod 103"] by auto
  then show "\<exists>i<unat RTP_HASH_SIZE. unat ((rtp_members_h1 x + of_nat i * rtp_members_h2 x) mod RTP_HASH_SIZE) = p"
    using unat_probe [of _ x] by (auto simp: RTP_HASH_SIZE_def)
qed

text \<open>The invariant of a session's table, with the members listed in the order they joined.\<close>

definition members_ok :: "member_ref ohtbl_t \<Rightarrow> nat list \<Rightarrow> bool" where
  "members_ok h ps \<longleftrightarrow> ohtbl_ok fst h ps \<and> rm.uses h \<and> tolerance h = RTP_HASH_TOLERANCE div 2 \<and> length ps \<le> 25"

lemma tolerance_25: "unat (RTP_HASH_TOLERANCE div 2) = 25"
  by (simp add: rtp_consts)

abbreviation no_members :: "(member_ref \<Rightarrow> bool) \<Rightarrow> member_ref ohtbl_t" where
  "no_members st \<equiv> ohtbl_init RTP_HASH_SIZE rtp_members_h1 rtp_members_h2 rtp_members_match st (RTP_HASH_TOLERANCE div 2)"

lemma no_members_ok: "members_ok (no_members st) []"
proof -
  have "rm.uses (no_members st)" "tolerance (no_members st) = RTP_HASH_TOLERANCE div 2"
    by (simp_all add: rm.uses_def ohtbl_init_def)
  then show ?thesis by (simp add: members_ok_def ohtbl_init_ok)
qed

lemma rtp_init_members: "rtp_init u hn r1 r2 st old fl = Some s \<Longrightarrow> members s = no_members st"
  by (auto simp: rtp_init_def Let_def split: Option.bind_splits)

lemma members_ok_same: "members_ok h ps \<Longrightarrow> same_functions h h' \<Longrightarrow> ohtbl_ok fst h' qs \<Longrightarrow> length qs \<le> 25 \<Longrightarrow> members_ok h' qs"
  by (simp add: members_ok_def same_functions_def rm.uses_def)

lemma distinct_ssrcs: "members_ok h ps \<Longrightarrow> distinct (map fst (elems h ps))"
  by (simp add: members_ok_def ohtbl_ok_def)

lemma find_member:
  assumes ok: "members_ok h ps" and st: "\<not> stray h (sid, 0)"
  shows "rtp_find_member h sid = (case map_of (elems h ps) sid of None \<Rightarrow> NULL | Some a \<Rightarrow> Item (sid, a))"
proof (cases "map_of (elems h ps) sid")
  case None
  then have "fst (sid, 0) \<notin> fst ` set (elems h ps)" by (simp add: map_of_eq_None_iff)
  then show ?thesis
    using rm.lookup_absent [of h ps "(sid, 0)"] ok st None by (simp add: rtp_find_member_def members_ok_def)
next
  case (Some a)
  then have "(sid, a) \<in> set (elems h ps)" by (rule map_of_SomeD)
  then show ?thesis
    using rm.lookup_present [of h ps "(sid, 0)" "(sid, a)"] ok st Some by (simp add: rtp_find_member_def members_ok_def)
qed

text \<open>
  Adding a source to a session. With 25 members the table refuses (-1), a source that is known is
  not entered again (1), any other one is entered (0): it joins behind the others and is found from then on,
  under its identifier, as is every other member.
\<close>

theorem rtp_add_member_spec:
  assumes ok: "members_ok h ps" and st: "\<forall>k. \<not> stray h k"
  shows "\<exists>h' qs. rtp_add_member h (sid, a) =
      ((if length ps = 25 then -1 else if map_of (elems h ps) sid \<noteq> None then 1 else 0), h') \<and>
    members_ok h' qs \<and>
    elems h' qs = (if length ps = 25 \<or> map_of (elems h ps) sid \<noteq> None then elems h ps else elems h ps @ [(sid, a)]) \<and>
    (\<forall>sid'. rtp_find_member h' sid' =
       (case map_of (elems h' qs) sid' of None \<Rightarrow> NULL | Some b \<Rightarrow> Item (sid', b)))"
proof -
  have tol: "unat (tolerance h) = 25" "unat RTP_HASH_SIZE = 103"
    using ok tolerance_25 by (simp_all add: members_ok_def RTP_HASH_SIZE_def)
  have parts: "ohtbl_ok fst h ps" "rm.uses h" "length ps \<le> 25" using ok by (simp_all add: members_ok_def)
  consider "length ps = 25" | "length ps < 25" "map_of (elems h ps) sid \<noteq> None"
    | "length ps < 25" "map_of (elems h ps) sid = None" using parts(3) by linarith
  then show ?thesis
  proof cases
    case 1
    then have "rtp_add_member h (sid, a) = (-1, h)"
      using rm.insert_full [OF parts(1)] tol by (simp add: rtp_add_member_def)
    then show ?thesis using 1 ok st find_member [OF ok] by auto
  next
    case 2
    then have "fst (sid, a) \<in> fst ` set (elems h ps)" by (simp add: map_of_eq_None_iff)
    then have "rtp_add_member h (sid, a) = (1, h)"
      using rm.insert_known [OF parts(1,2), of "(sid, a)"] st tol 2(1) by (simp add: rtp_add_member_def)
    then show ?thesis using 2 ok st find_member [OF ok] by auto
  next
    case 3
    then have "fst (sid, a) \<notin> fst ` set (elems h ps)" by (simp add: map_of_eq_None_iff)
    then obtain h' p where new: "rtp_add_member h (sid, a) = (0, h')" "ohtbl_ok fst h' (ps @ [p])"
        "elems h' (ps @ [p]) = elems h ps @ [(sid, a)]" "same_functions h h'"
      using rm.insert_new [OF parts(1,2), of "(sid, a)"] st tol 3(1) by (auto simp: rtp_add_member_def)
    have ok': "members_ok h' (ps @ [p])" using members_ok_same [OF ok new(4,2)] 3(1) by simp
    moreover have "\<not> stray h' k" for k using st new(4) by (simp only: same_functions_def) simp
    ultimately show ?thesis using new 3 find_member [OF ok'] by auto
  qed
qed

lemma rtp_add_member_spec_witness:
  "\<exists>h' qs. rtp_add_member (no_members (\<lambda>k. False)) (7, 0) = (0, h') \<and> members_ok h' qs \<and> elems h' qs = [(7, 0)] \<and>
    rtp_find_member h' 7 = Item (7, 0)"
proof -
  have "\<forall>k. \<not> stray (no_members (\<lambda>k. False)) k" by (simp add: ohtbl_init_def)
  from rtp_add_member_spec [OF no_members_ok this, of 7 0] obtain h' qs
    where "rtp_add_member (no_members (\<lambda>k. False)) (7, 0) = (0, h')" "members_ok h' qs" "elems h' qs = [(7, 0)]"
      "\<forall>sid'. rtp_find_member h' sid' = (case map_of (elems h' qs) sid' of None \<Rightarrow> NULL | Some b \<Rightarrow> Item (sid', b))"
    by (auto simp: elems_def)
  then show ?thesis by auto
qed

text \<open>
  Removing a member that is not the last one that joined takes exactly this member out of the table; the
  pointer that comes back is the sentinel, not the member.
\<close>

theorem rtp_remove_member_spec:
  assumes ok: "members_ok h ps" and es: "elems h ps = as @ (sid, a) # b # bs"
  shows "\<exists>h' qs. rtp_remove_member h sid = Some (Vacated, h') \<and> members_ok h' qs \<and> elems h' qs = as @ b # bs"
proof -
  obtain as' p q bs' where ps: "ps = as' @ p # q # bs'" "elems h as' = as" "the_item (slot_at h p) = (sid, a)"
      "the_item (slot_at h q) = b" "elems h bs' = bs"
    using es unfolding elems_def by (auto simp: map_eq_append_conv)
  have "ohtbl_ok fst h (as' @ p # q # bs')" "rm.uses h" using ok ps(1) by (simp_all add: members_ok_def)
  from rm.remove_inner [OF this, of "(sid, 0)"] ps obtain h' where h': "rtp_remove_member h sid = Some (Vacated, h')"
      "ohtbl_ok fst h' (as' @ q # bs')" "elems h' (as' @ q # bs') = elems h as' @ elems h (q # bs')" "same_functions h h'"
    by (auto simp: rtp_remove_member_def)
  have "length (as' @ q # bs') \<le> 25" using ok ps(1) by (simp add: members_ok_def)
  from members_ok_same [OF ok h'(4,2) this] h' ps show ?thesis by (auto simp: elems_def)
qed

text \<open>The table after a list of sources joined an empty session.\<close>

fun join :: "member_ref ohtbl_t \<Rightarrow> member_ref list \<Rightarrow> member_ref ohtbl_t" where
  "join h [] = h"
| "join h (m # ms) = join (snd (rtp_add_member h m)) ms"

lemma join_step:
  assumes "members_ok h ps" "\<forall>k. \<not> stray h k" "unlinked h" "fst m \<notin> fst ` set (elems h ps)" "length ps < 25"
  shows "\<exists>h' qs. rtp_add_member h m = (0, h') \<and> members_ok h' qs \<and> elems h' qs = elems h ps @ [m] \<and>
    (\<forall>k. \<not> stray h' k) \<and> unlinked h' \<and> length qs = Suc (length ps)"
proof -
  have parts: "ohtbl_ok fst h ps" "rm.uses h" "unat (tolerance h) = 25" "unat RTP_HASH_SIZE = 103"
    using assms(1) tolerance_25 by (simp_all add: members_ok_def RTP_HASH_SIZE_def)
  obtain h' p where new: "ohtbl_insert h m = (0, h')" "ohtbl_ok fst h' (ps @ [p])"
      "elems h' (ps @ [p]) = elems h ps @ [m]" "same_functions h h'"
    using rm.insert_new [OF parts(1,2), of m] assms(2,4,5) parts(3,4) by auto
  have "members_ok h' (ps @ [p])" using members_ok_same [OF assms(1) new(4,2)] assms(5) by simp
  moreover have "\<forall>k. \<not> stray h' k" using assms(2) new(4) by (simp only: same_functions_def) simp
  moreover have "unlinked h'" by (rule insert_unlinked [OF parts(1) assms(3) new(1)])
  ultimately show ?thesis using new by (auto simp: rtp_add_member_def)
qed

lemma join_ok:
  "\<lbrakk>members_ok h ps; \<forall>k. \<not> stray h k; unlinked h; distinct (map fst (elems h ps @ ms)); length ps + length ms \<le> 25\<rbrakk> \<Longrightarrow>
   \<exists>qs. members_ok (join h ms) qs \<and> elems (join h ms) qs = elems h ps @ ms \<and> (\<forall>k. \<not> stray (join h ms) k) \<and>
     unlinked (join h ms)"
proof (induction ms arbitrary: h ps)
  case (Cons m ms)
  obtain h' qs where h': "rtp_add_member h m = (0, h')" "members_ok h' qs" "elems h' qs = elems h ps @ [m]"
      "\<forall>k. \<not> stray h' k" "unlinked h'" "length qs = Suc (length ps)"
    using join_step [OF Cons.prems(1-3), of m] Cons.prems(4,5) by auto
  show ?case using Cons.IH [OF h'(2,4,5)] Cons.prems(4,5) h'(1,3,6) by auto
qed auto

abbreviation joined :: "member_ref list \<Rightarrow> member_ref ohtbl_t" where
  "joined ms \<equiv> join (no_members (\<lambda>k. False)) ms"

lemma joined_ok:
  assumes "distinct (map fst ms)" "length ms \<le> 25"
  shows "\<exists>qs. members_ok (joined ms) qs \<and> elems (joined ms) qs = ms \<and> (\<forall>k. \<not> stray (joined ms) k) \<and> unlinked (joined ms)"
proof -
  have "\<forall>k. \<not> stray (no_members (\<lambda>k. False)) k" by (simp add: ohtbl_init_def)
  from join_ok [OF no_members_ok this unlinked_init, of ms] assms show ?thesis by (simp add: elems_def)
qed

lemma rtp_remove_member_spec_witness:
  "\<exists>h' qs. rtp_remove_member (joined [(7, 0), (8, 1)]) 7 = Some (Vacated, h') \<and> members_ok h' qs \<and> elems h' qs = [(8, 1)]"
proof -
  obtain ps where "members_ok (joined [(7, 0), (8, 1)]) ps" "elems (joined [(7, 0), (8, 1)]) ps = [] @ (7, 0) # (8, 1) # []"
    using joined_ok [of "[(7, 0), (8, 1)]"] by (auto simp del: join.simps)
  from rtp_remove_member_spec [OF this] show ?thesis by (simp del: join.simps)
qed

lemma rtp_remove_last:
  assumes "distinct (map fst (ms @ [(sid, a)]))" "length ms < 25"
  shows "rtp_remove_member (joined (ms @ [(sid, a)])) sid = None"
proof -
  let ?h = "joined (ms @ [(sid, a)])"
  obtain qs where ok: "members_ok ?h qs" and es: "elems ?h qs = ms @ [(sid, a)]" and un: "unlinked ?h"
    using joined_ok [OF assms(1)] assms(2) by auto
  obtain ps p where qs: "qs = ps @ [p]" and item: "the_item (slot_at ?h p) = (sid, a)"
    using es unfolding elems_def by (auto simp: map_eq_append_conv)
  have parts: "ohtbl_ok fst ?h (ps @ [p])" "rm.uses ?h" using ok qs by (simp_all add: members_ok_def)
  have p: "p < unat RTP_HASH_SIZE" "ht_tail ?h = p" "slot_at ?h p = Item (sid, a)"
    using parts item ok_item [OF parts(1), of p] by (simp_all add: ohtbl_ok_def rm.uses_def)
  have "unlink_item ?h p = None"
  proof -
    have nxt: "p < length (table ?h)" "item_next (table ?h ! p) = None"
      using parts(1) un p(2) by (simp_all add: ohtbl_ok_def unlinked_def)
    then have "item_next ((table ?h)[v := (table ?h ! v)\<lparr>item_next := None\<rparr>] ! p) = None" for v
      by (cases "v = p") simp_all
    with nxt show ?thesis
      by (simp add: unlink_item_def Let_def split: Option.bind_splits)
  qed
  then show ?thesis
    using rm.find_remove [OF parts p(1,3), of "(sid, 0)"] by (simp add: rtp_remove_member_def del: join.simps)
qed

text \<open>
  Removing the source that joined last, as its BYE packet makes \<open>rtcp_recv\<close> do, follows the successor
  pointer of the entry at the tail, which no insertion ever wrote. A session with one member is the simplest case.
\<close>

theorem rtp_remove_last_member:
  assumes "distinct (map fst (ms @ [(sid, a)]))" "length ms < 25"
  shows "rtp_remove_member (joined (ms @ [(sid, a)])) sid = None"
  using rtp_remove_last [OF assms] .

lemma rtp_remove_last_member_witness: "rtp_remove_member (joined ([] @ [(7, 0)])) 7 = None"
  by (rule rtp_remove_last_member) simp_all

end
