(* ===== verification/Rtp_Queue.thy ===== *)
theory Rtp_Queue
  imports Rtp
begin

text \<open>
  The packet queue of a member (\<open>rtp_enqueue\<close>, \<open>rtp_dequeue\<close> and their helpers in
  \<open>src/src/voice_comm/src/voice/lib/rtp.c\<close>): received packets go to the position their sequence
  number gives in a table of 32, and are taken out in the order of the numbers, a missing packet
  counting as lost. In the comparisons the sums of two \<open>uint16_t\<close> are computed as \<open>int\<close>.
\<close>

definition rtp_enqueue_min_solve :: "u16 \<Rightarrow> u16 \<Rightarrow> bool" where
  "rtp_enqueue_min_solve c n =
     (if c > RTP_MAX_QUEUE then n < c else uint n + uint RTP_MAX_QUEUE < uint c + uint RTP_MAX_QUEUE)"

definition rtp_enqueue_max_solve :: "u16 \<Rightarrow> u16 \<Rightarrow> bool" where
  "rtp_enqueue_max_solve c n =
     (if c < - RTP_MAX_QUEUE then n > c else uint n + uint RTP_MAX_QUEUE > uint c + uint RTP_MAX_QUEUE)"

text \<open>The bookkeeping of \<open>rtp_enqueue\<close> under the member's mutex; the product is computed as \<open>int\<close>.\<close>

definition enqueue_stats :: "u16 \<Rightarrow> rtp_source_t \<Rightarrow> rtp_source_t" where
  "enqueue_stats sq r =
     (let r = (if sint (fail_count r) \<ge> RTP_MAX_FAIL_COUNT
               then r\<lparr>fail_count := 0, min_seq := sq, max_seq := sq\<rparr>
               else let r = (if min_seq r = 0 \<or> rtp_enqueue_min_solve (min_seq r) sq then r\<lparr>min_seq := sq\<rparr> else r)
                    in if rtp_enqueue_max_solve (max_seq r) sq then r\<lparr>max_seq := sq\<rparr> else r);
          r = r\<lparr>received := received r + 1\<rparr>
      in r\<lparr>last_seq := ucast sq + ucast (src_cycles r) * 65536\<rparr>)"

text \<open>What both operations do to the member they found; the result of the first is the code returned and the
  packets that were released.\<close>

definition enqueue_member :: "rtp_source_t \<Rightarrow> rtp_packet_t \<Rightarrow> (int \<times> rtp_packet_t list \<times> rtp_source_t) option" where
  "enqueue_member r pk =
     do {
       let r = enqueue_stats (pkt_seq (mem pk)) r;
       (ret, released, q) \<leftarrow> phtbl_insert (pqueue r) pk;
       Some (ret, released, r\<lparr>pqueue := q\<rparr>)
     }"

definition rtp_enqueue :: "rtp_t \<Rightarrow> rtp_packet_t \<Rightarrow> (int \<times> rtp_packet_t list \<times> rtp_t) option" where
  "rtp_enqueue s pk =
     (case rtp_find_member (members s) (pkt_ssrc (mem pk)) of
        NULL \<Rightarrow> Some (-1, [], s)
      | Vacated \<Rightarrow> None
      | Item (sid, a) \<Rightarrow> do {
          r \<leftarrow> mget (sources s) a;
          (ret, released, r) \<leftarrow> enqueue_member r pk;
          rs \<leftarrow> mput (sources s) a r;
          Some (ret, released, s\<lparr>sources := rs\<rparr>)
        })"

text \<open>The structure on the stack that serves as the key of a search: only \<open>seq\<close> is set.\<close>

definition key_packet :: "u16 \<Rightarrow> rtp_packet_t" where
  "key_packet sq = \<lparr>mem = st16 18 sq (replicate 32 0), xhdr = None, pay_len = 0, payload = 0\<rparr>"

definition rtp_get_package :: "rtp_packet_t phtbl_t \<Rightarrow> u16 \<Rightarrow> (rtp_packet_t option \<times> rtp_packet_t phtbl_t) option" where
  "rtp_get_package htbl sq = phtbl_remove htbl (key_packet sq)"

text \<open>\<open>lost\<close> is a field of 24 bits.\<close>

definition dequeue_missing :: "rtp_source_t \<Rightarrow> rtp_source_t" where
  "dequeue_missing r =
     (let r = r\<lparr>fail_count := fail_count r + 1, lost := (lost r + 1) AND mask 24\<rparr>
      in if received r \<noteq> 0 then r\<lparr>frac := ucast ((256 * lost r) div received r)\<rparr> else r)"

definition dequeue_advance :: "rtp_source_t \<Rightarrow> rtp_source_t" where
  "dequeue_advance r =
     (let r = r\<lparr>min_seq := min_seq r + 1\<rparr>
      in if min_seq r = 0 then r\<lparr>src_cycles := src_cycles r + 1\<rparr> else r)"

definition dequeue_member :: "rtp_source_t \<Rightarrow> (rtp_packet_t option \<times> rtp_source_t) option" where
  "dequeue_member r =
     do {
       (packet, q) \<leftarrow> rtp_get_package (pqueue r) (min_seq r);
       let r = r\<lparr>pqueue := q\<rparr>;
       let r = (case packet of None \<Rightarrow> dequeue_missing r | Some pk \<Rightarrow> r\<lparr>fail_count := 0\<rparr>);
       Some (packet, dequeue_advance r)
     }"

definition rtp_dequeue :: "rtp_t \<Rightarrow> u32 \<Rightarrow> (rtp_packet_t option \<times> rtp_t) option" where
  "rtp_dequeue s sid =
     (case rtp_find_member (members s) sid of
        NULL \<Rightarrow> Some (None, s)
      | Vacated \<Rightarrow> None
      | Item (_, a) \<Rightarrow> do {
          r \<leftarrow> mget (sources s) a;
          (packet, r) \<leftarrow> dequeue_member r;
          rs \<leftarrow> mput (sources s) a r;
          Some (packet, s\<lparr>sources := rs\<rparr>)
        })"

subsection \<open>The comparisons\<close>

lemma solve_plain: "rtp_enqueue_min_solve c n \<longleftrightarrow> n < c" "rtp_enqueue_max_solve c n \<longleftrightarrow> c < n"
  by (auto simp: rtp_enqueue_min_solve_def rtp_enqueue_max_solve_def word_less_def)

subsection \<open>The queue of one member\<close>

abbreviation seq_no :: "rtp_packet_t \<Rightarrow> nat" where
  "seq_no pk \<equiv> unat (pkt_seq (mem pk))"

definition queue_config :: "rtp_packet_t phtbl_t \<Rightarrow> bool" where
  "queue_config q \<longleftrightarrow> ph_positions q = 32 \<and> hash q = rtp_pqueue_hash \<and> ph_match q = rtp_pqueue_match"

text \<open>The queue holds exactly the packets of the list, each at its position.\<close>

definition holds :: "rtp_packet_t phtbl_t \<Rightarrow> rtp_packet_t list \<Rightarrow> bool" where
  "holds q pks \<longleftrightarrow> phtbl_ok q \<and> queue_config q \<and>
     (\<forall>p<32. ph_abs q p = find (\<lambda>pk. seq_no pk mod 32 = p) pks)"

lemma queue_pos: "queue_config q \<Longrightarrow> ph_pos q pk = seq_no pk mod 32"
  by (simp add: queue_config_def rtp_pqueue_hash_def unat_mod)

lemma queue_config_table [simp]: "queue_config (q\<lparr>ph_table := t\<rparr>) = queue_config q"
  by (simp add: queue_config_def)

lemma holds_insert:
  assumes "holds q pks" "seq_no pk mod 32 \<notin> (\<lambda>pk. seq_no pk mod 32) ` set pks"
  shows "\<exists>q'. phtbl_insert q pk = Some (0, [], q') \<and> holds q' (pks @ [pk])"
proof -
  have q: "phtbl_ok q" "queue_config q" using assms(1) by (simp_all add: holds_def)
  have "find (\<lambda>k. seq_no k mod 32 = seq_no pk mod 32) pks = None"
    unfolding find_None_iff using assms(2) by (metis (mono_tags, lifting) image_eqI)
  then have free: "ph_abs q (ph_pos q pk) = None" using assms(1) by (simp add: queue_pos [OF q(2)] holds_def)
  obtain t where t: "phtbl_insert q pk = Some (0, [], q\<lparr>ph_table := t\<rparr>)" "phtbl_ok (q\<lparr>ph_table := t\<rparr>)"
      "ph_abs (q\<lparr>ph_table := t\<rparr>) = (ph_abs q)(ph_pos q pk \<mapsto> pk)"
    using insert_ok [OF q(1), of pk] free by auto
  have app: "find P (xs @ [x]) = (case find P xs of None \<Rightarrow> (if P x then Some x else None) | Some y \<Rightarrow> Some y)"
    for P :: "rtp_packet_t \<Rightarrow> bool" and xs x by (induction xs) auto
  have "ph_abs (q\<lparr>ph_table := t\<rparr>) p = find (\<lambda>pk. seq_no pk mod 32 = p) (pks @ [pk])" if "p < 32" for p
    using assms(1) that free unfolding t(3) app queue_pos [OF q(2)] by (auto simp: holds_def split: option.splits)
  then show ?thesis using t q(2) by (auto simp: holds_def)
qed

lemma key_seq: "pkt_seq (mem (key_packet sq)) = sq"
  using ld16_split [of 18 "replicate 18 0" sq "replicate 12 0"]
  by (simp add: key_packet_def pkt_seq_def st16_def overwrite_def)

lemma find_filter_other: "(\<And>x. x \<in> set xs \<Longrightarrow> P x \<Longrightarrow> Q x) \<Longrightarrow> find P (filter Q xs) = find P xs"
  by (induction xs) auto

lemma holds_get:
  assumes "holds q pks" and window: "\<And>pk. pk \<in> set pks \<Longrightarrow> seq_no pk mod 32 = unat sq mod 32 \<Longrightarrow> pkt_seq (mem pk) = sq"
  shows "\<exists>q'. rtp_get_package q sq = Some (find (\<lambda>pk. pkt_seq (mem pk) = sq) pks, q') \<and>
    holds q' (filter (\<lambda>pk. pkt_seq (mem pk) \<noteq> sq) pks)"
proof -
  let ?k = "key_packet sq" and ?p = "unat sq mod 32" and ?f = "find (\<lambda>pk. pkt_seq (mem pk) = sq) pks"
  have q: "phtbl_ok q" "queue_config q" "ph_match q = rtp_pqueue_match"
    using assms(1) by (simp_all add: holds_def queue_config_def)
  have pos: "ph_pos q ?k = ?p" using queue_pos [OF q(2)] by (simp add: key_seq)
  have at: "ph_abs q ?p = ?f"
  proof -
    have "find (\<lambda>pk. seq_no pk mod 32 = ?p) pks = ?f" by (rule find_cong [OF refl]) (use window in auto)
    then show ?thesis using assms(1) by (simp add: holds_def)
  qed
  have hit: "rtp_pqueue_match y ?k" if "?f = Some y" for y
    using that by (auto simp: rtp_pqueue_match_def key_seq find_Some_iff)
  obtain t where t: "phtbl_remove q ?k = Some (?f, q\<lparr>ph_table := t\<rparr>)" "phtbl_ok (q\<lparr>ph_table := t\<rparr>)"
      "ph_abs (q\<lparr>ph_table := t\<rparr>) = (ph_abs q)(?p := None)"
    using remove_ok [OF q(1), of ?k] hit unfolding pos at q(3)
    by (cases ?f) (auto simp: at fun_upd_idem)
  have "ph_abs (q\<lparr>ph_table := t\<rparr>) p = find (\<lambda>pk. seq_no pk mod 32 = p) (filter (\<lambda>pk. pkt_seq (mem pk) \<noteq> sq) pks)"
    if p: "p < 32" for p
  proof (cases "p = ?p")
    case True
    have "find (\<lambda>pk. seq_no pk mod 32 = ?p) (filter (\<lambda>pk. pkt_seq (mem pk) \<noteq> sq) pks) = None"
      unfolding find_None_iff using window by auto
    then show ?thesis unfolding t(3) by (simp add: True)
  next
    case False
    then have "find (\<lambda>pk. seq_no pk mod 32 = p) (filter (\<lambda>pk. pkt_seq (mem pk) \<noteq> sq) pks) =
        find (\<lambda>pk. seq_no pk mod 32 = p) pks" by (intro find_filter_other) auto
    then show ?thesis unfolding t(3) using False assms(1) p by (simp add: holds_def)
  qed
  then show ?thesis using t q(2) by (auto simp: holds_def rtp_get_package_def)
qed

subsection \<open>Reordering\<close>

fun enqueue_all :: "rtp_source_t \<Rightarrow> rtp_packet_t list \<Rightarrow> (int list \<times> rtp_source_t) option" where
  "enqueue_all r [] = Some ([], r)"
| "enqueue_all r (pk # pks) =
     do { (ret, _, r) \<leftarrow> enqueue_member r pk; (rets, r) \<leftarrow> enqueue_all r pks; Some (ret # rets, r) }"

fun dequeue_all :: "nat \<Rightarrow> rtp_source_t \<Rightarrow> (rtp_packet_t option list \<times> rtp_source_t) option" where
  "dequeue_all 0 r = Some ([], r)"
| "dequeue_all (Suc n) r =
     do { (packet, r) \<leftarrow> dequeue_member r; (packets, r) \<leftarrow> dequeue_all n r; Some (packet # packets, r) }"

text \<open>The packets in the queue and the lowest number among them, 0 standing for none.\<close>

definition queued :: "rtp_source_t \<Rightarrow> rtp_packet_t list \<Rightarrow> bool" where
  "queued r pks \<longleftrightarrow> holds (pqueue r) pks \<and> sint (fail_count r) < RTP_MAX_FAIL_COUNT \<and>
     unat (min_seq r) = (if pks = [] then 0 else Min (seq_no ` set pks))"

lemma enqueue_stats_fields:
  assumes "sint (fail_count r) < RTP_MAX_FAIL_COUNT"
  shows "pqueue (enqueue_stats sq r) = pqueue r" "fail_count (enqueue_stats sq r) = fail_count r"
    "min_seq (enqueue_stats sq r) = (if min_seq r = 0 \<or> sq < min_seq r then sq else min_seq r)"
  using assms by (auto simp: enqueue_stats_def Let_def solve_plain)

lemma queued_enqueue:
  assumes q: "queued r pks" and new: "seq_no pk mod 32 \<notin> (\<lambda>pk. seq_no pk mod 32) ` set pks"
    and pos: "\<forall>k\<in>set (pk # pks). 0 < seq_no k"
  shows "\<exists>r'. enqueue_member r pk = Some (0, [], r') \<and> queued r' (pks @ [pk])"
proof -
  have fc: "sint (fail_count r) < RTP_MAX_FAIL_COUNT" and h: "holds (pqueue r) pks" using q by (simp_all add: queued_def)
  obtain q' where q': "phtbl_insert (pqueue r) pk = Some (0, [], q')" "holds q' (pks @ [pk])"
    using holds_insert [OF h new] by blast
  let ?r = "enqueue_stats (pkt_seq (mem pk)) r"
  note st = enqueue_stats_fields [OF fc, of "pkt_seq (mem pk)"]
  have "unat (min_seq ?r) = Min (seq_no ` set (pks @ [pk]))"
  proof (cases "pks = []")
    case True
    then have "min_seq r = 0" using q by (simp add: queued_def unat_eq_0)
    then show ?thesis using True st(3) by simp
  next
    case False
    then have m: "unat (min_seq r) = Min (seq_no ` set pks)" using q by (simp add: queued_def)
    have "Min (seq_no ` set pks) \<in> seq_no ` set pks" using False by (intro Min_in) auto
    then have "min_seq r \<noteq> 0" using pos m by auto
    moreover have "Min (seq_no ` set (pks @ [pk])) = min (seq_no pk) (unat (min_seq r))" using False m by simp
    ultimately show ?thesis using st(3) by (simp add: word_less_nat_alt)
  qed
  then have "queued (?r\<lparr>pqueue := q'\<rparr>) (pks @ [pk])" using q'(2) fc st(2) by (simp add: queued_def)
  then show ?thesis using q'(1) st(1) by (simp add: enqueue_member_def)
qed

lemma queued_enqueue_all:
  "\<lbrakk>queued r ks; distinct (map (\<lambda>k. seq_no k mod 32) (ks @ pks)); \<forall>k\<in>set (ks @ pks). 0 < seq_no k\<rbrakk> \<Longrightarrow>
   \<exists>r'. enqueue_all r pks = Some (replicate (length pks) 0, r') \<and> queued r' (ks @ pks)"
proof (induction pks arbitrary: r ks)
  case (Cons pk pks)
  obtain r1 where r1: "enqueue_member r pk = Some (0, [], r1)" "queued r1 (ks @ [pk])"
    using queued_enqueue [OF Cons.prems(1), of pk] Cons.prems(2,3) by auto
  show ?case using Cons.IH [OF r1(2)] Cons.prems(2,3) r1(1) by auto
qed simp

lemma dequeue_member_ok:
  assumes h: "holds (pqueue r) pks"
    and window: "\<And>pk. pk \<in> set pks \<Longrightarrow> seq_no pk mod 32 = unat (min_seq r) mod 32 \<Longrightarrow> pkt_seq (mem pk) = min_seq r"
  shows "\<exists>r'. dequeue_member r = Some (find (\<lambda>pk. pkt_seq (mem pk) = min_seq r) pks, r') \<and> min_seq r' = min_seq r + 1 \<and>
    holds (pqueue r') (filter (\<lambda>pk. pkt_seq (mem pk) \<noteq> min_seq r) pks)"
proof -
  obtain q' where q': "rtp_get_package (pqueue r) (min_seq r) = Some (find (\<lambda>pk. pkt_seq (mem pk) = min_seq r) pks, q')"
      "holds q' (filter (\<lambda>pk. pkt_seq (mem pk) \<noteq> min_seq r) pks)"
    using holds_get [OF h window] by blast
  then show ?thesis
    by (auto simp: dequeue_member_def Let_def dequeue_advance_def dequeue_missing_def split: option.splits)
qed

lemma window_eq:
  assumes "lo \<le> u" "u < lo + 32" "lo \<le> v" "v < lo + 32" "u mod 32 = v mod (32::nat)"
  shows "u = v"
proof -
  have u: "u = 32 * (u div 32) + u mod 32" and v: "v = 32 * (v div 32) + u mod 32"
    by (simp, simp only: assms(5) mult_div_mod_eq)
  have "32 * (u div 32) < 32 * (v div 32) + 32" "32 * (v div 32) < 32 * (u div 32) + 32"
    using assms(1-4) u v by linarith+
  then have "u div 32 = v div 32" by simp
  with u v show ?thesis by metis
qed

lemma dequeue_all_ok:
  "\<lbrakk>holds (pqueue r) pks; \<forall>pk\<in>set pks. unat (min_seq r) \<le> seq_no pk \<and> seq_no pk < hi; hi \<le> unat (min_seq r) + 32;
    unat (min_seq r) + n \<le> hi; hi \<le> 65536\<rbrakk> \<Longrightarrow>
   \<exists>r'. dequeue_all n r = Some (map (\<lambda>i. find (\<lambda>pk. seq_no pk = unat (min_seq r) + i) pks) [0 ..< n], r')"
proof (induction n arbitrary: r pks)
  case (Suc n)
  let ?lo = "unat (min_seq r)"
  have same: "pkt_seq (mem pk) = min_seq r \<longleftrightarrow> seq_no pk = ?lo" for pk by (rule word_unat_eq_iff)
  have window: "pkt_seq (mem pk) = min_seq r" if "pk \<in> set pks" "seq_no pk mod 32 = ?lo mod 32" for pk
  proof -
    have "?lo \<le> seq_no pk" "seq_no pk < ?lo + 32" using Suc.prems(2,3) that(1) by auto
    then have "seq_no pk = ?lo" by (rule window_eq [OF _ _ _ _ that(2)]) simp_all
    then show ?thesis by (simp add: same)
  qed
  let ?ks = "filter (\<lambda>pk. pkt_seq (mem pk) \<noteq> min_seq r) pks"
  obtain r1 where r1: "dequeue_member r = Some (find (\<lambda>pk. pkt_seq (mem pk) = min_seq r) pks, r1)"
      "min_seq r1 = min_seq r + 1" "holds (pqueue r1) ?ks"
    using dequeue_member_ok [OF Suc.prems(1) window] by blast
  show ?case
  proof (cases n)
    case 0
    then show ?thesis using r1(1) by (simp add: same)
  next
    case (Suc m)
    then have lo1: "unat (min_seq r1) = ?lo + 1"
      using Suc.prems(4,5) r1(2) by (simp add: unat_word_ariths)
    have "\<forall>pk\<in>set ?ks. unat (min_seq r1) \<le> seq_no pk \<and> seq_no pk < hi"
      using Suc.prems(2) by (auto simp: lo1 same Suc_le_eq le_neq_implies_less)
    then obtain r' where "dequeue_all n r1 = Some (map (\<lambda>i. find (\<lambda>pk. seq_no pk = ?lo + 1 + i) ?ks) [0 ..< n], r')"
      using Suc.IH [OF r1(3)] Suc.prems(3-5) lo1 by auto
    moreover have "find (\<lambda>pk. seq_no pk = ?lo + 1 + i) ?ks = find (\<lambda>pk. seq_no pk = ?lo + Suc i) pks" for i
      using find_filter_other [of pks "\<lambda>pk. seq_no pk = ?lo + Suc i"] by (auto simp: same)
    moreover have split: "map f [0 ..< Suc n] = f 0 # map (\<lambda>i. f (Suc i)) [0 ..< n]" for f :: "nat \<Rightarrow> rtp_packet_t option"
      by (simp only: upt_conv_Cons map_Suc_upt [symmetric] list.map map_map comp_def zero_less_Suc)
    ultimately show ?thesis unfolding split using r1(1) by (simp add: same)
  qed
qed simp

text \<open>The same runs on a session.\<close>

fun session_enqueue :: "rtp_t \<Rightarrow> rtp_packet_t list \<Rightarrow> (int list \<times> rtp_t) option" where
  "session_enqueue s [] = Some ([], s)"
| "session_enqueue s (pk # pks) =
     do { (ret, _, s) \<leftarrow> rtp_enqueue s pk; (rets, s) \<leftarrow> session_enqueue s pks; Some (ret # rets, s) }"

fun session_dequeue :: "nat \<Rightarrow> rtp_t \<Rightarrow> u32 \<Rightarrow> (rtp_packet_t option list \<times> rtp_t) option" where
  "session_dequeue 0 s sid = Some ([], s)"
| "session_dequeue (Suc n) s sid =
     do { (packet, s) \<leftarrow> rtp_dequeue s sid; (packets, s) \<leftarrow> session_dequeue n s sid; Some (packet # packets, s) }"

lemma session_enqueue_member:
  "\<lbrakk>rtp_find_member (members s) sid = Item (x, a); a < length (sources s); \<forall>pk\<in>set pks. pkt_ssrc (mem pk) = sid;
    enqueue_all (sources s ! a) pks = Some (rets, r)\<rbrakk> \<Longrightarrow>
   session_enqueue s pks = Some (rets, s\<lparr>sources := (sources s)[a := r]\<rparr>)"
proof (induction pks arbitrary: s rets)
  case (Cons pk pks)
  obtain ret rel r1 rets' where r1: "enqueue_member (sources s ! a) pk = Some (ret, rel, r1)"
      "enqueue_all r1 pks = Some (rets', r)" "rets = ret # rets'"
    using Cons.prems(4) by (auto split: Option.bind_splits)
  let ?s = "s\<lparr>sources := (sources s)[a := r1]\<rparr>"
  have "rtp_enqueue s pk = Some (ret, rel, ?s)"
    using Cons.prems(1-3) r1(1) by (simp add: rtp_enqueue_def mget_def mput_def)
  moreover have "session_enqueue ?s pks = Some (rets', ?s\<lparr>sources := (sources ?s)[a := r]\<rparr>)"
    by (rule Cons.IH) (use Cons.prems(1-3) r1(2) in simp_all)
  ultimately show ?case using r1(3) by simp
qed auto

lemma session_dequeue_member:
  "\<lbrakk>rtp_find_member (members s) sid = Item (x, a); a < length (sources s);
    dequeue_all n (sources s ! a) = Some (pks, r)\<rbrakk> \<Longrightarrow>
   session_dequeue n s sid = Some (pks, s\<lparr>sources := (sources s)[a := r]\<rparr>)"
proof (induction n arbitrary: s pks)
  case (Suc n)
  obtain pk r1 pks' where r1: "dequeue_member (sources s ! a) = Some (pk, r1)" "dequeue_all n r1 = Some (pks', r)"
      "pks = pk # pks'"
    using Suc.prems(3) by (auto split: Option.bind_splits)
  let ?s = "s\<lparr>sources := (sources s)[a := r1]\<rparr>"
  have "rtp_dequeue s sid = Some (pk, ?s)"
    using Suc.prems(1,2) r1(1) by (simp add: rtp_dequeue_def mget_def mput_def)
  moreover have "session_dequeue n ?s sid = Some (pks', ?s\<lparr>sources := (sources ?s)[a := r]\<rparr>)"
    by (rule Suc.IH) (use Suc.prems(1,2) r1(2) in simp_all)
  ultimately show ?case using r1(3) by simp
qed auto

lemma new_member_queued: "queued (rtp_new_member old sid) []"
  by (simp add: queued_def holds_def rtp_new_member_def rtp_consts queue_config_def phtbl_init_ok)
     (simp add: phtbl_init_def ph_abs_def)

text \<open>
  C8: the queue of a new member puts its first packets back in order. If the first packets of a source arrive in any order,
  with different numbers inside a window of 32 that starts at the lowest of them, which is not 0, and does not wrap
  around at 65536, the new member accepts them all and up to 32 calls of \<open>rtp_dequeue\<close> then hand them out in the order of
  their numbers, reporting a missing one as missing at its place. Past the wrap-around this does not hold
  (\<open>rtp_queue_wraparound\<close>).
\<close>

theorem rtp_queue_reorders:
  assumes member: "rtp_find_member (members s) sid = Item (x, a)" "a < length (sources s)"
      "sources s ! a = rtp_new_member old sid"
    and pks: "\<forall>pk\<in>set pks. pkt_ssrc (mem pk) = sid" "distinct (map seq_no pks)"
    and window: "\<forall>pk\<in>set pks. lo \<le> seq_no pk \<and> seq_no pk < lo + 32" "lo \<in> seq_no ` set pks" "0 < lo" "lo + 32 \<le> 65536"
    and n: "n \<le> 32"
  shows "\<exists>s1 s2. session_enqueue s pks = Some (replicate (length pks) 0, s1) \<and>
    session_dequeue n s1 sid = Some (map (\<lambda>i. find (\<lambda>pk. seq_no pk = lo + i) pks) [0 ..< n], s2)"
proof -
  have "inj_on (\<lambda>k. k mod 32) (seq_no ` set pks)" using window(1) by (auto intro!: inj_onI window_eq [of lo])
  then have dist: "distinct (map (\<lambda>pk. seq_no pk mod 32) ([] @ pks))"
    using pks(2) distinct_map [of "\<lambda>k. k mod 32" "map seq_no pks"] by (simp add: comp_def)
  have "\<forall>k\<in>set ([] @ pks). 0 < seq_no k" using window(1,3) by fastforce
  then obtain r1 where r1: "enqueue_all (sources s ! a) pks = Some (replicate (length pks) 0, r1)" "queued r1 pks"
    using queued_enqueue_all [OF new_member_queued dist, of old sid] member(3) by auto
  have "Min (seq_no ` set pks) = lo" using window(1,2) by (intro Min_eqI) auto
  then have lo: "unat (min_seq r1) = lo" using r1(2) window(2) by (auto simp: queued_def)
  let ?s = "s\<lparr>sources := (sources s)[a := r1]\<rparr>"
  obtain r2 where "dequeue_all n r1 = Some (map (\<lambda>i. find (\<lambda>pk. seq_no pk = lo + i) pks) [0 ..< n], r2)"
    using dequeue_all_ok [of r1 pks "lo + 32" n] r1(2) window n lo by (auto simp: queued_def)
  then have "session_dequeue n ?s sid = Some (map (\<lambda>i. find (\<lambda>pk. seq_no pk = lo + i) pks) [0 ..< n],
      ?s\<lparr>sources := (sources ?s)[a := r2]\<rparr>)"
    using member(1,2) by (intro session_dequeue_member) simp_all
  then show ?thesis using session_enqueue_member [OF member(1,2) pks(1) r1(1)] by blast
qed

definition demo_packet :: "u32 \<Rightarrow> u16 \<Rightarrow> rtp_packet_t" where
  "demo_packet sid sq = \<lparr>mem = replicate 18 0 @ le16 sq @ le32 0 @ le32 sid, xhdr = None, pay_len = 0, payload = 28\<rparr>"

lemma demo_packet_fields: "pkt_seq (mem (demo_packet sid sq)) = sq" "pkt_ssrc (mem (demo_packet sid sq)) = sid"
  using ld16_split [of 18 "replicate 18 0" sq "le32 0 @ le32 sid"]
    ld32_split [of 24 "replicate 18 0 @ le16 sq @ le32 0" sid "[]"]
  by (simp_all add: demo_packet_def pkt_seq_def pkt_ssrc_def)

definition queue_session :: "rtp_source_t \<Rightarrow> rtp_t" where
  "queue_session old = \<lparr>ssrc = 1, cc = 0, csrc = [], seq = 0, cycles = 0, pcount = 0, ocount = 0, sdes = [],
     members = joined [(7, 0)], flags = 0, sources = [rtp_new_member old 7]\<rparr>"

lemma rtp_queue_reorders_witness:
  "\<forall>old. \<exists>s1 s2. session_enqueue (queue_session old) (map (demo_packet 7) [102, 100, 103]) = Some (replicate 3 0, s1) \<and>
    session_dequeue 4 s1 7 = Some ([Some (demo_packet 7 100), None, Some (demo_packet 7 102), Some (demo_packet 7 103)], s2)"
proof
  fix old
  let ?s = "queue_session old"
  have s: "members ?s = joined [(7, 0)]" "sources ?s = [rtp_new_member old 7]" by (simp_all add: queue_session_def)
  obtain qs where "members_ok (joined [(7, 0)]) qs" "elems (joined [(7, 0)]) qs = [(7, 0)]" "\<forall>k. \<not> stray (joined [(7, 0)]) k"
    using joined_ok [of "[(7, 0)]"] by (auto simp del: join.simps)
  then have "rtp_find_member (members ?s) 7 = Item (7, 0)"
    by (simp add: s find_member del: join.simps)
  from rtp_queue_reorders [OF this, of old "map (demo_packet 7) [102, 100, 103]" 100 4] s
  show "\<exists>s1 s2. session_enqueue ?s (map (demo_packet 7) [102, 100, 103]) = Some (replicate 3 0, s1) \<and>
      session_dequeue 4 s1 7 = Some ([Some (demo_packet 7 100), None, Some (demo_packet 7 102), Some (demo_packet 7 103)], s2)"
    by (simp add: demo_packet_fields upt_rec numeral_3_eq_3 del: session_enqueue.simps session_dequeue.simps)
qed

text \<open>
  The branches of the comparisons that are meant for the wrap-around of sequence numbers have no effect,
  since the sums are not cut to 16 bits: both are the plain order of the numbers. After the wrap-around a new
  packet is therefore taken for the oldest one and the packets before it are skipped: with packets queued,
  a packet of a lower number becomes the next one to be handed out.
\<close>

theorem rtp_queue_wraparound:
  assumes "queued r pks" "pks \<noteq> []" "0 < seq_no pk" "\<forall>k\<in>set pks. seq_no pk < seq_no k"
    and "seq_no pk mod 32 \<notin> (\<lambda>k. seq_no k mod 32) ` set pks"
  shows "\<exists>r1 r2. enqueue_member r pk = Some (0, [], r1) \<and> dequeue_member r1 = Some (Some pk, r2) \<and>
    min_seq r2 = pkt_seq (mem pk) + 1"
proof -
  have pos: "\<forall>k\<in>set (pk # pks). 0 < seq_no k" using assms(3,4) by auto
  obtain r1 where r1: "enqueue_member r pk = Some (0, [], r1)" "queued r1 (pks @ [pk])"
    using queued_enqueue [OF assms(1,5) pos] by blast
  have "Min (seq_no ` set (pks @ [pk])) = seq_no pk" using assms(4) by (intro Min_eqI) auto
  then have lo: "min_seq r1 = pkt_seq (mem pk)" using r1(2) by (simp add: queued_def word_unat_eq_iff)
  have h: "holds (pqueue r1) (pks @ [pk])" using r1(2) by (simp add: queued_def)
  have "pkt_seq (mem k) = min_seq r1" if "k \<in> set (pks @ [pk])" "seq_no k mod 32 = unat (min_seq r1) mod 32" for k
    using that assms(5) by (auto simp: lo) (metis imageI)
  from dequeue_member_ok [OF h this] obtain r2 where
    "dequeue_member r1 = Some (find (\<lambda>k. pkt_seq (mem k) = min_seq r1) (pks @ [pk]), r2)" "min_seq r2 = min_seq r1 + 1"
    by blast
  moreover have "find (\<lambda>k. pkt_seq (mem k) = min_seq r1) (pks @ [pk]) = Some pk"
  proof -
    have "find (\<lambda>k. pkt_seq (mem k) = pkt_seq (mem pk)) pks = None" unfolding find_None_iff using assms(4) by force
    moreover have "find P xs = None \<Longrightarrow> P y \<Longrightarrow> find P (xs @ [y]) = Some y" for P :: "rtp_packet_t \<Rightarrow> bool" and xs y
      by (induction xs) (auto split: if_splits)
    ultimately show ?thesis by (simp add: lo)
  qed
  ultimately show ?thesis using r1(1) lo by auto
qed

lemma rtp_queue_wraparound_witness:
  "\<forall>old. \<exists>r r1 r2. queued r [demo_packet 7 65535] \<and> enqueue_member r (demo_packet 7 2) = Some (0, [], r1) \<and>
    dequeue_member r1 = Some (Some (demo_packet 7 2), r2) \<and> min_seq r2 = 3"
proof
  fix old
  have "\<forall>k\<in>set [demo_packet 7 65535]. 0 < seq_no k" by (simp add: demo_packet_fields)
  then obtain r where r: "queued r [demo_packet 7 65535]"
    using queued_enqueue [OF new_member_queued, of "demo_packet 7 65535" old 7] by (auto simp: demo_packet_fields)
  from rtp_queue_wraparound [OF r, of "demo_packet 7 2"]
  show "\<exists>r r1 r2. queued r [demo_packet 7 65535] \<and> enqueue_member r (demo_packet 7 2) = Some (0, [], r1) \<and>
    dequeue_member r1 = Some (Some (demo_packet 7 2), r2) \<and> min_seq r2 = 3"
    using r by (fastforce simp: demo_packet_fields)
qed

end
