(* ===== verification/Rtp_Packet.thy ===== *)
theory Rtp_Packet
  imports Rtp
begin

text \<open>
  Building and parsing RTP packets (\<open>rtp_send\<close>, \<open>rtp_recv\<close>, \<open>rtp_update_jitter\<close> of
  \<open>src/src/voice_comm/src/voice/lib/rtp.c\<close>). The time of day and the memory a new packet is
  allocated in are arguments.
\<close>

definition now_us :: "u32 \<Rightarrow> u32 \<Rightarrow> u32" where
  "now_us tv_sec tv_usec = tv_usec + tv_sec * 1000000"

text \<open>A copy of \<open>n\<close> bytes from the front of a piece of memory.\<close>

definition from_mem :: "bytes \<Rightarrow> int \<Rightarrow> bytes option" where
  "from_mem xs n = (if 0 \<le> n \<and> n \<le> int (length xs) then Some (take (nat n) xs) else None)"

definition bool_bit :: "bool \<Rightarrow> u8" where
  "bool_bit b = (if b then 1 else 0)"

definition send_header :: "u32 \<Rightarrow> u32 \<Rightarrow> rtp_t \<Rightarrow> rtp_param_t \<Rightarrow> bytes \<Rightarrow> bytes" where
  "send_header tv_sec tv_usec s param d =
     (let d = st_bits 16 6 2 RTP_VERSION d;
          d = st_bits 16 5 1 (bool_bit (prm_flags param AND FLAG_PADDING \<noteq> 0)) d;
          d = st_bits 16 4 1 (bool_bit (prm_flags param AND FLAG_EXTENSION \<noteq> 0)) d;
          d = st_bits 17 7 1 (bool_bit (prm_flags param AND FLAG_MARKER \<noteq> 0)) d;
          d = st_bits 17 0 7 (prm_pt param) d;
          d = st32 24 (htonl (ssrc s)) d
      in st32 20 (htonl (now_us tv_sec tv_usec)) d)"

definition send_extension :: "rtp_param_t \<Rightarrow> vstr_t \<Rightarrow> vstr_t option" where
  "send_extension param p =
     (if pkt_x (data p) \<noteq> 0
      then do {
        let p = p\<lparr>data := st16 2 (htons (prm_xlen param)) (st16 0 (htons (prm_xdef param)) (data p))\<rparr>;
        p \<leftarrow> vstr_put_tail p (take 4 (data p));
        if ld16 (data p) 2 \<noteq> 0
        then do {
          xs \<leftarrow> from_mem (prm_xhdr param) (uint (prm_xlen param) * 4);
          vstr_put_tail p xs
        }
        else Some p
      }
      else Some p)"

definition rtp_send :: "u32 \<Rightarrow> u32 \<Rightarrow> rtp_t \<Rightarrow> rtp_param_t \<Rightarrow> vstr_t \<Rightarrow> (rtp_t \<times> vstr_t) option" where
  "rtp_send tv_sec tv_usec s param p =
     (if length (data p) < 28 then None
      else do {
        let p = vstr_set p (int RTP_PACKET_IDX) (int RTP_PACKET_IDX);
        let p = p\<lparr>data := send_header tv_sec tv_usec s param (data p)\<rparr>;
        let p = vstr_adv_tail p RTP_HEADER_SIZE;
        let p = p\<lparr>data := st_bits 16 0 4 (of_nat (cc s)) (st16 18 (htons (seq s)) (data p))\<rparr>;
        let s = s\<lparr>seq := seq s + 1\<rparr>;
        let s = (if seq s = 0 then s\<lparr>cycles := cycles s + 1\<rparr> else s);
        let s = s\<lparr>pcount := pcount s + 1, ocount := ocount s + of_int (size p)\<rparr>;
        p \<leftarrow> (if cc s > 0 then vstr_put_tail p (concat (map le32 (take (cc s) (csrc s)))) else Some p);
        p \<leftarrow> send_extension param p;
        xs \<leftarrow> from_mem (prm_payload param) (prm_len param);
        p \<leftarrow> vstr_put_tail p xs;
        Some (s, p)
      })"

text \<open>
  The jitter is a \<open>long\<close>; the product with 1/16 is computed in \<open>double\<close>, which is exact for
  32-bit operands, and cut towards zero when it is stored.
\<close>

definition rtp_update_jitter :: "u32 \<Rightarrow> u32 \<Rightarrow> u32 \<Rightarrow> rtp_source_t \<Rightarrow> rtp_source_t" where
  "rtp_update_jitter tv_sec tv_usec pkt r =
     (let transit' = now_us tv_sec tv_usec - pkt in
      if transit r = 0 then r\<lparr>transit := transit'\<rparr>
      else let d = transit' - transit r;
               d = (if sint d < 0 then - d else d)
           in r\<lparr>transit := transit',
                jitter := of_int ((16 * sint (jitter r) + (sint d - sint (jitter r))) sdiv 16)\<rparr>)"

text \<open>The result of \<open>rtp_recv\<close>: the packet, or the null pointer when it is discarded.\<close>

definition recv_extension :: "vstr_t \<Rightarrow> (vstr_t \<times> int option) option" where
  "recv_extension m =
     (if pkt_x (data m) = 1
      then do {
        (xs, m) \<leftarrow> vstr_get_head m 4;
        let m = m\<lparr>data := overwrite 0 xs (data m)\<rparr>;
        let m = m\<lparr>data := st16 2 (htons (ld16 (data m) 2)) (st16 0 (htons (ld16 (data m) 0)) (data m))\<rparr>;
        if ld16 (data m) 2 \<noteq> 0
        then Some (vstr_adv_head m (uint (ld16 (data m) 2) * 4), Some (head m))
        else Some (m, None)
      }
      else Some (m, None))"

definition recv_padding :: "vstr_t \<Rightarrow> int option option" where
  "recv_padding m =
     (let pay_len = size m in
      if pkt_p (data m) = 1
      then do {
        (xs, m) \<leftarrow> vstr_get_tail m 1;
        let padding = uint (hd xs);
        Some (if padding > pay_len then None else if padding = 0 then None else Some (pay_len - padding))
      }
      else Some (Some pay_len))"

definition recv_order :: "bytes \<Rightarrow> bytes" where
  "recv_order d =
     (let d = st16 18 (htons (ld16 d 18)) d;
          d = st32 20 (htonl (ld32 d 20)) d
      in st32 24 (htonl (ld32 d 24)) d)"

definition recv_parse :: "vstr_t \<Rightarrow> rtp_packet_t option option" where
  "recv_parse m =
     (let m = vstr_adv_head m RTP_HEADER_SIZE in
      if pkt_ver (data m) \<noteq> RTP_VERSION then Some None
      else if pkt_pt (data m) \<ge> RTCP_TYPE_MIN \<and> pkt_pt (data m) \<le> RTCP_TYPE_MAX then Some None
      else do {
        let m = (if pkt_cc (data m) > 0 then vstr_adv_head m (uint (pkt_cc (data m)) * 4) else m);
        (m, xh) \<leftarrow> recv_extension m;
        pl \<leftarrow> recv_padding m;
        Some (case pl of
                None \<Rightarrow> None
              | Some len \<Rightarrow> Some \<lparr>mem = data m, xhdr = xh, pay_len = len, payload = head m\<rparr>)
      })"

definition rtp_recv ::
  "u32 \<Rightarrow> u32 \<Rightarrow> bytes \<Rightarrow> rtp_t \<Rightarrow> vstr_t \<Rightarrow> (rtp_packet_t option \<times> rtp_t) option" where
  "rtp_recv tv_sec tv_usec block s p =
     do {
       let m = vstr_map block (int RTP_PACKET_SIZE);
       let m = vstr_set m (int RTP_PACKET_IDX) (int RTP_PACKET_IDX);
       xs \<leftarrow> copy_out p (head p) (size p);
       m \<leftarrow> vstr_put_tail m xs;
       let m = m\<lparr>data := recv_order (data m)\<rparr>;
       let member = rtp_find_member (members s) (pkt_ssrc (data m));
       if member = NULL then Some (None, s)
       else do {
         parsed \<leftarrow> recv_parse m;
         case parsed of
           None \<Rightarrow> Some (None, s)
         | Some pk \<Rightarrow>
             (case member of
                Item (sid, a) \<Rightarrow> do {
                  r \<leftarrow> mget (sources s) a;
                  rs \<leftarrow> mput (sources s) a (rtp_update_jitter tv_sec tv_usec (pkt_ts (mem pk)) r);
                  Some (Some pk, s\<lparr>sources := rs\<rparr>)
                }
              | _ \<Rightarrow> None)
       }
     }"

subsection \<open>The packet on the wire\<close>

text \<open>The layout of RFC 3550: version, flags and counts, sequence number, time stamp, source, contributing
  sources, extension, payload.\<close>

definition wire_byte0 :: "bool \<Rightarrow> bool \<Rightarrow> nat \<Rightarrow> u8" where
  "wire_byte0 pad ext n = push_bit 6 2 OR push_bit 5 (bool_bit pad) OR push_bit 4 (bool_bit ext) OR (of_nat n AND mask 4)"

definition wire_byte1 :: "bool \<Rightarrow> u8 \<Rightarrow> u8" where
  "wire_byte1 marker pt = push_bit 7 (bool_bit marker) OR (pt AND mask 7)"

definition wire_extension :: "rtp_param_t \<Rightarrow> bytes" where
  "wire_extension param = (if prm_flags param AND FLAG_EXTENSION \<noteq> 0
     then be16 (prm_xdef param) @ be16 (prm_xlen param) @ prm_xhdr param else [])"

definition wire_fixed :: "rtp_t \<Rightarrow> rtp_param_t \<Rightarrow> u32 \<Rightarrow> bytes" where
  "wire_fixed s param ts =
     wire_byte0 (prm_flags param AND FLAG_PADDING \<noteq> 0) (prm_flags param AND FLAG_EXTENSION \<noteq> 0) (cc s) #
     wire_byte1 (prm_flags param AND FLAG_MARKER \<noteq> 0) (prm_pt param) #
     be16 (seq s) @ be32 ts @ be32 (ssrc s)"

definition rtp_wire :: "rtp_t \<Rightarrow> rtp_param_t \<Rightarrow> u32 \<Rightarrow> bytes" where
  "rtp_wire s param ts = wire_fixed s param ts @ concat (map le32 (csrcs s)) @ wire_extension param @ prm_payload param"

definition param_ok :: "rtp_param_t \<Rightarrow> bool" where
  "param_ok param \<longleftrightarrow> prm_len param = int (length (prm_payload param)) \<and> length (prm_xhdr param) = 4 * unat (prm_xlen param)"

lemma set_bits_byte0:
  "set_bits 0 4 (of_nat n) (set_bits 4 1 (bool_bit e) (set_bits 5 1 (bool_bit q) (set_bits 6 2 RTP_VERSION a))) =
     wire_byte0 q e n"
proof (rule u8_eqI)
  fix k :: nat assume "k < 8"
  then show "bit (set_bits 0 4 (of_nat n) (set_bits 4 1 (bool_bit e) (set_bits 5 1 (bool_bit q)
      (set_bits 6 2 RTP_VERSION a)))) k = bit (wire_byte0 q e n) k"
    by (elim less_8_cases [elim_format] disjE) (simp_all add: set_bits_def wire_byte0_def bool_bit_def RTP_VERSION_def bit_simps)
qed

lemma set_bits_byte1: "set_bits 0 7 pt (set_bits 7 1 (bool_bit mk) a) = wire_byte1 mk pt"
proof (rule u8_eqI)
  fix k :: nat assume "k < 8"
  then show "bit (set_bits 0 7 pt (set_bits 7 1 (bool_bit mk) a)) k = bit (wire_byte1 mk pt) k"
    by (elim less_8_cases [elim_format] disjE) (simp_all add: set_bits_def wire_byte1_def bool_bit_def bit_simps)
qed

lemma wire_byte0_fields:
  "drop_bit 6 (wire_byte0 q e n) AND mask 2 = RTP_VERSION"
  "drop_bit 5 (wire_byte0 q e n) AND mask 1 = bool_bit q"
  "drop_bit 4 (wire_byte0 q e n) AND mask 1 = bool_bit e"
  "wire_byte0 q e n AND mask 4 = of_nat n AND mask 4"
  by (rule u8_eqI; elim less_8_cases [elim_format] disjE;
      simp add: wire_byte0_def bool_bit_def RTP_VERSION_def bit_simps)+

lemma wire_byte1_fields:
  "drop_bit 7 (wire_byte1 mk pt) AND mask 1 = bool_bit mk"
  "wire_byte1 mk pt AND mask 7 = pt AND mask 7"
  by (rule u8_eqI; elim less_8_cases [elim_format] disjE;
      simp add: wire_byte1_def bool_bit_def bit_simps)+

subsection \<open>Sending\<close>

lemma split_block:
  assumes "28 \<le> length d"
  obtains pre a0 a1 a2 a3 a4 a5 a6 a7 a8 a9 a10 a11 post where
    "d = pre @ a0 # a1 # a2 # a3 # a4 # a5 # a6 # a7 # a8 # a9 # a10 # a11 # post" "length pre = 16"
    "pre = take 16 d" "post = drop 28 d"
proof -
  have "length (take 12 (drop 16 d)) = 12" using assms by simp
  then obtain a0 a1 a2 a3 a4 a5 a6 a7 a8 a9 a10 a11 where
    twelve: "take 12 (drop 16 d) = [a0, a1, a2, a3, a4, a5, a6, a7, a8, a9, a10, a11]"
    by (auto simp: length_Suc_conv numeral_eq_Suc simp del: length_take length_drop)
  have "d = take 16 d @ take 12 (drop 16 d) @ drop 28 d"
    using append_take_drop_id [of 12 "drop 16 d"] by simp
  from this [unfolded twelve append_Cons append_Nil] show ?thesis
    by (rule that) (use assms in simp_all)
qed

lemma header_written:
  assumes "28 \<le> length d"
  shows "st_bits 16 0 4 (of_nat (cc s)) (st16 18 (htons (seq s)) (send_header sec us s param d)) =
    take 16 d @ wire_fixed s param (now_us sec us) @ drop 28 d"
proof -
  obtain pre a0 a1 a2 a3 a4 a5 a6 a7 a8 a9 a10 a11 post where d:
    "d = pre @ a0 # a1 # a2 # a3 # a4 # a5 # a6 # a7 # a8 # a9 # a10 # a11 # post" "length pre = 16"
    "pre = take 16 d" "post = drop 28 d"
    using split_block [OF assms] .
  have b16: "st_bits 16 b w v (pre @ x # ws) = pre @ set_bits b w v x # ws" for b w v x ws
    by (rule st_bits_split) (simp add: d(2))
  have b17: "st_bits 17 b w v (pre @ x # y # ws) = pre @ x # set_bits b w v y # ws" for b w v x y ws
    using st_bits_split [of 17 "pre @ [x]"] d(2) by simp
  have s18: "st16 18 v (pre @ x # y # a # b # ws) = pre @ x # y # le16 v @ ws" for v x y a b ws
    using st16_split [of 18 "pre @ [x, y]"] d(2) by simp
  have s20: "st32 20 v (pre @ x # y # a # b # c1 # c2 # c3 # c4 # ws) = pre @ x # y # a # b # le32 v @ ws"
    for v x y a b c1 c2 c3 c4 ws using st32_split [of 20 "pre @ [x, y, a, b]"] d(2) by simp
  have s24: "st32 24 v (pre @ x # y # a # b # e1 # e2 # e3 # e4 # c1 # c2 # c3 # c4 # ws) =
      pre @ x # y # a # b # e1 # e2 # e3 # e4 # le32 v @ ws"
    for v x y a b e1 e2 e3 e4 c1 c2 c3 c4 ws using st32_split [of 24 "pre @ [x, y, a, b, e1, e2, e3, e4]"] d(2) by simp
  have "st_bits 16 0 4 (of_nat (cc s)) (st16 18 (htons (seq s)) (send_header sec us s param d)) =
      pre @ wire_fixed s param (now_us sec us) @ post"
    unfolding d(1) send_header_def Let_def b16 b17 s24 s20 s18 wire_fixed_def set_bits_byte0 set_bits_byte1 by simp
  then show ?thesis by (simp only: d(3,4) [symmetric])
qed

lemma length_wire_fixed [simp]: "length (wire_fixed s param ts) = 12"
  by (simp add: wire_fixed_def)

text \<open>The stream with the fixed header in place.\<close>

lemma fixed_header_ok:
  assumes "28 \<le> length d" "max p = int (length d)" "data p = take 16 d @ wire_fixed s param ts @ drop 28 d"
    "head p = 16" "tail p = 28" "size p = 12"
  shows "vstr_ok p" "contents p = wire_fixed s param ts" "room_tail p = length d - 28"
  using assms by (auto simp: vstr_ok_def contents_def room_tail_def min_def)

lemma put_opt:
  assumes "vstr_ok p" "length xs \<le> room_tail p"
  obtains p' where "vstr_put_tail p xs = Some p'" "vstr_ok p'" "contents p' = contents p @ xs"
    "room_tail p' = room_tail p - length xs" "head p' = head p" "take (nat (tail p)) (data p') = take (nat (tail p)) (data p)"
proof -
  obtain p' where p': "vstr_put_tail p xs = Some p'" "vstr_ok p'" "contents p' = contents p @ xs"
      "room_tail p' = room_tail p - length xs"
    using put_tail_ok [OF assms] by blast
  have "head p' = head p" "take (nat (tail p)) (data p') = take (nat (tail p)) (data p)"
    using p'(1) by (auto simp: vstr_put_tail_def copy_in_def split: if_splits)
  with p' show ?thesis by (rule that)
qed

lemma flag_x:
  assumes "length pre = 16"
  shows "pkt_x (pre @ wire_fixed s param ts @ ws) = bool_bit (prm_flags param AND FLAG_EXTENSION \<noteq> 0)"
  unfolding pkt_x_def wire_fixed_def append_Cons
  by (simp only: ld_bits_split [OF assms [symmetric]] wire_byte0_fields)

lemma pkt_x_take: "pkt_x d = pkt_x (take 28 d)"
  by (simp add: pkt_x_def ld_bits_def)

lemma split_four: "4 \<le> length d \<Longrightarrow> \<exists>a0 a1 a2 a3 ws. d = a0 # a1 # a2 # a3 # ws"
  by (auto simp: Suc_le_length_iff numeral_eq_Suc)

lemma send_extension_ok:
  assumes ok: "vstr_ok p" and room: "length (wire_extension param) \<le> room_tail p" and prm: "param_ok param"
    and hd: "head p = 16" "16 \<le> tail p" and x: "pkt_x (data p) = bool_bit (prm_flags param AND FLAG_EXTENSION \<noteq> 0)"
  shows "\<exists>p'. send_extension param p = Some p' \<and> vstr_ok p' \<and> contents p' = contents p @ wire_extension param \<and>
    room_tail p' = room_tail p - length (wire_extension param)"
proof (cases "prm_flags param AND FLAG_EXTENSION = 0")
  case True
  then show ?thesis using ok x by (simp add: send_extension_def bool_bit_def wire_extension_def)
next
  case False
  let ?d = "st16 2 (htons (prm_xlen param)) (st16 0 (htons (prm_xdef param)) (data p))"
  let ?p = "p\<lparr>data := ?d\<rparr>"
  have len: "16 \<le> length (data p)" using ok hd by (auto simp: vstr_ok_def)
  then obtain a0 a1 a2 a3 ws where d: "data p = a0 # a1 # a2 # a3 # ws"
    using split_four [of "data p"] by auto
  have new: "?d = be16 (prm_xdef param) @ be16 (prm_xlen param) @ ws"
    unfolding d using st16_split [of 0 "[]"] st16_split [of 2 "be16 (prm_xdef param)"] by simp
  have ws: "drop 4 ?d = drop 4 (data p)" "length ?d = length (data p)" unfolding new by (simp_all add: d)
  have drops: "drop 16 ?d = drop 16 (data p)"
    using arg_cong [OF ws(1), of "drop 12"] by simp
  have p: "vstr_ok ?p" "contents ?p = contents p" "room_tail ?p = room_tail p"
    using ok hd(1) ws(2) drops by (simp_all add: vstr_ok_def contents_def room_tail_def)
  have four: "take 4 ?d = be16 (prm_xdef param) @ be16 (prm_xlen param)" unfolding new by simp
  have room4: "length (take 4 ?d) \<le> room_tail ?p" "length (prm_xhdr param) \<le> room_tail ?p - 4"
    using room False p(3) unfolding four by (simp_all add: wire_extension_def)
  obtain p1 where p1: "vstr_put_tail ?p (take 4 ?d) = Some p1" "vstr_ok p1" "contents p1 = contents ?p @ take 4 ?d"
      "room_tail p1 = room_tail ?p - length (take 4 ?d)" "take (nat (tail ?p)) (data p1) = take (nat (tail ?p)) (data ?p)"
    using put_opt [OF p(1) room4(1)] by metis
  have room_p1: "room_tail p1 = room_tail p - 4" using p1(4) p(3) unfolding four by simp
  have ld: "ld16 (data p1) 2 = htons (prm_xlen param)"
  proof -
    have "ld16 (data p1) 2 = ld16 (take (nat (tail ?p)) (data p1)) 2" using hd by (simp add: ld16_take)
    also have "\<dots> = ld16 ?d 2" unfolding p1(5) using hd by (simp add: ld16_take)
    finally show ?thesis unfolding new using ld16_split_be [of 2 "be16 (prm_xdef param)"] by simp
  qed
  have mem: "from_mem (prm_xhdr param) (uint (prm_xlen param) * 4) = Some (prm_xhdr param)"
  proof -
    have "uint (prm_xlen param) * 4 = int (length (prm_xhdr param))" using prm by (simp add: param_ok_def)
    then show ?thesis by (simp add: from_mem_def)
  qed
  have start: "send_extension param p =
      (if prm_xlen param \<noteq> 0 then vstr_put_tail p1 (prm_xhdr param) else Some p1)"
    using False x p1(1) by (simp add: send_extension_def bool_bit_def Let_def ld mem)
  show ?thesis
  proof (cases "prm_xlen param = 0")
    case True
    then have "prm_xhdr param = []" using prm by (simp add: param_ok_def)
    then show ?thesis using True start p1(2,3) room_p1 p four False by (simp add: wire_extension_def)
  next
    case xl: False
    obtain p2 where "vstr_put_tail p1 (prm_xhdr param) = Some p2" "vstr_ok p2" "contents p2 = contents p1 @ prm_xhdr param"
        "room_tail p2 = room_tail p1 - length (prm_xhdr param)"
      using put_opt [OF p1(2), of "prm_xhdr param"] room4(2) room_p1 p(3) by metis
    then show ?thesis using xl start p1(3) room_p1 p four False by (simp add: wire_extension_def)
  qed
qed

definition after_send :: "rtp_t \<Rightarrow> rtp_t" where
  "after_send s = s\<lparr>seq := seq s + 1, cycles := (if seq s + 1 = 0 then cycles s + 1 else cycles s),
     pcount := pcount s + 1, ocount := ocount s + 12\<rparr>"

lemma send_wire:
  assumes "csrc_ok s" "param_ok param" "max p = int (length (data p))"
    and fit: "RTP_PACKET_IDX + length (rtp_wire s param (now_us sec us)) \<le> length (data p)"
  shows "\<exists>p'. rtp_send sec us s param p = Some (after_send s, p') \<and> vstr_ok p' \<and>
    contents p' = rtp_wire s param (now_us sec us)"
proof -
  let ?ts = "now_us sec us" and ?d = "data p"
  let ?cs = "concat (map le32 (csrcs s))" and ?w = "wire_fixed s param (now_us sec us)"
  have room: "28 + length ?cs + length (wire_extension param) + length (prm_payload param) \<le> length ?d"
    using fit by (simp add: rtp_wire_def RTP_PACKET_IDX_def)
  let ?p = "p\<lparr>head := 16, tail := 28, size := 12, data := take 16 ?d @ ?w @ drop 28 ?d\<rparr>"
  have p0: "vstr_ok ?p" "contents ?p = ?w" "room_tail ?p = length ?d - 28"
    using fixed_header_ok [of ?d ?p s param ?ts] room assms(3) by simp_all
  obtain p1 where p1: "(if cc s > 0 then vstr_put_tail ?p ?cs else Some ?p) = Some p1" "vstr_ok p1"
      "contents p1 = ?w @ ?cs" "room_tail p1 = length ?d - 28 - length ?cs" "head p1 = 16" "28 \<le> tail p1"
      "take 28 (data p1) = take 16 ?d @ ?w"
  proof (cases "cc s > 0")
    case True
    have "length ?cs \<le> room_tail ?p" using room p0(3) by simp
    from put_opt [OF p0(1) this] obtain p1 where "vstr_put_tail ?p ?cs = Some p1" "vstr_ok p1"
      "contents p1 = contents ?p @ ?cs" "room_tail p1 = room_tail ?p - length ?cs" "head p1 = head ?p"
      "take (nat (tail ?p)) (data p1) = take (nat (tail ?p)) (data ?p)" by metis
    moreover from this(1) have "28 \<le> tail p1" by (auto simp: vstr_put_tail_def copy_in_def split: if_splits)
    ultimately show ?thesis using that [of p1] True p0 room by simp
  next
    case False
    then have "csrcs s = []" by (simp add: csrcs_def)
    then show ?thesis using that [of ?p] False p0 room by simp
  qed
  have "pkt_x (data p1) = bool_bit (prm_flags param AND FLAG_EXTENSION \<noteq> 0)"
    unfolding pkt_x_take [of "data p1"] p1(7) using flag_x [of "take 16 ?d" s param ?ts "[]"] room by simp
  moreover have "length (wire_extension param) \<le> room_tail p1" using p1(4) room by linarith
  ultimately obtain p2 where p2: "send_extension param p1 = Some p2" "vstr_ok p2" "contents p2 = contents p1 @ wire_extension param"
      "room_tail p2 = room_tail p1 - length (wire_extension param)"
    using send_extension_ok [OF p1(2) _ assms(2) p1(5)] p1(6) by force
  have "length (prm_payload param) \<le> room_tail p2" using p2(4) p1(4) room by linarith
  from put_opt [OF p2(2) this] obtain p3 where p3: "vstr_put_tail p2 (prm_payload param) = Some p3" "vstr_ok p3"
      "contents p3 = contents p2 @ prm_payload param" by metis
  have mem: "from_mem (prm_payload param) (prm_len param) = Some (prm_payload param)"
    using assms(2) by (simp add: from_mem_def param_ok_def)
  have "rtp_send sec us s param p = Some (after_send s, p3)"
    using room p1(1) [unfolded csrcs_def] p2(1) p3(1) mem header_written [of ?d s sec us param]
    by (cases "cc s > 0") (simp_all add: rtp_send_def Let_def vstr_set_def vstr_adv_tail_def RTP_PACKET_IDX_def RTP_HEADER_SIZE_def csrcs_def
        after_send_def)
  then show ?thesis using p3 p2(3) p1(3) by (simp add: rtp_wire_def)
qed

text \<open>
  \<open>rtp_send\<close> puts a packet in the layout of RFC 3550 into the stream, for every combination of flags,
  contributing sources, extension and payload that fits. The sequence number advances by one and carries into
  the cycle count; the octet count grows by the 12 bytes of the fixed header whatever the payload is.
\<close>

theorem rtp_send_wire:
  assumes "csrc_ok s" "param_ok param" "max p = int (length (data p))"
    and "RTP_PACKET_IDX + length (rtp_wire s param (now_us sec us)) \<le> length (data p)"
  shows "\<exists>p'. rtp_send sec us s param p = Some (after_send s, p') \<and> vstr_ok p' \<and>
    contents p' = rtp_wire s param (now_us sec us)"
  using send_wire [OF assms] .

definition demo_session :: rtp_t where
  "demo_session = \<lparr>ssrc = 7, cc = 1, csrc = htonl 9 # replicate 14 0, seq = 65535, cycles = 0, pcount = 0, ocount = 0,
     sdes = [], members = joined [(7, 0)], flags = 1, sources = []\<rparr>"

definition demo_param :: rtp_param_t where
  "demo_param = \<lparr>prm_flags = 5, prm_xdef = 1, prm_xlen = 1, prm_xhdr = [1, 2, 3, 4], prm_pt = 5, prm_len = 3,
     prm_payload = [10, 20, 30]\<rparr>"

lemma demo_ok: "csrc_ok demo_session" "param_ok demo_param" "length (rtp_wire demo_session demo_param ts) = 27"
  by (simp_all add: csrc_ok_def csrcs_def demo_session_def param_ok_def demo_param_def rtp_wire_def wire_extension_def
      FLAG_EXTENSION_def)

lemma rtp_send_wire_witness:
  "\<exists>p'. rtp_send 0 0 demo_session demo_param (vstr_init (replicate 60 0)) = Some (after_send demo_session, p') \<and> vstr_ok p' \<and>
    contents p' = rtp_wire demo_session demo_param (now_us 0 0)"
  by (rule rtp_send_wire) (simp_all add: demo_ok vstr_init_def RTP_PACKET_IDX_def)

subsection \<open>Receiving\<close>

lemma copy_out_contents: "vstr_ok p \<Longrightarrow> copy_out p (head p) (size p) = Some (contents p)"
  by (erule vstr_okE) (simp add: copy_out_def nat_diff_distrib)

definition host_fixed :: "rtp_t \<Rightarrow> rtp_param_t \<Rightarrow> u32 \<Rightarrow> bytes" where
  "host_fixed s param ts =
     wire_byte0 (prm_flags param AND FLAG_PADDING \<noteq> 0) (prm_flags param AND FLAG_EXTENSION \<noteq> 0) (cc s) #
     wire_byte1 (prm_flags param AND FLAG_MARKER \<noteq> 0) (prm_pt param) #
     le16 (seq s) @ le32 ts @ le32 (ssrc s)"

lemma length_host_fixed [simp]: "length (host_fixed s param ts) = 12"
  by (simp add: host_fixed_def)

lemma recv_order_wire:
  assumes "length pre = 16"
  shows "recv_order (pre @ wire_fixed s param ts @ ws) = pre @ host_fixed s param ts @ ws"
proof -
  let ?a = "wire_byte0 (prm_flags param AND FLAG_PADDING \<noteq> 0) (prm_flags param AND FLAG_EXTENSION \<noteq> 0) (cc s)"
  let ?b = "wire_byte1 (prm_flags param AND FLAG_MARKER \<noteq> 0) (prm_pt param)"
  have s18: "st16 18 (htons (ld16 (pre @ ?a # ?b # be16 v @ xs) 18)) (pre @ ?a # ?b # be16 v @ xs) = pre @ ?a # ?b # le16 v @ xs" for v xs
    using ld16_split_be [of 18 "pre @ [?a, ?b]" v xs] overwrite_split [of "be16 v" "le16 v" 18 "pre @ [?a, ?b]" xs] assms
    by (simp add: st16_def)
  have s20: "st32 20 (htonl (ld32 (pre @ ?a # ?b # le16 w @ be32 v @ xs) 20)) (pre @ ?a # ?b # le16 w @ be32 v @ xs) =
      pre @ ?a # ?b # le16 w @ le32 v @ xs" for v w xs
    using ld32_split_be [of 20 "pre @ [?a, ?b] @ le16 w" v xs]
      overwrite_split [of "be32 v" "le32 v" 20 "pre @ [?a, ?b] @ le16 w" xs] assms
    by (simp add: st32_def)
  have s24: "st32 24 (htonl (ld32 (pre @ ?a # ?b # le16 w @ le32 t @ be32 v @ xs) 24)) (pre @ ?a # ?b # le16 w @ le32 t @ be32 v @ xs) =
      pre @ ?a # ?b # le16 w @ le32 t @ le32 v @ xs" for t v w xs
    using ld32_split_be [of 24 "pre @ [?a, ?b] @ le16 w @ le32 t" v xs]
      overwrite_split [of "be32 v" "le32 v" 24 "pre @ [?a, ?b] @ le16 w @ le32 t" xs] assms
    by (simp add: st32_def)
  show ?thesis
    unfolding wire_fixed_def host_fixed_def recv_order_def Let_def append_Cons append_assoc s18 s20 s24 by simp
qed

lemma host_fields:
  assumes "length pre = 16" "d = pre @ host_fixed s param ts @ ws"
  shows "pkt_ver d = RTP_VERSION" "pkt_p d = bool_bit (prm_flags param AND FLAG_PADDING \<noteq> 0)"
    "pkt_x d = bool_bit (prm_flags param AND FLAG_EXTENSION \<noteq> 0)" "pkt_cc d = of_nat (cc s) AND mask 4"
    "pkt_pt d = prm_pt param AND mask 7" "pkt_m d = bool_bit (prm_flags param AND FLAG_MARKER \<noteq> 0)"
    "pkt_seq d = seq s" "pkt_ts d = ts" "pkt_ssrc d = ssrc s"
proof -
  let ?a = "wire_byte0 (prm_flags param AND FLAG_PADDING \<noteq> 0) (prm_flags param AND FLAG_EXTENSION \<noteq> 0) (cc s)"
  let ?b = "wire_byte1 (prm_flags param AND FLAG_MARKER \<noteq> 0) (prm_pt param)"
  have d: "d = pre @ ?a # ?b # le16 (seq s) @ le32 ts @ le32 (ssrc s) @ ws" by (simp add: assms(2) host_fixed_def)
  have n: "d ! 16 = ?a" "d ! 17 = ?b" by (simp_all add: d nth_append assms(1))
  show "pkt_ver d = RTP_VERSION" "pkt_p d = bool_bit (prm_flags param AND FLAG_PADDING \<noteq> 0)"
    "pkt_x d = bool_bit (prm_flags param AND FLAG_EXTENSION \<noteq> 0)" "pkt_cc d = of_nat (cc s) AND mask 4"
    "pkt_pt d = prm_pt param AND mask 7" "pkt_m d = bool_bit (prm_flags param AND FLAG_MARKER \<noteq> 0)"
    unfolding pkt_fields ld_bits_def n wire_byte0_fields wire_byte1_fields drop_bit_0 id_apply by (rule refl)+
  show "pkt_seq d = seq s" unfolding pkt_seq_def d
    using ld16_split [of 18 "pre @ [?a, ?b]"] assms(1) by simp
  show "pkt_ts d = ts" unfolding pkt_ts_def d
    using ld32_split [of 20 "pre @ [?a, ?b] @ le16 (seq s)"] assms(1) by simp
  show "pkt_ssrc d = ssrc s" unfolding pkt_ssrc_def d
    using ld32_split [of 24 "pre @ [?a, ?b] @ le16 (seq s) @ le32 ts"] assms(1) by simp
qed

lemma recv_extension_ok:
  assumes "param_ok param" "data m = pre @ H @ C @ wire_extension param @ Y @ post" "length pre = 16"
    and "pkt_x (data m) = bool_bit (prm_flags param AND FLAG_EXTENSION \<noteq> 0)"
    and "head m = int (16 + length H + length C)" "size m = int (length (wire_extension param @ Y))"
  shows "\<exists>pre' xh m'. recv_extension m = Some (m', xh) \<and> data m' = pre' @ H @ C @ wire_extension param @ Y @ post \<and>
    length pre' = 16 \<and> head m' = head m + int (length (wire_extension param)) \<and> size m' = int (length Y) \<and> tail m' = tail m"
proof (cases "prm_flags param AND FLAG_EXTENSION = 0")
  case True
  then show ?thesis using assms by (auto simp: recv_extension_def bool_bit_def wire_extension_def)
next
  case False
  let ?four = "be16 (prm_xdef param) @ be16 (prm_xlen param)"
  have W: "wire_extension param = ?four @ prm_xhdr param" using False by (simp add: wire_extension_def)
  let ?rest = "H @ C @ ?four @ prm_xhdr param @ Y @ post"
  have get: "vstr_get_head m 4 = Some (?four, m\<lparr>head := head m + 4, size := size m - 4\<rparr>)"
    using assms(2,3,5) by (simp add: vstr_get_head_def copy_out_def W)
  let ?pre' = "le16 (prm_xdef param) @ le16 (prm_xlen param) @ drop 4 pre"
  obtain a0 a1 a2 a3 ws where pre: "pre = a0 # a1 # a2 # a3 # ws" using split_four [of pre] assms(3) by auto
  have copy: "overwrite 0 ?four (pre @ ?rest) = be16 (prm_xdef param) @ be16 (prm_xlen param) @ drop 4 pre @ ?rest"
    using overwrite_split [of "[a0, a1, a2, a3]" ?four 0 "[]" "ws @ ?rest"] by (simp add: pre)
  have ld0: "ld16 (be16 (prm_xdef param) @ zs) 0 = htons (prm_xdef param)" for zs
    using ld16_split_be [of 0 "[]"] by simp
  have ld2: "length xs = 2 \<Longrightarrow> ld16 (xs @ be16 (prm_xlen param) @ zs) 2 = htons (prm_xlen param)" for xs zs
    using ld16_split_be [of 2 xs] by simp
  have ldx: "ld16 (le16 (prm_xdef param) @ le16 (prm_xlen param) @ zs) 2 = prm_xlen param" for zs
    using ld16_split [of 2 "le16 (prm_xdef param)"] by simp
  have st: "st16 2 (htons (htons (prm_xlen param))) (st16 0 (htons (htons (prm_xdef param)))
      (be16 (prm_xdef param) @ be16 (prm_xlen param) @ zs)) = le16 (prm_xdef param) @ le16 (prm_xlen param) @ zs" for zs
  proof -
    have "st16 0 (prm_xdef param) (be16 (prm_xdef param) @ be16 (prm_xlen param) @ zs) =
        le16 (prm_xdef param) @ be16 (prm_xlen param) @ zs"
      unfolding st16_def by (simp add: overwrite_def)
    moreover have "st16 2 (prm_xlen param) (le16 (prm_xdef param) @ be16 (prm_xlen param) @ zs) =
        le16 (prm_xdef param) @ le16 (prm_xlen param) @ zs"
      unfolding st16_def by (rule overwrite_split) simp_all
    ultimately show ?thesis by (simp only: htons_htons)
  qed
  let ?m = "m\<lparr>head := head m + 4, size := size m - 4, data := ?pre' @ ?rest\<rparr>"
  have d: "data m = pre @ ?rest" using assms(2) W by simp
  have swap: "st16 2 (htons (ld16 (overwrite 0 ?four (data m)) 2)) (st16 0 (htons (ld16 (overwrite 0 ?four (data m)) 0))
      (overwrite 0 ?four (data m))) = ?pre' @ ?rest"
    unfolding d copy ld0 ld2 [OF length_net(2)] st by simp
  have swap2: "ld16 (?pre' @ ?rest) 2 = prm_xlen param" using ldx [of "drop 4 pre @ ?rest"] by simp
  have ext: "recv_extension m = (if prm_xlen param \<noteq> 0
      then Some (vstr_adv_head ?m (uint (prm_xlen param) * 4), Some (head m + 4)) else Some (?m, None))"
    using False assms(4) by (simp add: recv_extension_def bool_bit_def get swap swap2 del: append_assoc htons_htons)
  have xl: "uint (prm_xlen param) * 4 = int (length (prm_xhdr param))" using assms(1) by (simp add: param_ok_def)
  have "length ?pre' = 16" using assms(3) by simp
  moreover have "size m = 4 + int (length (prm_xhdr param)) + int (length Y)" using assms(6) W by simp
  moreover have "prm_xlen param = 0 \<Longrightarrow> prm_xhdr param = []" using assms(1) by (simp add: param_ok_def)
  ultimately show ?thesis
    by (intro exI [of _ ?pre']) (simp add: ext W vstr_adv_head_def xl)
qed

definition accepted :: "rtp_packet_t \<Rightarrow> rtp_t \<Rightarrow> rtp_param_t \<Rightarrow> u32 \<Rightarrow> bool" where
  "accepted pk s param ts \<longleftrightarrow> pkt_seq (mem pk) = seq s \<and> pkt_ts (mem pk) = ts \<and> pkt_ssrc (mem pk) = ssrc s \<and>
     pkt_pt (mem pk) = prm_pt param AND mask 7 \<and> pkt_m (mem pk) = bool_bit (prm_flags param AND FLAG_MARKER \<noteq> 0) \<and>
     pay_len pk = int (length (prm_payload param)) \<and>
     take (nat (pay_len pk)) (drop (nat (payload pk)) (mem pk)) = prm_payload param"

lemma uint_cc:
  assumes "n \<le> 15"
  shows "uint (of_nat n AND mask 4 :: u8) = int n"
proof -
  have "unat (of_nat n :: u8) = n" using assms by (intro unat_of_nat_u8) simp
  then have "unat (of_nat n AND mask 4 :: u8) = n mod 2 ^ 4" by (simp only: unat_and_mask)
  then have "int (unat (of_nat n AND mask 4 :: u8)) = int n" using assms by simp
  then show ?thesis by simp
qed

lemma recv_start:
  assumes "length block = RTP_PACKET_SIZE" "length W \<le> RTP_MTU_SIZE"
  shows "vstr_put_tail (vstr_set (vstr_map block (int RTP_PACKET_SIZE)) (int RTP_PACKET_IDX) (int RTP_PACKET_IDX)) W =
      Some \<lparr>max = 1516, size = int (length W), head = 16, tail = 16 + int (length W),
        data = take 16 block @ W @ drop (16 + length W) block\<rparr>"
  using assms by (simp add: vstr_put_tail_def copy_in_def vstr_set_def vstr_map_def rtp_consts overwrite_def)

lemma recv_parse_wire:
  assumes pre: "length pre = 16" and s0: "csrc_ok s0" "param_ok param" and pad: "prm_flags param AND FLAG_PADDING = 0"
    and pt: "prm_pt param AND mask 7 < RTCP_TYPE_MIN \<or> RTCP_TYPE_MAX < prm_pt param AND mask 7"
    and m: "data m = pre @ host_fixed s0 param ts @ concat (map le32 (csrcs s0)) @ wire_extension param @ prm_payload param @ post"
      "head m = 16" "size m = int (length (rtp_wire s0 param ts))"
  shows "\<exists>pk. recv_parse m = Some (Some pk) \<and> accepted pk s0 param ts"
proof -
  let ?C = "concat (map le32 (csrcs s0))" and ?Y = "prm_payload param"
  let ?H = "host_fixed s0 param ts"
  note f = host_fields [OF pre m(1)]
  have C: "length ?C = 4 * cc s0" using s0(1) by (simp add: csrcs_def csrc_ok_def length_concat comp_def sum_list_triv)
  let ?m = "m\<lparr>head := int (16 + length ?H + length ?C), size := int (length (wire_extension param @ ?Y))\<rparr>"
  have cc: "uint (pkt_cc (data m)) = int (cc s0)" unfolding f(4) using s0(1) by (intro uint_cc) (simp add: csrc_ok_def)
  then have pos: "pkt_cc (data m) > 0 \<longleftrightarrow> cc s0 > 0"
    by (metis of_nat_0_less_iff uint_0_iff word_gt_0 of_nat_eq_0_iff gr_zeroI less_irrefl)
  have adv: "(if pkt_cc (data m) > 0 then vstr_adv_head (vstr_adv_head m RTP_HEADER_SIZE) (uint (pkt_cc (data m)) * 4)
      else vstr_adv_head m RTP_HEADER_SIZE) = ?m"
    unfolding pos cc using m(2,3) by (simp add: vstr_adv_head_def RTP_HEADER_SIZE_def rtp_wire_def C)
  have keep: "data (vstr_adv_head m RTP_HEADER_SIZE) = data m" by (simp add: vstr_adv_head_def)
  obtain pre' xh m' where ext: "recv_extension ?m = Some (m', xh)" "data m' = pre' @ ?H @ ?C @ wire_extension param @ ?Y @ post"
      "length pre' = 16" "head m' = head ?m + int (length (wire_extension param))" "size m' = int (length ?Y)"
    using recv_extension_ok [OF s0(2), of ?m pre ?H ?C ?Y post] f(3) pre m(1) by auto
  note g = host_fields [OF ext(3,2)]
  have padding: "recv_padding m' = Some (Some (int (length ?Y)))"
    using ext(5) g(2) pad by (simp add: recv_padding_def bool_bit_def)
  let ?pk = "\<lparr>mem = data m', xhdr = xh, pay_len = int (length ?Y), payload = head m'\<rparr>"
  have "recv_parse m = Some (Some ?pk)"
    unfolding recv_parse_def Let_def keep adv ext(1) using pt f(1,5) by (auto simp: padding)
  moreover have "accepted ?pk s0 param ts"
    using g ext(2-4) by (simp add: accepted_def)
  ultimately show ?thesis by blast
qed

text \<open>A datagram that holds a packet, wherever the stream has it.\<close>

lemma recv_wire:
  assumes s0: "csrc_ok s0" "param_ok param" and out: "copy_out p (head p) (size p) = Some (rtp_wire s0 param ts)"
    and fit: "length (rtp_wire s0 param ts) \<le> RTP_MTU_SIZE" and block: "length block = RTP_PACKET_SIZE"
    and pad: "prm_flags param AND FLAG_PADDING = 0"
    and pt: "prm_pt param AND mask 7 < RTCP_TYPE_MIN \<or> RTCP_TYPE_MAX < prm_pt param AND mask 7"
    and member: "rtp_find_member (members s) (ssrc s0) = Item (sid, a)" "a < length (sources s)"
  shows "\<exists>pk. rtp_recv sec us block s p = Some (Some pk, s\<lparr>sources := (sources s)[a := rtp_update_jitter sec us ts (sources s ! a)]\<rparr>) \<and>
    accepted pk s0 param ts"
proof -
  let ?W = "rtp_wire s0 param ts"
  let ?pre = "take 16 block" and ?post = "drop (16 + length ?W) block"
  have pre: "length ?pre = 16" using block by (simp add: rtp_consts)
  let ?m = "\<lparr>max = 1516, size = int (length ?W), head = 16, tail = 16 + int (length ?W), data = recv_order (?pre @ ?W @ ?post)\<rparr>"
  have d: "data ?m = ?pre @ host_fixed s0 param ts @ concat (map le32 (csrcs s0)) @ wire_extension param @ prm_payload param @ ?post"
    using recv_order_wire [OF pre] by (simp add: rtp_wire_def)
  obtain pk where pk: "recv_parse ?m = Some (Some pk)" "accepted pk s0 param ts"
    using recv_parse_wire [OF pre s0 pad pt d] by auto
  have "pkt_ssrc (data ?m) = ssrc s0" by (rule host_fields(9) [OF pre d])
  then have "rtp_recv sec us block s p =
      Some (Some pk, s\<lparr>sources := (sources s)[a := rtp_update_jitter sec us ts (sources s ! a)]\<rparr>)"
    using pk member recv_start [OF block fit] out
    by (simp add: rtp_recv_def Let_def mget_def mput_def accepted_def)
  then show ?thesis using pk(2) by blast
qed

text \<open>
  C17: a packet that was sent without padding is received: for a member of the session \<open>rtp_recv\<close> returns a
  packet with the sequence number, time stamp, source, payload type, marker and payload that were sent,
  whatever the contributing sources and the extension are, and updates that member's jitter and nothing else.
\<close>

theorem rtp_send_recv:
  assumes s0: "csrc_ok s0" "param_ok param" "max p = int (length (data p))"
    and fit: "RTP_PACKET_IDX + length (rtp_wire s0 param (now_us sec0 us0)) \<le> length (data p)"
      "length (rtp_wire s0 param (now_us sec0 us0)) \<le> RTP_MTU_SIZE"
    and block: "length block = RTP_PACKET_SIZE" and pad: "prm_flags param AND FLAG_PADDING = 0"
    and pt: "prm_pt param AND mask 7 < RTCP_TYPE_MIN \<or> RTCP_TYPE_MAX < prm_pt param AND mask 7"
    and member: "rtp_find_member (members s) (ssrc s0) = Item (sid, a)" "a < length (sources s)"
  shows "\<exists>p' pk. rtp_send sec0 us0 s0 param p = Some (after_send s0, p') \<and>
    rtp_recv sec us block s p' =
      Some (Some pk, s\<lparr>sources := (sources s)[a := rtp_update_jitter sec us (now_us sec0 us0) (sources s ! a)]\<rparr>) \<and>
    accepted pk s0 param (now_us sec0 us0)"
proof -
  obtain p' where p': "rtp_send sec0 us0 s0 param p = Some (after_send s0, p')" "vstr_ok p'"
    "contents p' = rtp_wire s0 param (now_us sec0 us0)"
    using send_wire [OF s0 fit(1)] by blast
  have "copy_out p' (head p') (size p') = Some (rtp_wire s0 param (now_us sec0 us0))"
    using copy_out_contents [OF p'(2)] p'(3) by simp
  then show ?thesis using recv_wire [OF s0(1,2) _ fit(2) block pad pt member] p'(1) by blast
qed

lemma rtp_send_recv_witness:
  "\<forall>r. \<exists>p' pk. rtp_send 0 0 demo_session demo_param (vstr_init (replicate 60 0)) = Some (after_send demo_session, p') \<and>
    rtp_recv 1 1 (replicate 1516 0) (demo_session\<lparr>sources := [r]\<rparr>) p' =
      Some (Some pk, demo_session\<lparr>sources := [rtp_update_jitter 1 1 0 r]\<rparr>) \<and> accepted pk demo_session demo_param 0"
proof
  fix r :: rtp_source_t
  let ?s = "demo_session\<lparr>sources := [r]\<rparr>"
  obtain qs where "members_ok (joined [(7, 0)]) qs" "elems (joined [(7, 0)]) qs = [(7, 0)]" "\<forall>k. \<not> stray (joined [(7, 0)]) k"
    using joined_ok [of "[(7, 0)]"] by (auto simp del: join.simps)
  then have "rtp_find_member (members ?s) (ssrc demo_session) = Item (7, 0)"
    by (simp add: demo_session_def find_member del: join.simps)
  from rtp_send_recv [OF demo_ok(1,2) _ _ _ _ _ _ this, of "vstr_init (replicate 60 0)" 0 0 "replicate 1516 0" 1 1]
  show "\<exists>p' pk. rtp_send 0 0 demo_session demo_param (vstr_init (replicate 60 0)) = Some (after_send demo_session, p') \<and>
    rtp_recv 1 1 (replicate 1516 0) ?s p' =
      Some (Some pk, demo_session\<lparr>sources := [rtp_update_jitter 1 1 0 r]\<rparr>) \<and> accepted pk demo_session demo_param 0"
    by (simp add: demo_ok vstr_init_def rtp_consts now_us_def demo_param_def [THEN arg_cong, of prm_flags]
        demo_param_def [THEN arg_cong, of prm_pt] mask_eq_exp_minus_1)
qed

end
