(* ===== verification/Rtcp.thy ===== *)
theory Rtcp
  imports Rtp_Packet
begin

text \<open>
  RTCP (\<open>rtcp_send_ctrl\<close>, \<open>rtcp_append_sdes\<close>, \<open>rtcp_recv\<close> and the \<open>rtp_update_\<close> functions of
  \<open>src/src/voice_comm/src/voice/lib/rtp.c\<close>): reports about the members, descriptions of the
  sources, and parsing both. The structures are laid over the bytes of the stream; an access outside
  the block is \<^term>\<open>None\<close>. The loops over descriptions end because every item moves the head
  forward in a finite block.
\<close>

definition RTP_SENDER :: u32 where "RTP_SENDER = 1"
definition SECS_BETWEEN_1900_1970 :: u32 where "SECS_BETWEEN_1900_1970 = 2208988800"
definition RTCP_HEADER_SIZE :: int where "RTCP_HEADER_SIZE = 8"
definition RTCP_SR_SIZE :: int where "RTCP_SR_SIZE = 20"
definition RTCP_RR_SIZE :: int where "RTCP_RR_SIZE = 24"
definition RTCP_SDES_HEADER_SIZE :: int where "RTCP_SDES_HEADER_SIZE = 4"
definition RTCP_SDES_ITEM_SIZE :: int where "RTCP_SDES_ITEM_SIZE = 2"
definition RTCP_SR :: u8 where "RTCP_SR = 200"
definition RTCP_RR :: u8 where "RTCP_RR = 201"
definition RTCP_SDES :: u8 where "RTCP_SDES = 202"
definition RTCP_BYE :: u8 where "RTCP_BYE = 203"
definition RTCP_SDES_LAST :: nat where "RTCP_SDES_LAST = 8"

lemmas rtcp_consts = RTP_SENDER_def SECS_BETWEEN_1900_1970_def RTCP_HEADER_SIZE_def RTCP_SR_SIZE_def RTCP_RR_SIZE_def
  RTCP_SDES_HEADER_SIZE_def RTCP_SDES_ITEM_SIZE_def RTCP_SR_def RTCP_RR_def RTCP_SDES_def RTCP_BYE_def RTCP_SDES_LAST_def

subsection \<open>Checked access to the block of a stream\<close>

definition in_block :: "vstr_t \<Rightarrow> int \<Rightarrow> int \<Rightarrow> bool" where
  "in_block v off n \<longleftrightarrow> 0 \<le> off \<and> off + n \<le> int (length (data v))"

definition rd8 :: "vstr_t \<Rightarrow> int \<Rightarrow> u8 option" where
  "rd8 v off = (if in_block v off 1 then Some (data v ! nat off) else None)"

definition rd16 :: "vstr_t \<Rightarrow> int \<Rightarrow> u16 option" where
  "rd16 v off = (if in_block v off 2 then Some (ld16 (data v) (nat off)) else None)"

definition rd32 :: "vstr_t \<Rightarrow> int \<Rightarrow> u32 option" where
  "rd32 v off = (if in_block v off 4 then Some (ld32 (data v) (nat off)) else None)"

definition wr8 :: "vstr_t \<Rightarrow> int \<Rightarrow> u8 \<Rightarrow> vstr_t option" where
  "wr8 v off x = copy_in v off [x]"

definition wr16 :: "vstr_t \<Rightarrow> int \<Rightarrow> u16 \<Rightarrow> vstr_t option" where
  "wr16 v off x = copy_in v off (le16 x)"

definition wr32 :: "vstr_t \<Rightarrow> int \<Rightarrow> u32 \<Rightarrow> vstr_t option" where
  "wr32 v off x = copy_in v off (le32 x)"

definition wr_bits :: "vstr_t \<Rightarrow> int \<Rightarrow> nat \<Rightarrow> nat \<Rightarrow> u8 \<Rightarrow> vstr_t option" where
  "wr_bits v off b w x = do { old \<leftarrow> rd8 v off; wr8 v off (set_bits b w x old) }"

subsection \<open>Reports\<close>

text \<open>A report block; the count of lost packets is cut to the 24 bits of its field after the bytes were swapped.\<close>

definition write_report :: "vstr_t \<Rightarrow> int \<Rightarrow> rtp_source_t \<Rightarrow> vstr_t option" where
  "write_report v off r =
     do {
       v \<leftarrow> wr32 v off (htonl (src_ssrc r));
       v \<leftarrow> wr8 v (off + 7) (frac r);
       v \<leftarrow> copy_in v (off + 4) (take 3 (le32 (htonl (lost r))));
       v \<leftarrow> wr32 v (off + 8) (htonl (last_seq r));
       v \<leftarrow> wr32 v (off + 12) (htonl (jitter r));
       v \<leftarrow> wr32 v (off + 16) (htonl (lsr r));
       wr32 v (off + 20) (htonl (dlsr r))
     }"

fun report_loop :: "nat \<Rightarrow> nat \<Rightarrow> int \<Rightarrow> rtp_t \<Rightarrow> vstr_t \<Rightarrow> (rtp_t \<times> vstr_t) option" where
  "report_loop 0 i base s v = Some (s, v)"
| "report_loop (Suc n) i base s v =
     do {
       (found, h) \<leftarrow> ohtbl_traverse (members s);
       let s = s\<lparr>members := h\<rparr>;
       case found of
         Item (sid, a) \<Rightarrow> do {
           r \<leftarrow> mget (sources s) a;
           v \<leftarrow> write_report v (base + 28 + 24 * int i) r;
           report_loop n (Suc i) base s (vstr_adv_tail v RTCP_RR_SIZE)
         }
       | _ \<Rightarrow> None
     }"

definition sender_info :: "u32 \<Rightarrow> u32 \<Rightarrow> int \<Rightarrow> rtp_t \<Rightarrow> vstr_t \<Rightarrow> vstr_t option" where
  "sender_info tv_sec tv_usec base s v =
     do {
       v \<leftarrow> wr8 v (base + 1) RTCP_SR;
       let ntp_sec = tv_sec + SECS_BETWEEN_1900_1970;
       let ntp_frac = push_bit 12 tv_usec + push_bit 8 tv_usec - signed_drop_bit 6 (tv_usec * 3650);
       v \<leftarrow> wr32 v (base + 8) (htonl ntp_sec);
       v \<leftarrow> wr32 v (base + 12) (htonl ntp_frac);
       v \<leftarrow> wr32 v (base + 16) (htonl (now_us tv_sec tv_usec));
       v \<leftarrow> wr32 v (base + 20) (htonl (pcount s));
       v \<leftarrow> wr32 v (base + 24) (htonl (ocount s));
       Some (vstr_adv_tail v RTCP_SR_SIZE)
     }"

definition rtcp_send_ctrl :: "u32 \<Rightarrow> u32 \<Rightarrow> rtp_t \<Rightarrow> vstr_t \<Rightarrow> (rtp_t \<times> vstr_t) option" where
  "rtcp_send_ctrl tv_sec tv_usec s v =
     do {
       let base = tail v;
       v \<leftarrow> wr_bits v base 6 2 RTP_VERSION;
       v \<leftarrow> wr_bits v base 5 1 0;
       let v = vstr_adv_tail v RTCP_HEADER_SIZE;
       v \<leftarrow> wr_bits v base 0 5 (ucast (ht_size (members s)));
       v \<leftarrow> wr32 v (base + 4) (htonl (ssrc s));
       v \<leftarrow> (if flags s AND RTP_SENDER \<noteq> 0 then sender_info tv_sec tv_usec base s v else wr8 v (base + 1) RTCP_RR);
       let s = s\<lparr>members := ohtbl_flush (members s)\<rparr>;
       (s, v) \<leftarrow> report_loop (unat (ht_size (members s))) 0 base s v;
       v \<leftarrow> wr16 v (base + 2) (of_int (size v sdiv 4 - 1));
       Some (s, v)
     }"

subsection \<open>Descriptions\<close>

definition text_of :: "bytes \<Rightarrow> bytes option" where
  "text_of a = (let t = takeWhile (\<lambda>b. b \<noteq> 0) a in if length t < length a then Some t else None)"

fun sdes_loop :: "nat list \<Rightarrow> rtp_t \<Rightarrow> u32 \<Rightarrow> vstr_t \<Rightarrow> vstr_t option" where
  "sdes_loop [] s fl v = Some v"
| "sdes_loop (i # is) s fl v =
     (if fl AND push_bit i 1 \<noteq> 0
      then do {
        let item = tail v;
        let v = vstr_adv_tail v RTCP_SDES_ITEM_SIZE;
        v \<leftarrow> wr8 v item (of_nat (i + 1));
        v \<leftarrow> (if i < 7
              then do {
                a \<leftarrow> mget (sdes s) i;
                t \<leftarrow> text_of a;
                v \<leftarrow> wr8 v (item + 1) (of_nat (length t));
                vstr_put_tail v t
              }
              else Some v);
        sdes_loop is s fl v
      }
      else sdes_loop is s fl v)"

definition rtcp_append_sdes :: "rtp_t \<Rightarrow> vstr_t \<Rightarrow> u32 \<Rightarrow> vstr_t option" where
  "rtcp_append_sdes s v fl =
     do {
       let base = tail v;
       v \<leftarrow> wr_bits v base 6 2 RTP_VERSION;
       v \<leftarrow> wr_bits v base 5 1 0;
       v \<leftarrow> wr_bits v base 0 5 1;
       v \<leftarrow> wr8 v (base + 1) RTCP_SDES;
       let v = vstr_adv_tail v (RTCP_SDES_HEADER_SIZE + 4);
       v \<leftarrow> wr32 v (base + 4) (htonl (ssrc s));
       v \<leftarrow> sdes_loop [0 ..< RTCP_SDES_LAST] s fl v;
       v \<leftarrow> vstr_zero_tail v (4 - unat (of_int (size v) :: u32) mod 4);
       wr16 v (base + 2) (of_int (size v sdiv 4 - 1))
     }"

text \<open>Parsing an item: the first of a type is stored, later ones are skipped.\<close>

definition rtp_update_sdes_item :: "nat \<Rightarrow> int \<Rightarrow> rtp_source_t \<Rightarrow> vstr_t \<Rightarrow> u32 \<Rightarrow> (rtp_source_t \<times> vstr_t \<times> u32) option" where
  "rtp_update_sdes_item k sz r v flag =
     (if flag AND push_bit k 1 = 0
      then do {
        (xs, v) \<leftarrow> vstr_get_head v sz;
        a \<leftarrow> mget (src_sdes r) k;
        if length xs \<le> length a
        then Some (r\<lparr>src_sdes := (src_sdes r)[k := overwrite 0 xs a]\<rparr>, v, flag OR push_bit k 1)
        else None
      }
      else Some (r, vstr_adv_head v sz, flag))"

fun discard_zeros :: "nat \<Rightarrow> vstr_t \<Rightarrow> vstr_t option" where
  "discard_zeros 0 v = Some v"
| "discard_zeros (Suc n) v =
     do {
       c \<leftarrow> rd8 v (head v);
       if c = 0 then discard_zeros n (vstr_adv_head v 1) else Some v
     }"

definition room_ahead :: "vstr_t \<Rightarrow> nat" where
  "room_ahead v = nat (int (length (data v)) - head v)"

lemma rd8_room: "rd8 v (head v) = Some c \<Longrightarrow> 0 < room_ahead v"
  by (auto simp: rd8_def in_block_def room_ahead_def split: if_splits)

lemma adv_room: "0 \<le> n \<Longrightarrow> room_ahead (vstr_adv_head v n) \<le> room_ahead v"
  by (simp add: room_ahead_def vstr_adv_head_def)

lemma adv_room_less: "0 < n \<Longrightarrow> 0 < room_ahead v \<Longrightarrow> room_ahead (vstr_adv_head v n) < room_ahead v"
  by (simp add: room_ahead_def vstr_adv_head_def)

lemma sdes_item_room:
  assumes "rtp_update_sdes_item k sz r v flag = Some (r', v', flag')" "0 \<le> sz"
  shows "room_ahead v' \<le> room_ahead v"
  using assms adv_room [OF assms(2), of v]
  by (auto simp: rtp_update_sdes_item_def vstr_get_head_def vstr_adv_head_def room_ahead_def
      split: if_splits Option.bind_splits)

function update_sdes_loop :: "rtp_source_t \<Rightarrow> vstr_t \<Rightarrow> u32 \<Rightarrow> (rtp_source_t \<times> vstr_t) option" where
  "update_sdes_loop r v flag =
     (case rd8 v (head v) of
        None \<Rightarrow> None
      | Some ty \<Rightarrow>
          if ty = 0 then Some (r, v)
          else
            (case (if ty \<le> 7
                   then do {
                     len \<leftarrow> rd8 v (head v + 1);
                     rtp_update_sdes_item (unat ty - 1) (uint len) r (vstr_adv_head v 2) flag
                   }
                   else Some (r, vstr_adv_head v 2, flag)) of
               None \<Rightarrow> None
             | Some (r, v, flag) \<Rightarrow> update_sdes_loop r v flag))"
  by pat_completeness auto
termination
proof (relation "measure (\<lambda>(r, v, flag). room_ahead v)", goal_cases)
  case (2 r v flag ty x r1 y v1 flag1)
  have less: "room_ahead (vstr_adv_head v 2) < room_ahead v"
    using rd8_room [OF 2(1)] by (rule adv_room_less [rotated]) simp
  have "room_ahead v1 \<le> room_ahead (vstr_adv_head v 2)"
    using 2(3,4,5) by (auto split: if_splits Option.bind_splits dest!: sdes_item_room)
  with less show ?case by simp
qed simp

definition rtp_update_sdes :: "rtp_source_t \<Rightarrow> vstr_t \<Rightarrow> (rtp_source_t \<times> vstr_t) option" where
  "rtp_update_sdes r v =
     do {
       (r, v) \<leftarrow> update_sdes_loop r v 0;
       v \<leftarrow> discard_zeros 4 v;
       Some (r, v)
     }"

function discard_sdes_loop :: "vstr_t \<Rightarrow> vstr_t option" where
  "discard_sdes_loop v =
     (case rd8 v (head v) of
        None \<Rightarrow> None
      | Some ty \<Rightarrow>
          if ty = 0 then Some v
          else (case rd8 v (head v + 1) of
                  None \<Rightarrow> None
                | Some len \<Rightarrow> discard_sdes_loop (vstr_adv_head v (2 + uint len))))"
  by pat_completeness auto
termination
proof (relation "measure room_ahead", goal_cases)
  case (2 v ty len)
  show ?case using rd8_room [OF 2(1)] by (simp add: adv_room_less add_pos_nonneg)
qed simp

definition rtp_discard_sdes :: "vstr_t \<Rightarrow> vstr_t option" where
  "rtp_discard_sdes v = do { v \<leftarrow> discard_sdes_loop v; discard_zeros 4 v }"

subsection \<open>Parsing reports\<close>

definition rtp_update_sr :: "rtp_source_t \<Rightarrow> vstr_t \<Rightarrow> rtp_source_t option" where
  "rtp_update_sr r v = do { ts \<leftarrow> rd32 v (head v + 12); Some (r\<lparr>lsr := ts\<rparr>) }"

definition rtp_update_rr :: "u32 \<Rightarrow> u32 \<Rightarrow> rtp_source_t \<Rightarrow> vstr_t \<Rightarrow> rtp_source_t option" where
  "rtp_update_rr tv_sec tv_usec r v =
     do {
       l \<leftarrow> rd32 v (head v + 16);
       d \<leftarrow> rd32 v (head v + 20);
       j \<leftarrow> rd32 v (head v + 12);
       Some (r\<lparr>rtt := now_us tv_sec tv_usec - (l + d), jitter := j\<rparr>)
     }"

text \<open>\<open>*ssrc = htonl (*ssrc)\<close> in the packet.\<close>

definition swap_ssrc :: "vstr_t \<Rightarrow> (u32 \<times> vstr_t) option" where
  "swap_ssrc v = do { x \<leftarrow> rd32 v (head v); v \<leftarrow> wr32 v (head v) (htonl x); Some (htonl x, v) }"

text \<open>An update of the member that was found; following the sentinel is undefined.\<close>

definition on_member :: "(rtp_source_t \<Rightarrow> rtp_source_t option) \<Rightarrow> rtp_t \<Rightarrow> member_ref slot \<Rightarrow> rtp_t option" where
  "on_member f s found =
     (case found of
        Item (sid, a) \<Rightarrow> do { r \<leftarrow> mget (sources s) a; r \<leftarrow> f r; rs \<leftarrow> mput (sources s) a r; Some (s\<lparr>sources := rs\<rparr>) }
      | _ \<Rightarrow> None)"

definition recv_sr :: "rtp_source_t \<Rightarrow> rtp_t \<Rightarrow> vstr_t \<Rightarrow> (rtp_t \<times> vstr_t) option" where
  "recv_sr old s v =
     do {
       (sid, v) \<leftarrow> swap_ssrc v;
       let found = rtp_find_member (members s) sid;
       s \<leftarrow> (if found \<noteq> NULL then on_member (\<lambda>r. rtp_update_sr r v) s found
             else do {
               r \<leftarrow> rtp_update_sr (rtp_new_member old sid) v;
               let a = length (sources s);
               Some (s\<lparr>sources := sources s @ [r], members := snd (rtp_add_member (members s) (sid, a))\<rparr>)
             });
       Some (s, vstr_adv_head v RTCP_SR_SIZE)
     }"

fun recv_rr_loop :: "u32 \<Rightarrow> u32 \<Rightarrow> nat \<Rightarrow> rtp_t \<Rightarrow> vstr_t \<Rightarrow> (rtp_t \<times> vstr_t) option" where
  "recv_rr_loop tv_sec tv_usec 0 s v = Some (s, v)"
| "recv_rr_loop tv_sec tv_usec (Suc n) s v =
     do {
       (sid, v) \<leftarrow> swap_ssrc v;
       let found = rtp_find_member (members s) sid;
       s \<leftarrow> (if found \<noteq> NULL then on_member (\<lambda>r. rtp_update_rr tv_sec tv_usec r v) s found else Some s);
       recv_rr_loop tv_sec tv_usec n s (vstr_adv_head v RTCP_RR_SIZE)
     }"

fun recv_sdes_loop :: "nat \<Rightarrow> rtp_t \<Rightarrow> vstr_t \<Rightarrow> (rtp_t \<times> vstr_t) option" where
  "recv_sdes_loop 0 s v = Some (s, v)"
| "recv_sdes_loop (Suc n) s v =
     do {
       (sid, v) \<leftarrow> swap_ssrc v;
       let v = vstr_adv_head v 4;
       (s, v) \<leftarrow> (case rtp_find_member (members s) sid of
          NULL \<Rightarrow> do { v \<leftarrow> rtp_discard_sdes v; Some (s, v) }
        | Vacated \<Rightarrow> None
        | Item (_, a) \<Rightarrow> do {
            r \<leftarrow> mget (sources s) a;
            (r, v) \<leftarrow> rtp_update_sdes r v;
            rs \<leftarrow> mput (sources s) a r;
            Some (s\<lparr>sources := rs\<rparr>, v)
          });
       recv_sdes_loop n s v
     }"

fun recv_bye_loop :: "nat \<Rightarrow> rtp_t \<Rightarrow> vstr_t \<Rightarrow> (rtp_t \<times> vstr_t) option" where
  "recv_bye_loop 0 s v = Some (s, v)"
| "recv_bye_loop (Suc n) s v =
     do {
       (sid, v) \<leftarrow> swap_ssrc v;
       let v = vstr_adv_head v 4;
       s \<leftarrow> (if rtp_find_member (members s) sid \<noteq> NULL
             then do { (_, h) \<leftarrow> rtp_remove_member (members s) sid; Some (s\<lparr>members := h\<rparr>) }
             else Some s);
       recv_bye_loop n s v
     }"

text \<open>One packet of a compound; the left summand is a return from \<open>rtcp_recv\<close>.\<close>

definition recv_bye_reason :: "u16 \<Rightarrow> nat \<Rightarrow> vstr_t \<Rightarrow> vstr_t option" where
  "recv_bye_reason len n v =
     (if unat len > n * 4
      then do {
        (xs, v) \<leftarrow> vstr_get_head v 1;
        Some (vstr_adv_head v (uint (hd xs)))
      }
      else Some v)"

definition recv_packet ::
  "u32 \<Rightarrow> u32 \<Rightarrow> rtp_source_t \<Rightarrow> rtp_t \<Rightarrow> vstr_t \<Rightarrow> ((int \<times> rtp_t \<times> vstr_t) + (rtp_t \<times> vstr_t)) option" where
  "recv_packet tv_sec tv_usec old s v =
     do {
       b \<leftarrow> rd8 v (head v);
       if drop_bit 6 b AND mask 2 \<noteq> RTP_VERSION then Some (Inl (-1, s, v))
       else do {
         pt \<leftarrow> rd8 v (head v + 1);
         len \<leftarrow> rd16 v (head v + 2);
         let n = unat (b AND mask 5);
         let v = vstr_adv_head v 4;
         if pt = RTCP_SR then do {
           (s, v) \<leftarrow> recv_sr old s v;
           (s, v) \<leftarrow> recv_rr_loop tv_sec tv_usec n s v;
           Some (Inr (s, v))
         }
         else if pt = RTCP_RR then do {
           (s, v) \<leftarrow> recv_rr_loop tv_sec tv_usec n s v;
           Some (Inr (s, v))
         }
         else if pt = RTCP_SDES then do {
           (s, v) \<leftarrow> recv_sdes_loop n s v;
           Some (Inr (s, v))
         }
         else if pt = RTCP_BYE then do {
           (s, v) \<leftarrow> recv_bye_loop n s v;
           v \<leftarrow> recv_bye_reason len n v;
           Some (Inr (s, v))
         }
         else Some (Inl (-1, s, v))
       }
     }"

lemma swap_ssrc_size: "swap_ssrc v = Some (x, v') \<Longrightarrow> size v' = size v"
  by (auto simp: swap_ssrc_def wr32_def copy_in_def split: if_splits Option.bind_splits)

lemma sdes_item_size:
  "rtp_update_sdes_item k sz r v flag = Some (r', v', flag') \<Longrightarrow> 0 \<le> sz \<Longrightarrow> size v' \<le> size v"
  by (auto simp: rtp_update_sdes_item_def vstr_get_head_def vstr_adv_head_def split: if_splits Option.bind_splits)

lemma discard_zeros_size: "discard_zeros n v = Some v' \<Longrightarrow> size v' \<le> size v"
proof (induction n arbitrary: v)
  case (Suc n)
  then show ?case using Suc.IH [of "vstr_adv_head v 1"]
    by (auto simp: vstr_adv_head_def split: if_splits Option.bind_splits)
qed simp

lemma update_sdes_size: "update_sdes_loop r v flag = Some (r', v') \<Longrightarrow> size v' \<le> size v"
proof (induction r v flag rule: update_sdes_loop.induct)
  case (1 r v flag)
  obtain ty where ty: "rd8 v (head v) = Some ty" using "1.prems" by (auto split: option.splits)
  show ?case
  proof (cases "ty = 0")
    case True
    then show ?thesis using "1.prems" ty by simp
  next
    case False
    let ?step = "if ty \<le> 7
      then do { len \<leftarrow> rd8 v (head v + 1); rtp_update_sdes_item (unat ty - 1) (uint len) r (vstr_adv_head v 2) flag }
      else Some (r, vstr_adv_head v 2, flag)"
    obtain r1 v1 flag1 where st: "?step = Some (r1, v1, flag1)" and rest: "update_sdes_loop r1 v1 flag1 = Some (r', v')"
      using "1.prems" ty False by (subst (asm) update_sdes_loop.simps) (auto split: option.splits)
    have "size v' \<le> size v1" using "1.IH" [OF ty False st refl refl rest] by simp
    moreover have "size v1 \<le> size v - 2"
      using st by (auto simp: vstr_adv_head_def dest!: sdes_item_size split: if_splits Option.bind_splits)
    ultimately show ?thesis by simp
  qed
qed

lemma discard_sdes_size: "discard_sdes_loop v = Some v' \<Longrightarrow> size v' \<le> size v"
proof (induction v rule: discard_sdes_loop.induct)
  case (1 v)
  obtain ty where ty: "rd8 v (head v) = Some ty" using "1.prems" by (auto split: option.splits)
  show ?case
  proof (cases "ty = 0")
    case True
    then show ?thesis using "1.prems" ty by simp
  next
    case False
    then obtain len where len: "rd8 v (head v + 1) = Some len"
      and rest: "discard_sdes_loop (vstr_adv_head v (2 + uint len)) = Some v'"
      using "1.prems" ty by (subst (asm) discard_sdes_loop.simps) (auto split: option.splits)
    have "size v' \<le> size v - (2 + uint len)" using "1.IH" [OF ty False len rest] by (simp add: vstr_adv_head_def)
    moreover have "0 \<le> uint len" by simp
    ultimately show ?thesis by linarith
  qed
qed

declare update_sdes_loop.simps [simp del] discard_sdes_loop.simps [simp del]

lemma recv_rr_size: "recv_rr_loop sec us n s v = Some (s', v') \<Longrightarrow> size v' \<le> size v"
proof (induction n arbitrary: s v)
  case (Suc n)
  then show ?case
    by (fastforce simp: vstr_adv_head_def RTCP_RR_SIZE_def Let_def dest: swap_ssrc_size split: if_splits Option.bind_splits)
qed simp

lemma rtp_discard_sdes_size: "rtp_discard_sdes v = Some v' \<Longrightarrow> size v' \<le> size v"
  by (auto simp: rtp_discard_sdes_def split: Option.bind_splits dest!: discard_sdes_size discard_zeros_size)

lemma rtp_update_sdes_size: "rtp_update_sdes r v = Some (r', v') \<Longrightarrow> size v' \<le> size v"
  by (auto simp: rtp_update_sdes_def split: Option.bind_splits dest!: update_sdes_size discard_zeros_size)

lemma recv_sdes_size: "recv_sdes_loop n s v = Some (s', v') \<Longrightarrow> size v' \<le> size v"
proof (induction n arbitrary: s v)
  case (Suc n)
  obtain sid v1 where v1: "swap_ssrc v = Some (sid, v1)" using Suc.prems by (auto split: Option.bind_splits)
  let ?v = "vstr_adv_head v1 4"
  obtain s2 v2 where v2: "recv_sdes_loop n s2 v2 = Some (s', v')" "size v2 \<le> size ?v"
    using Suc.prems v1
    by (auto simp: Let_def split: slot.splits Option.bind_splits dest!: rtp_discard_sdes_size rtp_update_sdes_size)
  have "size v' \<le> size v2" by (rule Suc.IH [OF v2(1)])
  also have "\<dots> \<le> size v1 - 4" using v2(2) by (simp add: vstr_adv_head_def)
  finally show ?case using swap_ssrc_size [OF v1] by simp
qed simp

lemma recv_bye_size: "recv_bye_loop n s v = Some (s', v') \<Longrightarrow> size v' \<le> size v"
proof (induction n arbitrary: s v)
  case (Suc n)
  obtain sid v1 where v1: "swap_ssrc v = Some (sid, v1)" using Suc.prems by (auto split: Option.bind_splits)
  obtain s2 where s2: "recv_bye_loop n s2 (vstr_adv_head v1 4) = Some (s', v')"
    using Suc.prems v1 by (auto simp: Let_def split: if_splits Option.bind_splits)
  from Suc.IH [OF s2] show ?case using swap_ssrc_size [OF v1] by (simp add: vstr_adv_head_def)
qed simp

lemma recv_sr_size: "recv_sr old s v = Some (s', v') \<Longrightarrow> size v' \<le> size v"
  by (auto simp: recv_sr_def Let_def vstr_adv_head_def RTCP_SR_SIZE_def dest!: swap_ssrc_size split: if_splits Option.bind_splits)

lemma recv_bye_reason_size: "recv_bye_reason len n v = Some v' \<Longrightarrow> size v' \<le> size v"
  by (auto simp: recv_bye_reason_def vstr_get_head_def vstr_adv_head_def split: if_splits Option.bind_splits)
     (smt (verit) uint_ge_0)?

lemma recv_packet_size:
  assumes "recv_packet sec us old s v = Some (Inr (s', v'))"
  shows "size v' \<le> size v - 4"
proof -
  have "size (vstr_adv_head v 4) = size v - 4" by (simp add: vstr_adv_head_def)
  with assms show ?thesis
    by (auto simp: recv_packet_def Let_def split: if_splits Option.bind_splits
        dest!: recv_sr_size recv_rr_size recv_sdes_size recv_bye_size recv_bye_reason_size)
qed

text \<open>The loop over a compound: every packet shrinks the stream, so it ends.\<close>

function rtcp_recv :: "u32 \<Rightarrow> u32 \<Rightarrow> rtp_source_t \<Rightarrow> rtp_t \<Rightarrow> vstr_t \<Rightarrow> (int \<times> rtp_t \<times> vstr_t) option" where
  "rtcp_recv tv_sec tv_usec old s v =
     (if size v > 0
      then (case recv_packet tv_sec tv_usec old s v of
              None \<Rightarrow> None
            | Some (Inl ret) \<Rightarrow> Some ret
            | Some (Inr (s, v)) \<Rightarrow> rtcp_recv tv_sec tv_usec old s v)
      else Some (0, s, v))"
  by pat_completeness auto
termination
proof (relation "measure (\<lambda>(sec, us, old, s, v). nat (size v))", goal_cases)
  case (2 sec us old s v x y s' v')
  then show ?case using recv_packet_size [of sec us old s v s' v'] by auto
qed simp

declare rtcp_recv.simps [simp del]

subsection \<open>Reading the contents\<close>

lemma rd8_contents:
  assumes "vstr_ok v" "i < length (contents v)"
  shows "rd8 v (head v + int i) = Some (contents v ! i)"
  using assms(1)
proof (rule vstr_okE)
  fix h t assume v: "head v = int h" "h \<le> t" "t \<le> length (data v)" "contents v = take (t - h) (drop h (data v))"
  then have "i < t - h" using assms(2) by simp
  then show ?thesis using v by (simp add: rd8_def in_block_def nat_add_distrib)
qed

lemma rd16_contents:
  assumes "vstr_ok v" "i + 2 \<le> length (contents v)"
  shows "rd16 v (head v + int i) = Some (ld16 (contents v) i)"
  using assms(1)
proof (rule vstr_okE)
  fix h t assume v: "head v = int h" "h \<le> t" "t \<le> length (data v)" "contents v = take (t - h) (drop h (data v))"
  then have "i + 2 \<le> t - h" using assms(2) by simp
  then show ?thesis using v by (simp add: rd16_def in_block_def nat_add_distrib ld16_def add.assoc)
qed

lemma rd32_contents:
  assumes "vstr_ok v" "i + 4 \<le> length (contents v)"
  shows "rd32 v (head v + int i) = Some (ld32 (contents v) i)"
  using assms(1)
proof (rule vstr_okE)
  fix h t assume v: "head v = int h" "h \<le> t" "t \<le> length (data v)" "contents v = take (t - h) (drop h (data v))"
  then have "i + 4 \<le> t - h" using assms(2) by simp
  then show ?thesis using v by (simp add: rd32_def in_block_def nat_add_distrib ld32_def add.assoc)
qed

lemma swap_ssrc_contents:
  assumes ok: "vstr_ok v" and c: "contents v = be32 sid @ ws"
  shows "\<exists>v'. swap_ssrc v = Some (sid, v') \<and> vstr_ok v' \<and> contents v' = le32 sid @ ws \<and> head v' = head v"
proof -
  have "rd32 v (head v) = Some (htonl sid)"
    using rd32_contents [OF ok, of 0] c ld32_split_be [of 0 "[]" sid ws] by simp
  moreover obtain h t where v: "head v = int h" "tail v = int t" "h \<le> t" "t \<le> length (data v)" "size v = int t - int h"
      "contents v = take (t - h) (drop h (data v))" "max v = int (length (data v))"
    using ok by (rule vstr_okE)
  let ?v = "v\<lparr>data := overwrite h (le32 sid) (data v)\<rparr>"
  have len: "4 \<le> t - h"
    using arg_cong [OF c, of length] v(3,4) unfolding v(6) by simp
  have "wr32 v (head v) sid = Some ?v" using v(1,4) len by (simp add: wr32_def copy_in_def)
  moreover have "vstr_ok ?v" using ok v(1,4) len by (simp add: vstr_ok_def)
  moreover have "contents ?v = le32 sid @ ws"
  proof -
    have "drop h (data v) = be32 sid @ ws @ drop (t - h) (drop h (data v))"
      using append_take_drop_id [of "t - h" "drop h (data v)"] c unfolding v(6) by simp
    then have d: "data v = take h (data v) @ be32 sid @ ws @ drop t (data v)"
      using append_take_drop_id [of h "data v"] v(3) by simp
    have "overwrite h (le32 sid) (data v) = take h (data v) @ le32 sid @ ws @ drop t (data v)"
      by (subst d, rule overwrite_split) (use v(3,4) in simp_all)
    moreover have "t - h = 4 + length ws" using arg_cong [OF c, of length] v(3,4) unfolding v(6) by simp
    ultimately show ?thesis using v(1-4) by (simp add: contents_def nat_diff_distrib)
  qed
  ultimately show ?thesis by (simp add: swap_ssrc_def)
qed

text \<open>
  A BYE packet of the source that joined last, with its length field as in RFC 3550, makes \<open>rtcp_recv\<close> follow a
  pointer that was never written. Everything before that, from the parsing of the header to the lookup, succeeds.
\<close>

theorem rtcp_bye_last_member:
  assumes "vstr_ok v" "contents v = 0x81 # 203 # be16 1 @ be32 sid"
    and "members s = joined (ms @ [(sid, a)])" "distinct (map fst (ms @ [(sid, a)]))" "length ms < 25"
  shows "rtcp_recv sec us old s v = None"
proof -
  let ?v = "vstr_adv_head v 4"
  have sz: "size v = 8" using length_contents [OF assms(1)] assms(2) by simp
  have rd: "rd8 v (head v) = Some 0x81" "rd8 v (head v + 1) = Some 203" "\<exists>len. rd16 v (head v + 2) = Some len"
    using rd8_contents [OF assms(1), of 0] rd8_contents [OF assms(1), of 1] rd16_contents [OF assms(1), of 2] assms(2)
    by simp_all
  have v4: "vstr_ok ?v" "contents ?v = be32 sid @ []"
    using adv_head_ok [OF assms(1), of 4] assms(2) by (simp_all add: be16_def)
  obtain v' where sw: "swap_ssrc ?v = Some (sid, v')" using swap_ssrc_contents [OF v4] by blast
  obtain qs where "members_ok (members s) qs" "elems (members s) qs = ms @ [(sid, a)]" "\<forall>k. \<not> stray (members s) k"
    using joined_ok [OF assms(4)] assms(3,5) by auto
  moreover have "map_of (ms @ [(sid, a)]) sid \<noteq> None" by (simp add: map_of_eq_None_iff)
  ultimately have "rtp_find_member (members s) sid \<noteq> NULL"
    by (auto simp: find_member split: option.splits)
  moreover have "rtp_remove_member (members s) sid = None"
    using rtp_remove_last [OF assms(4,5)] assms(3) by simp
  ultimately have "recv_bye_loop 1 s ?v = None" using sw by (simp add: Let_def)
  then have "recv_packet sec us old s v = None"
    using rd by (auto simp: recv_packet_def Let_def rtcp_consts RTP_VERSION_def mask_eq_exp_minus_1)
  then show ?thesis using sz by (subst rtcp_recv.simps) simp
qed

lemma rtcp_bye_last_member_witness:
  "\<forall>old. rtcp_recv 0 0 old (demo_session\<lparr>sources := [old]\<rparr>)
    (vstr_map (0x81 # 203 # be16 1 @ be32 7) (int (length (0x81 # 203 # be16 1 @ be32 7)))) = None"
proof
  fix old
  show "rtcp_recv 0 0 old (demo_session\<lparr>sources := [old]\<rparr>)
    (vstr_map (0x81 # 203 # be16 1 @ be32 7) (int (length (0x81 # 203 # be16 1 @ be32 7)))) = None"
    by (rule rtcp_bye_last_member [where ms = "[]" and a = 0]) (simp_all only: map_ok, simp_all add: demo_session_def)
qed

subsection \<open>A sender report without report blocks\<close>

definition sr_wire :: "rtp_t \<Rightarrow> u32 \<Rightarrow> u32 \<Rightarrow> bytes" where
  "sr_wire s tv_sec tv_usec =
     0x80 # 200 # le16 6 @ be32 (ssrc s) @ be32 (tv_sec + SECS_BETWEEN_1900_1970) @
     be32 (push_bit 12 tv_usec + push_bit 8 tv_usec - signed_drop_bit 6 (tv_usec * 3650)) @
     be32 (now_us tv_sec tv_usec) @ be32 (pcount s) @ be32 (ocount s)"

lemma split_word: "n + 4 \<le> length d \<Longrightarrow> \<exists>w ws. d = w @ ws \<and> length w = 4 \<and> n \<le> length ws"
  by (rule exI [of _ "take 4 d"], rule exI [of _ "drop 4 d"]) simp

lemma split_28:
  assumes "28 \<le> length d"
  obtains a0 a1 b0 b1 w1 w2 w3 w4 w5 w6 ws where "d = a0 # a1 # [b0, b1] @ w1 @ w2 @ w3 @ w4 @ w5 @ w6 @ ws"
    "length w1 = 4" "length w2 = 4" "length w3 = 4" "length w4 = 4" "length w5 = 4" "length w6 = 4"
proof -
  obtain a0 a1 b0 b1 r where d: "d = a0 # a1 # b0 # b1 # r" using split_four [of d] assms by auto
  then have "20 + 4 \<le> length r" using assms by simp
  then obtain w1 r1 where r1: "r = w1 @ r1" "length w1 = 4" "16 + 4 \<le> length r1" using split_word [of 20 r] by auto
  obtain w2 r2 where r2: "r1 = w2 @ r2" "length w2 = 4" "12 + 4 \<le> length r2" using split_word [of 16 r1] r1(3) by auto
  obtain w3 r3 where r3: "r2 = w3 @ r3" "length w3 = 4" "8 + 4 \<le> length r3" using split_word [of 12 r2] r2(3) by auto
  obtain w4 r4 where r4: "r3 = w4 @ r4" "length w4 = 4" "4 + 4 \<le> length r4" using split_word [of 8 r3] r3(3) by auto
  obtain w5 r5 where r5: "r4 = w5 @ r5" "length w5 = 4" "0 + 4 \<le> length r5" using split_word [of 4 r4] r4(3) by auto
  obtain w6 r6 where r6: "r5 = w6 @ r6" "length w6 = 4" using split_word [of 0 r5] r5(3) by auto
  show ?thesis
    by (rule that [of a0 a1 b0 b1 w1 w2 w3 w4 w5 w6 r6])
       (simp_all add: d r1(1,2) r2(1,2) r3(1,2) r4(1,2) r5(1,2) r6)
qed

text \<open>A write at an offset that is the length of what stands before it.\<close>

lemma copy_in_split:
  assumes "data v = xs @ zs @ ws" "length zs = length ys" "off = int (length xs)"
  shows "copy_in v off ys = Some (v\<lparr>data := xs @ ys @ ws\<rparr>)"
  using assms overwrite_split [of zs ys "length xs" xs ws] by (simp add: copy_in_def)

lemma send_sr_empty:
  assumes "head v = 0" "tail v = 0" "size v = 0" "28 \<le> length (data v)" "max v = int (length (data v))"
    and "members s = no_members st" "flags s AND RTP_SENDER \<noteq> 0"
  shows "\<exists>s' v'. rtcp_send_ctrl sec us s v = Some (s', v') \<and> vstr_ok v' \<and> contents v' = sr_wire s sec us"
proof -
  obtain a0 a1 b0 b1 w1 w2 w3 w4 w5 w6 ws where d: "data v = a0 # a1 # [b0, b1] @ w1 @ w2 @ w3 @ w4 @ w5 @ w6 @ ws"
    and len: "length w1 = 4" "length w2 = 4" "length w3 = 4" "length w4 = 4" "length w5 = 4" "length w6 = 4"
    using split_28 [OF assms(4)] by blast
  have bits: "wr_bits (v\<lparr>data := x # xs\<rparr>) 0 b w y = Some (v\<lparr>data := set_bits b w y x # xs\<rparr>)" for v x xs b w y
    by (simp add: wr_bits_def rd8_def in_block_def wr8_def copy_in_def overwrite_def)
  have zero: "set_bits 0 5 0 (set_bits 5 1 0 (set_bits 6 2 RTP_VERSION a0)) = 0x80"
    by (rule u8_eqI, elim less_8_cases [elim_format] disjE; simp add: set_bits_def RTP_VERSION_def bit_simps)
  have sz: "ht_size (members s) = 0" "ht_size (ohtbl_flush (members s)) = 0"
    using assms(6) by (simp_all add: ohtbl_init_def ohtbl_flush_def)
  let ?f = "push_bit 12 us + push_bit 8 us - signed_drop_bit 6 (us * 3650)"
  let ?w = "be32 (ssrc s) @ be32 (sec + SECS_BETWEEN_1900_1970) @ be32 ?f @ be32 (now_us sec us) @ be32 (pcount s) @ be32 (ocount s)"
  let ?v = "v\<lparr>tail := 28, size := 28, data := 0x80 # 200 # le16 6 @ ?w @ ws\<rparr>"
  have "rtcp_send_ctrl sec us s v = Some (s\<lparr>members := ohtbl_flush (members s)\<rparr>, ?v)"
    using assms(1-3,7) sz d len zero
    by (simp add: rtcp_send_ctrl_def Let_def sender_info_def vstr_adv_tail_def wr_bits_def rd8_def in_block_def wr8_def wr16_def wr32_def
      copy_in_def overwrite_def rtcp_consts)
  moreover have "vstr_ok ?v" "contents ?v = sr_wire s sec us"
    using assms(1,5) d len by (simp_all add: vstr_ok_def contents_def sr_wire_def)
  ultimately show ?thesis by blast
qed

text \<open>A source is unknown, or a member with an entry in the list of sources.\<close>

definition knows_or_not :: "rtp_t \<Rightarrow> u32 \<Rightarrow> bool" where
  "knows_or_not r sid \<longleftrightarrow> rtp_find_member (members r) sid = NULL \<or>
     (\<exists>k a. rtp_find_member (members r) sid = Item (k, a) \<and> a < length (sources r))"

lemma recv_sr_empty:
  assumes ok: "vstr_ok v" and c: "contents v = sr_wire s sec us" and r: "knows_or_not r (ssrc s)"
  shows "\<exists>r' v'. recv_packet sec2 us2 old r v = Some (Inr (r', v')) \<and> vstr_ok v' \<and> contents v' = be32 (ocount s) \<and>
    map src_ssrc (sources r') = map src_ssrc (sources r) @ (if rtp_find_member (members r) (ssrc s) = NULL then [ssrc s] else [])"
proof -
  let ?v = "vstr_adv_head v 4" and ?rest = "drop 8 (sr_wire s sec us)"
  have rd: "rd8 v (head v) = Some 0x80" "rd8 v (head v + 1) = Some 200" "\<exists>len. rd16 v (head v + 2) = Some len"
    using rd8_contents [OF ok, of 0] rd8_contents [OF ok, of 1] rd16_contents [OF ok, of 2] c
    by (simp_all add: sr_wire_def)
  have v4: "vstr_ok ?v" "contents ?v = be32 (ssrc s) @ ?rest"
    using adv_head_ok [OF ok, of 4] c by (simp_all add: sr_wire_def)
  obtain v1 where v1: "swap_ssrc ?v = Some (ssrc s, v1)" "vstr_ok v1" "contents v1 = le32 (ssrc s) @ ?rest"
    using swap_ssrc_contents [OF v4] by blast
  have len: "length (contents v1) = 24" using v1(3) by (simp add: sr_wire_def)
  then obtain ts where ts: "rd32 v1 (head v1 + 12) = Some ts" using rd32_contents [OF v1(2), of 12] by simp
  have "map src_ssrc (rs[a := (rs ! a)\<lparr>lsr := x\<rparr>]) = map src_ssrc rs" for rs :: "rtp_source_t list" and a x
    by (simp add: map_update) (metis length_map list_update_id list_update_beyond not_less nth_map)
  then obtain r' where r': "recv_sr old r ?v = Some (r', vstr_adv_head v1 RTCP_SR_SIZE)" "map src_ssrc (sources r') =
      map src_ssrc (sources r) @ (if rtp_find_member (members r) (ssrc s) = NULL then [ssrc s] else [])"
    using v1(1) ts r by (auto simp: knows_or_not_def recv_sr_def rtp_update_sr_def rtp_new_member_def on_member_def mget_def mput_def)
  have "vstr_ok (vstr_adv_head v1 RTCP_SR_SIZE)" "contents (vstr_adv_head v1 RTCP_SR_SIZE) = be32 (ocount s)"
    using adv_head_ok [OF v1(2), of 20] len v1(3) by (simp_all add: RTCP_SR_SIZE_def sr_wire_def)
  then show ?thesis
    using rd r' by (auto simp: recv_packet_def Let_def rtcp_consts RTP_VERSION_def mask_eq_exp_minus_1)
qed

text \<open>
  C38: a sender report without report blocks is not accepted by \<open>rtcp_recv\<close>. When a session that has no members yet
  builds a report with \<open>rtcp_send_ctrl\<close> in an empty buffer with room for it, and its octet count does not have the top bits
  10 (it is below $2^{31}$, say), the parser of any session, whether it knows the sender or not, skips 20 bytes from the source
  identifier although the sender information is 24 bytes long with it, takes the octet count for the next packet and
  returns -1. By then a sender that was unknown has been added to the sources.
\<close>

theorem rtcp_sr_rejected:
  assumes v: "head v = 0" "tail v = 0" "size v = 0" "28 \<le> length (data v)" "max v = int (length (data v))"
    and s: "members s = no_members st" "flags s AND RTP_SENDER \<noteq> 0" "drop_bit 30 (ocount s) \<noteq> 2"
    and r: "knows_or_not r (ssrc s)"
  shows "\<exists>s' v' r' v''. rtcp_send_ctrl sec us s v = Some (s', v') \<and> rtcp_recv sec2 us2 old r v' = Some (-1, r', v'') \<and>
    map src_ssrc (sources r') = map src_ssrc (sources r) @ (if rtp_find_member (members r) (ssrc s) = NULL then [ssrc s] else [])"
proof -
  obtain s' v' where send: "rtcp_send_ctrl sec us s v = Some (s', v')" and v': "vstr_ok v'" "contents v' = sr_wire s sec us"
    using send_sr_empty [OF v s(1,2)] by blast
  obtain r' v1 where r': "recv_packet sec2 us2 old r v' = Some (Inr (r', v1))" "vstr_ok v1" "contents v1 = be32 (ocount s)"
      "map src_ssrc (sources r') = map src_ssrc (sources r) @ (if rtp_find_member (members r) (ssrc s) = NULL then [ssrc s] else [])"
    using recv_sr_empty [OF v' r, of sec2 us2 old] by auto
  have sz: "size v' > 0" "size v1 > 0"
    using length_contents [OF v'(1)] length_contents [OF r'(2)] v'(2) r'(3) by (simp_all add: sr_wire_def)
  have "rd8 v1 (head v1) = Some (ucast (drop_bit 24 (ocount s)))"
    using rd8_contents [OF r'(2), of 0] r'(3) by (simp add: be32_def)
  moreover have "drop_bit 6 (ucast (drop_bit 24 (ocount s)) :: u8) AND mask 2 \<noteq> RTP_VERSION"
  proof
    assume *: "drop_bit 6 (ucast (drop_bit 24 (ocount s)) :: u8) AND mask 2 = RTP_VERSION"
    have "drop_bit 30 (ocount s) = ucast (drop_bit 6 (ucast (drop_bit 24 (ocount s)) :: u8) AND mask 2)"
      by (rule bit_word_eqI) (auto simp: bit_simps dest: bit_imp_le_length)
    with * s(3) show False by (simp add: RTP_VERSION_def)
  qed
  ultimately have "recv_packet sec2 us2 old r' v1 = Some (Inl (-1, r', v1))" by (simp add: recv_packet_def)
  then have "rtcp_recv sec2 us2 old r v' = Some (-1, r', v1)"
    using sz r'(1) by (simp add: rtcp_recv.simps [of _ _ _ r] rtcp_recv.simps [of _ _ _ r'])
  then show ?thesis using send r'(4) by auto
qed

lemma rtcp_sr_rejected_witness:
  "\<forall>old. \<exists>s' v' r' v''. rtcp_send_ctrl 1 2 (demo_session\<lparr>members := no_members (\<lambda>k. False)\<rparr>) (vstr_init (replicate 60 0)) = Some (s', v') \<and>
    rtcp_recv 3 4 old (demo_session\<lparr>members := joined [(8, 0)], sources := [rtp_new_member old 8]\<rparr>) v' = Some (-1, r', v'') \<and>
    map src_ssrc (sources r') = [8, 7]"
proof
  fix old
  let ?s = "demo_session\<lparr>members := no_members (\<lambda>k. False)\<rparr>"
  let ?r = "demo_session\<lparr>members := joined [(8, 0)], sources := [rtp_new_member old 8]\<rparr>"
  obtain qs where "members_ok (joined [(8, 0)]) qs" "elems (joined [(8, 0)]) qs = [(8, 0)]" "\<forall>k. \<not> stray (joined [(8, 0)]) k"
    using joined_ok [of "[(8, 0)]"] by (auto simp del: join.simps)
  then have find: "rtp_find_member (members ?r) (ssrc ?s) = NULL" by (simp add: find_member demo_session_def del: join.simps)
  then have "knows_or_not ?r (ssrc ?s)" by (simp only: knows_or_not_def simp_thms)
  then have "\<exists>s' v' r' v''. rtcp_send_ctrl 1 2 ?s (vstr_init (replicate 60 0)) = Some (s', v') \<and> rtcp_recv 3 4 old ?r v' = Some (-1, r', v'') \<and>
      map src_ssrc (sources r') = map src_ssrc (sources ?r) @ (if rtp_find_member (members ?r) (ssrc ?s) = NULL then [ssrc ?s] else [])"
    by (rule rtcp_sr_rejected [where st = "\<lambda>k. False", rotated -1]) (simp_all add: vstr_init_def demo_session_def RTP_SENDER_def del: join.simps)
  moreover have "map src_ssrc (sources ?r) @ (if rtp_find_member (members ?r) (ssrc ?s) = NULL then [ssrc ?s] else []) = [8, 7]"
    unfolding find by (simp add: demo_session_def rtp_new_member_def)
  ultimately show "\<exists>s' v' r' v''. rtcp_send_ctrl 1 2 ?s (vstr_init (replicate 60 0)) = Some (s', v') \<and>
      rtcp_recv 3 4 old ?r v' = Some (-1, r', v'') \<and> map src_ssrc (sources r') = [8, 7]"
    by (simp only:)
qed

end
