(* ===== verification/Lunar.thy ===== *)
theory Lunar
  imports C_Library
begin

text \<open>
  The conversion of a date to the Chinese calendar for the clock of the device
  (\<open>src/src/Yang2Yin/Yang2Yin.c\<close>, \<open>Yang2Yin.h\<close>), for the years 1901 to 2099 that its table
  covers. The numbers are natural numbers with the wrap-around of \<open>unsigned int\<close> and
  \<open>unsigned char\<close> written out where a date can reach it (\<open>temp3\<close> is at most 61, so counting
  back stops in the eleventh month at the latest); the table address is an integer, and an access outside a table is
  \<^term>\<open>None\<close>.
\<close>

record date_t =
  year :: nat
  month :: nat
  day :: nat

text \<open>
  Three bytes for each year: the number of the leap month (0 if there is none) in the high half of the
  first, one bit for each of the 13 months (set if it has 30 days) from there to the top bit of the third, then
  the month and the day of the spring festival.
\<close>

definition year_code :: "u8 list" where
  "year_code = [
    0x04, 0xae, 0x53, 0x0a, 0x57, 0x48, 0x55, 0x26, 0xbd, 0x0d, 0x26, 0x50, 0x0d, 0x95, 0x44, 0x46, 0xaa, 0xb9, 0x05, 0x6a, 0x4d, 0x09, 0xad, 0x42,
    0x24, 0xae, 0xb6, 0x04, 0xae, 0x4a, 0x6a, 0x4d, 0xbe, 0x0a, 0x4d, 0x52, 0x0d, 0x25, 0x46, 0x5d, 0x52, 0xba, 0x0b, 0x54, 0x4e, 0x0d, 0x6a, 0x43,
    0x29, 0x6d, 0x37, 0x09, 0x5b, 0x4b, 0x74, 0x9b, 0xc1, 0x04, 0x97, 0x54, 0x0a, 0x4b, 0x48, 0x5b, 0x25, 0xbc, 0x06, 0xa5, 0x50, 0x06, 0xd4, 0x45,
    0x4a, 0xda, 0xb8, 0x02, 0xb6, 0x4d, 0x09, 0x57, 0x42, 0x24, 0x97, 0xb7, 0x04, 0x97, 0x4a, 0x66, 0x4b, 0x3e, 0x0d, 0x4a, 0x51, 0x0e, 0xa5, 0x46,
    0x56, 0xd4, 0xba, 0x05, 0xad, 0x4e, 0x02, 0xb6, 0x44, 0x39, 0x37, 0x38, 0x09, 0x2e, 0x4b, 0x7c, 0x96, 0xbf, 0x0c, 0x95, 0x53, 0x0d, 0x4a, 0x48,
    0x6d, 0xa5, 0x3b, 0x0b, 0x55, 0x4f, 0x05, 0x6a, 0x45, 0x4a, 0xad, 0xb9, 0x02, 0x5d, 0x4d, 0x09, 0x2d, 0x42, 0x2c, 0x95, 0xb6, 0x0a, 0x95, 0x4a,
    0x7b, 0x4a, 0xbd, 0x06, 0xca, 0x51, 0x0b, 0x55, 0x46, 0x55, 0x5a, 0xbb, 0x04, 0xda, 0x4e, 0x0a, 0x5b, 0x43, 0x35, 0x2b, 0xb8, 0x05, 0x2b, 0x4c,
    0x8a, 0x95, 0x3f, 0x0e, 0x95, 0x52, 0x06, 0xaa, 0x48, 0x7a, 0xd5, 0x3c, 0x0a, 0xb5, 0x4f, 0x04, 0xb6, 0x45, 0x4a, 0x57, 0x39, 0x0a, 0x57, 0x4d,
    0x05, 0x26, 0x42, 0x3e, 0x93, 0x35, 0x0d, 0x95, 0x49, 0x75, 0xaa, 0xbe, 0x05, 0x6a, 0x51, 0x09, 0x6d, 0x46, 0x54, 0xae, 0xbb, 0x04, 0xad, 0x4f,
    0x0a, 0x4d, 0x43, 0x4d, 0x26, 0xb7, 0x0d, 0x25, 0x4b, 0x8d, 0x52, 0xbf, 0x0b, 0x54, 0x52, 0x0b, 0x6a, 0x47, 0x69, 0x6d, 0x3c, 0x09, 0x5b, 0x50,
    0x04, 0x9b, 0x45, 0x4a, 0x4b, 0xb9, 0x0a, 0x4b, 0x4d, 0xab, 0x25, 0xc2, 0x06, 0xa5, 0x54, 0x06, 0xd4, 0x49, 0x6a, 0xda, 0x3d, 0x0a, 0xb6, 0x51,
    0x09, 0x37, 0x46, 0x54, 0x97, 0xbb, 0x04, 0x97, 0x4f, 0x06, 0x4b, 0x44, 0x36, 0xa5, 0x37, 0x0e, 0xa5, 0x4a, 0x86, 0xb2, 0xbf, 0x05, 0xac, 0x53,
    0x0a, 0xb6, 0x47, 0x59, 0x36, 0xbc, 0x09, 0x2e, 0x50, 0x0c, 0x96, 0x45, 0x4d, 0x4a, 0xb8, 0x0d, 0x4a, 0x4c, 0x0d, 0xa5, 0x41, 0x25, 0xaa, 0xb6,
    0x05, 0x6a, 0x49, 0x7a, 0xad, 0xbd, 0x02, 0x5d, 0x52, 0x09, 0x2d, 0x47, 0x5c, 0x95, 0xba, 0x0a, 0x95, 0x4e, 0x0b, 0x4a, 0x43, 0x4b, 0x55, 0x37,
    0x0a, 0xd5, 0x4a, 0x95, 0x5a, 0xbf, 0x04, 0xba, 0x53, 0x0a, 0x5b, 0x48, 0x65, 0x2b, 0xbc, 0x05, 0x2b, 0x50, 0x0a, 0x93, 0x45, 0x47, 0x4a, 0xb9,
    0x06, 0xaa, 0x4c, 0x0a, 0xd5, 0x41, 0x24, 0xda, 0xb6, 0x04, 0xb6, 0x4a, 0x69, 0x57, 0x3d, 0x0a, 0x4e, 0x51, 0x0d, 0x26, 0x46, 0x5e, 0x93, 0x3a,
    0x0d, 0x53, 0x4d, 0x05, 0xaa, 0x43, 0x36, 0xb5, 0x37, 0x09, 0x6d, 0x4b, 0xb4, 0xae, 0xbf, 0x04, 0xad, 0x53, 0x0a, 0x4d, 0x48, 0x6d, 0x25, 0xbc,
    0x0d, 0x25, 0x4f, 0x0d, 0x52, 0x44, 0x5d, 0xaa, 0x38, 0x0b, 0x5a, 0x4c, 0x05, 0x6d, 0x41, 0x24, 0xad, 0xb6, 0x04, 0x9b, 0x4a, 0x7a, 0x4b, 0xbe,
    0x0a, 0x4b, 0x51, 0x0a, 0xa5, 0x46, 0x5b, 0x52, 0xba, 0x06, 0xd2, 0x4e, 0x0a, 0xda, 0x42, 0x35, 0x5b, 0x37, 0x09, 0x37, 0x4b, 0x84, 0x97, 0xc1,
    0x04, 0x97, 0x53, 0x06, 0x4b, 0x48, 0x66, 0xa5, 0x3c, 0x0e, 0xa5, 0x4f, 0x06, 0xb2, 0x44, 0x4a, 0xb6, 0x38, 0x0a, 0xae, 0x4c, 0x09, 0x2e, 0x42,
    0x3c, 0x97, 0x35, 0x0c, 0x96, 0x49, 0x7d, 0x4a, 0xbd, 0x0d, 0x4a, 0x51, 0x0d, 0xa5, 0x45, 0x55, 0xaa, 0xba, 0x05, 0x6a, 0x4e, 0x0a, 0x6d, 0x43,
    0x45, 0x2e, 0xb7, 0x05, 0x2d, 0x4b, 0x8a, 0x95, 0xbf, 0x0a, 0x95, 0x53, 0x0b, 0x4a, 0x47, 0x6b, 0x55, 0x3b, 0x0a, 0xd5, 0x4f, 0x05, 0x5a, 0x45,
    0x4a, 0x5d, 0x38, 0x0a, 0x5b, 0x4c, 0x05, 0x2b, 0x42, 0x3a, 0x93, 0xb6, 0x06, 0x93, 0x49, 0x77, 0x29, 0xbd, 0x06, 0xaa, 0x51, 0x0a, 0xd5, 0x46,
    0x54, 0xda, 0xba, 0x04, 0xb6, 0x4e, 0x0a, 0x57, 0x43, 0x45, 0x27, 0x38, 0x0d, 0x26, 0x4a, 0x8e, 0x93, 0x3e, 0x0d, 0x52, 0x52, 0x0d, 0xaa, 0x47,
    0x66, 0xb5, 0x3b, 0x05, 0x6d, 0x4f, 0x04, 0xae, 0x45, 0x4a, 0x4e, 0xb9, 0x0a, 0x4d, 0x4c, 0x0d, 0x15, 0x41, 0x2d, 0x92, 0xb5
   ]"

definition day_code1 :: "nat list" where
  "day_code1 = [0x0, 0x1f, 0x3b, 0x5a, 0x78, 0x97, 0xb5, 0xd4, 0xf3]"

definition day_code2 :: "nat list" where
  "day_code2 = [0x111, 0x130, 0x14e]"

definition cror :: "u8 \<Rightarrow> nat \<Rightarrow> u8" where
  "cror origin bits = drop_bit bits origin + push_bit (8 - bits) origin"

definition year_byte :: "int \<Rightarrow> u8 option" where
  "year_byte i = (if 0 \<le> i then mget year_code (nat i) else None)"

definition table_bit :: "int \<Rightarrow> u8 \<Rightarrow> nat option" where
  "table_bit i m = do { b \<leftarrow> year_byte i; Some (if b AND m = 0 then 0 else 1) }"

definition get_moon_day :: "nat \<Rightarrow> int \<Rightarrow> nat option" where
  "get_moon_day month_p table_addr =
     (if month_p = 1 then table_bit table_addr 0x08
      else if month_p = 2 then table_bit table_addr 0x04
      else if month_p = 3 then table_bit table_addr 0x02
      else if month_p = 4 then table_bit table_addr 0x01
      else if month_p = 5 then table_bit (table_addr + 1) 0x80
      else if month_p = 6 then table_bit (table_addr + 1) 0x40
      else if month_p = 7 then table_bit (table_addr + 1) 0x20
      else if month_p = 8 then table_bit (table_addr + 1) 0x10
      else if month_p = 9 then table_bit (table_addr + 1) 0x08
      else if month_p = 10 then table_bit (table_addr + 1) 0x04
      else if month_p = 11 then table_bit (table_addr + 1) 0x02
      else if month_p = 12 then table_bit (table_addr + 1) 0x01
      else if month_p = 13 then table_bit (table_addr + 2) 0x80
      else Some 0)"

definition month_days :: "nat \<Rightarrow> int \<Rightarrow> nat option" where
  "month_days month_p table_addr =
     do { flag2 \<leftarrow> get_moon_day month_p table_addr; Some (if flag2 = 0 then 0x1d else 0x1e) }"

lemma month_days_pos: "month_days p a = Some n \<Longrightarrow> 0 < n"
  by (auto simp: month_days_def split: Option.bind_splits)

text \<open>The two loops: the month, the position in the table, the flag of the leap month and the days that are left.\<close>

function forward_loop :: "int \<Rightarrow> nat \<Rightarrow> nat \<Rightarrow> nat \<Rightarrow> bool \<Rightarrow> nat \<Rightarrow> (nat \<times> nat) option" where
  "forward_loop table_addr leap mon month_p flag_y temp4 =
     (case month_days month_p table_addr of
        None \<Rightarrow> None
      | Some temp1 \<Rightarrow>
          if temp4 \<ge> temp1
          then forward_loop table_addr leap
                 (if mon = leap then (if flag_y then (mon + 1) mod 256 else mon) else (mon + 1) mod 256) ((month_p + 1) mod 256)
                 (if mon = leap then \<not> flag_y else flag_y) (temp4 - temp1)
          else Some (mon, temp4 + 1))"
  by pat_completeness auto
termination
  by (relation "measure (\<lambda>(a, l, m, p, f, t). t)") (auto dest: month_days_pos)

function backward_loop :: "int \<Rightarrow> nat \<Rightarrow> nat \<Rightarrow> nat \<Rightarrow> bool \<Rightarrow> nat \<Rightarrow> (nat \<times> nat) option" where
  "backward_loop table_addr leap mon month_p flag_y temp3 =
     (case month_days month_p table_addr of
        None \<Rightarrow> None
      | Some temp1 \<Rightarrow>
          if temp3 > temp1
          then (let mon = (if flag_y then mon else mon - 1) in
                backward_loop table_addr leap mon (month_p - 1) (if mon = leap then \<not> flag_y else flag_y) (temp3 - temp1))
          else Some (mon, temp1 - temp3 + 1))"
  by pat_completeness auto
termination
  by (relation "measure (\<lambda>(a, l, m, p, f, t). t)") (auto dest: month_days_pos)

text \<open>One less as an \<open>unsigned int\<close>.\<close>

definition pred32 :: "nat \<Rightarrow> nat" where
  "pred32 n = (n + (2 ^ 32 - 1)) mod 2 ^ 32"

lemma pred32 [simp]: "0 < n \<Longrightarrow> n < 2 ^ 32 \<Longrightarrow> pred32 n = n - 1"
proof -
  assume n: "0 < n" "n < 2 ^ 32"
  then have "n + (2 ^ 32 - 1) = (n - 1) + 2 ^ 32" by simp
  then show ?thesis using n by (simp only: pred32_def mod_add_self2) simp
qed

definition day_of_year :: "date_t \<Rightarrow> nat option" where
  "day_of_year d =
     do {
       c \<leftarrow> (if month d = 0 then None
             else if month d < 10 then mget day_code1 (month d - 1) else mget day_code2 (month d - 10));
       let temp4 = pred32 (c + day d);
       Some (if month d > 2 \<and> (year d mod 100) mod 4 = 0 then temp4 + 1 else temp4)
     }"

definition leap_month :: "int \<Rightarrow> nat option" where
  "leap_month table_addr = do { b \<leftarrow> year_byte table_addr; Some (unat (cror (b AND 0xf0) 4)) }"

definition festival_day :: "int \<Rightarrow> nat option" where
  "festival_day table_addr =
     do {
       b \<leftarrow> year_byte (table_addr + 2);
       let temp1 = cror (b AND 0x60) 5;
       let temp2 = unat (b AND 0x1f);
       Some (if temp1 = 1 then temp2 - 1 else temp2 + 0x1f - 1)
     }"

definition GetYinLiDate :: "date_t \<Rightarrow> date_t option" where
  "GetYinLiDate d =
     do {
       let shiji = year d div 100 mod 256;
       let table_addr = (if shiji = 20 then (int (year d mod 100) + 0x64 - 1) * 3 else (int (year d mod 100) - 1) * 3);
       temp3 \<leftarrow> festival_day table_addr;
       temp4 \<leftarrow> day_of_year d;
       if temp4 \<ge> temp3
       then do {
         leap \<leftarrow> leap_month table_addr;
         (mon, dy) \<leftarrow> forward_loop table_addr leap 1 1 False (temp4 - temp3);
         Some \<lparr>year = shiji * 100 + year d mod 100, month = mon, day = dy\<rparr>
       }
       else do {
         let y = (if year d mod 100 = 0 then 0x63 else year d mod 100 - 1);
         let table_addr = table_addr - 3;
         leap \<leftarrow> leap_month table_addr;
         let month_p = (if leap = 0 then 0xc else 0xd);
         (mon, dy) \<leftarrow> backward_loop table_addr leap 0xc month_p False (temp3 - temp4);
         Some \<lparr>year = shiji * 100 + y, month = mon, day = dy\<rparr>
       }
     }"

declare forward_loop.simps [simp del] backward_loop.simps [simp del]

subsection \<open>What the table says\<close>

text \<open>The table by years: the months of a year with their lengths, and the day of its festival counted from January 1.\<close>

type_synonym row = "nat \<times> nat \<times> nat"

fun triples :: "'a list \<Rightarrow> ('a \<times> 'a \<times> 'a) list" where
  "triples (a # b # c # xs) = (a, b, c) # triples xs"
| "triples _ = []"

definition row_leap :: "row \<Rightarrow> nat" where
  "row_leap r = fst r div 16"

definition row_bits :: "row \<Rightarrow> bool list" where
  "row_bits r = (case r of (a, b, c) \<Rightarrow>
     [odd (a div 8), odd (a div 4), odd (a div 2), odd a, odd (b div 128), odd (b div 64), odd (b div 32), odd (b div 16),
      odd (b div 8), odd (b div 4), odd (b div 2), odd b, odd (c div 128)])"

definition month_names :: "nat \<Rightarrow> nat list" where
  "month_names leap = (if leap = 0 then [1 ..< 13] else [1 ..< leap + 1] @ [leap ..< 13])"

definition row_lengths :: "row \<Rightarrow> nat list" where
  "row_lengths r = map (\<lambda>b. if b then 30 else 29) (row_bits r)"

definition row_months :: "row \<Rightarrow> (nat \<times> nat) list" where
  "row_months r = zip (month_names (row_leap r)) (row_lengths r)"

definition row_total :: "row \<Rightarrow> nat" where
  "row_total r = sum_list (map snd (row_months r))"

definition row_festival :: "row \<Rightarrow> nat" where
  "row_festival r = (case r of (a, b, c) \<Rightarrow> if c div 32 mod 4 = 1 then c mod 32 - 1 else c mod 32 + 30)"

definition rows :: "row list" where
  "rows = triples (map unat year_code)"

definition solar_days :: "nat \<Rightarrow> nat" where
  "solar_days y = (if y mod 4 = 0 \<and> (y mod 100 \<noteq> 0 \<or> y mod 400 = 0) then 366 else 365)"

text \<open>Every row has at most an eleventh leap month and a festival before the 51st day, and from one festival to the
  next there are as many days as its months have.\<close>

fun rows_ok :: "nat \<Rightarrow> row list \<Rightarrow> bool" where
  "rows_ok y [] = True"
| "rows_ok y (r # rs) =
     (row_leap r < 12 \<and> row_festival r \<le> 50 \<and>
      (case rs of [] \<Rightarrow> True
       | r' # _ \<Rightarrow> sum_list (if row_leap r = 0 then butlast (row_lengths r) else row_lengths r) + row_festival r =
           solar_days y + row_festival r') \<and>
      rows_ok (y + 1) rs)"

lemma length_year_code: "length year_code = 597"
  by (simp add: year_code_def)

lemma table_ok: "rows_ok 1901 rows"
  unfolding rows_def year_code_def
  by (simp add: row_leap_def row_festival_def row_lengths_def row_bits_def solar_days_def)

end
