(* ===== verification/Lunar_Calendar.thy ===== *)
theory Lunar_Calendar
  imports Lunar
begin

text \<open>
  The table of \<^theory_text>\<open>Lunar\<close> read as one calendar: the months of all lunar years from the
  spring festival of 1901 on in a single list. The conversion walks this list from the number of days that have
  passed since then, so that consecutive days get consecutive dates.
\<close>

subsection \<open>The bytes of a year\<close>

lemma length_triples: "length (triples xs) = length xs div 3"
  by (induction xs rule: triples.induct) auto

lemma nth_triples:
  "i < length xs div 3 \<Longrightarrow> triples xs ! i = (xs ! (3 * i), xs ! (3 * i + 1), xs ! (3 * i + 2))"
proof (induction xs arbitrary: i rule: triples.induct)
  case (1 a b c xs)
  then show ?case by (cases i) auto
qed auto

lemma length_rows: "length rows = 199"
  by (simp add: rows_def length_triples length_year_code)

lemma year_byte_row:
  assumes "i < 199"
  shows "\<exists>b0 b1 b2. year_byte (3 * int i) = Some b0 \<and> year_byte (3 * int i + 1) = Some b1 \<and> year_byte (3 * int i + 2) = Some b2 \<and>
    rows ! i = (unat b0, unat b1, unat b2)"
proof -
  have "nat (3 * int i + 1) = 3 * i + 1" "nat (3 * int i + 2) = 3 * i + 2" "nat (3 * int i) = 3 * i" by simp_all
  then show ?thesis
    using assms by (simp add: year_byte_def mget_def rows_def nth_triples length_year_code)
qed

lemma and_bit: "b AND push_bit n 1 = 0 \<longleftrightarrow> even (unat b div 2 ^ n)" for b :: u8
proof -
  have "b AND push_bit n 1 \<noteq> 0 \<longleftrightarrow> bit b n" by (simp add: bit_iff_and_push_bit_not_eq_0)
  also have "\<dots> \<longleftrightarrow> odd (unat b div 2 ^ n)"
  proof -
    have "bit b n \<longleftrightarrow> bit (unat b) n" by (auto simp: bit_unsigned_iff dest: bit_imp_le_length)
    then show ?thesis by (simp only: bit_iff_odd [of "unat b"])
  qed
  finally show ?thesis by blast
qed

lemma mask_bits:
  "(b :: u8) AND 0x80 = 0 \<longleftrightarrow> even (unat b div 128)" "b AND 0x40 = 0 \<longleftrightarrow> even (unat b div 64)"
  "b AND 0x20 = 0 \<longleftrightarrow> even (unat b div 32)" "b AND 0x10 = 0 \<longleftrightarrow> even (unat b div 16)"
  "b AND 0x08 = 0 \<longleftrightarrow> even (unat b div 8)" "b AND 0x04 = 0 \<longleftrightarrow> even (unat b div 4)"
  "b AND 0x02 = 0 \<longleftrightarrow> even (unat b div 2)" "b AND 0x01 = 0 \<longleftrightarrow> even (unat b)"
  using and_bit [of b 7] and_bit [of b 6] and_bit [of b 5] and_bit [of b 4] and_bit [of b 3] and_bit [of b 2]
    and_bit [of b 1] and_bit [of b 0] by (simp_all only: push_bit_eq_mult, simp_all)

lemma month_days_row:
  assumes "i < 199" "1 \<le> p" "p \<le> 13"
  shows "month_days p (3 * int i) = Some (row_lengths (rows ! i) ! (p - 1))"
proof -
  obtain b0 b1 b2 where b: "year_byte (3 * int i) = Some b0" "year_byte (3 * int i + 1) = Some b1"
      "year_byte (3 * int i + 2) = Some b2" "rows ! i = (unat b0, unat b1, unat b2)"
    using year_byte_row [OF assms(1)] by blast
  have "p = 1 \<or> p = 2 \<or> p = 3 \<or> p = 4 \<or> p = 5 \<or> p = 6 \<or> p = 7 \<or> p = 8 \<or> p = 9 \<or> p = 10 \<or> p = 11 \<or> p = 12 \<or> p = 13"
    using assms(2,3) by arith
  then show ?thesis
    by (elim disjE)
       (simp_all add: month_days_def get_moon_day_def table_bit_def b row_lengths_def row_bits_def mask_bits)
qed

lemma high_nibble: "cror (b AND 0xf0) 4 = drop_bit 4 b"
proof -
  have m: "(0xf0 :: u8) = push_bit 4 (mask 4)" by (simp add: mask_eq_exp_minus_1 push_bit_eq_mult)
  have "push_bit 4 (b AND push_bit 4 (mask 4)) = 0" "drop_bit 4 (b AND push_bit 4 (mask 4)) = drop_bit 4 b"
    by (rule bit_word_eqI; auto simp: bit_simps dest: bit_imp_le_length)+
  then show ?thesis unfolding cror_def m by simp
qed

lemma leap_month_row:
  assumes "i < 199"
  shows "leap_month (3 * int i) = Some (row_leap (rows ! i))"
proof -
  obtain b0 b1 b2 :: u8 where "year_byte (3 * int i) = Some b0" "rows ! i = (unat b0, unat b1, unat b2)"
    using year_byte_row [OF assms] by metis
  then show ?thesis by (simp add: leap_month_def high_nibble unat_drop_bit row_leap_def)
qed

lemma month_field: "cror (b AND 0x60) 5 = drop_bit 5 b AND mask 2"
proof -
  have m: "(0x60 :: u8) = push_bit 5 (mask 2)" by (simp add: mask_eq_exp_minus_1 push_bit_eq_mult)
  have "push_bit 3 (b AND push_bit 5 (mask 2)) = 0" "drop_bit 5 (b AND push_bit 5 (mask 2)) = drop_bit 5 b AND mask 2"
    by (rule bit_word_eqI; auto simp: bit_simps)+
  then show ?thesis unfolding cror_def m by simp
qed

lemma festival_day_row:
  assumes "i < 199"
  shows "festival_day (3 * int i) = Some (row_festival (rows ! i))"
proof -
  obtain b0 b1 b2 :: u8 where b: "year_byte (3 * int i + 2) = Some b2" "rows ! i = (unat b0, unat b1, unat b2)"
    using year_byte_row [OF assms] by metis
  have "cror (b2 AND 0x60) 5 = 1 \<longleftrightarrow> unat (drop_bit 5 b2 AND mask 2) = 1"
    by (simp add: month_field word_unat_eq_iff)
  then have mf: "cror (b2 AND 0x60) 5 = 1 \<longleftrightarrow> unat b2 div 32 mod 4 = 1"
    by (simp only: unat_and_mask unat_drop_bit) simp
  have "unat (b2 AND mask 5) = unat b2 mod 32" by (simp only: unat_and_mask) simp
  then have df: "unat (b2 AND 0x1f) = unat b2 mod 32" by (simp add: mask_eq_exp_minus_1)
  show ?thesis using b by (simp add: festival_day_def mf df row_festival_def)
qed

subsection \<open>Walking a list of months\<close>

fun walk :: "('a \<times> nat) list \<Rightarrow> nat \<Rightarrow> ('a \<times> nat) option" where
  "walk [] t = None"
| "walk ((m, l) # ms) t = (if t < l then Some (m, t + 1) else walk ms (t - l))"

abbreviation total :: "('a \<times> nat) list \<Rightarrow> nat" where
  "total ms \<equiv> sum_list (map snd ms)"

lemma walk_append:
  "walk (ms @ ns) t = (if t < total ms then walk ms t else walk ns (t - total ms))"
  by (induction ms t rule: walk.induct) auto

lemma walk_map: "walk (map (\<lambda>(m, l). (f m, l)) ms) t = map_option (\<lambda>(m, d). (f m, d)) (walk ms t)"
  by (induction ms t rule: walk.induct) auto

lemma total_map: "total (map (\<lambda>(m, l). (f m, l)) ms) = total ms"
  by (induction ms) auto

lemma row_months_facts:
  assumes "row_leap r < 12"
  shows "length (row_months r) = (if row_leap r = 0 then 12 else 13)"
    and "\<And>p. \<lbrakk>1 \<le> p; p \<le> length (row_months r)\<rbrakk> \<Longrightarrow>
      row_months r ! (p - 1) = (month_names (row_leap r) ! (p - 1), row_lengths r ! (p - 1))"
    and "row_total r = sum_list (if row_leap r = 0 then butlast (row_lengths r) else row_lengths r)"
proof -
  have n: "length (month_names (row_leap r)) = (if row_leap r = 0 then 12 else 13)"
    using assms by (simp add: month_names_def)
  have l: "length (row_lengths r) = 13" by (simp add: row_lengths_def row_bits_def split: prod.splits)
  show len: "length (row_months r) = (if row_leap r = 0 then 12 else 13)" by (simp add: row_months_def n l)
  show "\<And>p. \<lbrakk>1 \<le> p; p \<le> length (row_months r)\<rbrakk> \<Longrightarrow>
      row_months r ! (p - 1) = (month_names (row_leap r) ! (p - 1), row_lengths r ! (p - 1))"
    using len n l by (simp add: row_months_def split: if_splits)
  have "map snd (row_months r) = take (if row_leap r = 0 then 12 else 13) (row_lengths r)"
    using n by (simp add: row_months_def map_snd_zip_take min_def l)
  then show "row_total r = sum_list (if row_leap r = 0 then butlast (row_lengths r) else row_lengths r)"
    by (simp add: row_total_def butlast_conv_take l)
qed

lemma month_names_nth:
  assumes "leap < 12" "1 \<le> p" "p \<le> (if leap = 0 then 12 else 13)"
  shows "month_names leap ! (p - 1) = (if leap = 0 \<or> p \<le> leap then p else p - 1)"
  using assms by (auto simp: month_names_def nth_append)

lemma forward_walk:
  assumes i: "i < 199" and leap: "row_leap (rows ! i) < 12"
  defines "r \<equiv> rows ! i"
  shows "\<lbrakk>p + n = length (row_months r) + 1; 1 \<le> p; t < total (drop (p - 1) (row_months r))\<rbrakk> \<Longrightarrow>
    forward_loop (3 * int i) (row_leap r) (if row_leap r = 0 \<or> p \<le> row_leap r then p else p - 1) p
      (row_leap r \<noteq> 0 \<and> p = row_leap r + 1) t = walk (drop (p - 1) (row_months r)) t"
proof (induction n arbitrary: p t)
  case (Suc n)
  let ?L = "row_leap r" and ?ms = "row_months r"
  note f = row_months_facts [OF leap, folded r_def]
  have p: "p \<le> length ?ms" "p \<le> 13" using Suc.prems(1) f(1) by (auto split: if_splits)
  have nth: "?ms ! (p - 1) = ((if ?L = 0 \<or> p \<le> ?L then p else p - 1), row_lengths r ! (p - 1))"
    using f(2) [OF Suc.prems(2) p(1)] month_names_nth [of ?L p] leap Suc.prems(2) p(1) f(1) by (simp add: r_def)
  have dr: "drop (p - 1) ?ms = ?ms ! (p - 1) # drop p ?ms"
    using Cons_nth_drop_Suc [of "p - 1" ?ms] p(1) Suc.prems(2) by simp
  have md: "month_days p (3 * int i) = Some (row_lengths r ! (p - 1))"
    unfolding r_def by (rule month_days_row [OF i Suc.prems(2) p(2)])
  show ?case
  proof (cases "t < row_lengths r ! (p - 1)")
    case True
    then show ?thesis using md by (simp only: forward_loop.simps [of _ _ _ p] dr nth) simp
  next
    case False
    let ?t = "t - row_lengths r ! (p - 1)"
    have "?t < total (drop p ?ms)" using Suc.prems(3) [unfolded dr nth] False by simp
    moreover have "p + 1 + n = length ?ms + 1" "1 \<le> p + 1" using Suc.prems(1) by simp_all
    ultimately have "forward_loop (3 * int i) ?L (if ?L = 0 \<or> p + 1 \<le> ?L then p + 1 else p) (p + 1) (?L \<noteq> 0 \<and> p = ?L) ?t =
        walk (drop p ?ms) ?t"
      using Suc.IH [of "p + 1" ?t, unfolded add_diff_cancel_right' add_right_cancel] by iprover
    moreover have "(if (if ?L = 0 \<or> p \<le> ?L then p else p - 1) = ?L
        then (if ?L \<noteq> 0 \<and> p = ?L + 1 then ((if ?L = 0 \<or> p \<le> ?L then p else p - 1) + 1) mod 256
              else (if ?L = 0 \<or> p \<le> ?L then p else p - 1))
        else ((if ?L = 0 \<or> p \<le> ?L then p else p - 1) + 1) mod 256) = (if ?L = 0 \<or> p + 1 \<le> ?L then p + 1 else p)"
      "(p + 1) mod 256 = p + 1"
      using Suc.prems(2) p(2) by auto
    moreover have "(if (if ?L = 0 \<or> p \<le> ?L then p else p - 1) = ?L
        then \<not> (?L \<noteq> 0 \<and> p = ?L + 1) else (?L \<noteq> 0 \<and> p = ?L + 1)) = (?L \<noteq> 0 \<and> p = ?L)"
      using Suc.prems(2) by auto
    ultimately show ?thesis using md False by (simp only: forward_loop.simps [of _ _ _ p] dr nth) simp
  qed
qed simp

lemma rows_ok_nth:
  "rows_ok y rs \<Longrightarrow> i < length rs \<Longrightarrow> row_leap (rs ! i) < 12 \<and> row_festival (rs ! i) \<le> 50 \<and>
    (Suc i < length rs \<longrightarrow> row_total (rs ! i) + row_festival (rs ! i) = solar_days (y + i) + row_festival (rs ! Suc i))"
proof (induction y rs arbitrary: i rule: rows_ok.induct)
  case (2 y r rs)
  note leap = row_months_facts(3) [of r]
  show ?case
  proof (cases i)
    case 0
    then show ?thesis using 2(2) leap by (cases rs) simp_all
  next
    case (Suc j)
    then show ?thesis using 2(1) [of j] 2(2,3) by simp
  qed
qed simp

lemma row_facts:
  assumes "i < 199"
  shows "row_leap (rows ! i) < 12" "row_festival (rows ! i) \<le> 50"
    "Suc i < 199 \<Longrightarrow> row_total (rows ! i) + row_festival (rows ! i) = solar_days (1901 + i) + row_festival (rows ! Suc i)"
  using rows_ok_nth [OF table_ok, of i] assms by (simp_all add: length_rows)

lemma length_row_lengths: "length (row_lengths r) = 13"
  by (simp add: row_lengths_def row_bits_def split: prod.splits)

lemma row_lengths_nth: "p < 13 \<Longrightarrow> row_lengths r ! p = 29 \<or> row_lengths r ! p = 30"
  using length_row_lengths [of r] by (simp add: row_lengths_def)

lemma row_months_last:
  assumes "row_leap r < 12"
  defines "N \<equiv> if row_leap r = 0 then 12 else 13"
  shows "row_months r = take (N - 2) (row_months r) @ [(11, row_lengths r ! (N - 2)), (12, row_lengths r ! (N - 1))]"
proof -
  let ?ms = "row_months r"
  note f = row_months_facts [OF assms(1)] and nm = month_names_nth [OF assms(1)]
  have len: "length ?ms = N" using f(1) by (simp add: N_def)
  have N: "2 \<le> N" "N - 1 - 1 = N - 2" "Suc (N - 2) = N - 1" "Suc (N - 1) = N" by (simp_all add: N_def)
  have names: "month_names (row_leap r) ! (N - 1) = 12" "month_names (row_leap r) ! (N - 1 - 1) = 11"
    using nm [of N] nm [of "N - 1"] assms(1) by (auto simp: N_def split: if_splits)
  have last: "?ms ! (N - 1) = (12, row_lengths r ! (N - 1))" using f(2) [of N] N len names by simp
  have "?ms ! (N - 1 - 1) = (month_names (row_leap r) ! (N - 1 - 1), row_lengths r ! (N - 1 - 1))"
    using f(2) [of "N - 1"] N(1) unfolding len by simp
  then have prev: "?ms ! (N - 2) = (11, row_lengths r ! (N - 2))" by (simp only: names(2)) (simp only: N)
  have "drop (N - 2) ?ms = ?ms ! (N - 2) # drop (N - 1) ?ms" "drop (N - 1) ?ms = ?ms ! (N - 1) # drop N ?ms"
    using Cons_nth_drop_Suc [of "N - 2" ?ms] Cons_nth_drop_Suc [of "N - 1" ?ms] N len by simp_all
  then have "drop (N - 2) ?ms = [(11, row_lengths r ! (N - 2)), (12, row_lengths r ! (N - 1))]"
    using len by (simp only: last prev) simp
  then show ?thesis by (metis append_take_drop_id)
qed

text \<open>Counting back from the festival of the next year ends in the last or last but one month.\<close>

lemma backward_walk:
  assumes i: "i < 199" and t: "0 < t" "t \<le> 50"
  defines "r \<equiv> rows ! i"
  defines "N \<equiv> if row_leap r = 0 then 12 else 13"
  shows "backward_loop (3 * int i) (row_leap r) 12 N False t = walk (row_months r) (row_total r - t)"
proof -
  have leap: "row_leap r < 12" using row_facts(1) [OF i] by (simp add: r_def)
  have N: "2 \<le> N" "N \<le> 13" "N - 1 - 1 = N - 2" by (simp_all add: N_def)
  define a b ms where "a = row_lengths r ! (N - 2)" and "b = row_lengths r ! (N - 1)" and "ms = take (N - 2) (row_months r)"
  have ab: "a = 29 \<or> a = 30" "b = 29 \<or> b = 30" unfolding a_def b_def by (rule row_lengths_nth; use N in simp)+
  have split: "row_months r = ms @ [(11, a), (12, b)]"
    unfolding a_def b_def ms_def N_def by (rule row_months_last [OF leap])
  have tot: "row_total r = total ms + a + b" by (simp add: row_total_def split)
  have "month_days N (3 * int i) = Some b" unfolding b_def r_def by (rule month_days_row [OF i]; use N in simp)
  note last = this
  have "month_days (N - 1) (3 * int i) = Some (row_lengths r ! (N - 1 - 1))"
    unfolding r_def by (rule month_days_row [OF i]; use N in simp)
  then have prev: "month_days (N - 1) (3 * int i) = Some a" by (simp only: N(3) a_def)
  show ?thesis
  proof (cases "t \<le> b")
    case True
    have "walk (row_months r) (row_total r - t) = Some (12, b - t + 1)"
      using True t ab by (auto simp: split walk_append tot)
    then show ?thesis using True last by (subst backward_loop.simps) simp
  next
    case False
    have "walk (row_months r) (row_total r - t) = Some (11, a - (t - b) + 1)"
      using False t ab by (auto simp: split walk_append tot)
    moreover have "backward_loop (3 * int i) (row_leap r) 11 (N - 1) fl (t - b) = Some (11, a - (t - b) + 1)" for fl
      using prev t ab by (subst backward_loop.simps) auto
    moreover have "backward_loop (3 * int i) (row_leap r) 12 N False t =
        backward_loop (3 * int i) (row_leap r) 11 (N - 1) (11 = row_leap r) (t - b)"
      using False last by (subst backward_loop.simps) simp
    ultimately show ?thesis by simp
  qed
qed

subsection \<open>The calendar as one list\<close>

definition month_len :: "nat \<Rightarrow> nat \<Rightarrow> nat" where
  "month_len y m = (if m = 2 then if solar_days y = 366 then 29 else 28 else if m \<in> {4, 6, 9, 11} then 30 else 31)"

definition solar_day :: "date_t \<Rightarrow> nat" where
  "solar_day d = sum_list (map (month_len (year d)) [1 ..< month d]) + day d - 1"

definition valid_date :: "date_t \<Rightarrow> bool" where
  "valid_date d \<longleftrightarrow> 1901 \<le> year d \<and> year d \<le> 2099 \<and> 1 \<le> month d \<and> month d \<le> 12 \<and> 1 \<le> day d \<and>
     day d \<le> month_len (year d) (month d)"

definition lunar_year :: "nat \<Rightarrow> ((nat \<times> nat) \<times> nat) list" where
  "lunar_year i = map (\<lambda>(m, l). ((1901 + i, m), l)) (row_months (rows ! i))"

definition calendar :: "((nat \<times> nat) \<times> nat) list" where
  "calendar = concat (map lunar_year [0 ..< 199])"

text \<open>The days from the spring festival of 1901, February 19, to a date.\<close>

definition days_since :: "date_t \<Rightarrow> nat" where
  "days_since d = sum_list (map solar_days [1901 ..< year d]) + solar_day d - 49"

definition festival_1901 :: "date_t \<Rightarrow> bool" where
  "festival_1901 d \<longleftrightarrow> 1901 < year d \<or> 49 \<le> solar_day d"

lemma month_cases:
  assumes "1 \<le> m" "m \<le> (12 :: nat)"
  obtains "m = 1" | "m = 2" | "m = 3" | "m = 4" | "m = 5" | "m = 6" | "m = 7" | "m = 8" | "m = 9" | "m = 10" | "m = 11" | "m = 12"
proof -
  have "m = 1 \<or> m = 2 \<or> m = 3 \<or> m = 4 \<or> m = 5 \<or> m = 6 \<or> m = 7 \<or> m = 8 \<or> m = 9 \<or> m = 10 \<or> m = 11 \<or> m = 12"
    using assms by arith
  then show thesis using that by blast
qed

lemma century:
  assumes "1901 \<le> y" "y \<le> 2099"
  shows "y div 100 = 19 \<or> y div 100 = (20 :: nat)" "y mod 100 = 0 \<Longrightarrow> y = 2000"
proof -
  have "19 \<le> y div 100" "y div 100 \<le> 20"
    using div_le_mono [OF assms(1), of 100] div_le_mono [OF assms(2), of 100] by simp_all
  then show c: "y div 100 = 19 \<or> y div 100 = 20" by arith
  show "y = 2000" if "y mod 100 = 0"
    using c div_mult_mod_eq [of y 100] that assms(1) by auto
qed

lemma solar_days_table_years:
  "1901 \<le> y \<Longrightarrow> y \<le> 2099 \<Longrightarrow> solar_days y = (if y mod 100 mod 4 = 0 then 366 else 365)"
proof -
  assume y: "1901 \<le> y" "y \<le> 2099"
  have "y mod 100 mod 4 = y mod 4" by (rule mod_mod_cancel) simp
  moreover note century(2) [OF y]
  ultimately show ?thesis by (auto simp: solar_days_def)
qed

lemma day_of_year_solar:
  assumes "valid_date d"
  shows "day_of_year d = Some (solar_day d)"
proof -
  have s: "solar_days (year d) = (if year d mod 100 mod 4 = 0 then 366 else 365)"
    using assms solar_days_table_years by (simp add: valid_date_def)
  have m: "1 \<le> month d" "month d \<le> 12" "1 \<le> day d" "day d \<le> month_len (year d) (month d)"
    using assms by (simp_all add: valid_date_def)
  then have "1 \<le> day d" "day d \<le> 31" by (auto simp: month_len_def split: if_splits)
  then show ?thesis
    by (rule_tac month_cases [OF m(1,2)])
       (simp_all add: day_of_year_def solar_day_def month_len_def s day_code1_def day_code2_def mget_def upt_conv_Cons)
qed

lemma solar_day_less:
  assumes "valid_date d"
  shows "solar_day d < solar_days (year d)"
proof -
  have m: "1 \<le> month d" "month d \<le> 12" "1 \<le> day d" "day d \<le> month_len (year d) (month d)"
    using assms by (simp_all add: valid_date_def)
  show ?thesis
  proof (cases "solar_days (year d) = 366")
    case True
    then show ?thesis
      by (rule_tac month_cases [OF m(1,2)]; insert m(3,4)) (simp_all add: solar_day_def month_len_def upt_conv_Cons)
  next
    case False
    then have "solar_days (year d) = 365" by (simp add: solar_days_def split: if_splits)
    then show ?thesis
      by (rule_tac month_cases [OF m(1,2)]; insert m(3,4)) (simp_all add: solar_day_def month_len_def upt_conv_Cons)
  qed
qed

abbreviation festival :: "nat \<Rightarrow> nat" where
  "festival i \<equiv> row_festival (rows ! i)"

lemma total_lunar_year: "total (lunar_year i) = row_total (rows ! i)"
  unfolding lunar_year_def row_total_def by (rule total_map)

definition before :: "nat \<Rightarrow> ((nat \<times> nat) \<times> nat) list" where
  "before i = concat (map lunar_year [0 ..< i])"

lemma before_Suc: "before (Suc i) = before i @ lunar_year i"
  by (simp add: before_def)

lemma rows_first: "festival 0 = 49"
  by (simp add: rows_def row_festival_def year_code_def)

lemma rows_last: "row_festival (rows ! 198) = 20" "row_total (rows ! 198) = 384"
proof -
  have "rows ! 198 = (map unat year_code ! 594, map unat year_code ! 595, map unat year_code ! 596)"
    unfolding rows_def by (simp add: nth_triples length_year_code)
  also have "\<dots> = (0x2d, 0x92, 0xb5)" by (simp add: year_code_def)
  finally show "row_festival (rows ! 198) = 20" "row_total (rows ! 198) = 384"
    by (simp_all add: row_festival_def row_total_def row_months_def month_names_def row_leap_def row_lengths_def row_bits_def upt_rec)
qed

text \<open>The festivals and the lengths of the months account for every day.\<close>

lemma total_before:
  "i < 199 \<Longrightarrow> total (before i) + 49 = sum_list (map solar_days [1901 ..< 1901 + i]) + festival i"
proof (induction i)
  case 0
  then show ?case by (simp add: before_def rows_first)
next
  case (Suc i)
  have "[1901 ..< 1901 + Suc i] = [1901 ..< 1901 + i] @ [1901 + i]"
    by (simp only: add_Suc_right) (rule upt_Suc_append, simp)
  then show ?case
    using Suc.IH Suc.prems row_facts(3) [of i]
    by (simp only: before_Suc map_append sum_list.append total_lunar_year list.map sum_list.Cons sum_list.Nil) arith
qed

lemma year_covers: "i < 199 \<Longrightarrow> solar_days (1901 + i) \<le> row_total (rows ! i) + festival i"
proof -
  assume i: "i < 199"
  show ?thesis
  proof (cases "i = 198")
    case True
    then show ?thesis using rows_last by (simp add: solar_days_def)
  next
    case False
    then show ?thesis using row_facts(3) [of i] i by simp
  qed
qed

lemma calendar_split: "i < 199 \<Longrightarrow> calendar = before i @ lunar_year i @ concat (map lunar_year [Suc i ..< 199])"
proof -
  assume "i < 199"
  then have "[0 ..< 199] = [0 ..< i] @ i # [Suc i ..< 199]"
    using upt_add_eq_append [of 0 i "199 - i"] upt_conv_Cons [of i 199] by simp
  then show ?thesis by (simp add: calendar_def before_def)
qed

lemma walk_calendar:
  assumes "i < 199" "t < row_total (rows ! i)"
  shows "walk calendar (total (before i) + t) = map_option (\<lambda>(m, k). ((1901 + i, m), k)) (walk (row_months (rows ! i)) t)"
  using assms by (simp only: calendar_split walk_append total_lunar_year) (simp add: lunar_year_def walk_map)

subsection \<open>The conversion\<close>

text \<open>The conversion of a date after, and before, the festival of its year.\<close>

lemma table_addr_year:
  assumes "1901 \<le> y" "y \<le> 2099"
  shows "(if y div 100 = 20 then (int (y mod 100) + 0x64 - 1) * 3 else (int (y mod 100) - 1) * 3) = 3 * int (y - 1901)"
proof -
  note century(1) [OF assms]
  moreover have "y mod 100 + y div 100 * 100 = y" by (simp only: add.commute [of "y mod 100"] div_mult_mod_eq)
  then have "int (y mod 100) = int y - int (y div 100) * 100" by linarith
  ultimately show ?thesis using assms(1) by (elim disjE) (simp_all only: of_nat_diff, simp_all)
qed

lemma century_year: "1901 \<le> y \<Longrightarrow> y \<le> 2099 \<Longrightarrow> y div 100 mod 256 = (y div 100 :: nat)"
  by simp

lemma GetYinLiDate_after:
  assumes "valid_date d" "festival (year d - 1901) \<le> solar_day d"
  shows "GetYinLiDate d = map_option (\<lambda>(m, k). \<lparr>year = year d, month = m, day = k\<rparr>)
    (walk (row_months (rows ! (year d - 1901))) (solar_day d - festival (year d - 1901)))"
    and "solar_day d - festival (year d - 1901) < row_total (rows ! (year d - 1901))"
proof -
  let ?i = "year d - 1901"
  have y: "1901 \<le> year d" "year d \<le> 2099" and i: "?i < 199" using assms(1) by (auto simp: valid_date_def)
  show lt: "solar_day d - festival ?i < row_total (rows ! ?i)"
    using year_covers [OF i] solar_day_less [OF assms(1)] y(1) assms(2) by simp
  have "forward_loop (3 * int ?i) (row_leap (rows ! ?i)) 1 1 False (solar_day d - festival ?i) =
      walk (row_months (rows ! ?i)) (solar_day d - festival ?i)"
    using forward_walk [OF i row_facts(1) [OF i], of 1 "length (row_months (rows ! ?i))" "solar_day d - festival ?i"] lt
    by (cases "row_leap (rows ! ?i) = 0") (simp_all add: row_total_def)
  then show "GetYinLiDate d = map_option (\<lambda>(m, k). \<lparr>year = year d, month = m, day = k\<rparr>)
      (walk (row_months (rows ! ?i)) (solar_day d - festival ?i))"
    using assms(2) div_mult_mod_eq [of "year d" 100]
    by (simp only: GetYinLiDate_def Let_def century_year [OF y] table_addr_year [OF y] festival_day_row [OF i] day_of_year_solar [OF assms(1)]
          leap_month_row [OF i] bind.bind_lunit if_True)
       (cases "walk (row_months (rows ! ?i)) (solar_day d - festival ?i)"; auto)
qed

lemma GetYinLiDate_before:
  assumes "valid_date d" "solar_day d < festival (year d - 1901)" "1901 < year d"
  shows "GetYinLiDate d = map_option (\<lambda>(m, k). \<lparr>year = (if year d = 2000 then 2099 else year d - 1), month = m, day = k\<rparr>)
    (walk (row_months (rows ! (year d - 1902))) (row_total (rows ! (year d - 1902)) - (festival (year d - 1901) - solar_day d)))"
proof -
  let ?i = "year d - 1902" and ?j = "year d - 1901"
  let ?t = "festival ?j - solar_day d"
  have y: "1901 \<le> year d" "year d \<le> 2099" and i: "?i < 199" "?j < 199" using assms(1) by (auto simp: valid_date_def)
  have a: "3 * int ?j - 3 = 3 * int ?i" using assms(3) by simp
  have t: "0 < ?t" "?t \<le> 50" using row_facts(2) [OF i(2)] assms(2) by simp_all
  have yr: "year d div 100 * 100 + (if year d mod 100 = 0 then 0x63 else year d mod 100 - 1) =
      (if year d = 2000 then 2099 else year d - 1)"
  proof (cases "year d = 2000")
    case False
    then have "year d mod 100 \<noteq> 0" using century(2) [OF y] by blast
    then show ?thesis using False div_mult_mod_eq [of "year d" 100] by simp
  qed simp
  show ?thesis
    using assms(2)
    by (simp only: GetYinLiDate_def Let_def century_year [OF y] table_addr_year [OF y] festival_day_row [OF i(2)] day_of_year_solar [OF assms(1)]
          leap_month_row [OF i(1)] a yr backward_walk [OF i(1) t] bind.bind_lunit if_False not_le)
       (cases "walk (row_months (rows ! ?i)) (row_total (rows ! ?i) - ?t)"; auto)
qed

text \<open>Both count the same days, from the festival of 1901 on.\<close>

lemma days_since_after:
  assumes "valid_date d" "festival (year d - 1901) \<le> solar_day d"
  shows "days_since d = total (before (year d - 1901)) + (solar_day d - festival (year d - 1901))"
proof -
  have "1901 + (year d - 1901) = year d" "year d - 1901 < 199" using assms(1) by (auto simp: valid_date_def)
  then show ?thesis using total_before [of "year d - 1901"] assms(2) unfolding days_since_def by simp
qed

lemma days_since_before:
  assumes "valid_date d" "solar_day d < festival (year d - 1901)" "1901 < year d"
  shows "days_since d = total (before (year d - 1902)) +
    (row_total (rows ! (year d - 1902)) - (festival (year d - 1901) - solar_day d))"
    and "row_total (rows ! (year d - 1902)) - (festival (year d - 1901) - solar_day d) < row_total (rows ! (year d - 1902))"
proof -
  let ?i = "year d - 1902"
  have j: "year d - 1901 = Suc ?i" "Suc ?i < 199" and y: "1901 + Suc ?i = year d" using assms(1,3) by (auto simp: valid_date_def)
  have "festival (Suc ?i) \<le> 50" "row_total (rows ! ?i) \<ge> 300"
    using row_facts(2) [of "Suc ?i"] row_facts(2,3) [of ?i] j(2) by (auto simp: solar_days_def split: if_splits)
  moreover have "total (before (Suc ?i)) = total (before ?i) + row_total (rows ! ?i)"
    by (simp only: before_Suc map_append sum_list.append total_lunar_year)
  ultimately show "days_since d = total (before ?i) + (row_total (rows ! ?i) - (festival (year d - 1901) - solar_day d))"
      "row_total (rows ! ?i) - (festival (year d - 1901) - solar_day d) < row_total (rows ! ?i)"
    using total_before [OF j(2)] assms(2) y unfolding days_since_def j(1) by (simp_all, arith+)
qed

definition lunar_date :: "date_t \<Rightarrow> date_t option" where
  "lunar_date d = map_option (\<lambda>((y, m), k). \<lparr>year = y, month = m, day = k\<rparr>) (walk calendar (days_since d))"

lemma festival_2000: "festival 99 = 35"
proof -
  have "rows ! 99 = (map unat year_code ! 297, map unat year_code ! 298, map unat year_code ! 299)"
    unfolding rows_def by (simp add: nth_triples length_year_code)
  then show ?thesis by (simp add: year_code_def row_festival_def)
qed

lemma walk_defined: "t < total ms \<Longrightarrow> walk ms t \<noteq> None"
  by (induction ms t rule: walk.induct) auto

lemma conversion_after:
  assumes "valid_date d" "festival (year d - 1901) \<le> solar_day d"
  shows "\<exists>l. lunar_date d = Some l \<and> GetYinLiDate d = Some l \<and> year l = year d"
proof -
  have i: "year d - 1901 < 199" "1901 + (year d - 1901) = year d" using assms(1) by (auto simp: valid_date_def)
  note a = GetYinLiDate_after [OF assms]
  obtain m k where w: "walk (row_months (rows ! (year d - 1901))) (solar_day d - festival (year d - 1901)) = Some (m, k)"
    using walk_defined [of _ "row_months (rows ! (year d - 1901))"] a(2) unfolding row_total_def by fast
  show ?thesis
    unfolding lunar_date_def a(1) days_since_after [OF assms] walk_calendar [OF i(1) a(2)] i(2) w by simp
qed

lemma conversion_before:
  assumes "valid_date d" "solar_day d < festival (year d - 1901)" "1901 < year d"
  shows "\<exists>l. lunar_date d = Some l \<and> GetYinLiDate d = Some (if year d = 2000 then l\<lparr>year := 2099\<rparr> else l) \<and>
    year l = year d - 1"
proof -
  have i: "year d - 1902 < 199" "1901 + (year d - 1902) = year d - 1" using assms(1,3) by (auto simp: valid_date_def)
  let ?t = "row_total (rows ! (year d - 1902)) - (festival (year d - 1901) - solar_day d)"
  note b = days_since_before [OF assms]
  obtain m k where w: "walk (row_months (rows ! (year d - 1902))) ?t = Some (m, k)"
    using walk_defined [of _ "row_months (rows ! (year d - 1902))"] b(2) unfolding row_total_def by fast
  show ?thesis
    unfolding lunar_date_def GetYinLiDate_before [OF assms] b(1) walk_calendar [OF i(1) b(2)] i(2) w by simp
qed

lemma after_1901: "valid_date d \<Longrightarrow> festival_1901 d \<Longrightarrow> \<not> festival (year d - 1901) \<le> solar_day d \<Longrightarrow> 1901 < year d"
  using rows_first by (cases "year d = 1901") (auto simp: festival_1901_def valid_date_def)

subsection \<open>Properties\<close>

text \<open>
  C10: for every date from the spring festival of 1901 to the end of 2099, other than the first 35 days of 2000, the
  conversion returns the date whose place in the list of all lunar months (leap months included) is the number of
  days since that festival. In particular it never reads outside the tables there.
\<close>

theorem lunar_conversion:
  assumes "valid_date d" "festival_1901 d" "\<not> (year d = 2000 \<and> solar_day d < 35)"
  shows "GetYinLiDate d = lunar_date d \<and> lunar_date d \<noteq> None"
proof (cases "festival (year d - 1901) \<le> solar_day d")
  case True
  then show ?thesis using conversion_after [OF assms(1)] by auto
next
  case False
  then have "year d \<noteq> 2000" using assms(3) festival_2000 by auto
  then show ?thesis using conversion_before [OF assms(1) _ after_1901 [OF assms(1,2) False]] False by auto
qed

definition mid_autumn_2018 :: date_t where
  "mid_autumn_2018 = \<lparr>year = 2018, month = 9, day = 24\<rparr>"

lemma lunar_conversion_witness:
  "GetYinLiDate mid_autumn_2018 = lunar_date mid_autumn_2018 \<and> lunar_date mid_autumn_2018 \<noteq> None"
  by (rule lunar_conversion)
     (simp_all add: mid_autumn_2018_def valid_date_def festival_1901_def month_len_def solar_days_def)

text \<open>
  In January and up to February 4 of 2000 the conversion has the right month and day but the year 2099
  instead of 1999: the year of the century is set from 0 to 99 and the century is not decremented.
\<close>

theorem lunar_year_2000:
  assumes "valid_date d" "year d = 2000" "solar_day d < 35"
  shows "\<exists>l. lunar_date d = Some l \<and> year l = 1999 \<and> GetYinLiDate d = Some (l\<lparr>year := 2099\<rparr>)"
  using conversion_before [OF assms(1)] assms(2,3) festival_2000 by auto

definition new_year_2000 :: date_t where
  "new_year_2000 = \<lparr>year = 2000, month = 1, day = 1\<rparr>"

lemma lunar_year_2000_witness:
  "\<exists>l. lunar_date new_year_2000 = Some l \<and> year l = 1999 \<and> GetYinLiDate new_year_2000 = Some (l\<lparr>year := 2099\<rparr>)"
  by (rule lunar_year_2000) (simp_all add: new_year_2000_def valid_date_def month_len_def solar_day_def)

text \<open>
  C39: within the years of the table, the conversion stays inside its arrays exactly for the dates from the spring
  festival of 1901 on; for an earlier date of 1901 it reads before the start of the table.
\<close>

theorem lunar_in_bounds:
  assumes "valid_date d"
  shows "GetYinLiDate d \<noteq> None \<longleftrightarrow> festival_1901 d"
proof (cases "festival (year d - 1901) \<le> solar_day d")
  case True
  then have "festival_1901 d"
    using assms rows_first by (cases "year d = 1901") (auto simp: festival_1901_def valid_date_def)
  then show ?thesis using conversion_after [OF assms True] by auto
next
  case False
  show ?thesis
  proof (cases "1901 < year d")
    case True
    then have "festival_1901 d" by (simp add: festival_1901_def)
    then show ?thesis using conversion_before [OF assms _ True] False by auto
  next
    case before: False
    then have y: "year d = 1901" using assms by (simp add: valid_date_def)
    have "GetYinLiDate d = None"
      using False y festival_day_row [of 0] day_of_year_solar [OF assms]
      by (simp add: GetYinLiDate_def Let_def leap_month_def year_byte_def)
    then show ?thesis using after_1901 [OF assms _ False] before by auto
  qed
qed

lemma lunar_in_bounds_witness: "GetYinLiDate new_year_2000 \<noteq> None \<longleftrightarrow> festival_1901 new_year_2000"
  by (rule lunar_in_bounds) (simp add: new_year_2000_def valid_date_def month_len_def)

end
