(* ===== verification/Sql.thy ===== *)
theory Sql
  imports C_Library "HOL-Library.Multiset"
begin

text \<open>
  The SQLite library as the device manager uses it. The library itself is not part of the sources: it is a record
  of the results of \<open>sqlite3_open\<close>, \<open>sqlite3_get_table\<close> and \<open>sqlite3_exec\<close>, an argument of every definition
  that accesses a database. What the properties rely on, \<open>sqlite_spec\<close>, is its documented behaviour on the
  few forms of statements that occur: their syntax as a parser, their effect on tables. The order of the
  rows of a query is not specified, so queries are known up to a permutation.
\<close>

record 'db sqlite =
  sql_open :: "'db \<Rightarrow> int"
  sql_get_table :: "string \<Rightarrow> 'db \<Rightarrow> string list list" \<comment> \<open>the rows after the header, none on an error\<close>
  sql_exec :: "string \<Rightarrow> 'db \<Rightarrow> bool \<times> 'db" \<comment> \<open>whether the result is \<open>SQLITE_OK\<close>\<close>

subsection \<open>Statements as text\<close>

abbreviation QUOTE :: char where
  "QUOTE \<equiv> CHR 0x27"

definition quoted :: "string \<Rightarrow> string" where
  "quoted s = QUOTE # s @ [QUOTE]"

text \<open>\<open>sprintf\<close> into an array of \<open>n\<close> characters.\<close>

definition fits :: "nat \<Rightarrow> string \<Rightarrow> string option" where
  "fits n s = (if length s < n then Some s else None)"

text \<open>The frame of every function on a database: \<open>if (database_open() == FALSE) return fail;\<close>, the body, and
  \<open>database_close()\<close>, which has no effect on the contents.\<close>

definition on_db :: "('db \<Rightarrow> bool \<times> 'db) \<Rightarrow> 'a \<Rightarrow> ('db \<Rightarrow> ('a \<times> 'db) option) \<Rightarrow> 'db \<Rightarrow> ('a \<times> 'db) option" where
  "on_db opened fail body db = (case opened db of (ok, db) \<Rightarrow> if ok then body db else Some (fail, db))"

definition query :: "'db sqlite \<Rightarrow> nat \<Rightarrow> string \<Rightarrow> 'db \<Rightarrow> string list list option" where
  "query sq n sql db = map_option (\<lambda>s. sql_get_table sq s db) (fits n sql)"

definition exec_sql :: "'db sqlite \<Rightarrow> nat \<Rightarrow> string \<Rightarrow> 'db \<Rightarrow> (bool \<times> 'db) option" where
  "exec_sql sq n sql db = map_option (\<lambda>s. sql_exec sq s db) (fits n sql)"

subsection \<open>Tokens\<close>

datatype token = Word string | Lit string | Sym char

definition word_char :: "char \<Rightarrow> bool" where
  "word_char c \<longleftrightarrow> (let n = of_char c :: nat in
     48 \<le> n \<and> n \<le> 57 \<or> 65 \<le> n \<and> n \<le> 90 \<or> 97 \<le> n \<and> n \<le> 122 \<or> n = 95)"

definition flush :: "string \<Rightarrow> token list" where
  "flush w = (if w = [] then [] else [Word w])"

text \<open>The word read so far and, inside a literal, its characters so far. The parser below knows no statement with a
  quote symbol, which stands for a literal that is not closed.\<close>

fun lex :: "string \<Rightarrow> string option \<Rightarrow> string \<Rightarrow> token list" where
  "lex w None [] = flush w"
| "lex w (Some l) [] = [Sym QUOTE]"
| "lex w None (c # cs) =
     (if c = QUOTE then flush w @ lex [] (Some []) cs
      else if word_char c then lex (w @ [c]) None cs
      else flush w @ (if c = CHR '' '' then [] else [Sym c]) @ lex [] None cs)"
| "lex w (Some l) (c # cs) = (if c = QUOTE then Lit l # lex [] None cs else lex [] (Some (l @ [c])) cs)"

definition tokens :: "string \<Rightarrow> token list" where
  "tokens s = lex [] None s"

lemma lex_literal: "QUOTE \<notin> set s \<Longrightarrow> lex w (Some l) (s @ QUOTE # rest) = Lit (l @ s) # lex [] None rest"
  by (induction s arbitrary: w l) auto

text \<open>A quoted argument without quotes is one token of the statement, and so is a number.\<close>

lemma lex_quoted:
  "QUOTE \<notin> set s \<Longrightarrow> lex w None (quoted s @ rest) = flush w @ Lit s # lex [] None rest"
  "QUOTE \<notin> set s \<Longrightarrow> lex w None (quoted s) = flush w @ [Lit s]"
  using lex_literal [of s "[]" "[]" rest] lex_literal [of s "[]" "[]" "[]"] by (simp_all add: quoted_def flush_def)

lemma lex_word: "list_all word_char n \<Longrightarrow> lex w None (n @ rest) = lex (w @ n) None rest"
proof (induction n arbitrary: w)
  case (Cons c n)
  then have "c \<noteq> QUOTE" by (auto simp: word_char_def)
  with Cons show ?case by simp
qed simp

subsection \<open>Syntax\<close>

datatype operand = Const string | Column string

datatype cond =
    Always
  | Equal string operand
  | Has_Bit string string \<comment> \<open>\<open>(c & (1<<n)) != 0\<close>\<close>
  | Conj cond cond
  | Disj cond cond

record column =
  col_name :: string
  col_auto :: bool
  col_default :: string

datatype stmt =
    Select "string list" string cond \<comment> \<open>no names for \<open>*\<close>\<close>
  | Join "string list" string string string string \<comment> \<open>the names, both tables, the column of each\<close>
  | Insert string "string list" "string list"
  | Update string "(string \<times> string) list" cond
  | Delete string cond
  | Create string "column list"

definition is_number :: "string \<Rightarrow> bool" where
  "is_number w \<longleftrightarrow> w \<noteq> [] \<and> list_all (\<lambda>c. digit_val 10 c \<noteq> None) w"

definition expect :: "token \<Rightarrow> token list \<Rightarrow> token list option" where
  "expect t ts = (case ts of [] \<Rightarrow> None | u # us \<Rightarrow> if u = t then Some us else None)"

definition a_word :: "token list \<Rightarrow> (string \<times> token list) option" where
  "a_word ts = (case ts of Word w # us \<Rightarrow> Some (w, us) | _ \<Rightarrow> None)"

definition a_value :: "token list \<Rightarrow> (operand \<times> token list) option" where
  "a_value ts =
     (case ts of
        Word w # us \<Rightarrow> Some (if is_number w then Const w else Column w, us)
      | Lit v # us \<Rightarrow> Some (Const v, us)
      | _ \<Rightarrow> None)"

definition bit_test :: "token list \<Rightarrow> (cond \<times> token list) option" where
  "bit_test ts = do {
     r \<leftarrow> expect (Sym CHR ''('') ts; (c, r) \<leftarrow> a_word r; r \<leftarrow> expect (Sym CHR ''&'') r;
     r \<leftarrow> expect (Sym CHR ''('') r; r \<leftarrow> expect (Word ''1'') r; r \<leftarrow> expect (Sym CHR ''<'') r; r \<leftarrow> expect (Sym CHR ''<'') r;
     (n, r) \<leftarrow> a_word r; r \<leftarrow> expect (Sym CHR '')'') r; r \<leftarrow> expect (Sym CHR '')'') r;
     r \<leftarrow> expect (Sym CHR ''!'') r; r \<leftarrow> expect (Sym CHR ''='') r; r \<leftarrow> expect (Word ''0'') r;
     (if is_number n then Some (Has_Bit c n, r) else None)
   }"

text \<open>Conditions; the first argument bounds the depth of the recursion.\<close>

fun cond_or :: "'f list \<Rightarrow> token list \<Rightarrow> (cond \<times> token list) option"
  and cond_and :: "'f list \<Rightarrow> token list \<Rightarrow> (cond \<times> token list) option"
  and cond_atom :: "'f list \<Rightarrow> token list \<Rightarrow> (cond \<times> token list) option" where
  "cond_or [] ts = None"
| "cond_or (_ # f) ts =
     do {
       (a, r) \<leftarrow> cond_and f ts;
       (case expect (Word ''or'') r of
          None \<Rightarrow> Some (a, r)
        | Some r \<Rightarrow> do { (b, r) \<leftarrow> cond_or f r; Some (Disj a b, r) })
     }"
| "cond_and [] ts = None"
| "cond_and (_ # f) ts =
     do {
       (a, r) \<leftarrow> cond_atom f ts;
       (case expect (Word ''and'') r of
          None \<Rightarrow> Some (a, r)
        | Some r \<Rightarrow> do { (b, r) \<leftarrow> cond_and f r; Some (Conj a b, r) })
     }"
| "cond_atom [] ts = None"
| "cond_atom (_ # f) ts =
     (case bit_test ts of
        Some r \<Rightarrow> Some r
      | None \<Rightarrow>
          (case expect (Sym CHR ''('') ts of
             Some r \<Rightarrow> do { (a, r) \<leftarrow> cond_or f r; r \<leftarrow> expect (Sym CHR '')'') r; Some (a, r) }
           | None \<Rightarrow>
               do { (c, r) \<leftarrow> a_word ts; r \<leftarrow> expect (Sym CHR ''='') r; (v, r) \<leftarrow> a_value r; Some (Equal c v, r) }))"

definition where_clause :: "token list \<Rightarrow> cond option" where
  "where_clause ts =
     (if ts = [] then Some Always
      else do {
        r \<leftarrow> expect (Word ''where'') ts;
        (c, r) \<leftarrow> cond_or (r @ r) r;
        (if r = [] then Some c else None)
      })"

text \<open>Words, values or assignments separated by commas.\<close>

fun words :: "token list \<Rightarrow> (string list \<times> token list) option" where
  "words (Word w # ts) =
     (case ts of
        Sym c # us \<Rightarrow> if c = CHR '','' then map_option (\<lambda>(ws, r). (w # ws, r)) (words us) else Some ([w], ts)
      | _ \<Rightarrow> Some ([w], ts))"
| "words _ = None"

fun constants :: "token list \<Rightarrow> (string list \<times> token list) option" where
  "constants (t # ts) =
     (case a_value [t] of
        Some (Const v, _) \<Rightarrow>
          (case ts of
             Sym c # us \<Rightarrow> if c = CHR '','' then map_option (\<lambda>(vs, r). (v # vs, r)) (constants us) else Some ([v], ts)
           | _ \<Rightarrow> Some ([v], ts))
      | _ \<Rightarrow> None)"
| "constants [] = None"

fun assignments :: "token list \<Rightarrow> ((string \<times> string) list \<times> token list) option" where
  "assignments (Word w # Sym e # t # ts) =
     (if e = CHR ''='' then
       (case a_value [t] of
        Some (Const v, _) \<Rightarrow>
          (case ts of
             Sym c # us \<Rightarrow>
               if c = CHR '','' then map_option (\<lambda>(vs, r). ((w, v) # vs, r)) (assignments us) else Some ([(w, v)], ts)
           | _ \<Rightarrow> Some ([(w, v)], ts))
        | _ \<Rightarrow> None)
      else None)"
| "assignments _ = None"

text \<open>The column definitions between the parentheses of \<open>create table\<close>.\<close>

fun definitions :: "nat \<Rightarrow> token list \<Rightarrow> token list \<Rightarrow> token list list option" where
  "definitions n cur [] = None"
| "definitions n cur (t # ts) =
     (if t = Sym CHR '')'' then if n = 0 then if ts = [] then Some [cur] else None else definitions (n - 1) (cur @ [t]) ts
      else if t = Sym CHR ''('' then definitions (n + 1) (cur @ [t]) ts
      else if t = Sym CHR '','' \<and> n = 0 then map_option ((#) cur) (definitions n [] ts)
      else definitions n (cur @ [t]) ts)"

definition a_column :: "token list \<Rightarrow> column option" where
  "a_column ts = do {
     (c, r) \<leftarrow> a_word ts;
     Some \<lparr>col_name = c, col_auto = Word ''AUTOINCREMENT'' \<in> set r,
           col_default = (case dropWhile (\<lambda>t. t \<noteq> Word ''DEFAULT'') r of _ # Word v # _ \<Rightarrow> v | _ \<Rightarrow> [])\<rparr>
   }"

fun all_some :: "'a option list \<Rightarrow> 'a list option" where
  "all_some [] = Some []"
| "all_some (x # xs) = (case x of None \<Rightarrow> None | Some a \<Rightarrow> map_option ((#) a) (all_some xs))"

definition parse_select :: "token list \<Rightarrow> stmt option" where
  "parse_select ts =
     do {
       (cs, r) \<leftarrow> (case expect (Sym CHR ''*'') ts of Some r \<Rightarrow> Some ([], r) | None \<Rightarrow> words ts);
       r \<leftarrow> expect (Word ''from'') r;
       (t, r) \<leftarrow> a_word r;
       (case r of
          Word a # r' \<Rightarrow>
            if a = ''where'' then map_option (Select cs t) (where_clause r)
            else do {
              r \<leftarrow> expect (Word ''inner'') r'; r \<leftarrow> expect (Word ''join'') r;
              (u, r) \<leftarrow> a_word r; (b, r) \<leftarrow> a_word r; r \<leftarrow> expect (Word ''on'') r;
              r \<leftarrow> expect (Word a) r; r \<leftarrow> expect (Sym CHR ''.'') r; (c, r) \<leftarrow> a_word r;
              r \<leftarrow> expect (Sym CHR ''='') r;
              r \<leftarrow> expect (Word b) r; r \<leftarrow> expect (Sym CHR ''.'') r; (d, r) \<leftarrow> a_word r;
              (if r = [] then Some (Join cs t u c d) else None)
            }
        | _ \<Rightarrow> map_option (Select cs t) (where_clause r))
     }"

definition parse_insert :: "token list \<Rightarrow> stmt option" where
  "parse_insert ts =
     do {
       r \<leftarrow> expect (Word ''into'') ts; (t, r) \<leftarrow> a_word r;
       (cs, r) \<leftarrow> (case expect (Sym CHR ''('') r of
                    None \<Rightarrow> Some ([], r)
                  | Some r \<Rightarrow> do { (cs, r) \<leftarrow> words r; r \<leftarrow> expect (Sym CHR '')'') r; Some (cs, r) });
       r \<leftarrow> expect (Word ''values'') r; r \<leftarrow> expect (Sym CHR ''('') r;
       (vs, r) \<leftarrow> constants r;
       (if r = [Sym CHR '')''] then Some (Insert t cs vs) else None)
     }"

definition parse_update :: "token list \<Rightarrow> stmt option" where
  "parse_update ts =
     do {
       (t, r) \<leftarrow> a_word ts; r \<leftarrow> expect (Word ''set'') r; (vs, r) \<leftarrow> assignments r;
       map_option (Update t vs) (where_clause r)
     }"

definition parse_delete :: "token list \<Rightarrow> stmt option" where
  "parse_delete ts =
     do { r \<leftarrow> expect (Word ''from'') ts; (t, r) \<leftarrow> a_word r; map_option (Delete t) (where_clause r) }"

definition parse_create :: "token list \<Rightarrow> stmt option" where
  "parse_create ts =
     do {
       r \<leftarrow> expect (Word ''table'') ts; (t, r) \<leftarrow> a_word r; r \<leftarrow> expect (Sym CHR ''('') r;
       ds \<leftarrow> definitions 0 [] r; cs \<leftarrow> all_some (map a_column ds);
       Some (Create t cs)
     }"

definition parse_stmt :: "token list \<Rightarrow> stmt option" where
  "parse_stmt ts =
     do {
       (k, r) \<leftarrow> a_word (if ts \<noteq> [] \<and> last ts = Sym CHR '';'' then butlast ts else ts);
       (if k = ''select'' then parse_select r
        else if k = ''insert'' then parse_insert r
        else if k = ''update'' then parse_update r
        else if k = ''delete'' then parse_delete r
        else if k = ''create'' then parse_create r
        else None)
     }"

definition parse_sql :: "string \<Rightarrow> stmt option" where
  "parse_sql s = parse_stmt (tokens s)"

subsection \<open>Tables\<close>

text \<open>Cells as the text the library returns; a missing value is the empty text.\<close>

record sql_table =
  columns :: "column list"
  rows :: "string list list"
  last_id :: nat

type_synonym tables = "string \<Rightarrow> sql_table option"

definition names :: "sql_table \<Rightarrow> string list" where
  "names t = map col_name (columns t)"

definition cell :: "string list \<Rightarrow> string list \<Rightarrow> string \<Rightarrow> string" where
  "cell ns row c = (case map_of (zip ns row) c of None \<Rightarrow> [] | Some v \<Rightarrow> v)"

fun known :: "string list \<Rightarrow> cond \<Rightarrow> bool" where
  "known ns Always \<longleftrightarrow> True"
| "known ns (Equal c v) \<longleftrightarrow> c \<in> set ns \<and> (case v of Const _ \<Rightarrow> True | Column d \<Rightarrow> d \<in> set ns)"
| "known ns (Has_Bit c n) \<longleftrightarrow> c \<in> set ns"
| "known ns (Conj a b) \<longleftrightarrow> known ns a \<and> known ns b"
| "known ns (Disj a b) \<longleftrightarrow> known ns a \<and> known ns b"

fun holds :: "string list \<Rightarrow> cond \<Rightarrow> string list \<Rightarrow> bool" where
  "holds ns Always row \<longleftrightarrow> True"
| "holds ns (Equal c v) row \<longleftrightarrow> cell ns row c = (case v of Const w \<Rightarrow> w | Column d \<Rightarrow> cell ns row d)"
| "holds ns (Has_Bit c n) row \<longleftrightarrow> bit (atoi (cell ns row c)) (nat (atoi n))"
| "holds ns (Conj a b) row \<longleftrightarrow> holds ns a row \<and> holds ns b row"
| "holds ns (Disj a b) row \<longleftrightarrow> holds ns a row \<or> holds ns b row"

definition project :: "string list \<Rightarrow> string list \<Rightarrow> string list \<Rightarrow> string list" where
  "project ns cs row = (if cs = [] then row else map (cell ns row) cs)"

fun run_query :: "stmt \<Rightarrow> tables \<Rightarrow> string list list option" where
  "run_query (Select cs t w) T =
     do {
       t \<leftarrow> T t;
       (if set cs \<subseteq> set (names t) \<and> known (names t) w
        then Some (map (project (names t) cs) (filter (holds (names t) w) (rows t))) else None)
     }"
| "run_query (Join cs t u c d) T =
     do {
       t \<leftarrow> T t; u \<leftarrow> T u;
       (if set cs \<subseteq> set (names t) \<union> set (names u) \<and> c \<in> set (names t) \<and> d \<in> set (names u)
        then Some (concat (map (\<lambda>r. map (\<lambda>s. project (names t @ names u) cs (r @ s))
               (filter (\<lambda>s. cell (names u) s d = cell (names t) r c) (rows u))) (rows t)))
        else None)
     }"
| "run_query _ T = None"

text \<open>A row that is inserted: the given values, a new number in an automatic column, the default elsewhere.\<close>

definition new_row :: "sql_table \<Rightarrow> string list \<Rightarrow> string list \<Rightarrow> string list" where
  "new_row t cs vs =
     map (\<lambda>c. case map_of (zip (if cs = [] then names t else cs) vs) (col_name c) of
                Some v \<Rightarrow> v
              | None \<Rightarrow> if col_auto c then fmt_d 0 (int (last_id t) + 1) else col_default c) (columns t)"

definition update_row :: "string list \<Rightarrow> (string \<times> string) list \<Rightarrow> string list \<Rightarrow> string list" where
  "update_row ns vs row = map (\<lambda>(c, v). case map_of vs c of None \<Rightarrow> v | Some w \<Rightarrow> w) (zip ns row)"

fun run_update :: "stmt \<Rightarrow> tables \<Rightarrow> tables option" where
  "run_update (Insert n cs vs) T =
     do {
       t \<leftarrow> T n;
       (if set cs \<subseteq> set (names t) \<and> length vs = length (if cs = [] then names t else cs)
        then Some (T(n \<mapsto> t\<lparr>rows := rows t @ [new_row t cs vs], last_id := last_id t + 1\<rparr>)) else None)
     }"
| "run_update (Update n vs w) T =
     do {
       t \<leftarrow> T n;
       (if set (map fst vs) \<subseteq> set (names t) \<and> known (names t) w
        then Some (T(n \<mapsto> t\<lparr>rows := map (\<lambda>r. if holds (names t) w r then update_row (names t) vs r else r) (rows t)\<rparr>))
        else None)
     }"
| "run_update (Delete n w) T =
     do {
       t \<leftarrow> T n;
       (if known (names t) w then Some (T(n \<mapsto> t\<lparr>rows := filter (\<lambda>r. \<not> holds (names t) w r) (rows t)\<rparr>)) else None)
     }"
| "run_update (Create n cs) T =
     (case T n of None \<Rightarrow> Some (T(n \<mapsto> \<lparr>columns = cs, rows = [], last_id = 0\<rparr>)) | Some _ \<Rightarrow> None)"
| "run_update _ T = None"

fun is_query :: "stmt \<Rightarrow> bool" where
  "is_query (Select _ _ _) = True"
| "is_query (Join _ _ _ _ _) = True"
| "is_query _ = False"

text \<open>
  The documented behaviour, for a database file that can be opened, read and written: \<open>tb\<close> are the tables it
  holds. A statement with an unknown table or column, and the creation of a table that exists, is an error and
  changes nothing.
\<close>

definition sqlite_spec :: "'db sqlite \<Rightarrow> ('db \<Rightarrow> tables) \<Rightarrow> bool" where
  "sqlite_spec sq tb \<longleftrightarrow>
     (\<forall>db. sql_open sq db = 0) \<and>
     (\<forall>s q db. parse_sql s = Some q \<longrightarrow> is_query q \<longrightarrow>
        mset (sql_get_table sq s db) = mset (case run_query q (tb db) of None \<Rightarrow> [] | Some rs \<Rightarrow> rs)) \<and>
     (\<forall>s u db. parse_sql s = Some u \<longrightarrow> \<not> is_query u \<longrightarrow>
        fst (sql_exec sq s db) = (run_update u (tb db) \<noteq> None) \<and>
        tb (snd (sql_exec sq s db)) = (case run_update u (tb db) of None \<Rightarrow> tb db | Some T \<Rightarrow> T))"

text \<open>An implementation on the tables themselves.\<close>

definition table_sqlite :: "tables sqlite" where
  "table_sqlite =
     \<lparr>sql_open = (\<lambda>_. 0),
      sql_get_table = (\<lambda>s T. case parse_sql s of
          None \<Rightarrow> [] | Some q \<Rightarrow> (case run_query q T of None \<Rightarrow> [] | Some rs \<Rightarrow> rs)),
      sql_exec = (\<lambda>s T. case parse_sql s of
          None \<Rightarrow> (False, T) | Some u \<Rightarrow> (case run_update u T of None \<Rightarrow> (False, T) | Some T' \<Rightarrow> (True, T')))\<rparr>"

lemma table_sqlite_spec: "sqlite_spec table_sqlite id"
  by (auto simp: sqlite_spec_def table_sqlite_def split: option.splits)

lemma spec_open: "sqlite_spec sq tb \<Longrightarrow> sql_open sq db = 0"
  by (simp add: sqlite_spec_def)

lemma spec_query:
  "sqlite_spec sq tb \<Longrightarrow> parse_sql s = Some q \<Longrightarrow> run_query q (tb db) = Some rs \<Longrightarrow>
   mset (sql_get_table sq s db) = mset rs"
  by (cases q) (auto simp: sqlite_spec_def)

lemma spec_exec:
  assumes "sqlite_spec sq tb" "parse_sql s = Some u" "\<not> is_query u"
  shows "run_update u (tb db) = Some T \<Longrightarrow> \<exists>db'. sql_exec sq s db = (True, db') \<and> tb db' = T"
    and "run_update u (tb db) = None \<Longrightarrow> \<exists>db'. sql_exec sq s db = (False, db') \<and> tb db' = tb db"
proof -
  have f: "fst (sql_exec sq s db) = (run_update u (tb db) \<noteq> None)"
    and t: "tb (snd (sql_exec sq s db)) = (case run_update u (tb db) of None \<Rightarrow> tb db | Some T \<Rightarrow> T)"
    using assms unfolding sqlite_spec_def by metis+
  obtain ok db' where e: "sql_exec sq s db = (ok, db')" by (cases "sql_exec sq s db")
  show "run_update u (tb db) = Some T \<Longrightarrow> \<exists>db'. sql_exec sq s db = (True, db') \<and> tb db' = T"
    "run_update u (tb db) = None \<Longrightarrow> \<exists>db'. sql_exec sq s db = (False, db') \<and> tb db' = tb db"
    using f t by (simp_all add: e)
qed

end
