(* ===== verification/Sql_File.thy ===== *)
theory Sql_File
  imports Sql
begin

text \<open>
  A database file behind a \<open>database_open\<close> of its own: what the clients rely on, as a contract, and what follows
  for the statements they run. The contract holds for a library that behaves as documented (\<open>sqlite_spec\<close>) when
  opening the file keeps a file that has its tables already.
\<close>

definition SQLITE_ERROR :: int where
  "SQLITE_ERROR = 1"

text \<open>What \<open>create table\<close> leaves: an empty table if there is none.\<close>

definition ensure_table :: "string \<Rightarrow> column list \<Rightarrow> tables \<Rightarrow> tables" where
  "ensure_table n cs T = (if T n = None then T(n \<mapsto> \<lparr>columns = cs, rows = [], last_id = 0\<rparr>) else T)"

lemma exec_create_table:
  assumes "sqlite_spec sq tb" "parse_sql s = Some (Create n cs)"
  shows "tb (snd (sql_exec sq s db)) = ensure_table n cs (tb db)"
proof (cases "tb db n")
  case None
  then have "run_update (Create n cs) (tb db) = Some ((tb db)(n \<mapsto> \<lparr>columns = cs, rows = [], last_id = 0\<rparr>))" by simp
  from spec_exec(1) [OF assms(1,2) _ this] show ?thesis using None by (auto simp: ensure_table_def)
next
  case (Some t)
  then have "run_update (Create n cs) (tb db) = None" by simp
  from spec_exec(2) [OF assms(1,2) _ this] show ?thesis using Some by (auto simp: ensure_table_def)
qed

locale sql_file =
  fixes sq :: "'db sqlite"
    and tb :: "'db \<Rightarrow> tables"
    and opened :: "'db \<Rightarrow> bool \<times> 'db"
    and schema :: "tables \<Rightarrow> bool"
  assumes documented: "sqlite_spec sq tb"
    and opens: "schema (tb db) \<Longrightarrow> \<exists>db'. opened db = (True, db') \<and> tb db' = tb db"
begin

lemma query_runs:
  assumes "schema (tb db)" "parse_sql s = Some q" "run_query q (tb db) = Some rs"
  shows "\<exists>db' rs'. opened db = (True, db') \<and> tb db' = tb db \<and> sql_get_table sq s db' = rs' \<and> mset rs' = mset rs"
proof -
  obtain db' where db': "opened db = (True, db')" "tb db' = tb db" using opens [OF assms(1)] by blast
  then have "mset (sql_get_table sq s db') = mset rs" using spec_query [OF documented assms(2), of db' rs] assms(3) by simp
  then show ?thesis using db' by blast
qed

text \<open>A query whose rows a continuation \<open>k\<close> turns into a result without touching the file.\<close>

lemma query_yields:
  assumes "schema (tb db)" "parse_sql s = Some q" "run_query q (tb db) = Some rs" "length s < n"
    "\<And>rs'. mset rs' = mset rs \<Longrightarrow> \<exists>x. (\<forall>db'. k rs' db' = Some (x, db')) \<and> P x"
  shows "\<exists>x db'. on_db opened f (\<lambda>db. query sq n s db \<bind> (\<lambda>rs. k rs db)) db = Some (x, db') \<and> tb db' = tb db \<and> P x"
proof -
  obtain db' rs' where q: "opened db = (True, db')" "tb db' = tb db" "sql_get_table sq s db' = rs'" "mset rs' = mset rs"
    using query_runs [OF assms(1-3)] by blast
  then show ?thesis using assms(4) assms(5) [OF q(4)] by (auto simp: on_db_def query_def fits_def)
qed

lemma exists_yields:
  assumes "schema (tb db)" "parse_sql s = Some q" "run_query q (tb db) = Some rs" "length s < n"
  shows "\<exists>db'. on_db opened f (\<lambda>db. query sq n s db \<bind> (\<lambda>rs. Some (rs \<noteq> [], db))) db = Some (rs \<noteq> [], db') \<and> tb db' = tb db"
proof -
  have "\<exists>x db'. on_db opened f (\<lambda>db. query sq n s db \<bind> (\<lambda>rs. Some (rs \<noteq> [], db))) db = Some (x, db') \<and>
      tb db' = tb db \<and> x = (rs \<noteq> [])"
    by (rule query_yields [OF assms, where k = "\<lambda>rs db. Some (rs \<noteq> [], db)"]) auto
  then show ?thesis by simp
qed

lemma exec_yields:
  assumes "schema (tb db)" "parse_sql s = Some u" "\<not> is_query u" "run_update u (tb db) = Some T" "length s < n"
  shows "\<exists>db'. on_db opened f (exec_sql sq n s) db = Some (True, db') \<and> tb db' = T"
proof -
  obtain db' where db': "opened db = (True, db')" "tb db' = tb db" using opens [OF assms(1)] by blast
  have "\<exists>db''. sql_exec sq s db' = (True, db'') \<and> tb db'' = T"
    using spec_exec(1) [OF documented assms(2,3), of db' T] assms(4) db'(2) by simp
  then show ?thesis using db' assms(5) by (auto simp: exec_sql_def fits_def on_db_def)
qed

end

end
