(* ===== verification/Dev_Db.thy ===== *)
theory Dev_Db
  imports Sql_File Dev_Control
begin

text \<open>
  The database of the devices (\<open>src/src/dev_manage/dev_db.c\<close>) with its three tables: the known devices
  (\<open>statictable\<close>), the network addresses they reported (\<open>dynamictable\<close>) and the names of the groups.
  A function takes the contents of the database file and returns its result with the new contents;
  \<^term>\<open>None\<close> is an array that overflows. Results are strings instead of copies into the caller's buffer,
  which the callers check; a list that a function leaves in a global array is returned.
\<close>

definition CreateStaticTable :: "'db sqlite \<Rightarrow> 'db \<Rightarrow> 'db" where
  "CreateStaticTable sq db = snd (sql_exec sq
     ''create table statictable(F_ID INTEGER PRIMARY KEY AUTOINCREMENT,F_MAC VARCHAR(30),F_NAME VARCHAR(50),F_UNICODE VARCHAR(200),F_GROUPID INTEGER DEFAULT 1,F_DEVNUMBER INTEGER DEFAULT 0,F_DEVTYPE INTEGER DEFAULT 0);'' db)"

definition CreateDynamicTable :: "'db sqlite \<Rightarrow> 'db \<Rightarrow> 'db" where
  "CreateDynamicTable sq db = snd (sql_exec sq
     ''create table dynamictable(F_MAC VARCHAR(30),F_IP VARCHAR(20));'' db)"

definition CreateDevGroupTable :: "'db sqlite \<Rightarrow> 'db \<Rightarrow> 'db" where
  "CreateDevGroupTable sq db = snd (sql_exec sq
     ''create table grouptable(F_ID INTEGER PRIMARY KEY AUTOINCREMENT,F_GROUPNAME VARCHAR(200));'' db)"

definition dev_database_open :: "'db sqlite \<Rightarrow> 'db \<Rightarrow> bool \<times> 'db" where
  "dev_database_open sq db =
     (if sql_open sq db = SQLITE_ERROR then (False, db)
      else (True, CreateDevGroupTable sq (CreateDynamicTable sq (CreateStaticTable sq db))))"

abbreviation on_dev :: "'db sqlite \<Rightarrow> 'a \<Rightarrow> ('db \<Rightarrow> ('a \<times> 'db) option) \<Rightarrow> 'db \<Rightarrow> ('a \<times> 'db) option" where
  "on_dev sq \<equiv> on_db (dev_database_open sq)"

text \<open>\<open>%d\<close>, and the cell of the first row of a result.\<close>

abbreviation dec :: "int \<Rightarrow> string" where
  "dec n \<equiv> fmt_d 0 n"

definition first_cell :: "nat \<Rightarrow> string list list \<Rightarrow> string option" where
  "first_cell k rs = (case rs of [] \<Rightarrow> None | r # _ \<Rightarrow> mget r k)"

subsection \<open>Groups\<close>

definition isGroupNameExist :: "'db sqlite \<Rightarrow> string \<Rightarrow> 'db \<Rightarrow> (bool \<times> 'db) option" where
  "isGroupNameExist sq group_name = on_dev sq False (\<lambda>db. do {
     rs \<leftarrow> query sq 1024 (''select * from grouptable where F_GROUPNAME='' @ group_name) db;
     Some (rs \<noteq> [], db)
   })"

definition GetGroupIDByName :: "'db sqlite \<Rightarrow> string \<Rightarrow> 'db \<Rightarrow> (int option \<times> 'db) option" where
  "GetGroupIDByName sq group_name = on_dev sq None (\<lambda>db. do {
     rs \<leftarrow> query sq 1024 (''select F_ID from grouptable where F_GROUPNAME='' @ quoted group_name) db;
     (if rs \<noteq> [] then do { c \<leftarrow> first_cell 0 rs; Some (Some (atoi c), db) } else Some (None, db))
   })"

definition UpdateDevGroupIDByMacAndName :: "'db sqlite \<Rightarrow> string \<Rightarrow> string \<Rightarrow> int \<Rightarrow> 'db \<Rightarrow> (bool \<times> 'db) option" where
  "UpdateDevGroupIDByMacAndName sq mac name group_id = on_dev sq False (\<lambda>db.
     exec_sql sq 1024 (''update statictable set F_GROUPID='' @ dec group_id @ '' where F_MAC='' @ quoted mac @
       '' and F_NAME='' @ quoted name) db)"

definition AddDevGroupName :: "'db sqlite \<Rightarrow> string \<Rightarrow> 'db \<Rightarrow> (bool \<times> 'db) option" where
  "AddDevGroupName sq group_name = on_dev sq False (\<lambda>db. do {
     rs \<leftarrow> query sq 1024 (''select * from grouptable where F_GROUPNAME='' @ quoted group_name) db;
     (if rs \<noteq> [] then Some (False, db)
      else exec_sql sq 1024 (''insert into grouptable(F_GROUPNAME) values('' @ quoted group_name @ '')'') db)
   })"

text \<open>A \<open>strcat\<close> to an array of \<open>n\<close> characters for every row of a result, and the last character replaced.\<close>

fun cat_rows :: "nat \<Rightarrow> (string list \<Rightarrow> string option) \<Rightarrow> string \<Rightarrow> string list list \<Rightarrow> string option" where
  "cat_rows n f s [] = Some s"
| "cat_rows n f s (r # rs) = do { t \<leftarrow> f r; s \<leftarrow> fits n (s @ t); cat_rows n f s rs }"

definition set_last :: "char \<Rightarrow> string \<Rightarrow> string" where
  "set_last c s = butlast s @ [c]"

definition GetAllGroupName :: "'db sqlite \<Rightarrow> string \<Rightarrow> 'db \<Rightarrow> (string \<times> 'db) option" where
  "GetAllGroupName sq g_group_name = on_dev sq g_group_name (\<lambda>db.
     (let rs = sql_get_table sq ''select F_GROUPNAME from grouptable'' db in
      if rs \<noteq> []
      then do {
        s \<leftarrow> cat_rows (1024 * 4) (\<lambda>r. do { c \<leftarrow> mget r 0; Some (c @ '','') }) [] rs;
        Some (butlast s, db)
      }
      else Some (''_NULL_'', db)))"

subsection \<open>Lists of the devices\<close>

definition GetDevVersion :: string where
  "GetDevVersion = ''ARM11.001.001.000.000.000''"

text \<open>A double quote, and a member of a JSON object.\<close>

definition dq :: "string \<Rightarrow> string" where
  "dq s = CHR 0x22 # s @ [CHR 0x22]"

definition json_member :: "string \<Rightarrow> string \<Rightarrow> string" where
  "json_member k v = dq k @ '':'' @ dq v"

definition dev_entry :: "string list \<Rightarrow> string option" where
  "dev_entry r = do {
     mac \<leftarrow> mget r 0; name \<leftarrow> mget r 1; group \<leftarrow> mget r 2; ty \<leftarrow> mget r 3; num \<leftarrow> mget r 4;
     fits (1024 * 2) (''{'' @ json_member ''mac'' mac @ '','' @ json_member ''name'' name @ '','' @
       json_member ''group_name'' group @ '','' @ json_member ''type'' ty @ '','' @ json_member ''devnumber'' num @ ''},'')
   }"

definition group_entry :: "string list \<Rightarrow> string option" where
  "group_entry r = do { name \<leftarrow> mget r 0; fits (1024 * 2) (''{'' @ json_member ''name'' name @ ''},'') }"

definition GetDeviceList :: "'db sqlite \<Rightarrow> string \<Rightarrow> 'db \<Rightarrow> (string \<times> 'db) option" where
  "GetDeviceList sq g_dev_list = on_dev sq g_dev_list (\<lambda>db.
     (let rs = sql_get_table sq ''select F_MAC,F_NAME,F_GROUPNAME,F_DEVTYPE,F_DEVNUMBER from statictable a inner join grouptable b on a.F_GROUPID=b.F_ID'' db in
      if rs \<noteq> []
      then do {
        s \<leftarrow> cat_rows (1024 * 4) dev_entry
               (''{'' @ dq ''ver'' @ '':'' @ dq GetDevVersion @ '','' @ dq ''dev'' @ '':['') rs;
        s \<leftarrow> fits (1024 * 4) (set_last CHR '']'' s @ '','' @ dq ''group'' @ '':['');
        s \<leftarrow> cat_rows (1024 * 4) group_entry s (sql_get_table sq ''select F_GROUPNAME from grouptable'' db);
        s \<leftarrow> fits (1024 * 4) (set_last CHR '']'' s @ ''}'');
        Some (s, db)
      }
      else Some (''_NULL_'', db)))"

text \<open>The number of a device in UCS-2 digits, with a full stop; from 1000 on \<open>index\<close> keeps the text of the row
  before.\<close>

definition unicode_index :: "int \<Rightarrow> string \<Rightarrow> string" where
  "unicode_index n index =
     (let hex = (\<lambda>v. fmt_X 4 (nat ((0x30 + v) mod 2 ^ 32))) in
      if n < 10 then hex n @ ''002E''
      else if n < 100 then hex (n div 10) @ hex (n mod 10) @ ''002E''
      else if n < 1000 then hex (n div 100) @ hex (n mod 100 div 10) @ hex (n mod 10) @ ''002E''
      else index)"

fun unicode_rows :: "string \<Rightarrow> string \<Rightarrow> string list list \<Rightarrow> string option" where
  "unicode_rows index s [] = Some s"
| "unicode_rows index s (r # rs) = do {
     i \<leftarrow> mget r 0; u \<leftarrow> mget r 1;
     let index = unicode_index (atoi i) index;
     s \<leftarrow> fits (1024 * 16) (s @ index @ u @ ''000D000A'');
     unicode_rows index s rs
   }"

definition GetUnicodeDeviceList :: "'db sqlite \<Rightarrow> string \<Rightarrow> 'db \<Rightarrow> (string \<times> 'db) option" where
  "GetUnicodeDeviceList sq g_unicode_dev_list = on_dev sq g_unicode_dev_list (\<lambda>db.
     (let rs = sql_get_table sq ''select F_ID,F_UNICODE from statictable'' db in
      if rs \<noteq> []
      then do {
        s \<leftarrow> unicode_rows [] [] rs;
        s \<leftarrow> fits (1024 * 16) (s @ ''8BF756DE590D7F1653F7002B0030517395ED002C7F1653F7002B003162535F00002C7F1653F7002B003283B753D672B66001002C8C228C220021'');
        Some (s, db)
      }
      else Some (''_NULL_'', db)))"

subsection \<open>The known devices\<close>

definition isNewNameExist :: "'db sqlite \<Rightarrow> string option \<Rightarrow> 'db \<Rightarrow> (bool \<times> 'db) option" where
  "isNewNameExist sq new_name db =
     (case new_name of
        None \<Rightarrow> Some (False, db)
      | Some new_name \<Rightarrow> on_dev sq False (\<lambda>db. do {
          rs \<leftarrow> query sq 1024 (''select * from statictable where F_NAME='' @ quoted new_name) db;
          Some (rs \<noteq> [], db)
        }) db)"

datatype DEV_ADD_RETURN = DEV_MAC_EXIST | DEV_NAME_EXIST | DEV_ADD_OK | DEV_ADD_FAIL

definition isMacOrNameExist ::
  "'db sqlite \<Rightarrow> string option \<Rightarrow> string option \<Rightarrow> u8 \<Rightarrow> 'db \<Rightarrow> (DEV_ADD_RETURN \<times> 'db) option" where
  "isMacOrNameExist sq mac name devnumber db =
     (case (mac, name) of
        (Some mac, Some name) \<Rightarrow> on_dev sq DEV_ADD_FAIL (\<lambda>db. do {
          rs \<leftarrow> query sq 1024
                 (if devnumber = 0 then ''select * from statictable where F_MAC='' @ quoted mac
                  else ''select * from statictable where F_MAC='' @ quoted mac @ '' and (F_DEVNUMBER='' @
                    quoted (dec (int (unat devnumber))) @ '' or F_DEVNUMBER='' @ quoted ''0'' @ '')'') db;
          (if rs \<noteq> [] then Some (DEV_MAC_EXIST, db)
           else do {
             rs \<leftarrow> query sq 1024 (''select * from statictable where F_NAME='' @ quoted name) db;
             (if rs \<noteq> [] then Some (DEV_NAME_EXIST, db) else Some (DEV_ADD_OK, db))
           })
        }) db
      | _ \<Rightarrow> Some (DEV_ADD_FAIL, db))"

text \<open>The first row gets the number 1, and so on.\<close>

fun reorder_rows :: "'db sqlite \<Rightarrow> nat \<Rightarrow> string list list \<Rightarrow> 'db \<Rightarrow> (unit \<times> 'db) option" where
  "reorder_rows sq i [] db = Some ((), db)"
| "reorder_rows sq i (r # rs) db = do {
     mac \<leftarrow> mget r 1;
     (ok, db) \<leftarrow> exec_sql sq 1024 (''update statictable set F_ID='' @ dec (int i) @ '' where F_MAC='' @ quoted mac) db;
     reorder_rows sq (i + 1) rs db
   }"

definition ReOrderStaticTableItemID :: "'db sqlite \<Rightarrow> 'db \<Rightarrow> (unit \<times> 'db) option" where
  "ReOrderStaticTableItemID sq = on_dev sq () (\<lambda>db. do {
     rs \<leftarrow> query sq 1024 ''select F_ID,F_MAC,F_NAME from statictable'' db;
     reorder_rows sq 1 rs db
   })"

definition insertIntoStaticTable ::
  "'db sqlite \<Rightarrow> string \<Rightarrow> string \<Rightarrow> string \<Rightarrow> int \<Rightarrow> u8 \<Rightarrow> u8 \<Rightarrow> 'db \<Rightarrow> (bool \<times> 'db) option" where
  "insertIntoStaticTable sq mac name unicode group_id dev_number type = on_dev sq False (\<lambda>db.
     exec_sql sq 1024 (''insert into statictable(F_MAC,F_NAME,F_UNICODE,F_GROUPID,F_DEVNUMBER,F_DEVTYPE) values('' @
       quoted mac @ '','' @ quoted name @ '','' @ quoted unicode @ '','' @ dec group_id @ '','' @
       dec (int (unat dev_number)) @ '','' @ dec (int (unat type)) @ '')'') db)"

definition isMacAndNameMatch :: "'db sqlite \<Rightarrow> string \<Rightarrow> string \<Rightarrow> 'db \<Rightarrow> (bool \<times> 'db) option" where
  "isMacAndNameMatch sq mac name = on_dev sq False (\<lambda>db. do {
     rs \<leftarrow> query sq 1024 (''select * from statictable where F_MAC='' @ quoted mac @ '' and F_NAME='' @ quoted name) db;
     Some (rs \<noteq> [], db)
   })"

definition deleteFromStaticTable :: "'db sqlite \<Rightarrow> string \<Rightarrow> string \<Rightarrow> 'db \<Rightarrow> (bool \<times> 'db) option" where
  "deleteFromStaticTable sq mac name = on_dev sq False (\<lambda>db.
     exec_sql sq 1024 (''delete from statictable where F_MAC='' @ quoted mac @ '' and F_NAME='' @ quoted name) db)"

definition isMacExistInStaticTable :: "'db sqlite \<Rightarrow> string \<Rightarrow> 'db \<Rightarrow> (bool \<times> 'db) option" where
  "isMacExistInStaticTable sq mac = on_dev sq False (\<lambda>db. do {
     rs \<leftarrow> query sq 1024 (''select * from statictable where F_MAC='' @ quoted mac) db;
     Some (rs \<noteq> [], db)
   })"

definition UpdateDevNameByMacAndOldname ::
  "'db sqlite \<Rightarrow> string \<Rightarrow> string \<Rightarrow> string \<Rightarrow> string \<Rightarrow> 'db \<Rightarrow> (bool \<times> 'db) option" where
  "UpdateDevNameByMacAndOldname sq mac oldname new_name unicode = on_dev sq False (\<lambda>db.
     exec_sql sq 1024 (''update statictable set F_NAME='' @ quoted new_name @ '' ,F_UNICODE='' @ quoted unicode @
       '' where F_MAC='' @ quoted mac @ '' and F_NAME='' @ quoted oldname) db)"

definition GetDevNumberByMacAndName :: "'db sqlite \<Rightarrow> string \<Rightarrow> string \<Rightarrow> 'db \<Rightarrow> (u8 \<times> 'db) option" where
  "GetDevNumberByMacAndName sq mac name = on_dev sq 0 (\<lambda>db. do {
     rs \<leftarrow> query sq 1024 (''select F_DEVNUMBER from statictable where F_MAC='' @ quoted mac @ '' and F_NAME='' @ quoted name) db;
     (if rs \<noteq> [] then do { c \<leftarrow> first_cell 0 rs; Some (to_uchar (atoi c), db) } else Some (0, db))
   })"

subsection \<open>The addresses\<close>

definition insertIntoDynamicTable :: "'db sqlite \<Rightarrow> string \<Rightarrow> string \<Rightarrow> 'db \<Rightarrow> (bool \<times> 'db) option" where
  "insertIntoDynamicTable sq mac ip = on_dev sq False (\<lambda>db.
     exec_sql sq 1024 (''insert into dynamictable values('' @ quoted mac @ '','' @ quoted ip @ '')'') db)"

definition isMacExistInDynamicTable :: "'db sqlite \<Rightarrow> string \<Rightarrow> 'db \<Rightarrow> (bool \<times> 'db) option" where
  "isMacExistInDynamicTable sq mac = on_dev sq False (\<lambda>db. do {
     rs \<leftarrow> query sq 1024 (''select * from dynamictable where F_MAC='' @ quoted mac) db;
     Some (rs \<noteq> [], db)
   })"

definition UpdateDevIPByMac :: "'db sqlite \<Rightarrow> string \<Rightarrow> string \<Rightarrow> 'db \<Rightarrow> (bool \<times> 'db) option" where
  "UpdateDevIPByMac sq mac new_ip = on_dev sq False (\<lambda>db.
     exec_sql sq 1024 (''update dynamictable set F_IP='' @ quoted new_ip @ '' where F_MAC='' @ quoted mac) db)"

definition GetDevIPByMac :: "'db sqlite \<Rightarrow> string \<Rightarrow> 'db \<Rightarrow> (string option \<times> 'db) option" where
  "GetDevIPByMac sq mac = on_dev sq None (\<lambda>db. do {
     rs \<leftarrow> query sq 1024 (''select F_IP from dynamictable where F_MAC='' @ quoted mac) db;
     (if rs \<noteq> [] then do { c \<leftarrow> first_cell 0 rs; Some (Some c, db) } else Some (None, db))
   })"

definition GetMacAndDevNumberByID :: "'db sqlite \<Rightarrow> string \<Rightarrow> 'db \<Rightarrow> ((string \<times> u8) option \<times> 'db) option" where
  "GetMacAndDevNumberByID sq dev_id = on_dev sq None (\<lambda>db. do {
     rs \<leftarrow> query sq 1024 (''select F_MAC,F_DEVNUMBER from statictable where F_ID='' @ quoted (dec (atoi dev_id))) db;
     (if rs \<noteq> [] then do { m \<leftarrow> first_cell 0 rs; n \<leftarrow> first_cell 1 rs; Some (Some (m, to_uchar (atoi n)), db) }
      else Some (None, db))
   })"

definition GetIPAndDevNumberByID :: "'db sqlite \<Rightarrow> string \<Rightarrow> 'db \<Rightarrow> ((string \<times> u8) option \<times> 'db) option" where
  "GetIPAndDevNumberByID sq dev_id db = do {
     (r, db) \<leftarrow> GetMacAndDevNumberByID sq dev_id db;
     (case r of
        None \<Rightarrow> Some (None, db)
      | Some (mac, n) \<Rightarrow> do {
          mac \<leftarrow> fits 50 mac;
          (ip, db) \<leftarrow> GetDevIPByMac sq mac db;
          Some (map_option (\<lambda>ip. (ip, n)) ip, db)
        })
   }"

text \<open>The two lookups by address have the same body except for the column they read.\<close>

definition dev_text_by_ip :: "'db sqlite \<Rightarrow> string \<Rightarrow> string \<Rightarrow> 'db \<Rightarrow> (string option \<times> 'db) option" where
  "dev_text_by_ip sq column ip = on_dev sq None (\<lambda>db. do {
     rs \<leftarrow> query sq 1024 (''select F_MAC from dynamictable where F_IP='' @ quoted ip) db;
     (if rs = [] then Some (None, db)
      else do {
        c \<leftarrow> first_cell 0 rs; mac \<leftarrow> fits 41 c;
        rs \<leftarrow> query sq 1024 (''select '' @ column @ '' from statictable where F_MAC='' @ quoted mac) db;
        (if rs = [] then Some (None, db) else do { c \<leftarrow> first_cell 0 rs; Some (Some c, db) })
      })
   })"

definition GetDevNameByIP :: "'db sqlite \<Rightarrow> string \<Rightarrow> 'db \<Rightarrow> (string option \<times> 'db) option" where
  "GetDevNameByIP sq = dev_text_by_ip sq ''F_NAME''"

definition GetDevUnicodeNameByIP :: "'db sqlite \<Rightarrow> string \<Rightarrow> 'db \<Rightarrow> (string option \<times> 'db) option" where
  "GetDevUnicodeNameByIP sq = dev_text_by_ip sq ''F_UNICODE''"

subsection \<open>Adding, removing and editing\<close>

text \<open>The constant FALSE that a result is compared with is the value of \<open>DEV_MAC_EXIST\<close>.\<close>

definition AddDevToStaticTable ::
  "'db sqlite \<Rightarrow> string \<Rightarrow> string \<Rightarrow> string \<Rightarrow> string \<Rightarrow> u8 \<Rightarrow> u8 \<Rightarrow> 'db \<Rightarrow> (DEV_ADD_RETURN \<times> 'db) option" where
  "AddDevToStaticTable sq mac name unicode groupname dev_number type db = do {
     (ret, db) \<leftarrow> isMacOrNameExist sq (Some mac) (Some name) dev_number db;
     (if ret \<noteq> DEV_ADD_OK then Some (ret, db)
      else do {
        (_, db) \<leftarrow> AddDevGroupName sq groupname db;
        (g, db) \<leftarrow> GetGroupIDByName sq groupname db;
        (case g of
           None \<Rightarrow> Some (DEV_ADD_FAIL, db)
         | Some group_id \<Rightarrow> do {
             (ok, db) \<leftarrow> insertIntoStaticTable sq mac name unicode group_id dev_number type db;
             Some (if ok then DEV_ADD_OK else DEV_ADD_FAIL, db)
           })
      })
   }"

definition AddDevToDynamicTable :: "'db sqlite \<Rightarrow> string \<Rightarrow> string \<Rightarrow> 'db \<Rightarrow> (bool \<times> 'db) option" where
  "AddDevToDynamicTable sq mac ip db = do {
     (e, db) \<leftarrow> isMacExistInDynamicTable sq mac db;
     (if e then UpdateDevIPByMac sq mac ip db else insertIntoDynamicTable sq mac ip db)
   }"

definition RemoveDevFromStaticTable :: "'db sqlite \<Rightarrow> string \<Rightarrow> string \<Rightarrow> 'db \<Rightarrow> (bool \<times> 'db) option" where
  "RemoveDevFromStaticTable sq mac name db = do {
     (m, db) \<leftarrow> isMacAndNameMatch sq mac name db;
     (if \<not> m then Some (False, db) else deleteFromStaticTable sq mac name db)
   }"

definition UpdateDevDisplayName ::
  "'db sqlite \<Rightarrow> string \<Rightarrow> string \<Rightarrow> string \<Rightarrow> string \<Rightarrow> 'db \<Rightarrow> (bool \<times> 'db) option" where
  "UpdateDevDisplayName sq mac oldname new_name unicode db = do {
     (m, db) \<leftarrow> isMacAndNameMatch sq mac oldname db;
     (if m
      then do {
        (e, db) \<leftarrow> isNewNameExist sq (Some new_name) db;
        (if e then Some (False, db) else UpdateDevNameByMacAndOldname sq mac oldname new_name unicode db)
      }
      else Some (False, db))
   }"

definition UpdateDevGroupName :: "'db sqlite \<Rightarrow> string \<Rightarrow> string \<Rightarrow> string \<Rightarrow> 'db \<Rightarrow> (bool \<times> 'db) option" where
  "UpdateDevGroupName sq mac name new_group_name db = do {
     (m, db) \<leftarrow> isMacAndNameMatch sq mac name db;
     (if \<not> m then Some (False, db)
      else do {
        (g, db) \<leftarrow> GetGroupIDByName sq new_group_name db;
        (case g of None \<Rightarrow> Some (False, db) | Some group_id \<Rightarrow> UpdateDevGroupIDByMacAndName sq mac name group_id db)
      })
   }"

end
