(* ===== verification/Alarm_Db.thy ===== *)
theory Alarm_Db
  imports Dev_Db
begin

text \<open>
  Who is informed of an alarm (\<open>src/src/dev_manage/alarm_db.c\<close> and \<open>alarm_common.c\<close>): the mail addresses and
  mobile numbers in the table \<open>alarmtable\<close> of the file \<open>user.db\<close>, each open (\<open>o\<close>) or closed (\<open>c\<close>). An
  \<open>ALARM_TYPE\<close> or \<open>ALARM_LOCK_ACTION\<close> is its number, since the callers convert any number to it.
\<close>

definition ALARM_TYPE_EMAIL :: int where
  "ALARM_TYPE_EMAIL = 0"

definition ALARM_TYPE_MOBILE :: int where
  "ALARM_TYPE_MOBILE = 1"

definition ALARM_LOCK :: int where
  "ALARM_LOCK = 0"

definition ALARM_UNLOCK :: int where
  "ALARM_UNLOCK = 1"

definition CreateAlarmTable :: "'db sqlite \<Rightarrow> 'db \<Rightarrow> 'db" where
  "CreateAlarmTable sq db = snd (sql_exec sq
     ''create table alarmtable(F_TYPE VARCHAR(30),F_VALUE VARCHAR(50),F_STATE VARCHAR(10));'' db)"

definition alarm_database_open :: "'db sqlite \<Rightarrow> 'db \<Rightarrow> bool \<times> 'db" where
  "alarm_database_open sq db = (if sql_open sq db = SQLITE_ERROR then (False, db) else (True, CreateAlarmTable sq db))"

abbreviation on_alarm :: "'db sqlite \<Rightarrow> 'a \<Rightarrow> ('db \<Rightarrow> ('a \<times> 'db) option) \<Rightarrow> 'db \<Rightarrow> ('a \<times> 'db) option" where
  "on_alarm sq \<equiv> on_db (alarm_database_open sq)"

definition insertIntoAlarmTable :: "'db sqlite \<Rightarrow> int \<Rightarrow> string \<Rightarrow> 'db \<Rightarrow> (bool \<times> 'db) option" where
  "insertIntoAlarmTable sq ty value = on_alarm sq False (\<lambda>db.
     exec_sql sq 1024
       (if ty = ALARM_TYPE_EMAIL
        then ''insert into alarmtable values('' @ quoted ''email'' @ '','' @ quoted value @ '','' @ quoted ''o'' @ '')''
        else if ty = ALARM_TYPE_MOBILE
        then ''insert into alarmtable values('' @ quoted ''mobile'' @ '','' @ quoted value @ '','' @ quoted ''o'' @ '')''
        else ''insert into alarmtable values('' @ quoted ''email'' @ '','' @ quoted value @ '','' @ quoted ''o'' @ '')'') db)"

text \<open>The lists of the open entries, separated by commas, and of all entries. A list that is not rebuilt, because the
  file cannot be opened, keeps its contents.\<close>

definition GetEmailList :: "'db sqlite \<Rightarrow> string \<Rightarrow> 'db \<Rightarrow> (string \<times> 'db) option" where
  "GetEmailList sq g_email_list = on_alarm sq g_email_list (\<lambda>db.
     (let rs = sql_get_table sq (''select F_VALUE from alarmtable where F_TYPE = '' @ quoted ''email'' @ '' and F_STATE = '' @ quoted ''o'') db in
      if rs \<noteq> []
      then do { s \<leftarrow> cat_rows 1024 (\<lambda>r. map_option (\<lambda>c. c @ '','') (mget r 0)) [] rs; Some (butlast s, db) }
      else Some (''_NULL_'', db)))"

definition GetMobileList :: "'db sqlite \<Rightarrow> string \<Rightarrow> 'db \<Rightarrow> (string \<times> 'db) option" where
  "GetMobileList sq g_mobile_list = on_alarm sq g_mobile_list (\<lambda>db.
     (let rs = sql_get_table sq (''select F_VALUE from alarmtable where F_TYPE = '' @ quoted ''mobile'' @ '' and F_STATE = '' @ quoted ''o'') db in
      if rs \<noteq> []
      then do { s \<leftarrow> cat_rows 1024 (\<lambda>r. map_option (\<lambda>c. c @ '','') (mget r 0)) [] rs; Some (butlast s, db) }
      else Some (''_NULL_'', db)))"

definition alarm_entry :: "string list \<Rightarrow> string option" where
  "alarm_entry r = do {
     way \<leftarrow> mget r 0; value \<leftarrow> mget r 1; state \<leftarrow> mget r 2;
     fits 1024 (''{'' @ json_member ''alarm_way'' way @ '','' @ json_member ''alarm_value'' value @ '','' @
       json_member ''alarm_state'' state @ ''},'')
   }"

definition GetAlarmAllList :: "'db sqlite \<Rightarrow> string \<Rightarrow> 'db \<Rightarrow> (string \<times> 'db) option" where
  "GetAlarmAllList sq g_alarm_alllist = on_alarm sq g_alarm_alllist (\<lambda>db.
     (let rs = sql_get_table sq ''select F_TYPE,F_VALUE,F_STATE from alarmtable'' db in
      if rs \<noteq> []
      then do { s \<leftarrow> cat_rows (1024 * 4) alarm_entry ''['' rs; Some (set_last CHR '']'' s, db) }
      else Some (''_NULL_'', db)))"

text \<open>The early returns for another type leave the file open, which keeps its contents.\<close>

definition isAlarmTypeAndValueMatch :: "'db sqlite \<Rightarrow> int \<Rightarrow> string \<Rightarrow> 'db \<Rightarrow> (bool \<times> 'db) option" where
  "isAlarmTypeAndValueMatch sq ty value = on_alarm sq False (\<lambda>db.
     if ty = ALARM_TYPE_EMAIL
     then query sq 1024 (''select * from alarmtable where F_TYPE='' @ quoted ''email'' @ '' and F_VALUE='' @ quoted value) db
       \<bind> (\<lambda>rs. Some (rs \<noteq> [], db))
     else if ty = ALARM_TYPE_MOBILE
     then query sq 1024 (''select * from alarmtable where F_TYPE='' @ quoted ''mobile'' @ '' and F_VALUE='' @ quoted value) db
       \<bind> (\<lambda>rs. Some (rs \<noteq> [], db))
     else Some (False, db))"

definition DeleteByEmailOrMobile :: "'db sqlite \<Rightarrow> int \<Rightarrow> string \<Rightarrow> 'db \<Rightarrow> (bool \<times> 'db) option" where
  "DeleteByEmailOrMobile sq ty value = on_alarm sq False (\<lambda>db.
     if ty = ALARM_TYPE_EMAIL
     then exec_sql sq 1024 (''delete from alarmtable where F_TYPE='' @ quoted ''email'' @ '' and F_VALUE='' @ quoted value) db
     else if ty = ALARM_TYPE_MOBILE
     then exec_sql sq 1024 (''delete from alarmtable where F_TYPE='' @ quoted ''mobile'' @ '' and F_VALUE='' @ quoted value) db
     else Some (False, db))"

text \<open>For another type the statement stays empty.\<close>

definition state_statement :: "string \<Rightarrow> int \<Rightarrow> string \<Rightarrow> string" where
  "state_statement state ty value =
     (if ty = ALARM_TYPE_EMAIL
      then ''update alarmtable set F_STATE = '' @ quoted state @ '' where F_TYPE='' @ quoted ''email'' @ '' and F_VALUE='' @ quoted value
      else if ty = ALARM_TYPE_MOBILE
      then ''update alarmtable set F_STATE = '' @ quoted state @ '' where F_TYPE='' @ quoted ''mobile'' @ '' and F_VALUE='' @ quoted value
      else [])"

definition SetAlarmState :: "'db sqlite \<Rightarrow> int \<Rightarrow> int \<Rightarrow> string \<Rightarrow> 'db \<Rightarrow> (bool \<times> 'db) option" where
  "SetAlarmState sq lock_type ty value = on_alarm sq False (\<lambda>db.
     if lock_type = ALARM_LOCK then exec_sql sq 1024 (state_statement ''c'' ty value) db
     else if lock_type = ALARM_UNLOCK then exec_sql sq 1024 (state_statement ''o'' ty value) db
     else Some (False, db))"

definition isUserMobileNumberValid :: "'db sqlite \<Rightarrow> string \<Rightarrow> 'db \<Rightarrow> (bool \<times> 'db) option" where
  "isUserMobileNumberValid sq mobile_number = on_alarm sq False (\<lambda>db.
     query sq 1024 (''select * from alarmtable where F_TYPE='' @ quoted ''mobile'' @ '' and F_VALUE='' @ quoted mobile_number @
       '' and F_STATE='' @ quoted ''o'') db \<bind> (\<lambda>rs. Some (rs \<noteq> [], db)))"

subsection \<open>\<open>alarm_common.c\<close>\<close>

definition AddAlarmItem :: "'db sqlite \<Rightarrow> int \<Rightarrow> string \<Rightarrow> 'db \<Rightarrow> (bool \<times> 'db) option" where
  "AddAlarmItem sq ty value db = do {
     (e, db) \<leftarrow> isAlarmTypeAndValueMatch sq ty value db;
     (if e then Some (False, db) else insertIntoAlarmTable sq ty value db)
   }"

definition DeleteFromAlarmTable :: "'db sqlite \<Rightarrow> int \<Rightarrow> string \<Rightarrow> 'db \<Rightarrow> (bool \<times> 'db) option" where
  "DeleteFromAlarmTable sq ty value db = do {
     (e, db) \<leftarrow> isAlarmTypeAndValueMatch sq ty value db;
     (if e then DeleteByEmailOrMobile sq ty value db else Some (False, db))
   }"

definition ChangeAlarmItemToState :: "'db sqlite \<Rightarrow> int \<Rightarrow> int \<Rightarrow> string \<Rightarrow> 'db \<Rightarrow> (bool \<times> 'db) option" where
  "ChangeAlarmItemToState sq lock_type ty value db = do {
     (e, db) \<leftarrow> isAlarmTypeAndValueMatch sq ty value db;
     (if e then SetAlarmState sq lock_type ty value db else Some (False, db))
   }"

end
