(* ===== verification/Dev_Tables.thy ===== *)
theory Dev_Tables
  imports Dev_Db
begin

text \<open>
  What the functions of the device database do to its tables, for a library that behaves as documented
  (\<open>sqlite_spec\<close>) and arguments without quotes that fit the statement buffers.
\<close>

subsection \<open>Reading the statements\<close>

lemma digit_word: "digit_val 10 c = Some v \<Longrightarrow> word_char c"
  by (simp add: digit_val_def word_char_def Let_def split: if_splits)

lemma dec_word [simp]: "list_all word_char (dec (int n))"
proof -
  have "all_digits 10 (pad_digits 10 0 n)" by (rule pad_digits_all_digits) simp_all
  then have "\<forall>c\<in>set (pad_digits 10 0 n). word_char c" using digit_word by blast
  then show ?thesis by (simp add: fmt_d_def list_all_iff)
qed

lemma dec_nonempty [simp]: "dec (int n) \<noteq> []"
  by (simp add: fmt_d_def pad_digits_nonempty)

lemma dec_no_quote [simp]: "QUOTE \<notin> set (dec (int n))"
  using dec_word [of n] by (auto simp: list_all_iff word_char_def)

lemma dec_number [simp]: "is_number (dec (int n))"
  using digits_all_digits [of 10 n] by (auto simp: is_number_def fmt_d_def pad_digits_def list_all_iff digits_nonempty)

lemma atoi_dec [simp]: "n < 2147483648 \<Longrightarrow> atoi (dec (int n)) = int n"
  by (simp add: atoi_def fmt_d_def strtol_pad_digits)

lemma dec_inject: "m < 2147483648 \<Longrightarrow> n < 2147483648 \<Longrightarrow> dec (int m) = dec (int n) \<longleftrightarrow> m = n"
  by (metis atoi_dec of_nat_eq_iff)

lemma length_dec: "n < 2147483648 \<Longrightarrow> length (dec (int n)) \<le> 10"
  using length_digits_le [of 10 10 n] by (simp add: fmt_d_def pad_digits_def)

lemmas sql_simps = parse_sql_def tokens_def lex_quoted lex_word word_char_def flush_def parse_stmt_def a_word_def
  parse_select_def parse_insert_def parse_update_def parse_delete_def expect_def where_clause_def a_value_def bit_test_def

text \<open>An argument that can stand between quotes, and of a length for which no statement overflows its buffer.\<close>

definition arg :: "string \<Rightarrow> bool" where
  "arg s \<longleftrightarrow> QUOTE \<notin> set s \<and> length s \<le> 200"

lemma argD: "arg s \<Longrightarrow> QUOTE \<notin> set s" "arg s \<Longrightarrow> length s \<le> 200"
  by (simp_all add: arg_def)

lemma length_quoted [simp]: "length (quoted s) = length s + 2"
  by (simp add: quoted_def)

lemma parse_create:
  "parse_sql ''create table statictable(F_ID INTEGER PRIMARY KEY AUTOINCREMENT,F_MAC VARCHAR(30),F_NAME VARCHAR(50),F_UNICODE VARCHAR(200),F_GROUPID INTEGER DEFAULT 1,F_DEVNUMBER INTEGER DEFAULT 0,F_DEVTYPE INTEGER DEFAULT 0);'' =
     Some (Create ''statictable''
       [\<lparr>col_name = ''F_ID'', col_auto = True, col_default = []\<rparr>, \<lparr>col_name = ''F_MAC'', col_auto = False, col_default = []\<rparr>,
        \<lparr>col_name = ''F_NAME'', col_auto = False, col_default = []\<rparr>, \<lparr>col_name = ''F_UNICODE'', col_auto = False, col_default = []\<rparr>,
        \<lparr>col_name = ''F_GROUPID'', col_auto = False, col_default = ''1''\<rparr>,
        \<lparr>col_name = ''F_DEVNUMBER'', col_auto = False, col_default = ''0''\<rparr>,
        \<lparr>col_name = ''F_DEVTYPE'', col_auto = False, col_default = ''0''\<rparr>])"
  "parse_sql ''create table dynamictable(F_MAC VARCHAR(30),F_IP VARCHAR(20));'' =
     Some (Create ''dynamictable''
       [\<lparr>col_name = ''F_MAC'', col_auto = False, col_default = []\<rparr>, \<lparr>col_name = ''F_IP'', col_auto = False, col_default = []\<rparr>])"
  "parse_sql ''create table grouptable(F_ID INTEGER PRIMARY KEY AUTOINCREMENT,F_GROUPNAME VARCHAR(200));'' =
     Some (Create ''grouptable''
       [\<lparr>col_name = ''F_ID'', col_auto = True, col_default = []\<rparr>,
        \<lparr>col_name = ''F_GROUPNAME'', col_auto = False, col_default = []\<rparr>])"
  by code_simp+

lemma parse_static_queries:
  assumes "QUOTE \<notin> set mac" "QUOTE \<notin> set name" "QUOTE \<notin> set n"
  shows "parse_sql (''select * from statictable where F_MAC='' @ quoted mac) =
      Some (Select [] ''statictable'' (Equal ''F_MAC'' (Const mac)))"
    "parse_sql (''select * from statictable where F_NAME='' @ quoted name) =
      Some (Select [] ''statictable'' (Equal ''F_NAME'' (Const name)))"
    "parse_sql (''select * from statictable where F_MAC='' @ quoted mac @ '' and F_NAME='' @ quoted name) =
      Some (Select [] ''statictable'' (Conj (Equal ''F_MAC'' (Const mac)) (Equal ''F_NAME'' (Const name))))"
    "parse_sql (''select * from statictable where F_MAC='' @ quoted mac @ '' and (F_DEVNUMBER='' @ quoted n @
        '' or F_DEVNUMBER='' @ quoted ''0'' @ '')'') =
      Some (Select [] ''statictable'' (Conj (Equal ''F_MAC'' (Const mac))
        (Disj (Equal ''F_DEVNUMBER'' (Const n)) (Equal ''F_DEVNUMBER'' (Const ''0'')))))"
    "parse_sql (''select F_DEVNUMBER from statictable where F_MAC='' @ quoted mac @ '' and F_NAME='' @ quoted name) =
      Some (Select [''F_DEVNUMBER''] ''statictable'' (Conj (Equal ''F_MAC'' (Const mac)) (Equal ''F_NAME'' (Const name))))"
    "parse_sql (''select F_MAC,F_DEVNUMBER from statictable where F_ID='' @ quoted n) =
      Some (Select [''F_MAC'', ''F_DEVNUMBER''] ''statictable'' (Equal ''F_ID'' (Const n)))"
  using assms by (simp_all add: sql_simps)

lemma parse_other_queries:
  assumes "QUOTE \<notin> set mac" "QUOTE \<notin> set g"
  shows "parse_sql (''select F_ID from grouptable where F_GROUPNAME='' @ quoted g) =
      Some (Select [''F_ID''] ''grouptable'' (Equal ''F_GROUPNAME'' (Const g)))"
    "parse_sql (''select * from grouptable where F_GROUPNAME='' @ quoted g) =
      Some (Select [] ''grouptable'' (Equal ''F_GROUPNAME'' (Const g)))"
    "parse_sql (''select * from dynamictable where F_MAC='' @ quoted mac) =
      Some (Select [] ''dynamictable'' (Equal ''F_MAC'' (Const mac)))"
    "parse_sql (''select F_IP from dynamictable where F_MAC='' @ quoted mac) =
      Some (Select [''F_IP''] ''dynamictable'' (Equal ''F_MAC'' (Const mac)))"
  using assms by (simp_all add: sql_simps)

lemma parse_static_updates:
  assumes "QUOTE \<notin> set mac" "QUOTE \<notin> set name" "QUOTE \<notin> set u" "QUOTE \<notin> set old"
  shows "parse_sql (''insert into statictable(F_MAC,F_NAME,F_UNICODE,F_GROUPID,F_DEVNUMBER,F_DEVTYPE) values('' @
        quoted mac @ '','' @ quoted name @ '','' @ quoted u @ '','' @ dec (int g) @ '','' @ dec (int n) @ '','' @
        dec (int t) @ '')'') =
      Some (Insert ''statictable'' [''F_MAC'', ''F_NAME'', ''F_UNICODE'', ''F_GROUPID'', ''F_DEVNUMBER'', ''F_DEVTYPE'']
        [mac, name, u, dec (int g), dec (int n), dec (int t)])"
    "parse_sql (''update statictable set F_GROUPID='' @ dec (int g) @ '' where F_MAC='' @ quoted mac @
        '' and F_NAME='' @ quoted name) =
      Some (Update ''statictable'' [(''F_GROUPID'', dec (int g))]
        (Conj (Equal ''F_MAC'' (Const mac)) (Equal ''F_NAME'' (Const name))))"
    "parse_sql (''delete from statictable where F_MAC='' @ quoted mac @ '' and F_NAME='' @ quoted name) =
      Some (Delete ''statictable'' (Conj (Equal ''F_MAC'' (Const mac)) (Equal ''F_NAME'' (Const name))))"
    "parse_sql (''update statictable set F_NAME='' @ quoted name @ '' ,F_UNICODE='' @ quoted u @
        '' where F_MAC='' @ quoted mac @ '' and F_NAME='' @ quoted old) =
      Some (Update ''statictable'' [(''F_NAME'', name), (''F_UNICODE'', u)]
        (Conj (Equal ''F_MAC'' (Const mac)) (Equal ''F_NAME'' (Const old))))"
  using assms by (simp_all add: sql_simps)

lemma parse_other_updates:
  assumes "QUOTE \<notin> set mac" "QUOTE \<notin> set g"
  shows "parse_sql (''insert into grouptable(F_GROUPNAME) values('' @ quoted g @ '')'') =
      Some (Insert ''grouptable'' [''F_GROUPNAME''] [g])"
    "parse_sql (''insert into dynamictable values('' @ quoted mac @ '','' @ quoted g @ '')'') =
      Some (Insert ''dynamictable'' [] [mac, g])"
    "parse_sql (''update dynamictable set F_IP='' @ quoted g @ '' where F_MAC='' @ quoted mac) =
      Some (Update ''dynamictable'' [(''F_IP'', g)] (Equal ''F_MAC'' (Const mac)))"
  using assms by (simp_all add: sql_simps)

subsection \<open>The tables\<close>

definition static_names :: "string list" where
  "static_names = [''F_ID'', ''F_MAC'', ''F_NAME'', ''F_UNICODE'', ''F_GROUPID'', ''F_DEVNUMBER'', ''F_DEVTYPE'']"

definition plain_columns :: "string list \<Rightarrow> column list" where
  "plain_columns ns = map (\<lambda>n. \<lparr>col_name = n, col_auto = (n = ''F_ID''),
     col_default = (if n = ''F_GROUPID'' then ''1'' else if n = ''F_DEVNUMBER'' \<or> n = ''F_DEVTYPE'' then ''0'' else [])\<rparr>) ns"

definition table_names :: "(string \<times> string list) list" where
  "table_names = [(''statictable'', static_names), (''dynamictable'', [''F_MAC'', ''F_IP'']), (''grouptable'', [''F_ID'', ''F_GROUPNAME''])]"

definition conforms :: "string list \<Rightarrow> sql_table \<Rightarrow> bool" where
  "conforms ns t \<longleftrightarrow> columns t = plain_columns ns \<and> (\<forall>r\<in>set (rows t). length r = length ns)"

definition dev_schema :: "tables \<Rightarrow> bool" where
  "dev_schema T \<longleftrightarrow> (\<forall>(n, ns)\<in>set table_names. \<exists>t. T n = Some t \<and> conforms ns t)"

lemma names_conforms: "conforms ns t \<Longrightarrow> names t = ns"
  by (simp add: conforms_def plain_columns_def names_def o_def)

lemma in_static_names [simp]:
  "''F_ID'' \<in> set static_names" "''F_MAC'' \<in> set static_names" "''F_NAME'' \<in> set static_names"
  "''F_UNICODE'' \<in> set static_names" "''F_GROUPID'' \<in> set static_names" "''F_DEVNUMBER'' \<in> set static_names"
  "''F_DEVTYPE'' \<in> set static_names"
  by (simp_all add: static_names_def)

text \<open>The contents of a table.\<close>

definition static_rows :: "tables \<Rightarrow> string list list" where
  "static_rows T = rows (the (T ''statictable''))"

definition dynamic_rows :: "tables \<Rightarrow> string list list" where
  "dynamic_rows T = rows (the (T ''dynamictable''))"

definition group_rows :: "tables \<Rightarrow> string list list" where
  "group_rows T = rows (the (T ''grouptable''))"

lemma dev_schemaE:
  assumes "dev_schema T"
  obtains s d g where "T ''statictable'' = Some s" "conforms static_names s" "static_rows T = rows s"
    "T ''dynamictable'' = Some d" "conforms [''F_MAC'', ''F_IP''] d" "dynamic_rows T = rows d"
    "T ''grouptable'' = Some g" "conforms [''F_ID'', ''F_GROUPNAME''] g" "group_rows T = rows g"
  using assms by (auto simp: dev_schema_def table_names_def static_rows_def dynamic_rows_def group_rows_def)

lemma create_columns:
  "parse_sql ''create table statictable(F_ID INTEGER PRIMARY KEY AUTOINCREMENT,F_MAC VARCHAR(30),F_NAME VARCHAR(50),F_UNICODE VARCHAR(200),F_GROUPID INTEGER DEFAULT 1,F_DEVNUMBER INTEGER DEFAULT 0,F_DEVTYPE INTEGER DEFAULT 0);'' =
     Some (Create ''statictable'' (plain_columns static_names))"
  "parse_sql ''create table dynamictable(F_MAC VARCHAR(30),F_IP VARCHAR(20));'' =
     Some (Create ''dynamictable'' (plain_columns [''F_MAC'', ''F_IP'']))"
  "parse_sql ''create table grouptable(F_ID INTEGER PRIMARY KEY AUTOINCREMENT,F_GROUPNAME VARCHAR(200));'' =
     Some (Create ''grouptable'' (plain_columns [''F_ID'', ''F_GROUPNAME'']))"
  unfolding parse_create by (simp_all add: plain_columns_def static_names_def)

definition ensure :: "string \<Rightarrow> string list \<Rightarrow> tables \<Rightarrow> tables" where
  "ensure n ns T = ensure_table n (plain_columns ns) T"

text \<open>Opening the database creates the tables that are missing.\<close>

lemma dev_database_open_tables:
  assumes "sqlite_spec sq tb"
  shows "\<exists>db'. dev_database_open sq db = (True, db') \<and>
    tb db' = ensure ''grouptable'' [''F_ID'', ''F_GROUPNAME'']
      (ensure ''dynamictable'' [''F_MAC'', ''F_IP''] (ensure ''statictable'' static_names (tb db)))"
  by (simp add: dev_database_open_def spec_open [OF assms] SQLITE_ERROR_def CreateStaticTable_def CreateDynamicTable_def
      CreateDevGroupTable_def ensure_def
      exec_create_table [OF assms create_columns(1)] exec_create_table [OF assms create_columns(2)]
      exec_create_table [OF assms create_columns(3)])

lemma opened_dev:
  assumes "sqlite_spec sq tb" "dev_schema (tb db)"
  shows "\<exists>db'. dev_database_open sq db = (True, db') \<and> tb db' = tb db"
  using dev_database_open_tables [OF assms(1), of db] assms(2) by (auto simp: ensure_def ensure_table_def elim!: dev_schemaE)

text \<open>The file of the devices keeps the contract, for every library that behaves as documented.\<close>

lemma dev_sql_file: "sqlite_spec sq tb \<Longrightarrow> sql_file sq tb (dev_database_open sq) dev_schema"
  by unfold_locales (use opened_dev in auto)

interpretation dev_tables: sql_file table_sqlite id "dev_database_open table_sqlite" dev_schema
  by (rule dev_sql_file [OF table_sqlite_spec])

text \<open>A result together with the tables that are left.\<close>

definition yields :: "('db \<Rightarrow> tables) \<Rightarrow> ('a \<times> 'db) option \<Rightarrow> 'a \<Rightarrow> tables \<Rightarrow> bool" where
  "yields tb m r T \<longleftrightarrow> (\<exists>db'. m = Some (r, db') \<and> tb db' = T)"

lemma yields_query:
  assumes "sqlite_spec sq tb" "dev_schema (tb db)" "parse_sql s = Some q" "run_query q (tb db) = Some rs" "length s < n"
    and "\<And>rs'. mset rs' = mset rs \<Longrightarrow> \<exists>x. (\<forall>db'. k rs' db' = Some (x, db')) \<and> P x"
  shows "\<exists>x. yields tb (on_dev sq f (\<lambda>db. query sq n s db \<bind> (\<lambda>rs. k rs db)) db) x (tb db) \<and> P x"
  using sql_file.query_yields [OF dev_sql_file [OF assms(1)], of db, OF assms(2-5), where k = k and P = P and f = f] assms(6)
  unfolding yields_def by blast

lemma yields_exec:
  assumes "sqlite_spec sq tb" "dev_schema (tb db)" "parse_sql s = Some u" "\<not> is_query u" "run_update u (tb db) = Some T"
    "length s < n"
  shows "yields tb (on_dev sq f (exec_sql sq n s) db) True T"
  using sql_file.exec_yields [OF dev_sql_file [OF assms(1)], of db, OF assms(2-6)] unfolding yields_def by blast

lemma yields_exists:
  assumes "sqlite_spec sq tb" "dev_schema (tb db)" "parse_sql s = Some q" "run_query q (tb db) = Some rs" "length s < n"
  shows "yields tb (on_dev sq f (\<lambda>db. query sq n s db \<bind> (\<lambda>rs. Some (rs \<noteq> [], db))) db) (rs \<noteq> []) (tb db)"
  using sql_file.exists_yields [OF dev_sql_file [OF assms(1)], of db, OF assms(2-5)] unfolding yields_def by blast

subsection \<open>Devices, addresses and groups\<close>

record device =
  dev_id :: string
  dev_mac :: string
  dev_name :: string
  dev_unicode :: string
  dev_group :: string
  dev_number :: string
  dev_kind :: string

definition device_of :: "string list \<Rightarrow> device" where
  "device_of r = \<lparr>dev_id = r ! 0, dev_mac = r ! 1, dev_name = r ! 2, dev_unicode = r ! 3, dev_group = r ! 4,
     dev_number = r ! 5, dev_kind = r ! 6\<rparr>"

definition devices :: "tables \<Rightarrow> device list" where
  "devices T = map device_of (static_rows T)"

definition addresses :: "tables \<Rightarrow> (string \<times> string) list" where
  "addresses T = map (\<lambda>r. (r ! 0, r ! 1)) (dynamic_rows T)"

definition groups :: "tables \<Rightarrow> (string \<times> string) list" where
  "groups T = map (\<lambda>r. (r ! 1, r ! 0)) (group_rows T)"

lemma length_Suc_nth: "length r = Suc n \<Longrightarrow> r = r ! 0 # tl r \<and> length (tl r) = n"
  by (cases r) auto

lemma row_of_7: "length r = 7 \<Longrightarrow> r = [r ! 0, r ! 1, r ! 2, r ! 3, r ! 4, r ! 5, r ! 6]"
  by (rule nth_equalityI) (auto simp: less_Suc_eq numeral_eq_Suc)

lemma row_of_2: "length r = 2 \<Longrightarrow> r = [r ! 0, r ! 1]"
  by (rule nth_equalityI) (auto simp: less_Suc_eq numeral_eq_Suc)

lemma cell_static:
  assumes "length r = 7"
  shows "cell static_names r ''F_ID'' = dev_id (device_of r)" "cell static_names r ''F_MAC'' = dev_mac (device_of r)"
    "cell static_names r ''F_NAME'' = dev_name (device_of r)" "cell static_names r ''F_UNICODE'' = dev_unicode (device_of r)"
    "cell static_names r ''F_GROUPID'' = dev_group (device_of r)"
    "cell static_names r ''F_DEVNUMBER'' = dev_number (device_of r)"
  by (subst row_of_7 [OF assms], simp add: cell_def static_names_def device_of_def)+

lemma cell_dynamic:
  assumes "length r = 2"
  shows "cell [''F_MAC'', ''F_IP''] r ''F_MAC'' = r ! 0" "cell [''F_MAC'', ''F_IP''] r ''F_IP'' = r ! 1"
  by (subst row_of_2 [OF assms], simp add: cell_def)+

lemma cell_group:
  assumes "length r = 2"
  shows "cell [''F_ID'', ''F_GROUPNAME''] r ''F_ID'' = r ! 0" "cell [''F_ID'', ''F_GROUPNAME''] r ''F_GROUPNAME'' = r ! 1"
  by (subst row_of_2 [OF assms], simp add: cell_def)+

lemma row_lengths:
  assumes "dev_schema T"
  shows "r \<in> set (static_rows T) \<Longrightarrow> length r = 7" "r \<in> set (dynamic_rows T) \<Longrightarrow> length r = 2"
    "r \<in> set (group_rows T) \<Longrightarrow> length r = 2"
  using assms by (auto elim!: dev_schemaE simp: conforms_def static_names_def)

lemma select_static:
  "dev_schema T \<Longrightarrow> set cs \<subseteq> set static_names \<Longrightarrow> known static_names w \<Longrightarrow>
   run_query (Select cs ''statictable'' w) T = Some (map (project static_names cs) (filter (holds static_names w) (static_rows T)))"
  by (elim dev_schemaE) (simp add: names_conforms)

lemma select_dynamic:
  "dev_schema T \<Longrightarrow> set cs \<subseteq> {''F_MAC'', ''F_IP''} \<Longrightarrow> known [''F_MAC'', ''F_IP''] w \<Longrightarrow>
   run_query (Select cs ''dynamictable'' w) T =
     Some (map (project [''F_MAC'', ''F_IP''] cs) (filter (holds [''F_MAC'', ''F_IP''] w) (dynamic_rows T)))"
  by (elim dev_schemaE) (simp add: names_conforms)

lemma select_group:
  "dev_schema T \<Longrightarrow> set cs \<subseteq> {''F_ID'', ''F_GROUPNAME''} \<Longrightarrow> known [''F_ID'', ''F_GROUPNAME''] w \<Longrightarrow>
   run_query (Select cs ''grouptable'' w) T =
     Some (map (project [''F_ID'', ''F_GROUPNAME''] cs) (filter (holds [''F_ID'', ''F_GROUPNAME''] w) (group_rows T)))"
  by (elim dev_schemaE) (simp add: names_conforms)

lemma static_nonempty:
  assumes "dev_schema T" "\<And>r. length r = 7 \<Longrightarrow> holds static_names w r = P (device_of r)"
  shows "map f (filter (holds static_names w) (static_rows T)) \<noteq> [] \<longleftrightarrow> (\<exists>d\<in>set (devices T). P d)"
  using assms(2) row_lengths(1) [OF assms(1)] by (auto simp: devices_def filter_empty_conv)

text \<open>The contents of the database, with the last number each automatic column gave.\<close>

record dev_view =
  v_devices :: "device list"
  v_addresses :: "(string \<times> string) list"
  v_groups :: "(string \<times> string) list"
  v_last_dev :: nat
  v_last_group :: nat

definition view :: "tables \<Rightarrow> dev_view" where
  "view T = \<lparr>v_devices = devices T, v_addresses = addresses T, v_groups = groups T,
     v_last_dev = last_id (the (T ''statictable'')), v_last_group = last_id (the (T ''grouptable''))\<rparr>"

definition leaves :: "('db \<Rightarrow> tables) \<Rightarrow> ('a \<times> 'db) option \<Rightarrow> 'a \<Rightarrow> dev_view \<Rightarrow> bool" where
  "leaves tb m r v \<longleftrightarrow> (\<exists>db'. m = Some (r, db') \<and> dev_schema (tb db') \<and> view (tb db') = v)"

lemma leaves_yields: "yields tb m r T \<Longrightarrow> dev_schema T \<Longrightarrow> view T = v \<Longrightarrow> leaves tb m r v"
  by (auto simp: yields_def leaves_def)

text \<open>A contents of a file that the abstraction \<open>v\<close> describes.\<close>

definition dev_file :: "'db sqlite \<Rightarrow> ('db \<Rightarrow> tables) \<Rightarrow> 'db \<Rightarrow> dev_view \<Rightarrow> bool" where
  "dev_file sq tb db v \<longleftrightarrow> sqlite_spec sq tb \<and> dev_schema (tb db) \<and> view (tb db) = v"

lemma leaves_bind:
  assumes "leaves tb m r v" "sqlite_spec sq tb" "\<And>db'. dev_file sq tb db' v \<Longrightarrow> leaves tb (f r db') r' v'"
  shows "leaves tb (m \<bind> (\<lambda>(r, db). f r db)) r' v'"
  using assms by (auto simp: leaves_def dev_file_def)

subsection \<open>Queries\<close>

lemma query_exists:
  assumes "dev_file sq tb db v" "parse_sql s = Some q" "run_query q (tb db) = Some rs" "length s < n" "rs \<noteq> [] \<longleftrightarrow> b"
  shows "leaves tb (on_dev sq f (\<lambda>db. query sq n s db \<bind> (\<lambda>rs. Some (rs \<noteq> [], db))) db) b v"
proof -
  have "sqlite_spec sq tb" "dev_schema (tb db)" "view (tb db) = v" using assms(1) by (simp_all add: dev_file_def)
  then show ?thesis
    using yields_exists [where tb = tb and db = db and f = f, OF _ _ assms(2,3,4)] assms(5) leaves_yields by fastforce
qed

lemma static_exists:
  assumes "dev_file sq tb db v" "parse_sql s = Some (Select [] ''statictable'' w)" "known static_names w" "length s < n"
    "\<And>r. length r = 7 \<Longrightarrow> holds static_names w r = P (device_of r)"
  shows "leaves tb (on_dev sq f (\<lambda>db. query sq n s db \<bind> (\<lambda>rs. Some (rs \<noteq> [], db))) db) (\<exists>d\<in>set (v_devices v). P d) v"
proof -
  have sch: "dev_schema (tb db)" and v: "v_devices v = devices (tb db)"
    using assms(1) by (auto simp: dev_file_def view_def)
  have sel: "run_query (Select [] ''statictable'' w) (tb db) =
      Some (map (project static_names []) (filter (holds static_names w) (static_rows (tb db))))"
    by (rule select_static [OF sch _ assms(3)]) simp
  show ?thesis
    unfolding v by (rule query_exists [OF assms(1,2) sel assms(4)]) (rule static_nonempty [OF sch assms(5)])
qed

lemma isMacAndNameMatch_leaves:
  assumes "dev_file sq tb db v" "arg mac" "arg name"
  shows "leaves tb (isMacAndNameMatch sq mac name db) (\<exists>d\<in>set (v_devices v). dev_mac d = mac \<and> dev_name d = name) v"
  unfolding isMacAndNameMatch_def using argD [OF assms(2)] argD [OF assms(3)]
  by (intro static_exists [OF assms(1) parse_static_queries(3)]) (simp_all add: cell_static)

lemma isMacExistInStaticTable_leaves:
  assumes "dev_file sq tb db v" "arg mac"
  shows "leaves tb (isMacExistInStaticTable sq mac db) (\<exists>d\<in>set (v_devices v). dev_mac d = mac) v"
  unfolding isMacExistInStaticTable_def using argD [OF assms(2)]
  by (intro static_exists [OF assms(1) parse_static_queries(1)]) (simp_all add: cell_static)

lemma isNewNameExist_leaves:
  assumes "dev_file sq tb db v" "arg name"
  shows "leaves tb (isNewNameExist sq (Some name) db) (\<exists>d\<in>set (v_devices v). dev_name d = name) v"
  unfolding isNewNameExist_def option.case using argD [OF assms(2)]
  by (intro static_exists [OF assms(1) parse_static_queries(2)]) (simp_all add: cell_static)

text \<open>Why a device cannot be added: its address is taken, by a device with the same number or one without
  numbers, or its name is.\<close>

definition add_check :: "device list \<Rightarrow> string \<Rightarrow> string \<Rightarrow> u8 \<Rightarrow> DEV_ADD_RETURN" where
  "add_check ds mac name n =
     (if \<exists>d\<in>set ds. dev_mac d = mac \<and> (n = 0 \<or> dev_number d = dec (int (unat n)) \<or> dev_number d = ''0'') then DEV_MAC_EXIST
      else if \<exists>d\<in>set ds. dev_name d = name then DEV_NAME_EXIST
      else DEV_ADD_OK)"

lemma query_rows:
  assumes "sqlite_spec sq tb" "parse_sql s = Some q" "run_query q (tb db) = Some rs" "length s < n"
  shows "\<exists>rs'. query sq n s db = Some rs' \<and> mset rs' = mset rs"
  using spec_query [OF assms(1-3)] assms(4) by (simp add: query_def fits_def)

lemma query_static:
  assumes "sqlite_spec sq tb" "dev_schema (tb db)" "parse_sql s = Some (Select [] ''statictable'' w)" "known static_names w"
    "length s < n" "\<And>r. length r = 7 \<Longrightarrow> holds static_names w r = P (device_of r)"
  shows "\<exists>rs. query sq n s db = Some rs \<and> (rs \<noteq> [] \<longleftrightarrow> (\<exists>d\<in>set (devices (tb db)). P d))"
proof -
  have sel: "run_query (Select [] ''statictable'' w) (tb db) =
      Some (map (project static_names []) (filter (holds static_names w) (static_rows (tb db))))"
    by (rule select_static [OF assms(2) _ assms(4)]) simp
  show ?thesis
    using query_rows [OF assms(1,3) sel assms(5)] static_nonempty [OF assms(2,6), of "project static_names []"]
    by (metis mset_zero_iff)
qed

lemma isMacOrNameExist_leaves:
  assumes "dev_file sq tb db v" "arg mac" "arg name"
  shows "leaves tb (isMacOrNameExist sq (Some mac) (Some name) n db) (add_check (v_devices v) mac name n) v"
proof -
  have spec: "sqlite_spec sq tb" and sch: "dev_schema (tb db)" and v: "view (tb db) = v" "v_devices v = devices (tb db)"
    using assms(1) by (auto simp: dev_file_def view_def)
  obtain db' where db': "tb db' = tb db" "dev_database_open sq db = (True, db')" using opened_dev [OF spec sch] by blast
  have sch': "dev_schema (tb db')" using sch db' by simp
  let ?s = "if n = 0 then ''select * from statictable where F_MAC='' @ quoted mac
    else ''select * from statictable where F_MAC='' @ quoted mac @ '' and (F_DEVNUMBER='' @
      quoted (dec (int (unat n))) @ '' or F_DEVNUMBER='' @ quoted ''0'' @ '')''"
  have num: "length (dec (int (unat n))) \<le> 10" "QUOTE \<notin> set (dec (int (unat n)))"
    by (rule length_dec, use unat_u8_less [of n] in simp) (rule dec_no_quote)
  obtain rs1 where r1: "query sq 1024 ?s db' = Some rs1" "rs1 \<noteq> [] \<longleftrightarrow> (\<exists>d\<in>set (devices (tb db')).
      dev_mac d = mac \<and> (n = 0 \<or> dev_number d = dec (int (unat n)) \<or> dev_number d = ''0''))"
  proof (cases "n = 0")
    case True
    have "\<exists>rs. query sq 1024 (''select * from statictable where F_MAC='' @ quoted mac) db' = Some rs \<and>
        (rs \<noteq> [] \<longleftrightarrow> (\<exists>d\<in>set (devices (tb db')). dev_mac d = mac))"
      by (rule query_static [OF spec sch' parse_static_queries(1)])
         (use argD [OF assms(2)] in \<open>simp_all add: cell_static\<close>)
    then show ?thesis using that True by auto
  next
    case False
    have "\<exists>rs. query sq 1024 (''select * from statictable where F_MAC='' @ quoted mac @ '' and (F_DEVNUMBER='' @
          quoted (dec (int (unat n))) @ '' or F_DEVNUMBER='' @ quoted ''0'' @ '')'') db' = Some rs \<and>
        (rs \<noteq> [] \<longleftrightarrow> (\<exists>d\<in>set (devices (tb db')). dev_mac d = mac \<and> (dev_number d = dec (int (unat n)) \<or> dev_number d = ''0'')))"
      by (rule query_static [OF spec sch' parse_static_queries(4)])
         (use argD [OF assms(2)] num in \<open>simp_all add: cell_static\<close>)
    then show ?thesis using that False by auto
  qed
  have "\<exists>rs. query sq 1024 (''select * from statictable where F_NAME='' @ quoted name) db' = Some rs \<and>
      (rs \<noteq> [] \<longleftrightarrow> (\<exists>d\<in>set (devices (tb db')). dev_name d = name))"
    by (rule query_static [OF spec sch' parse_static_queries(2)])
       (use argD [OF assms(3)] in \<open>simp_all add: cell_static\<close>)
  then obtain rs2 where r2: "query sq 1024 (''select * from statictable where F_NAME='' @ quoted name) db' = Some rs2"
      "rs2 \<noteq> [] \<longleftrightarrow> (\<exists>d\<in>set (devices (tb db')). dev_name d = name)" by blast
  have "isMacOrNameExist sq (Some mac) (Some name) n db =
      Some (if rs1 \<noteq> [] then DEV_MAC_EXIST else if rs2 \<noteq> [] then DEV_NAME_EXIST else DEV_ADD_OK, db')"
    using r1(1) r2(1) by (simp only: isMacOrNameExist_def prod.case option.case on_db_def db'(2) if_True) simp
  then show ?thesis
    using r1(2) r2(2) sch' v db' by (simp add: leaves_def add_check_def)
qed

text \<open>The first row of a result is some row of the table that satisfies the condition.\<close>

lemma query_first:
  assumes "sqlite_spec sq tb" "parse_sql s = Some q" "run_query q (tb db) = Some (map f xs)" "length s < n"
  shows "\<exists>rs. query sq n s db = Some rs \<and> (if xs = [] then rs = [] else \<exists>x\<in>set xs. \<exists>rest. rs = f x # rest)"
proof -
  obtain rs where rs: "query sq n s db = Some rs" "mset rs = mset (map f xs)"
    using query_rows [OF assms] by blast
  have "set rs = f ` set xs" using mset_eq_setD [OF rs(2)] by simp
  moreover have "rs = [] \<longleftrightarrow> xs = []" using mset_eq_length [OF rs(2)] by auto
  ultimately have "if xs = [] then rs = [] else \<exists>x\<in>set xs. \<exists>rest. rs = f x # rest" by (cases rs) auto
  then show ?thesis using rs(1) by blast
qed

lemma static_first:
  assumes "dev_file sq tb db v" "parse_sql s = Some (Select cs ''statictable'' w)" "set cs \<subseteq> set static_names"
    "known static_names w" "length s < n" "\<And>r. length r = 7 \<Longrightarrow> holds static_names w r = P (device_of r)"
    "\<And>r. length r = 7 \<Longrightarrow> project static_names cs r = g (device_of r)" "d \<in> set (v_devices v)" "P d"
  shows "\<exists>db' e rest. dev_database_open sq db = (True, db') \<and> dev_file sq tb db' v \<and> e \<in> set (v_devices v) \<and> P e \<and>
    query sq n s db' = Some (g e # rest)"
proof -
  have spec: "sqlite_spec sq tb" and sch: "dev_schema (tb db)" and v: "view (tb db) = v" "v_devices v = devices (tb db)"
    using assms(1) by (auto simp: dev_file_def view_def)
  obtain db' where db': "tb db' = tb db" "dev_database_open sq db = (True, db')" using opened_dev [OF spec sch] by blast
  let ?xs = "filter (holds static_names w) (static_rows (tb db))"
  have sel: "run_query (Select cs ''statictable'' w) (tb db') = Some (map (project static_names cs) ?xs)"
    unfolding db'(1) by (rule select_static [OF sch assms(3,4)])
  obtain rs where rs: "query sq n s db' = Some rs"
      "if ?xs = [] then rs = [] else \<exists>x\<in>set ?xs. \<exists>rest. rs = project static_names cs x # rest"
    using query_first [OF spec assms(2) sel assms(5)] by blast
  have xs: "r \<in> set ?xs \<longleftrightarrow> r \<in> set (static_rows (tb db)) \<and> P (device_of r)" for r
    using row_lengths(1) [OF sch] assms(6) by auto
  obtain r where "r \<in> set (static_rows (tb db))" "device_of r = d" using assms(8) v(2) by (auto simp: devices_def)
  then have "r \<in> set ?xs" using xs assms(9) by simp
  then have "?xs \<noteq> []" by (cases ?xs) simp_all
  then obtain x rest where x: "x \<in> set ?xs" "rs = project static_names cs x # rest" using rs(2) by auto
  then have "device_of x \<in> set (v_devices v)" "P (device_of x)" "project static_names cs x = g (device_of x)"
    using xs row_lengths(1) [OF sch] assms(7) v(2) by (auto simp: devices_def)
  then show ?thesis using x(2) rs(1) db' spec sch v(1) by (auto simp: dev_file_def)
qed

lemma GetGroupIDByName_leaves:
  assumes "dev_file sq tb db v" "arg g"
  shows "\<exists>r. leaves tb (GetGroupIDByName sq g db) r v \<and>
    (case r of None \<Rightarrow> g \<notin> fst ` set (v_groups v) | Some i \<Rightarrow> \<exists>t. (g, t) \<in> set (v_groups v) \<and> i = atoi t)"
proof -
  have spec: "sqlite_spec sq tb" and sch: "dev_schema (tb db)" and v: "view (tb db) = v" "v_groups v = groups (tb db)"
    using assms(1) by (auto simp: dev_file_def view_def)
  obtain db' where db': "tb db' = tb db" "dev_database_open sq db = (True, db')" using opened_dev [OF spec sch] by blast
  let ?w = "Equal ''F_GROUPNAME'' (Const g)" and ?ns = "[''F_ID'', ''F_GROUPNAME'']"
  let ?xs = "filter (holds ?ns ?w) (group_rows (tb db))"
  have sel: "run_query (Select [''F_ID''] ''grouptable'' ?w) (tb db') = Some (map (project ?ns [''F_ID'']) ?xs)"
    unfolding db'(1) by (rule select_group [OF sch]) simp_all
  obtain rs where rs: "query sq 1024 (''select F_ID from grouptable where F_GROUPNAME='' @ quoted g) db' = Some rs"
      "if ?xs = [] then rs = [] else \<exists>x\<in>set ?xs. \<exists>rest. rs = project ?ns [''F_ID''] x # rest"
    using query_first [OF spec parse_other_queries(1) sel, where n = 1024] argD [OF assms(2)] by auto
  have xs: "r \<in> set ?xs \<longleftrightarrow> r \<in> set (group_rows (tb db)) \<and> r ! 1 = g" for r
    using row_lengths(3) [OF sch] cell_group(2) by auto
  have proj: "r \<in> set (group_rows (tb db)) \<Longrightarrow> project ?ns [''F_ID''] r = [r ! 0]" for r
    using cell_group(1) [OF row_lengths(3) [OF sch]] by (simp add: project_def)
  define res where "res = (case rs of [] \<Rightarrow> None | r # _ \<Rightarrow> Some (atoi (r ! 0)))"
  have "case res of None \<Rightarrow> g \<notin> fst ` set (v_groups v) | Some i \<Rightarrow> \<exists>t. (g, t) \<in> set (v_groups v) \<and> i = atoi t"
    and "rs = [] \<or> (\<exists>c rest. rs = [c] # rest)"
    using rs(2) xs proj by (force simp: res_def v(2) groups_def filter_empty_conv image_iff split: if_splits)+
  moreover have "leaves tb (GetGroupIDByName sq g db) res v" if "rs = [] \<or> (\<exists>c rest. rs = [c] # rest)"
    using rs(1) db' sch v that by (auto simp: GetGroupIDByName_def on_db_def leaves_def first_cell_def mget_def res_def)
  ultimately show ?thesis by blast
qed

lemma GetDevIPByMac_leaves:
  assumes "dev_file sq tb db v" "arg mac"
  shows "\<exists>r. leaves tb (GetDevIPByMac sq mac db) r v \<and>
    (case r of None \<Rightarrow> mac \<notin> fst ` set (v_addresses v) | Some ip \<Rightarrow> (mac, ip) \<in> set (v_addresses v))"
proof -
  have spec: "sqlite_spec sq tb" and sch: "dev_schema (tb db)" and v: "view (tb db) = v" "v_addresses v = addresses (tb db)"
    using assms(1) by (auto simp: dev_file_def view_def)
  obtain db' where db': "tb db' = tb db" "dev_database_open sq db = (True, db')" using opened_dev [OF spec sch] by blast
  let ?w = "Equal ''F_MAC'' (Const mac)" and ?ns = "[''F_MAC'', ''F_IP'']"
  let ?xs = "filter (holds ?ns ?w) (dynamic_rows (tb db))"
  have sel: "run_query (Select [''F_IP''] ''dynamictable'' ?w) (tb db') = Some (map (project ?ns [''F_IP'']) ?xs)"
    unfolding db'(1) by (rule select_dynamic [OF sch]) simp_all
  obtain rs where rs: "query sq 1024 (''select F_IP from dynamictable where F_MAC='' @ quoted mac) db' = Some rs"
      "if ?xs = [] then rs = [] else \<exists>x\<in>set ?xs. \<exists>rest. rs = project ?ns [''F_IP''] x # rest"
    using query_first [OF spec parse_other_queries(4) sel, where n = 1024] argD [OF assms(2)] by auto
  have xs: "r \<in> set ?xs \<longleftrightarrow> r \<in> set (dynamic_rows (tb db)) \<and> r ! 0 = mac" for r
    using row_lengths(2) [OF sch] cell_dynamic(1) by auto
  have proj: "r \<in> set (dynamic_rows (tb db)) \<Longrightarrow> project ?ns [''F_IP''] r = [r ! 1]" for r
    using cell_dynamic(2) [OF row_lengths(2) [OF sch]] by (simp add: project_def)
  define res where "res = (case rs of [] \<Rightarrow> None | r # _ \<Rightarrow> Some (r ! 0))"
  have "case res of None \<Rightarrow> mac \<notin> fst ` set (v_addresses v) | Some ip \<Rightarrow> (mac, ip) \<in> set (v_addresses v)"
    and "rs = [] \<or> (\<exists>c rest. rs = [c] # rest)"
    using rs(2) xs proj by (force simp: res_def v(2) addresses_def filter_empty_conv image_iff split: if_splits)+
  moreover have "leaves tb (GetDevIPByMac sq mac db) res v" if "rs = [] \<or> (\<exists>c rest. rs = [c] # rest)"
    using rs(1) db' sch v that by (auto simp: GetDevIPByMac_def on_db_def leaves_def first_cell_def mget_def res_def)
  ultimately show ?thesis by blast
qed

lemma isMacExistInDynamicTable_leaves:
  assumes "dev_file sq tb db v" "arg mac"
  shows "leaves tb (isMacExistInDynamicTable sq mac db) (mac \<in> fst ` set (v_addresses v)) v"
proof -
  have spec: "sqlite_spec sq tb" and sch: "dev_schema (tb db)" and v: "v_addresses v = addresses (tb db)"
    using assms(1) by (auto simp: dev_file_def view_def)
  let ?w = "Equal ''F_MAC'' (Const mac)" and ?ns = "[''F_MAC'', ''F_IP'']"
  show ?thesis
    unfolding isMacExistInDynamicTable_def
  proof (rule query_exists [OF assms(1) parse_other_queries(3) select_dynamic])
    show "(map (project ?ns []) (filter (holds ?ns ?w) (dynamic_rows (tb db))) \<noteq> []) =
        (mac \<in> fst ` set (v_addresses v))"
      using row_lengths(2) [OF sch] cell_dynamic(1) by (auto simp: v addresses_def filter_empty_conv image_iff)
  qed (use argD [OF assms(2)] sch in simp_all)
qed

subsection \<open>Updates\<close>

text \<open>A table replaced by one with the same columns.\<close>

lemma replace_static:
  assumes "dev_schema T" "T ''statictable'' = Some s" "columns s' = columns s" "\<forall>r\<in>set (rows s'). length r = 7"
  shows "dev_schema (T(''statictable'' \<mapsto> s'))"
    "view (T(''statictable'' \<mapsto> s')) = (view T)\<lparr>v_devices := map device_of (rows s'), v_last_dev := last_id s'\<rparr>"
  using assms
  by (auto simp: dev_schema_def table_names_def conforms_def view_def devices_def addresses_def groups_def static_rows_def
      dynamic_rows_def group_rows_def static_names_def)

lemma replace_dynamic:
  assumes "dev_schema T" "T ''dynamictable'' = Some s" "columns s' = columns s" "\<forall>r\<in>set (rows s'). length r = 2"
  shows "dev_schema (T(''dynamictable'' \<mapsto> s'))"
    "view (T(''dynamictable'' \<mapsto> s')) = (view T)\<lparr>v_addresses := map (\<lambda>r. (r ! 0, r ! 1)) (rows s')\<rparr>"
  using assms
  by (auto simp: dev_schema_def table_names_def conforms_def view_def devices_def addresses_def groups_def static_rows_def
      dynamic_rows_def group_rows_def static_names_def)

lemma replace_group:
  assumes "dev_schema T" "T ''grouptable'' = Some s" "columns s' = columns s" "\<forall>r\<in>set (rows s'). length r = 2"
  shows "dev_schema (T(''grouptable'' \<mapsto> s'))"
    "view (T(''grouptable'' \<mapsto> s')) = (view T)\<lparr>v_groups := map (\<lambda>r. (r ! 1, r ! 0)) (rows s'), v_last_group := last_id s'\<rparr>"
  using assms
  by (auto simp: dev_schema_def table_names_def conforms_def view_def devices_def addresses_def groups_def static_rows_def
      dynamic_rows_def group_rows_def static_names_def)

lemma exec_leaves:
  assumes "dev_file sq tb db v" "parse_sql s = Some u" "\<not> is_query u" "run_update u (tb db) = Some T" "length s < n"
    "dev_schema T" "view T = v'"
  shows "leaves tb (on_dev sq f (exec_sql sq n s) db) True v'"
  using yields_exec [where tb = tb and db = db and f = f and sq = sq, OF _ _ assms(2-5)] assms(1,6,7)
  by (auto simp: dev_file_def intro: leaves_yields)

lemma insertIntoStaticTable_leaves:
  assumes "dev_file sq tb db v" "arg mac" "arg name" "arg u" "g < 2147483648"
  shows "leaves tb (insertIntoStaticTable sq mac name u (int g) n t db) True
    (v\<lparr>v_devices := v_devices v @ [\<lparr>dev_id = dec (int (v_last_dev v + 1)), dev_mac = mac, dev_name = name, dev_unicode = u,
        dev_group = dec (int g), dev_number = dec (int (unat n)), dev_kind = dec (int (unat t))\<rparr>],
      v_last_dev := v_last_dev v + 1\<rparr>)"
proof -
  have sch: "dev_schema (tb db)" and v: "view (tb db) = v" using assms(1) by (auto simp: dev_file_def)
  obtain s where s: "tb db ''statictable'' = Some s" "conforms static_names s" using sch by (rule dev_schemaE)
  let ?vs = "[mac, name, u, dec (int g), dec (int (unat n)), dec (int (unat t))]"
  let ?cs = "[''F_MAC'', ''F_NAME'', ''F_UNICODE'', ''F_GROUPID'', ''F_DEVNUMBER'', ''F_DEVTYPE'']"
  let ?s' = "s\<lparr>rows := rows s @ [new_row s ?cs ?vs], last_id := last_id s + 1\<rparr>"
  have new: "new_row s ?cs ?vs = [dec (int (last_id s + 1)), mac, name, u, dec (int g), dec (int (unat n)), dec (int (unat t))]"
    using s(2) by (simp add: new_row_def conforms_def plain_columns_def static_names_def add.commute)
  have len: "length (dec (int g)) \<le> 10" "length (dec (int (unat n))) \<le> 10" "length (dec (int (unat t))) \<le> 10"
    by (rule length_dec, use assms(5) unat_u8_less [of n] unat_u8_less [of t] in simp)+
  have "run_update (Insert ''statictable'' ?cs ?vs) (tb db) = Some ((tb db)(''statictable'' \<mapsto> ?s'))"
    using s by (simp add: names_conforms)
  moreover have "\<forall>r\<in>set (rows ?s'). length r = 7" using s(2) new by (auto simp: conforms_def static_names_def)
  note rep = replace_static [OF sch s(1) _ this]
  have "v_devices v = map device_of (rows s)" "v_last_dev v = last_id s"
    using s(1) by (auto simp: v [symmetric] view_def devices_def static_rows_def)
  then have "view ((tb db)(''statictable'' \<mapsto> ?s')) =
      v\<lparr>v_devices := v_devices v @ [\<lparr>dev_id = dec (int (v_last_dev v + 1)), dev_mac = mac, dev_name = name, dev_unicode = u,
        dev_group = dec (int g), dev_number = dec (int (unat n)), dev_kind = dec (int (unat t))\<rparr>],
      v_last_dev := v_last_dev v + 1\<rparr>"
    using rep(2) by (simp only: new v) (simp add: device_of_def)
  ultimately show ?thesis
    unfolding insertIntoStaticTable_def using assms(1) rep(1) argD(1) [OF assms(2)] argD(1) [OF assms(3)] argD(1) [OF assms(4)]
    by (intro exec_leaves [OF _ parse_static_updates(1)])
       (use argD(2) [OF assms(2)] argD(2) [OF assms(3)] argD(2) [OF assms(4)] len in \<open>simp_all\<close>)
qed

text \<open>Updates and deletions of the devices with an address and a name.\<close>

lemma update_static:
  assumes "dev_file sq tb db v" "parse_sql s = Some (Update ''statictable'' vs w)" "set (map fst vs) \<subseteq> set static_names"
    "known static_names w" "length s < n"
    "\<And>r. length r = 7 \<Longrightarrow> device_of (if holds static_names w r then update_row static_names vs r else r) = f (device_of r)"
  shows "leaves tb (on_dev sq False (exec_sql sq n s) db) True (v\<lparr>v_devices := map f (v_devices v)\<rparr>)"
proof -
  have sch: "dev_schema (tb db)" and v: "view (tb db) = v" using assms(1) by (auto simp: dev_file_def)
  obtain t where t: "tb db ''statictable'' = Some t" "conforms static_names t" using sch by (rule dev_schemaE)
  let ?up = "\<lambda>r. if holds static_names w r then update_row static_names vs r else r"
  let ?t' = "t\<lparr>rows := map ?up (rows t)\<rparr>"
  have run: "run_update (Update ''statictable'' vs w) (tb db) = Some ((tb db)(''statictable'' \<mapsto> ?t'))"
    using assms(3,4) by (simp only: run_update.simps t(1) bind.bind_lunit names_conforms [OF t(2)]) simp
  have len: "r \<in> set (rows t) \<Longrightarrow> length r = 7" for r using t(2) by (auto simp: conforms_def static_names_def)
  have "\<forall>r\<in>set (rows ?t'). length r = 7" using len by (auto simp: update_row_def static_names_def)
  note rep = replace_static [OF sch t(1) _ this]
  have "v_devices v = map device_of (rows t)" "v_last_dev v = last_id t"
    using t(1) by (auto simp: v [symmetric] view_def devices_def static_rows_def)
  moreover have "map device_of (map ?up (rows t)) = map f (map device_of (rows t))"
    using len assms(6) by simp
  ultimately have vw: "view ((tb db)(''statictable'' \<mapsto> ?t')) = v\<lparr>v_devices := map f (v_devices v)\<rparr>"
    using rep(2) v by simp
  show ?thesis
    by (rule exec_leaves [OF assms(1,2) _ run assms(5) rep(1) vw]) simp_all
qed

lemma device_update_row:
  assumes "length r = 7"
  shows "device_of (update_row static_names [(''F_GROUPID'', g)] r) = (device_of r)\<lparr>dev_group := g\<rparr>"
    "device_of (update_row static_names [(''F_NAME'', m), (''F_UNICODE'', u)] r) = (device_of r)\<lparr>dev_name := m, dev_unicode := u\<rparr>"
  by (subst row_of_7 [OF assms], simp add: update_row_def static_names_def device_of_def)+

lemma UpdateDevGroupIDByMacAndName_leaves:
  assumes "dev_file sq tb db v" "arg mac" "arg name" "g < 2147483648"
  shows "leaves tb (UpdateDevGroupIDByMacAndName sq mac name (int g) db) True
    (v\<lparr>v_devices := map (\<lambda>d. if dev_mac d = mac \<and> dev_name d = name then d\<lparr>dev_group := dec (int g)\<rparr> else d) (v_devices v)\<rparr>)"
  unfolding UpdateDevGroupIDByMacAndName_def
  using argD [OF assms(2)] argD [OF assms(3)] length_dec [OF assms(4)]
  by (intro update_static [OF assms(1) parse_static_updates(2)]) (simp_all add: cell_static device_update_row)

lemma UpdateDevNameByMacAndOldname_leaves:
  assumes "dev_file sq tb db v" "arg mac" "arg old" "arg name" "arg u"
  shows "leaves tb (UpdateDevNameByMacAndOldname sq mac old name u db) True
    (v\<lparr>v_devices := map (\<lambda>d. if dev_mac d = mac \<and> dev_name d = old then d\<lparr>dev_name := name, dev_unicode := u\<rparr> else d)
      (v_devices v)\<rparr>)"
  unfolding UpdateDevNameByMacAndOldname_def
  using argD [OF assms(2)] argD [OF assms(3)] argD [OF assms(4)] argD [OF assms(5)]
  by (intro update_static [OF assms(1) parse_static_updates(4)]) (simp_all add: cell_static device_update_row)

lemma deleteFromStaticTable_leaves:
  assumes "dev_file sq tb db v" "arg mac" "arg name"
  shows "leaves tb (deleteFromStaticTable sq mac name db) True
    (v\<lparr>v_devices := filter (\<lambda>d. \<not> (dev_mac d = mac \<and> dev_name d = name)) (v_devices v)\<rparr>)"
proof -
  have sch: "dev_schema (tb db)" and v: "view (tb db) = v" using assms(1) by (auto simp: dev_file_def)
  obtain t where t: "tb db ''statictable'' = Some t" "conforms static_names t" using sch by (rule dev_schemaE)
  let ?w = "Conj (Equal ''F_MAC'' (Const mac)) (Equal ''F_NAME'' (Const name))"
  let ?t' = "t\<lparr>rows := filter (\<lambda>r. \<not> holds static_names ?w r) (rows t)\<rparr>"
  have run: "run_update (Delete ''statictable'' ?w) (tb db) = Some ((tb db)(''statictable'' \<mapsto> ?t'))"
    using t by (simp add: names_conforms)
  have len: "r \<in> set (rows t) \<Longrightarrow> length r = 7" for r using t(2) by (auto simp: conforms_def static_names_def)
  then have "\<forall>r\<in>set (rows ?t'). length r = 7" by simp
  note rep = replace_static [OF sch t(1) _ this]
  have "v_devices v = map device_of (rows t)" "v_last_dev v = last_id t"
    using t(1) by (auto simp: v [symmetric] view_def devices_def static_rows_def)
  moreover have "map device_of (filter (\<lambda>r. \<not> holds static_names ?w r) (rows t)) =
      filter (\<lambda>d. \<not> (dev_mac d = mac \<and> dev_name d = name)) (map device_of (rows t))"
    using len by (simp add: filter_map o_def cell_static cong: filter_cong)
  ultimately have vw: "view ((tb db)(''statictable'' \<mapsto> ?t')) =
      v\<lparr>v_devices := filter (\<lambda>d. \<not> (dev_mac d = mac \<and> dev_name d = name)) (v_devices v)\<rparr>"
    using rep(2) v by simp
  show ?thesis
    unfolding deleteFromStaticTable_def
    by (rule exec_leaves [OF assms(1) parse_static_updates(3) [where u = "[]" and old = "[]"] _ run _ rep(1) vw])
       (use argD [OF assms(2)] argD [OF assms(3)] in simp_all)
qed

text \<open>Groups and addresses.\<close>

lemma AddDevGroupName_leaves:
  assumes "dev_file sq tb db v" "arg g"
  shows "leaves tb (AddDevGroupName sq g db) (g \<notin> fst ` set (v_groups v))
    (if g \<in> fst ` set (v_groups v) then v
     else v\<lparr>v_groups := v_groups v @ [(g, dec (int (v_last_group v + 1)))], v_last_group := v_last_group v + 1\<rparr>)"
proof -
  have spec: "sqlite_spec sq tb" and sch: "dev_schema (tb db)" and v: "view (tb db) = v" using assms(1) by (auto simp: dev_file_def)
  obtain db' where db': "tb db' = tb db" "dev_database_open sq db = (True, db')" using opened_dev [OF spec sch] by blast
  obtain t where t: "tb db ''grouptable'' = Some t" "conforms [''F_ID'', ''F_GROUPNAME''] t" "group_rows (tb db) = rows t"
    using sch by (rule dev_schemaE)
  have vg: "v_groups v = map (\<lambda>r. (r ! 1, r ! 0)) (rows t)" "v_last_group v = last_id t"
    using t by (auto simp: v [symmetric] view_def groups_def)
  let ?w = "Equal ''F_GROUPNAME'' (Const g)" and ?ns = "[''F_ID'', ''F_GROUPNAME'']"
  have sel: "run_query (Select [] ''grouptable'' ?w) (tb db') = Some (map (project ?ns []) (filter (holds ?ns ?w) (rows t)))"
    unfolding db'(1) using t(3) by (subst select_group [OF sch]) simp_all
  obtain rs where rs: "query sq 1024 (''select * from grouptable where F_GROUPNAME='' @ quoted g) db' = Some rs"
      "if filter (holds ?ns ?w) (rows t) = [] then rs = [] else \<exists>x\<in>set (filter (holds ?ns ?w) (rows t)). \<exists>rest. rs = project ?ns [] x # rest"
    using query_first [OF spec parse_other_queries(2) sel, where n = 1024] argD [OF assms(2)] by auto
  have "rs \<noteq> [] \<longleftrightarrow> (\<exists>r\<in>set (rows t). holds ?ns ?w r)" using rs(2) by (auto simp: filter_empty_conv split: if_splits)
  also have "\<dots> \<longleftrightarrow> g \<in> fst ` set (v_groups v)"
    using row_lengths(3) [OF sch] cell_group(2) t(3) by (auto simp: vg image_iff)
  finally have ex: "rs \<noteq> [] \<longleftrightarrow> g \<in> fst ` set (v_groups v)" .
  show ?thesis
  proof (cases "g \<in> fst ` set (v_groups v)")
    case True
    then show ?thesis using rs(1) ex db' sch v by (simp add: AddDevGroupName_def on_db_def leaves_def)
  next
    case False
    let ?t' = "t\<lparr>rows := rows t @ [new_row t [''F_GROUPNAME''] [g]], last_id := last_id t + 1\<rparr>"
    have new: "new_row t [''F_GROUPNAME''] [g] = [dec (int (last_id t + 1)), g]"
      using t(2) by (simp add: new_row_def conforms_def plain_columns_def add.commute)
    have run: "run_update (Insert ''grouptable'' [''F_GROUPNAME''] [g]) (tb db') = Some ((tb db)(''grouptable'' \<mapsto> ?t'))"
      using t db'(1) by (simp add: names_conforms)
    have "\<forall>r\<in>set (rows ?t'). length r = 2" using t(2) new by (auto simp: conforms_def)
    note rep = replace_group [OF sch t(1) _ this]
    have "\<exists>db2. sql_exec sq (''insert into grouptable(F_GROUPNAME) values('' @ quoted g @ '')'') db' = (True, db2) \<and>
        tb db2 = (tb db)(''grouptable'' \<mapsto> ?t')"
      by (rule spec_exec(1) [OF spec parse_other_updates(1) [where mac = "[]"] _ run]) (simp_all add: argD [OF assms(2)])
    then obtain db2 where "sql_exec sq (''insert into grouptable(F_GROUPNAME) values('' @ quoted g @ '')'') db' = (True, db2)"
        "tb db2 = (tb db)(''grouptable'' \<mapsto> ?t')" by blast
    then show ?thesis
      using False rs(1) ex db' rep v argD [OF assms(2)]
      by (simp add: AddDevGroupName_def on_db_def leaves_def exec_sql_def fits_def new vg)
  qed
qed

lemma insertIntoDynamicTable_leaves:
  assumes "dev_file sq tb db v" "arg mac" "arg ip"
  shows "leaves tb (insertIntoDynamicTable sq mac ip db) True (v\<lparr>v_addresses := v_addresses v @ [(mac, ip)]\<rparr>)"
proof -
  have sch: "dev_schema (tb db)" and v: "view (tb db) = v" using assms(1) by (auto simp: dev_file_def)
  obtain t where t: "tb db ''dynamictable'' = Some t" "conforms [''F_MAC'', ''F_IP''] t" "dynamic_rows (tb db) = rows t"
    using sch by (rule dev_schemaE)
  let ?t' = "t\<lparr>rows := rows t @ [new_row t [] [mac, ip]], last_id := last_id t + 1\<rparr>"
  have nm: "names t = [''F_MAC'', ''F_IP'']" by (rule names_conforms [OF t(2)])
  have new: "new_row t [] [mac, ip] = [mac, ip]"
    using t(2) by (simp add: new_row_def nm conforms_def plain_columns_def)
  have run: "run_update (Insert ''dynamictable'' [] [mac, ip]) (tb db) = Some ((tb db)(''dynamictable'' \<mapsto> ?t'))"
    using t by (simp add: nm)
  have "\<forall>r\<in>set (rows ?t'). length r = 2" using t(2) new by (auto simp: conforms_def)
  note rep = replace_dynamic [OF sch t(1) _ this]
  have vw: "view ((tb db)(''dynamictable'' \<mapsto> ?t')) = v\<lparr>v_addresses := v_addresses v @ [(mac, ip)]\<rparr>"
    using rep(2) v t(3) by (simp add: new) (simp add: v [symmetric] view_def addresses_def)
  show ?thesis
    unfolding insertIntoDynamicTable_def
    by (rule exec_leaves [OF assms(1) parse_other_updates(2) _ run _ rep(1) vw])
       (use argD [OF assms(2)] argD [OF assms(3)] in simp_all)
qed

lemma UpdateDevIPByMac_leaves:
  assumes "dev_file sq tb db v" "arg mac" "arg ip"
  shows "leaves tb (UpdateDevIPByMac sq mac ip db) True
    (v\<lparr>v_addresses := map (\<lambda>(m, i). (m, if m = mac then ip else i)) (v_addresses v)\<rparr>)"
proof -
  have sch: "dev_schema (tb db)" and v: "view (tb db) = v" using assms(1) by (auto simp: dev_file_def)
  obtain t where t: "tb db ''dynamictable'' = Some t" "conforms [''F_MAC'', ''F_IP''] t" "dynamic_rows (tb db) = rows t"
    using sch by (rule dev_schemaE)
  let ?ns = "[''F_MAC'', ''F_IP'']" and ?w = "Equal ''F_MAC'' (Const mac)"
  let ?up = "\<lambda>r. if holds ?ns ?w r then update_row ?ns [(''F_IP'', ip)] r else r"
  let ?t' = "t\<lparr>rows := map ?up (rows t)\<rparr>"
  have run: "run_update (Update ''dynamictable'' [(''F_IP'', ip)] ?w) (tb db) = Some ((tb db)(''dynamictable'' \<mapsto> ?t'))"
    by (simp only: run_update.simps t(1) bind.bind_lunit names_conforms [OF t(2)]) simp
  have len: "r \<in> set (rows t) \<Longrightarrow> length r = 2" for r using t(2) by (auto simp: conforms_def)
  have "\<forall>r\<in>set (rows ?t'). length r = 2" using len by (auto simp: update_row_def)
  note rep = replace_dynamic [OF sch t(1) _ this]
  have "(?up r ! 0, ?up r ! 1) = (r ! 0, if r ! 0 = mac then ip else r ! 1)" if "length r = 2" for r
    by (subst (1 2 3 4 5 6) row_of_2 [OF that]) (simp add: cell_def update_row_def)
  then have "map (\<lambda>r. (r ! 0, r ! 1)) (rows ?t') = map (\<lambda>(m, i). (m, if m = mac then ip else i)) (v_addresses v)"
    using len t(3) by (simp add: v [symmetric] view_def addresses_def)
  then have vw: "view ((tb db)(''dynamictable'' \<mapsto> ?t')) =
      v\<lparr>v_addresses := map (\<lambda>(m, i). (m, if m = mac then ip else i)) (v_addresses v)\<rparr>"
    using rep(2) v by simp
  show ?thesis
    unfolding UpdateDevIPByMac_def
    by (rule exec_leaves [OF assms(1) parse_other_updates(3) _ run _ rep(1) vw])
       (use argD [OF assms(2)] argD [OF assms(3)] in simp_all)
qed

end
