(* ===== verification/Dev_Manage.thy ===== *)
theory Dev_Manage
  imports Dev_Tables
begin

text \<open>
  The device manager on its database: what adding, reporting, removing, renaming and regrouping a device
  (\<open>dev_add.c\<close>, \<open>dev_del.c\<close>, \<open>dev_edit.c\<close> over \<open>dev_db.c\<close>) does to the devices, addresses and groups, the
  invariant they keep, and what an argument with a quote can do.
\<close>

subsection \<open>The operations on the abstract contents\<close>

definition with_group :: "string \<Rightarrow> dev_view \<Rightarrow> dev_view" where
  "with_group g v =
     (if g \<in> fst ` set (v_groups v) then v
      else v\<lparr>v_groups := v_groups v @ [(g, dec (int (v_last_group v + 1)))], v_last_group := v_last_group v + 1\<rparr>)"

definition group_number :: "string \<Rightarrow> dev_view \<Rightarrow> string" where
  "group_number g v = (case map_of (v_groups v) g of None \<Rightarrow> [] | Some t \<Rightarrow> t)"

definition add_device :: "string \<Rightarrow> string \<Rightarrow> string \<Rightarrow> string \<Rightarrow> u8 \<Rightarrow> u8 \<Rightarrow> dev_view \<Rightarrow> dev_view" where
  "add_device mac name u g n t v =
     (let w = with_group g v in
      w\<lparr>v_devices := v_devices w @ [\<lparr>dev_id = dec (int (v_last_dev v + 1)), dev_mac = mac, dev_name = name, dev_unicode = u,
          dev_group = group_number g w, dev_number = dec (int (unat n)), dev_kind = dec (int (unat t))\<rparr>],
        v_last_dev := v_last_dev v + 1\<rparr>)"

definition has_device :: "string \<Rightarrow> string \<Rightarrow> dev_view \<Rightarrow> bool" where
  "has_device mac name v \<longleftrightarrow> (\<exists>d\<in>set (v_devices v). dev_mac d = mac \<and> dev_name d = name)"

definition change_device :: "string \<Rightarrow> string \<Rightarrow> (device \<Rightarrow> device) \<Rightarrow> dev_view \<Rightarrow> dev_view" where
  "change_device mac name f v =
     v\<lparr>v_devices := map (\<lambda>d. if dev_mac d = mac \<and> dev_name d = name then f d else d) (v_devices v)\<rparr>"

datatype dev_op =
    Add string string string string u8 u8 \<comment> \<open>address, name, name in UCS-2, group, number, type\<close>
  | Report string string
  | Remove string string
  | Rename string string string string \<comment> \<open>address, old name, new name, new name in UCS-2\<close>
  | Regroup string string string

fun view_step :: "dev_op \<Rightarrow> dev_view \<Rightarrow> dev_view" where
  "view_step (Add mac name u g n t) v =
     (if add_check (v_devices v) mac name n = DEV_ADD_OK then add_device mac name u g n t v else v)"
| "view_step (Report mac ip) v =
     (if mac \<in> fst ` set (v_addresses v)
      then v\<lparr>v_addresses := map (\<lambda>(m, i). (m, if m = mac then ip else i)) (v_addresses v)\<rparr>
      else v\<lparr>v_addresses := v_addresses v @ [(mac, ip)]\<rparr>)"
| "view_step (Remove mac name) v =
     v\<lparr>v_devices := filter (\<lambda>d. \<not> (dev_mac d = mac \<and> dev_name d = name)) (v_devices v)\<rparr>"
| "view_step (Rename mac old name u) v =
     (if has_device mac old v \<and> \<not> (\<exists>d\<in>set (v_devices v). dev_name d = name)
      then change_device mac old (\<lambda>d. d\<lparr>dev_name := name, dev_unicode := u\<rparr>) v else v)"
| "view_step (Regroup mac name g) v =
     (if has_device mac name v \<and> g \<in> fst ` set (v_groups v)
      then change_device mac name (\<lambda>d. d\<lparr>dev_group := group_number g v\<rparr>) v else v)"

text \<open>The calls of the code.\<close>

fun dev_step :: "'db sqlite \<Rightarrow> dev_op \<Rightarrow> 'db \<Rightarrow> 'db option" where
  "dev_step sq (Add mac name u g n t) db = map_option snd (AddDevToStaticTable sq mac name u g n t db)"
| "dev_step sq (Report mac ip) db = map_option snd (AddDevToDynamicTable sq mac ip db)"
| "dev_step sq (Remove mac name) db = map_option snd (RemoveDevFromStaticTable sq mac name db)"
| "dev_step sq (Rename mac old name u) db = map_option snd (UpdateDevDisplayName sq mac old name u db)"
| "dev_step sq (Regroup mac name g) db = map_option snd (UpdateDevGroupName sq mac name g db)"

fun op_ok :: "dev_op \<Rightarrow> bool" where
  "op_ok (Add mac name u g n t) \<longleftrightarrow> arg mac \<and> arg name \<and> arg u \<and> arg g"
| "op_ok (Report mac ip) \<longleftrightarrow> arg mac \<and> arg ip"
| "op_ok (Remove mac name) \<longleftrightarrow> arg mac \<and> arg name"
| "op_ok (Rename mac old name u) \<longleftrightarrow> arg mac \<and> arg old \<and> arg name \<and> arg u"
| "op_ok (Regroup mac name g) \<longleftrightarrow> arg mac \<and> arg name \<and> arg g"

subsection \<open>Invariant\<close>

text \<open>
  Numbers and names identify a device; devices with the same address have different numbers, none of them 0;
  every device is in a group; an address is reported once; names and numbers identify a group.
\<close>

definition numbered :: "string list \<Rightarrow> nat \<Rightarrow> bool" where
  "numbered ids n \<longleftrightarrow> distinct ids \<and> n < 2147483648 \<and> (\<forall>i\<in>set ids. \<exists>k\<le>n. i = dec (int k))"

definition apart :: "device \<Rightarrow> device \<Rightarrow> bool" where
  "apart d e \<longleftrightarrow> dev_name d \<noteq> dev_name e \<and>
     (dev_mac d = dev_mac e \<longrightarrow> dev_number d \<noteq> dev_number e \<and> dev_number d \<noteq> ''0'' \<and> dev_number e \<noteq> ''0'')"

definition groups_ok :: "dev_view \<Rightarrow> bool" where
  "groups_ok v \<longleftrightarrow> distinct (map fst (v_groups v)) \<and> numbered (map snd (v_groups v)) (v_last_group v)"

definition view_ok :: "dev_view \<Rightarrow> bool" where
  "view_ok v \<longleftrightarrow>
     numbered (map dev_id (v_devices v)) (v_last_dev v) \<and> sorted_wrt apart (v_devices v) \<and> groups_ok v \<and>
     (\<forall>d\<in>set (v_devices v). dev_group d \<in> snd ` set (v_groups v)) \<and> distinct (map fst (v_addresses v))"

lemma numbered_snoc:
  assumes "numbered ids n" "n + 1 < 2147483648"
  shows "numbered (ids @ [dec (int (n + 1))]) (n + 1)"
proof -
  have "dec (int (n + 1)) \<notin> set ids"
  proof
    assume "dec (int (n + 1)) \<in> set ids"
    then obtain k where "k \<le> n" "dec (int (n + 1)) = dec (int k)" using assms(1) by (auto simp: numbered_def)
    then show False using dec_inject [of "n + 1" k] assms(2) by simp
  qed
  then show ?thesis using assms by (auto simp: numbered_def le_Suc_eq simp del: of_nat_Suc)
qed

lemma numbered_subset: "numbered ids n \<Longrightarrow> distinct ids' \<Longrightarrow> set ids' \<subseteq> set ids \<Longrightarrow> numbered ids' n"
  by (auto simp: numbered_def)

lemma with_group_ok:
  assumes "groups_ok v" "v_last_group v + 1 < 2147483648"
  shows "groups_ok (with_group g v)" "g \<in> fst ` set (v_groups (with_group g v))"
    "set (v_groups v) \<subseteq> set (v_groups (with_group g v))" "v_last_group (with_group g v) \<le> v_last_group v + 1"
    "v_devices (with_group g v) = v_devices v" "v_last_dev (with_group g v) = v_last_dev v"
    "v_addresses (with_group g v) = v_addresses v"
  using assms numbered_snoc [of "map snd (v_groups v)" "v_last_group v"] by (auto simp: with_group_def groups_ok_def)

text \<open>The number of a known group is the text of a number in range.\<close>

lemma group_number_known:
  assumes "groups_ok v" "(g, t) \<in> set (v_groups v)"
  shows "group_number g v = t" "\<exists>k<2147483648. t = dec (int k)"
proof -
  show "group_number g v = t" using assms by (simp add: group_number_def groups_ok_def)
  have "t \<in> set (map snd (v_groups v))" using assms(2) by force
  then obtain k where "k \<le> v_last_group v" "t = dec (int k)" using assms(1) unfolding groups_ok_def numbered_def by blast
  moreover have "v_last_group v < 2147483648" using assms(1) by (simp add: groups_ok_def numbered_def)
  ultimately show "\<exists>k<2147483648. t = dec (int k)" by (intro exI [of _ k]) simp
qed

lemma dec_zero: "dec 0 = ''0''"
  by code_simp

lemma add_check_apart:
  assumes "add_check ds mac name n = DEV_ADD_OK" "d \<in> set ds" "dev_mac e = mac" "dev_name e = name" "dev_number e = dec (int (unat n))"
  shows "apart d e"
proof -
  have ok: "dev_mac d \<noteq> mac \<or> n \<noteq> 0 \<and> dev_number d \<noteq> dec (int (unat n)) \<and> dev_number d \<noteq> ''0''" "dev_name d \<noteq> name"
    using assms(1,2) by (auto simp: add_check_def split: if_splits)
  have "n \<noteq> 0 \<Longrightarrow> dec (int (unat n)) \<noteq> dec (int 0)"
    using dec_inject [of "unat n" 0] unat_u8_less [of n] by (simp add: unat_eq_zero del: of_nat_0)
  then have "n \<noteq> 0 \<Longrightarrow> dec (int (unat n)) \<noteq> ''0''" by (simp add: dec_zero)
  then show ?thesis using ok assms(3-5) by (auto simp: apart_def)
qed

lemma view_ok_add [inv_intros]:
  assumes "view_ok v" "v_last_dev v + 1 < 2147483648" "v_last_group v + 1 < 2147483648"
    "add_check (v_devices v) mac name n = DEV_ADD_OK"
  shows "view_ok (add_device mac name u g n t v)"
proof -
  have g: "groups_ok v" using assms(1) by (simp add: view_ok_def)
  note w = with_group_ok [OF g assms(3), of g]
  obtain t where t: "(g, t) \<in> set (v_groups (with_group g v))" using w(2) by force
  then have "group_number g (with_group g v) \<in> snd ` set (v_groups (with_group g v))"
    using group_number_known(1) [OF w(1) t] by force
  then show ?thesis
    using assms(1) w(1,5,6,7) image_mono [OF w(3), of snd] numbered_snoc [of "map dev_id (v_devices v)" "v_last_dev v"] assms(2)
      add_check_apart [OF assms(4)]
    by (auto simp: view_ok_def add_device_def Let_def sorted_wrt_append groups_ok_def simp del: of_nat_Suc)
qed

lemma view_ok_report [inv_intros]: "view_ok v \<Longrightarrow> view_ok (view_step (Report mac ip) v)"
  by (auto simp: view_ok_def groups_ok_def o_def case_prod_unfold)

lemma view_ok_remove [inv_intros]:
  assumes "view_ok v"
  shows "view_ok (view_step (Remove mac name) v)"
proof -
  let ?P = "\<lambda>d. \<not> (dev_mac d = mac \<and> dev_name d = name)"
  have num: "numbered (map dev_id (v_devices v)) (v_last_dev v)" using assms by (simp add: view_ok_def)
  have "numbered (map dev_id (filter ?P (v_devices v))) (v_last_dev v)"
    by (rule numbered_subset [OF num]) (use num in \<open>auto simp: numbered_def distinct_map_filter\<close>)
  then show ?thesis using assms by (simp add: view_ok_def groups_ok_def sorted_wrt_filter)
qed

lemma sorted_wrt_change:
  assumes "sorted_wrt R xs" "\<And>x y. x \<in> set xs \<Longrightarrow> y \<in> set xs \<Longrightarrow> R x y \<Longrightarrow> R (f x) (f y)"
  shows "sorted_wrt R (map f xs)"
  using assms by (induction xs) auto

lemma change_numbers: "(\<And>d. dev_id (f d) = dev_id d) \<Longrightarrow> map dev_id (v_devices (change_device mac name f v)) = map dev_id (v_devices v)"
  by (simp add: change_device_def)

lemma view_ok_rename [inv_intros]:
  assumes "view_ok v"
  shows "view_ok (view_step (Rename mac old name u) v)"
proof (cases "has_device mac old v \<and> \<not> (\<exists>d\<in>set (v_devices v). dev_name d = name)")
  case True
  let ?f = "\<lambda>d. d\<lparr>dev_name := name, dev_unicode := u\<rparr>"
  have "sorted_wrt apart (map (\<lambda>d. if dev_mac d = mac \<and> dev_name d = old then ?f d else d) (v_devices v))"
    by (rule sorted_wrt_change) (use assms True in \<open>auto simp: view_ok_def apart_def\<close>)
  then show ?thesis
    using True assms change_numbers [of ?f mac old v]
    by (simp add: view_ok_def groups_ok_def) (auto simp: change_device_def)
next
  case False
  then show ?thesis using assms by (simp only: view_step.simps if_False)
qed

lemma view_ok_regroup [inv_intros]:
  assumes "view_ok v"
  shows "view_ok (view_step (Regroup mac name g) v)"
proof (cases "has_device mac name v \<and> g \<in> fst ` set (v_groups v)")
  case True
  let ?f = "\<lambda>d. d\<lparr>dev_group := group_number g v\<rparr>"
  have "groups_ok v" using assms by (simp add: view_ok_def)
  moreover obtain t where t: "(g, t) \<in> set (v_groups v)" using conjunct2 [OF True] by (elim imageE) (metis prod.collapse)
  ultimately have "group_number g v = t" by (rule group_number_known(1))
  then have known: "group_number g v \<in> snd ` set (v_groups v)" using imageI [OF t, of snd] by simp
  have "sorted_wrt apart (map (\<lambda>d. if dev_mac d = mac \<and> dev_name d = name then ?f d else d) (v_devices v))"
    by (rule sorted_wrt_change) (use assms in \<open>auto simp: view_ok_def apart_def\<close>)
  moreover have "numbered (map dev_id (v_devices (change_device mac name ?f v))) (v_last_dev v)"
    using assms change_numbers [of ?f mac name v] by (simp add: view_ok_def)
  moreover have "\<forall>d\<in>set (v_devices (change_device mac name ?f v)). dev_group d \<in> snd ` set (v_groups v)"
  proof -
    define S where "S = snd ` set (v_groups v)"
    have "\<forall>d\<in>set (v_devices v). dev_group d \<in> S" "group_number g v \<in> S"
      using assms known by (simp_all add: view_ok_def S_def)
    then show ?thesis unfolding S_def [symmetric] by (auto simp: change_device_def)
  qed
  ultimately have "view_ok (change_device mac name ?f v)"
    using assms by (simp add: view_ok_def groups_ok_def change_device_def)
  then show ?thesis using True by (simp only: view_step.simps simp_thms if_True)
next
  case False
  then show ?thesis using assms by (simp only: view_step.simps if_False)
qed

lemma view_step_ok:
  assumes "view_ok v" "v_last_dev v + 1 < 2147483648" "v_last_group v + 1 < 2147483648"
  shows "view_ok (view_step op v)"
  using assms by (cases op) (auto intro: inv_intros simp del: view_step.simps(2-5))

lemma view_step_numbers:
  "view_ok v \<Longrightarrow> v_last_group v + 1 < 2147483648 \<Longrightarrow>
   v_last_dev (view_step op v) \<le> v_last_dev v + 1 \<and> v_last_group (view_step op v) \<le> v_last_group v + 1"
  by (cases op) (auto simp: add_device_def Let_def with_group_def change_device_def)

subsection \<open>The code follows the abstract operations\<close>

lemma AddDevToStaticTable_leaves:
  assumes "dev_file sq tb db v" "groups_ok v" "v_last_group v + 1 < 2147483648" "arg mac" "arg name" "arg u" "arg g"
  shows "leaves tb (AddDevToStaticTable sq mac name u g n t db) (add_check (v_devices v) mac name n)
    (view_step (Add mac name u g n t) v)"
proof -
  have spec: "sqlite_spec sq tb" using assms(1) by (simp add: dev_file_def)
  let ?c = "add_check (v_devices v) mac name n" and ?w = "with_group g v"
  note w = with_group_ok [OF assms(2,3), of g]
  have insert: "leaves tb (do {
        (ok, db) \<leftarrow> insertIntoStaticTable sq mac name u i n t db2;
        Some (if ok then DEV_ADD_OK else DEV_ADD_FAIL, db) }) DEV_ADD_OK (add_device mac name u g n t v)"
    if db2: "dev_file sq tb db2 ?w" and i: "(g, tx) \<in> set (v_groups ?w)" "i = atoi tx" for db2 i tx
  proof -
    obtain k where k: "k < 2147483648" "tx = dec (int k)" "group_number g ?w = tx"
      using group_number_known [OF w(1) i(1)] by blast
    then have "i = int k" using i(2) by simp
    then show ?thesis
      using insertIntoStaticTable_leaves [OF db2 assms(4-6) k(1), of n t] w k(2,3)
      by (auto simp: leaves_def add_device_def Let_def)
  qed
  have group: "leaves tb (do {
        (gid, db) \<leftarrow> GetGroupIDByName sq g db1;
        (case gid of
           None \<Rightarrow> Some (DEV_ADD_FAIL, db)
         | Some group_id \<Rightarrow> do {
             (ok, db) \<leftarrow> insertIntoStaticTable sq mac name u group_id n t db;
             Some (if ok then DEV_ADD_OK else DEV_ADD_FAIL, db) }) }) DEV_ADD_OK (add_device mac name u g n t v)"
    if db1: "dev_file sq tb db1 ?w" for db1
  proof -
    obtain r where r: "leaves tb (GetGroupIDByName sq g db1) r ?w"
        "case r of None \<Rightarrow> g \<notin> fst ` set (v_groups ?w) | Some i \<Rightarrow> \<exists>t. (g, t) \<in> set (v_groups ?w) \<and> i = atoi t"
      using GetGroupIDByName_leaves [OF db1 assms(7)] by blast
    then obtain i tx where "r = Some i" "(g, tx) \<in> set (v_groups ?w)" "i = atoi tx" using w(2) by (cases r) auto
    then show ?thesis using r(1) insert by (intro leaves_bind [OF _ spec]) auto
  qed
  have "leaves tb (AddDevGroupName sq g db') (g \<notin> fst ` set (v_groups v)) ?w" if "dev_file sq tb db' v" for db'
    using AddDevGroupName_leaves [OF that assms(7)] by (auto simp: with_group_def)
  note add_group = this
  show ?thesis
    unfolding AddDevToStaticTable_def
  proof (rule leaves_bind [OF isMacOrNameExist_leaves [OF assms(1,4,5)] spec])
    fix db' assume db': "dev_file sq tb db' v"
    show "leaves tb (if ?c \<noteq> DEV_ADD_OK then Some (?c, db') else do {
        (_, db) \<leftarrow> AddDevGroupName sq g db';
        (gid, db) \<leftarrow> GetGroupIDByName sq g db;
        (case gid of
           None \<Rightarrow> Some (DEV_ADD_FAIL, db)
         | Some group_id \<Rightarrow> do {
             (ok, db) \<leftarrow> insertIntoStaticTable sq mac name u group_id n t db;
             Some (if ok then DEV_ADD_OK else DEV_ADD_FAIL, db) }) }) ?c (view_step (Add mac name u g n t) v)"
    proof (cases "?c = DEV_ADD_OK")
      case True
      then show ?thesis by (simp, intro leaves_bind [OF add_group [OF db'] spec] group)
    next
      case False
      then show ?thesis using db' by (simp add: leaves_def dev_file_def)
    qed
  qed
qed

lemma leaves_same: "dev_file sq tb db v \<Longrightarrow> leaves tb (Some (r, db)) r v"
  by (simp add: leaves_def dev_file_def)

lemma AddDevToDynamicTable_leaves:
  assumes "dev_file sq tb db v" "arg mac" "arg ip"
  shows "leaves tb (AddDevToDynamicTable sq mac ip db) True (view_step (Report mac ip) v)"
proof -
  have spec: "sqlite_spec sq tb" using assms(1) by (simp add: dev_file_def)
  show ?thesis
    unfolding AddDevToDynamicTable_def
    by (rule leaves_bind [OF isMacExistInDynamicTable_leaves [OF assms(1,2)] spec])
       (simp add: UpdateDevIPByMac_leaves insertIntoDynamicTable_leaves assms(2,3))
qed

lemma RemoveDevFromStaticTable_leaves:
  assumes "dev_file sq tb db v" "arg mac" "arg name"
  shows "leaves tb (RemoveDevFromStaticTable sq mac name db) (has_device mac name v) (view_step (Remove mac name) v)"
proof -
  have spec: "sqlite_spec sq tb" using assms(1) by (simp add: dev_file_def)
  have "view_step (Remove mac name) v = v" if "\<not> has_device mac name v"
    using that by (auto simp: has_device_def intro: filter_True)
  note none = this
  show ?thesis
    unfolding RemoveDevFromStaticTable_def
  proof (rule leaves_bind [OF isMacAndNameMatch_leaves [OF assms(1-3)] spec], fold has_device_def)
    fix db' assume db': "dev_file sq tb db' v"
    show "leaves tb (if \<not> has_device mac name v then Some (False, db') else deleteFromStaticTable sq mac name db')
        (has_device mac name v) (view_step (Remove mac name) v)"
    proof (cases "has_device mac name v")
      case True
      then show ?thesis using deleteFromStaticTable_leaves [OF db' assms(2,3)] by simp
    next
      case False
      then show ?thesis using leaves_same [OF db', of False] none by simp
    qed
  qed
qed

lemma UpdateDevDisplayName_leaves:
  assumes "dev_file sq tb db v" "arg mac" "arg old" "arg name" "arg u"
  shows "leaves tb (UpdateDevDisplayName sq mac old name u db)
    (has_device mac old v \<and> \<not> (\<exists>d\<in>set (v_devices v). dev_name d = name)) (view_step (Rename mac old name u) v)"
proof -
  have spec: "sqlite_spec sq tb" using assms(1) by (simp add: dev_file_def)
  let ?e = "\<exists>d\<in>set (v_devices v). dev_name d = name"
  have rename: "leaves tb (if ?e then Some (False, db') else UpdateDevNameByMacAndOldname sq mac old name u db')
      (\<not> ?e) (if \<not> ?e then change_device mac old (\<lambda>d. d\<lparr>dev_name := name, dev_unicode := u\<rparr>) v else v)"
    if "dev_file sq tb db' v" for db'
    using leaves_same [OF that, of False] UpdateDevNameByMacAndOldname_leaves [OF that assms(2-5)]
    by (cases "?e") (simp_all add: change_device_def)
  have found: "leaves tb (if has_device mac old v then do {
        (e, db) \<leftarrow> isNewNameExist sq (Some name) db';
        (if e then Some (False, db) else UpdateDevNameByMacAndOldname sq mac old name u db) } else Some (False, db'))
      (has_device mac old v \<and> \<not> ?e) (view_step (Rename mac old name u) v)"
    if "dev_file sq tb db' v" for db'
  proof (cases "has_device mac old v")
    case True
    have "leaves tb (do {
        (e, db) \<leftarrow> isNewNameExist sq (Some name) db';
        (if e then Some (False, db) else UpdateDevNameByMacAndOldname sq mac old name u db) }) (\<not> ?e)
      (if \<not> ?e then change_device mac old (\<lambda>d. d\<lparr>dev_name := name, dev_unicode := u\<rparr>) v else v)"
      by (rule leaves_bind [OF isNewNameExist_leaves [OF that assms(4)] spec]) (rule rename)
    then show ?thesis using True by simp
  next
    case False
    then show ?thesis using that by (simp add: leaves_same)
  qed
  show ?thesis
    unfolding UpdateDevDisplayName_def
    by (rule leaves_bind [OF isMacAndNameMatch_leaves [OF assms(1-3)] spec])
       (use found in \<open>simp only: has_device_def\<close>)
qed

lemma UpdateDevGroupName_leaves:
  assumes "dev_file sq tb db v" "groups_ok v" "arg mac" "arg name" "arg g"
  shows "leaves tb (UpdateDevGroupName sq mac name g db) (has_device mac name v \<and> g \<in> fst ` set (v_groups v))
    (view_step (Regroup mac name g) v)"
proof -
  have spec: "sqlite_spec sq tb" using assms(1) by (simp add: dev_file_def)
  have regroup: "leaves tb (do {
        (gid, db) \<leftarrow> GetGroupIDByName sq g db';
        (case gid of None \<Rightarrow> Some (False, db) | Some group_id \<Rightarrow> UpdateDevGroupIDByMacAndName sq mac name group_id db) })
      (g \<in> fst ` set (v_groups v))
      (if g \<in> fst ` set (v_groups v) then change_device mac name (\<lambda>d. d\<lparr>dev_group := group_number g v\<rparr>) v else v)"
    if db': "dev_file sq tb db' v" for db'
  proof -
    obtain r where r: "leaves tb (GetGroupIDByName sq g db') r v"
        "case r of None \<Rightarrow> g \<notin> fst ` set (v_groups v) | Some i \<Rightarrow> \<exists>t. (g, t) \<in> set (v_groups v) \<and> i = atoi t"
      using GetGroupIDByName_leaves [OF db' assms(5)] by blast
    show ?thesis
    proof (cases r)
      case None
      then show ?thesis using r by (intro leaves_bind [OF _ spec]) (auto simp: leaves_same)
    next
      case (Some i)
      then obtain t where t: "(g, t) \<in> set (v_groups v)" "i = atoi t" using r(2) by auto
      then obtain k where k: "k < 2147483648" "t = dec (int k)" "group_number g v = t"
        using group_number_known [OF assms(2)] by blast
      then have i: "i = int k" and mem: "g \<in> fst ` set (v_groups v)" using t(2) imageI [OF t(1), of fst] by simp_all
      have "leaves tb (UpdateDevGroupIDByMacAndName sq mac name i db2) True
          (change_device mac name (\<lambda>d. d\<lparr>dev_group := group_number g v\<rparr>) v)" if "dev_file sq tb db2 v" for db2
        using UpdateDevGroupIDByMacAndName_leaves [OF that assms(3,4) k(1)] by (simp add: change_device_def i k(2,3))
      then show ?thesis using r(1) mem Some by (intro leaves_bind [OF _ spec]) auto
    qed
  qed
  show ?thesis
    unfolding UpdateDevGroupName_def
  proof (rule leaves_bind [OF isMacAndNameMatch_leaves [OF assms(1,3,4)] spec], fold has_device_def)
    fix db' assume db': "dev_file sq tb db' v"
    show "leaves tb (if \<not> has_device mac name v then Some (False, db') else do {
          (gid, db) \<leftarrow> GetGroupIDByName sq g db';
          (case gid of None \<Rightarrow> Some (False, db) | Some group_id \<Rightarrow> UpdateDevGroupIDByMacAndName sq mac name group_id db) })
        (has_device mac name v \<and> g \<in> fst ` set (v_groups v)) (view_step (Regroup mac name g) v)"
      using regroup [OF db'] db' by (cases "has_device mac name v") (simp_all add: leaves_same)
  qed
qed

text \<open>One call, and any sequence of calls.\<close>

lemma leaves_snd: "leaves tb m r v \<Longrightarrow> sqlite_spec sq tb \<Longrightarrow> \<exists>db'. map_option snd m = Some db' \<and> dev_file sq tb db' v"
  by (auto simp: leaves_def dev_file_def)

lemma dev_step_follows:
  assumes "dev_file sq tb db v" "groups_ok v" "v_last_group v + 1 < 2147483648" "op_ok op"
  shows "\<exists>db'. dev_step sq op db = Some db' \<and> dev_file sq tb db' (view_step op v)"
proof -
  have spec: "sqlite_spec sq tb" using assms(1) by (simp add: dev_file_def)
  show ?thesis
  proof (cases op)
    case (Add mac name u g n t)
    with assms(4) show ?thesis
      using leaves_snd [OF AddDevToStaticTable_leaves [OF assms(1-3)] spec, of mac name u g] by simp
  next
    case (Report mac ip)
    with assms(4) show ?thesis using leaves_snd [OF AddDevToDynamicTable_leaves [OF assms(1)] spec, of mac ip] by simp
  next
    case (Remove mac name)
    with assms(4) show ?thesis using leaves_snd [OF RemoveDevFromStaticTable_leaves [OF assms(1)] spec, of mac name] by simp
  next
    case (Rename mac old name u)
    with assms(4) show ?thesis using leaves_snd [OF UpdateDevDisplayName_leaves [OF assms(1)] spec, of mac old name u] by simp
  next
    case (Regroup mac name g)
    with assms(4) show ?thesis using leaves_snd [OF UpdateDevGroupName_leaves [OF assms(1,2)] spec, of mac name g] by simp
  qed
qed

fun dev_run :: "'db sqlite \<Rightarrow> dev_op list \<Rightarrow> 'db \<Rightarrow> 'db option" where
  "dev_run sq [] db = Some db"
| "dev_run sq (op # ops) db = do { db \<leftarrow> dev_step sq op db; dev_run sq ops db }"

lemma dev_run_follows:
  assumes "dev_file sq tb db v" "view_ok v" "list_all op_ok ops"
    "v_last_dev v + length ops < 2147483648" "v_last_group v + length ops < 2147483648"
  shows "\<exists>db'. dev_run sq ops db = Some db' \<and> dev_file sq tb db' (fold view_step ops v) \<and> view_ok (fold view_step ops v)"
  using assms
proof (induction ops arbitrary: db v)
  case (Cons op ops)
  have g: "groups_ok v" "v_last_group v + 1 < 2147483648" "v_last_dev v + 1 < 2147483648" "op_ok op"
    using Cons.prems by (simp_all add: view_ok_def)
  obtain db' where db': "dev_step sq op db = Some db'" "dev_file sq tb db' (view_step op v)"
    using dev_step_follows [OF Cons.prems(1) g(1,2,4)] by blast
  have "view_ok (view_step op v)" by (rule view_step_ok [OF Cons.prems(2) g(3,2)])
  moreover have "v_last_dev (view_step op v) + length ops < 2147483648" "v_last_group (view_step op v) + length ops < 2147483648"
    using view_step_numbers [OF Cons.prems(2) g(2), of op] Cons.prems(4,5) by simp_all
  ultimately show ?case using Cons.IH [OF db'(2)] Cons.prems(3) db'(1) by simp
qed simp

subsection \<open>Properties\<close>

definition empty_view :: dev_view where
  "empty_view = \<lparr>v_devices = [], v_addresses = [], v_groups = [], v_last_dev = 0, v_last_group = 0\<rparr>"

lemma empty_view_ok: "view_ok empty_view"
  by (simp add: view_ok_def groups_ok_def numbered_def empty_view_def)

text \<open>A new file, with the tables the first access creates.\<close>

lemma fresh_file:
  assumes "sqlite_spec sq tb" "tb db = Map.empty"
  shows "dev_file sq tb (snd (dev_database_open sq db)) empty_view"
proof -
  obtain db' where "dev_database_open sq db = (True, db')"
    "tb db' = ensure ''grouptable'' [''F_ID'', ''F_GROUPNAME'']
      (ensure ''dynamictable'' [''F_MAC'', ''F_IP''] (ensure ''statictable'' static_names Map.empty))"
    using dev_database_open_tables [OF assms(1), of db] assms(2) by auto
  then show ?thesis
    using assms(1)
    by (simp add: dev_file_def ensure_def ensure_table_def dev_schema_def table_names_def conforms_def view_def devices_def addresses_def
        groups_def static_rows_def dynamic_rows_def group_rows_def empty_view_def)
qed

text \<open>
  C1: any sequence of fewer than $2^{31}$ calls that add, report, remove, rename or regroup devices, from a new database
  file on, whose arguments are free of quotes and have at most 200 characters, completes and keeps the invariant: names and numbers are unique, devices with one
  address have different numbers other than 0, every device is in a known group and every address is reported once.
\<close>

theorem dev_invariant:
  assumes "sqlite_spec sq tb" "tb db = Map.empty" "list_all op_ok ops" "length ops < 2147483648"
  shows "\<exists>db'. dev_run sq ops (snd (dev_database_open sq db)) = Some db' \<and> view_ok (view (tb db'))"
proof -
  have "v_last_dev empty_view + length ops < 2147483648" "v_last_group empty_view + length ops < 2147483648"
    using assms(4) by (simp_all add: empty_view_def)
  from dev_run_follows [OF fresh_file [OF assms(1,2)] empty_view_ok assms(3) this]
  show ?thesis by (auto simp: dev_file_def)
qed

definition a_device :: dev_op where
  "a_device = Add ''0102'' ''lamp'' ''706F'' ''hall'' 1 0"

lemma a_device_ok [simp]: "op_ok a_device"
  by (simp add: a_device_def arg_def)

lemma dev_invariant_witness:
  "\<exists>db'. dev_run table_sqlite [a_device, Report ''0102'' ''0A0B'', a_device] (snd (dev_database_open table_sqlite Map.empty)) = Some db' \<and>
     view_ok (view (id db'))"
  by (rule dev_invariant [OF table_sqlite_spec]) (simp_all add: arg_def)

text \<open>
  C9: with the documented behaviour of the library, the calls on the file are the operations on the abstract contents:
  running the code and then reading the tables is reading the tables and then running the abstract operations.
\<close>

theorem dev_refinement:
  assumes "dev_file sq tb db v" "view_ok v" "list_all op_ok ops"
    "v_last_dev v + length ops < 2147483648" "v_last_group v + length ops < 2147483648"
  shows "\<exists>db'. dev_run sq ops db = Some db' \<and> view (tb db') = fold view_step ops v"
  using dev_run_follows [OF assms] by (auto simp: dev_file_def)

definition new_file :: tables where
  "new_file = snd (dev_database_open table_sqlite Map.empty)"

lemma new_file: "dev_file table_sqlite id new_file empty_view"
  unfolding new_file_def by (rule fresh_file [OF table_sqlite_spec]) simp

lemma dev_refinement_witness:
  "\<exists>db'. dev_run table_sqlite [a_device, Remove ''0102'' ''lamp''] new_file = Some db' \<and>
     view (id db') = fold view_step [a_device, Remove ''0102'' ''lamp''] empty_view"
  by (rule dev_refinement [OF new_file empty_view_ok]) (simp_all add: arg_def empty_view_def)

text \<open>
  C16: adding a device gives the reason when its address and number or its name is taken, and leaves devices,
  addresses and groups as they are; otherwise it succeeds, creates the group if needed and appends the device.
\<close>

theorem dev_add_outcome:
  assumes "dev_file sq tb db v" "groups_ok v" "v_last_group v + 1 < 2147483648" "arg mac" "arg name" "arg u" "arg g"
  shows "\<exists>db'. AddDevToStaticTable sq mac name u g n t db = Some (add_check (v_devices v) mac name n, db') \<and>
    view (tb db') = (if add_check (v_devices v) mac name n = DEV_ADD_OK then add_device mac name u g n t v else v)"
  using AddDevToStaticTable_leaves [OF assms, of n t] by (auto simp: leaves_def)

lemma dev_add_outcome_witness:
  "\<exists>db'. AddDevToStaticTable table_sqlite ''0102'' ''lamp'' ''706F'' ''hall'' 1 0 new_file = Some (DEV_ADD_OK, db') \<and>
     view (id db') = add_device ''0102'' ''lamp'' ''706F'' ''hall'' 1 0 empty_view"
proof -
  have "groups_ok empty_view" "v_last_group empty_view + 1 < 2147483648"
    using empty_view_ok by (simp_all add: view_ok_def empty_view_def)
  moreover have "add_check (v_devices empty_view) ''0102'' ''lamp'' 1 = DEV_ADD_OK" by (simp add: add_check_def empty_view_def)
  ultimately show ?thesis
    using dev_add_outcome [OF new_file, of "''0102''" "''lamp''" "''706F''" "''hall''" 1 0] by (simp add: arg_def)
qed

text \<open>The addresses as a map.\<close>

lemma map_of_report: "map_of (v_addresses (view_step (Report mac ip) v)) = (map_of (v_addresses v))(mac \<mapsto> ip)"
proof (cases "mac \<in> fst ` set (v_addresses v)")
  case True
  then have "v_addresses (view_step (Report mac ip) v) = map (\<lambda>(m, i). (m, if m = mac then ip else i)) (v_addresses v)"
    by simp
  then show ?thesis by (simp only: map_of_replace [OF True])
next
  case False
  then have "v_addresses (view_step (Report mac ip) v) = v_addresses v @ [(mac, ip)]" by simp
  then show ?thesis by (simp only: map_of_snoc [OF False])
qed

lemma GetDevIPByMac_finds:
  assumes "dev_file sq tb db v" "distinct (map fst (v_addresses v))" "arg m"
  shows "\<exists>db'. GetDevIPByMac sq m db = Some (map_of (v_addresses v) m, db') \<and> dev_file sq tb db' v"
proof -
  obtain r where r: "leaves tb (GetDevIPByMac sq m db) r v"
      "case r of None \<Rightarrow> m \<notin> fst ` set (v_addresses v) | Some ip \<Rightarrow> (m, ip) \<in> set (v_addresses v)"
    using GetDevIPByMac_leaves [OF assms(1,3)] by blast
  have "r = map_of (v_addresses v) m"
  proof (cases r)
    case None
    then have "map_of (v_addresses v) m = None" using r(2) by (simp add: map_of_eq_None_iff)
    then show ?thesis using None by simp
  next
    case (Some ip)
    then show ?thesis using r(2) assms(2) by simp
  qed
  then show ?thesis using r(1) assms(1) unfolding leaves_def dev_file_def by blast
qed

text \<open>The number of a device finds its address and channel.\<close>

lemma view_ok_same_id:
  assumes "view_ok v" "d \<in> set (v_devices v)" "e \<in> set (v_devices v)" "dev_id d = dev_id e"
  shows "d = e"
proof -
  have "inj_on dev_id (set (v_devices v))" using assms(1) by (simp add: view_ok_def numbered_def distinct_map)
  then show ?thesis using assms(2-4) by (simp add: inj_on_def)
qed

lemma GetMacAndDevNumberByID_finds:
  assumes "dev_file sq tb db v" "view_ok v" "d \<in> set (v_devices v)" "dev_id d = dec (int i)" "i < 2147483648"
    "atoi text = int i"
  shows "\<exists>db'. GetMacAndDevNumberByID sq text db = Some (Some (dev_mac d, to_uchar (atoi (dev_number d))), db') \<and>
    dev_file sq tb db' v"
proof -
  have "\<exists>db' e rest. dev_database_open sq db = (True, db') \<and> dev_file sq tb db' v \<and> e \<in> set (v_devices v) \<and>
      dev_id e = dec (int i) \<and>
      query sq 1024 (''select F_MAC,F_DEVNUMBER from statictable where F_ID='' @ quoted (dec (int i))) db' =
        Some ([dev_mac e, dev_number e] # rest)"
    by (rule static_first [OF assms(1) parse_static_queries(6) [where mac = "[]" and name = "[]"], where P = "\<lambda>e. dev_id e = dec (int i)"
          and g = "\<lambda>e. [dev_mac e, dev_number e]", OF _ _ _ _ _ _ _ _ assms(3)])
      (use length_dec [OF assms(5)] assms(4) in \<open>simp_all add: cell_static project_def\<close>)
  then obtain db' e rest where e: "dev_database_open sq db = (True, db')" "dev_file sq tb db' v" "e \<in> set (v_devices v)"
      "dev_id e = dec (int i)"
      "query sq 1024 (''select F_MAC,F_DEVNUMBER from statictable where F_ID='' @ quoted (dec (int i))) db' =
        Some ([dev_mac e, dev_number e] # rest)" by blast
  have "e = d" using view_ok_same_id [OF assms(2) e(3) assms(3)] e(4) assms(4) by simp
  then show ?thesis
    using e(1,2,5) by (simp add: GetMacAndDevNumberByID_def on_db_def assms(6) first_cell_def mget_def)
qed

lemma GetIPAndDevNumberByID_finds:
  assumes "dev_file sq tb db v" "view_ok v" "d \<in> set (v_devices v)" "dev_id d = dec (int i)" "i < 2147483648"
    "atoi text = int i" "arg (dev_mac d)" "length (dev_mac d) < 50" "map_of (v_addresses v) (dev_mac d) = Some ip"
  shows "\<exists>db'. GetIPAndDevNumberByID sq text db = Some (Some (ip, to_uchar (atoi (dev_number d))), db') \<and> dev_file sq tb db' v"
proof -
  obtain db1 where db1: "GetMacAndDevNumberByID sq text db = Some (Some (dev_mac d, to_uchar (atoi (dev_number d))), db1)"
    "dev_file sq tb db1 v" using GetMacAndDevNumberByID_finds [OF assms(1-6)] by blast
  have "distinct (map fst (v_addresses v))" using assms(2) by (simp add: view_ok_def)
  then obtain db2 where "GetDevIPByMac sq (dev_mac d) db1 = Some (Some ip, db2)" "dev_file sq tb db2 v"
    using GetDevIPByMac_finds [OF db1(2) _ assms(7)] assms(9) by auto
  then show ?thesis using db1(1) assms(8) by (simp add: GetIPAndDevNumberByID_def fits_def)
qed

text \<open>
  After a device reported its network address, \<open>GetDevIPByMac\<close> finds that address for it and what it found
  before for every other device.
\<close>

theorem dev_report_lookup:
  assumes "dev_file sq tb db v" "view_ok v" "arg mac" "arg ip"
  shows "\<exists>db1. AddDevToDynamicTable sq mac ip db = Some (True, db1) \<and>
    (\<forall>m. arg m \<longrightarrow> (\<exists>db2. GetDevIPByMac sq m db1 = Some (((map_of (v_addresses v))(mac \<mapsto> ip)) m, db2)))"
proof -
  have spec: "sqlite_spec sq tb" using assms(1) by (simp add: dev_file_def)
  let ?v = "view_step (Report mac ip) v"
  obtain db1 where db1: "AddDevToDynamicTable sq mac ip db = Some (True, db1)" "dev_file sq tb db1 ?v"
    using AddDevToDynamicTable_leaves [OF assms(1,3,4)] spec unfolding leaves_def dev_file_def by blast
  have "view_ok ?v" by (rule view_ok_report [OF assms(2)])
  then have dist: "distinct (map fst (v_addresses ?v))" unfolding view_ok_def by blast
  have "\<exists>db2. GetDevIPByMac sq m db1 = Some (((map_of (v_addresses v))(mac \<mapsto> ip)) m, db2)" if "arg m" for m
    using GetDevIPByMac_finds [OF db1(2) dist that] unfolding map_of_report by blast
  then show ?thesis using db1(1) by blast
qed

lemma dev_report_lookup_witness:
  "\<exists>db1. AddDevToDynamicTable table_sqlite ''0102'' ''0A0B'' new_file = Some (True, db1) \<and>
    (\<forall>m. arg m \<longrightarrow> (\<exists>db2. GetDevIPByMac table_sqlite m db1 =
      Some (((map_of (v_addresses empty_view))(''0102'' \<mapsto> ''0A0B'')) m, db2)))"
  by (rule dev_report_lookup [OF new_file empty_view_ok]) (simp_all add: arg_def)

text \<open>A name that closes the literal of the statement.\<close>

definition injected_name :: string where
  "injected_name = QUOTE # '' or F_NAME=F_NAME or F_NAME='' @ [QUOTE]"

lemma parse_injected:
  assumes "QUOTE \<notin> set mac"
  shows "parse_sql (''select * from statictable where F_MAC='' @ quoted mac @ '' and F_NAME='' @ quoted injected_name) =
      Some (Select [] ''statictable'' (Disj (Conj (Equal ''F_MAC'' (Const mac)) (Equal ''F_NAME'' (Const [])))
        (Disj (Equal ''F_NAME'' (Column ''F_NAME'')) (Equal ''F_NAME'' (Const [])))))"
    "parse_sql (''delete from statictable where F_MAC='' @ quoted mac @ '' and F_NAME='' @ quoted injected_name) =
      Some (Delete ''statictable'' (Disj (Conj (Equal ''F_MAC'' (Const mac)) (Equal ''F_NAME'' (Const [])))
        (Disj (Equal ''F_NAME'' (Column ''F_NAME'')) (Equal ''F_NAME'' (Const [])))))"
proof -
  have q: "quoted injected_name = quoted [] @ '' or F_NAME=F_NAME or F_NAME='' @ quoted []"
    by (simp add: injected_name_def quoted_def)
  show "parse_sql (''select * from statictable where F_MAC='' @ quoted mac @ '' and F_NAME='' @ quoted injected_name) =
      Some (Select [] ''statictable'' (Disj (Conj (Equal ''F_MAC'' (Const mac)) (Equal ''F_NAME'' (Const [])))
        (Disj (Equal ''F_NAME'' (Column ''F_NAME'')) (Equal ''F_NAME'' (Const [])))))"
    "parse_sql (''delete from statictable where F_MAC='' @ quoted mac @ '' and F_NAME='' @ quoted injected_name) =
      Some (Delete ''statictable'' (Disj (Conj (Equal ''F_MAC'' (Const mac)) (Equal ''F_NAME'' (Const [])))
        (Disj (Equal ''F_NAME'' (Column ''F_NAME'')) (Equal ''F_NAME'' (Const [])))))"
    unfolding q using assms by (simp_all add: sql_simps is_number_def digit_val_def)
qed

lemma injected_holds:
  "holds static_names (Disj (Conj (Equal ''F_MAC'' (Const mac)) (Equal ''F_NAME'' (Const [])))
     (Disj (Equal ''F_NAME'' (Column ''F_NAME'')) (Equal ''F_NAME'' (Const [])))) r"
  by simp

text \<open>
  C40: a name with quotes reaches the statement as SQL: a request to remove a device with this name, for whatever address,
  succeeds as soon as there is a device, and deletes all of them.
\<close>

theorem dev_remove_injection:
  assumes "dev_file sq tb db v" "v_devices v \<noteq> []" "arg mac"
  shows "\<exists>db'. RemoveDevFromStaticTable sq mac injected_name db = Some (True, db') \<and>
    view (tb db') = v\<lparr>v_devices := []\<rparr>"
proof -
  have spec: "sqlite_spec sq tb" and sch: "dev_schema (tb db)" and v: "view (tb db) = v" using assms(1) by (auto simp: dev_file_def)
  let ?w = "Disj (Conj (Equal ''F_MAC'' (Const mac)) (Equal ''F_NAME'' (Const [])))
     (Disj (Equal ''F_NAME'' (Column ''F_NAME'')) (Equal ''F_NAME'' (Const [])))"
  have q: "QUOTE \<notin> set mac" and len: "length mac \<le> 200" using argD [OF assms(3)] by simp_all
  have ex: "(\<exists>d\<in>set (v_devices v). True) \<longleftrightarrow> True" using assms(2) by (cases "v_devices v") auto
  have "leaves tb (isMacAndNameMatch sq mac injected_name db) (\<exists>d\<in>set (v_devices v). True) v"
    unfolding isMacAndNameMatch_def
    by (rule static_exists [OF assms(1) parse_injected(1) [OF q]]) (use len in \<open>simp_all add: injected_name_def\<close>)
  then have match: "leaves tb (isMacAndNameMatch sq mac injected_name db) True v" unfolding ex .
  have delete: "leaves tb (deleteFromStaticTable sq mac injected_name db') True (v\<lparr>v_devices := []\<rparr>)"
    if "dev_file sq tb db' v" for db'
  proof -
    have sch: "dev_schema (tb db')" and v: "view (tb db') = v" using that by (auto simp: dev_file_def)
    obtain t where t: "tb db' ''statictable'' = Some t" "conforms static_names t" using sch by (rule dev_schemaE)
    let ?t' = "t\<lparr>rows := []\<rparr>"
    have run: "run_update (Delete ''statictable'' ?w) (tb db') = Some ((tb db')(''statictable'' \<mapsto> ?t'))"
      using t names_conforms [OF t(2)] by simp
    have "\<forall>r\<in>set (rows ?t'). length r = 7" by simp
    note rep = replace_static [OF sch t(1) _ this]
    have "v_last_dev v = last_id t" using t(1) by (auto simp: v [symmetric] view_def)
    then have vw: "view ((tb db')(''statictable'' \<mapsto> ?t')) = v\<lparr>v_devices := []\<rparr>" using rep(2) v by simp
    show ?thesis
      unfolding deleteFromStaticTable_def
      by (rule exec_leaves [OF that parse_injected(2) [OF q] _ run _ rep(1) vw]) (use len in \<open>simp_all add: injected_name_def\<close>)
  qed
  have "leaves tb (RemoveDevFromStaticTable sq mac injected_name db) True (v\<lparr>v_devices := []\<rparr>)"
    unfolding RemoveDevFromStaticTable_def by (rule leaves_bind [OF match spec]) (use delete in simp)
  then show ?thesis by (auto simp: leaves_def)
qed

lemma one_device:
  "\<exists>db v. dev_file table_sqlite id db v \<and> v_devices v \<noteq> []"
proof -
  have "v_devices (fold view_step [a_device] empty_view) \<noteq> []"
    by (simp add: a_device_def empty_view_def add_check_def add_device_def with_group_def Let_def)
  then show ?thesis
    using dev_run_follows [OF new_file empty_view_ok, of "[a_device]"] by (auto simp: empty_view_def)
qed

lemma lamp_registered: "\<exists>db v. dev_file table_sqlite id db v \<and> view_ok v \<and> has_device ''0102'' ''lamp'' v"
proof -
  have "has_device ''0102'' ''lamp'' (fold view_step [a_device] empty_view)"
    by (simp add: a_device_def empty_view_def add_check_def add_device_def with_group_def Let_def has_device_def)
  then show ?thesis
    using dev_run_follows [OF new_file empty_view_ok, of "[a_device]"] by (auto simp: empty_view_def)
qed

lemma dev_remove_injection_witness:
  "\<exists>db v db'. v_devices v \<noteq> [] \<and> view db = v \<and> RemoveDevFromStaticTable table_sqlite ''00'' injected_name db = Some (True, db') \<and>
     view db' = v\<lparr>v_devices := []\<rparr>"
proof -
  obtain db v where "dev_file table_sqlite id db v" "v_devices v \<noteq> []" using one_device by blast
  moreover from this obtain db' where "RemoveDevFromStaticTable table_sqlite ''00'' injected_name db = Some (True, db')"
      "view (id db') = v\<lparr>v_devices := []\<rparr>"
    using dev_remove_injection [of table_sqlite id db v "''00''"] by (auto simp: arg_def)
  ultimately show ?thesis by (intro exI [of _ db] exI [of _ v] exI [of _ db']) (simp add: dev_file_def)
qed

end
