(* ===== verification/Uart_Thread.thy ===== *)
theory Uart_Thread
  imports Dev_Manage
begin

text \<open>
  The thread that reads the Zigbee coordinator (\<open>ReadFromUart\<close> of \<open>src/src/dev_manage/uart.c\<close>, \<open>uart_thread\<close>,
  \<open>ForwardControlToUart\<close> and \<open>SWGetCurrentState\<close> of \<open>uart_common.c\<close>), with the functions that only build a text for
  \<open>system\<close>, a datagram or a mail (\<open>led.c\<close>, \<open>ring.c\<close>, \<open>net_broadcast.c\<close>, \<open>wechat.c\<close>, \<open>mail_common.c\<close>): these are
  collected as effects. \<open>buffer\<close> is the C string in the array of 1024 characters; \<^term>\<open>None\<close> is an access outside
  an array.
\<close>

subsection \<open>Effects\<close>

record alarm_t =
  alarm_name :: string
  alarm_value :: string
  alarm_unicode_name :: string
  alarm_unicode_value :: string

datatype effect =
    System string \<comment> \<open>a command line\<close>
  | Datagram string
  | Mail_Thread string \<comment> \<open>\<open>send_mail_thread\<close> with the text of the mail\<close>
  | Sms_Thread alarm_t \<comment> \<open>\<open>send_msg_thread\<close>\<close>

definition led_flash :: "nat \<Rightarrow> nat \<Rightarrow> nat \<Rightarrow> effect option" where
  "led_flash item interval n =
     map_option System (fits 20 (''led_flash '' @ dec (int item) @ '' '' @ dec (int interval) @ '' '' @ dec (int n) @ ''&''))"

definition LED_FOR_NETWORK :: nat where
  "LED_FOR_NETWORK = 1"

definition LED_FOR_ZIGBEE_NET :: nat where
  "LED_FOR_ZIGBEE_NET = 2"

definition DEV_ALARM_RING_CMD :: nat where
  "DEV_ALARM_RING_CMD = 0"

definition RING_MAX :: nat where
  "RING_MAX = 1"

definition ring_items :: "string list" where
  "ring_items = [''alarm.mp3'']"

definition system_ring :: "nat \<Rightarrow> effect list option" where
  "system_ring ty =
     (if ty > RING_MAX then Some []
      else do {
        path \<leftarrow> mget ring_items ty;
        cmd \<leftarrow> fits 512 (''madplay'' @ '' '' @ ''/usr/alarm/'' @ path @ ''&'');
        Some [System cmd]
      })"

text \<open>The actions by their number.\<close>

datatype USER_ACTION =
  ACTION_DEV_ADD | ACTION_DEV_REMOVE | ACTION_DEV_EDIT | ACTION_GET_DEV_LIST | ACTION_DEV_CONTROL | ACTION_SEND_MSG
| ACTION_SYS_ALARM_COME | ACTION_SYS_ALARM_GONE | ACTION_GET_CITY_ID | ACTION_ALARM_ADD | ACTION_GET_ALARM_LIST
| ACTION_ALARM_LOCK | ACTION_ALARM_UNLOCK | ACTION_ALARM_DELETE | ACTION_DEV_ADD_GROUP | ACTION_GET_ALL_GROUP_NAME
| ACTION_UPDATE_DEV_GROUP | ACTION_SET_GROUP_ID | ACTION_GET_GROUP_ID | ACTION_ADD_TIMERTASK | ACTION_DELETE_TIMERTASK
| ACTION_GET_TIMERTASK_INFO | ACTION_SW_GET_STATE | ACTION_QUIT

definition user_actions :: "USER_ACTION list" where
  "user_actions = [ACTION_DEV_ADD, ACTION_DEV_REMOVE, ACTION_DEV_EDIT, ACTION_GET_DEV_LIST, ACTION_DEV_CONTROL, ACTION_SEND_MSG,
     ACTION_SYS_ALARM_COME, ACTION_SYS_ALARM_GONE, ACTION_GET_CITY_ID, ACTION_ALARM_ADD, ACTION_GET_ALARM_LIST,
     ACTION_ALARM_LOCK, ACTION_ALARM_UNLOCK, ACTION_ALARM_DELETE, ACTION_DEV_ADD_GROUP, ACTION_GET_ALL_GROUP_NAME,
     ACTION_UPDATE_DEV_GROUP, ACTION_SET_GROUP_ID, ACTION_GET_GROUP_ID, ACTION_ADD_TIMERTASK, ACTION_DELETE_TIMERTASK,
     ACTION_GET_TIMERTASK_INFO, ACTION_SW_GET_STATE, ACTION_QUIT]"

definition action_of :: "int \<Rightarrow> USER_ACTION option" where
  "action_of n = (if n < 0 then None else mget user_actions (nat n))"

definition action_number :: "USER_ACTION \<Rightarrow> nat" where
  "action_number a = length (takeWhile (\<lambda>b. b \<noteq> a) user_actions)"

definition send_broadcast :: "string \<Rightarrow> USER_ACTION \<Rightarrow> string \<Rightarrow> effect option" where
  "send_broadcast who user_action name =
     map_option Datagram (fits 512 (''[{'' @ json_member ''who'' who @ '','' @ json_member ''action'' (dec (int (action_number user_action))) @ '','' @
       json_member ''dev_name'' name @ ''}]''))"

definition InformUserByWechat :: "alarm_t \<Rightarrow> effect option" where
  "InformUserByWechat alarm =
     map_option System (fits 512 (''upload '' @ alarm_name alarm @ '' '' @ alarm_value alarm @ ''&''))"

definition CRLF :: string where
  "CRLF = [CHR 0x0D, CHR 0x0A]"

text \<open>\<open>SEND_MAIL_MOBAN_WITH_ATTACH\<close> as a function of its three arguments.\<close>

definition SEND_MAIL_MOBAN_WITH_ATTACH :: "string \<Rightarrow> string \<Rightarrow> string \<Rightarrow> string" where
  "SEND_MAIL_MOBAN_WITH_ATTACH name val attachment =
     ''From: '' @ dq ''SmartHousehold'' @ ''<smart-household@center.com>'' @ CRLF @
     ''To: '' @ dq ''user'' @ ''<smart-user@user.com>'' @ CRLF @
     ''data'' @ CRLF @
     ''Subject: SmartHousehold System Alarm!!'' @ CRLF @ CRLF @
     ''MIME-Version: 1.0'' @ CRLF @
     ''Content-Type: multipart/mixed;'' @ CRLF @
     [CHR 0x09] @ ''boundary='' @ dq ''XX-1234DED0099A'' @ '';'' @ CRLF @
     ''Content-Transfer-Encoding: 8bit'' @ CRLF @ CRLF @
     ''This is a multi-part message in MIME format.'' @ CRLF @ CRLF @
     ''--XX-1234DED0099A'' @ CRLF @
     ''Content-Type: text/plain;charset=us-ascii'' @ CRLF @
     ''Content-Transfer-Encoding: 8bit'' @ CRLF @ CRLF @
     name @ '' '' @ val @ ''!'' @ CRLF @ CRLF @
     ''--XX-1234DED0099A'' @ CRLF @
     ''Content-Type: image/jpg;'' @ CRLF @
     [CHR 0x09] @ ''name='' @ dq ''20140101163101.jpg'' @ '';'' @ CRLF @
     ''Content-Transfer-Encoding: base64'' @ CRLF @
     ''Content-Disposition: attachment; filename='' @ dq ''img.jpg'' @ CRLF @
     attachment @ CRLF @ CRLF @
     ''--XX-1234DED0099A'' @ CRLF @ ''.'' @ CRLF"

definition InformUserByEmail :: "alarm_t \<Rightarrow> effect option" where
  "InformUserByEmail alarm =
     map_option Mail_Thread (fits (1024 * 24) (SEND_MAIL_MOBAN_WITH_ATTACH (alarm_name alarm) (alarm_value alarm) ''121''))"

definition InformUserByMobile :: "alarm_t \<Rightarrow> effect" where
  "InformUserByMobile alarm = Sms_Thread alarm"

subsection \<open>Names of the sensors\<close>

text \<open>The Chinese texts in UTF-8.\<close>

abbreviation utf8 :: "nat list \<Rightarrow> string" where
  "utf8 \<equiv> map char_of"

definition STR_CHS_SYS_ALARM_COME :: string where
  "STR_CHS_SYS_ALARM_COME = utf8 [229, 143, 145, 231, 148, 159, 230, 138, 165, 232, 173, 166]"

definition STR_CHS_SYS_ALRAM_GONE :: string where
  "STR_CHS_SYS_ALRAM_GONE = utf8 [230, 138, 165, 232, 173, 166, 229, 183, 178, 232, 167, 163, 233, 153, 164]"

definition STR_UNI_SYS_ALARM_COME :: string where
  "STR_UNI_SYS_ALARM_COME = ''53D1751F62A58B66''"

definition STR_UNI_SYS_ALARM_GONE :: string where
  "STR_UNI_SYS_ALARM_GONE = ''62A58B665DF289E39664''"

definition STR_UART_ALARM_COME :: string where
  "STR_UART_ALARM_COME = ''FF''"

definition STR_UART_ALARM_GONE :: string where
  "STR_UART_ALARM_GONE = ''00''"

definition STR_ALARM_SEND_BROADCAST_PRE :: string where
  "STR_ALARM_SEND_BROADCAST_PRE = ''Tip:''"

abbreviation code_of :: "DEV_TYPE_LIST \<Rightarrow> int" where
  "code_of t \<equiv> uint (dev_type_code t)"

definition SetDefaultAlarmName :: "int \<Rightarrow> string" where
  "SetDefaultAlarmName dev_type =
     (if dev_type = code_of DEV_SOUND then utf8 [229, 163, 176, 233, 159, 179, 228, 188, 160, 230, 132, 159, 229, 153, 168]
      else if dev_type = code_of DEV_YUDI then utf8 [233, 155, 168, 230, 187, 180, 228, 188, 160, 230, 132, 159, 229, 153, 168]
      else if dev_type = code_of DEV_YANWU then utf8 [231, 131, 159, 233, 155, 190, 228, 188, 160, 230, 132, 159, 229, 153, 168]
      else if dev_type = code_of DEV_HONGWAI then utf8 [231, 186, 162, 229, 164, 150, 228, 188, 160, 230, 132, 159, 229, 153, 168]
      else utf8 [230, 156, 170, 231, 159, 165, 228, 188, 160, 230, 132, 159, 229, 153, 168])"

definition SetDefaultAlarmUnicodeName :: "int \<Rightarrow> string" where
  "SetDefaultAlarmUnicodeName dev_type =
     (if dev_type = code_of DEV_SOUND then ''58F097F34F20611F5668''
      else if dev_type = code_of DEV_YUDI then ''96E86EF44F20611F5668''
      else if dev_type = code_of DEV_YANWU then ''70DF96FE4F20611F5668''
      else if dev_type = code_of DEV_HONGWAI then ''7EA259164F20611F5668''
      else ''672A77E54F20611F5668'')"

subsection \<open>Reading a message\<close>

text \<open>The chunks that the calls of \<open>read\<close> give, at most 50 characters each, up to the one that gives none. A chunk
  of 50 characters leaves \<open>temp\<close> without its terminating NUL.\<close>

fun ReadFromUart :: "string list \<Rightarrow> string \<Rightarrow> (bool \<times> string \<times> string list) option" where
  "ReadFromUart [] buffer = Some (False, buffer, [])"
| "ReadFromUart (chunk # chunks) buffer =
     (if chunk = [] then Some (False, buffer, chunks)
      else do {
        n \<leftarrow> strlen (c_array 50 chunk);
        let temp = take n chunk;
        (if CHR ''*'' \<in> set temp then do { buffer \<leftarrow> fits 1024 temp; ReadFromUart chunks buffer }
         else if CHR ''#'' \<in> set temp then do { buffer \<leftarrow> fits 1024 (buffer @ temp); Some (True, buffer, chunks) }
         else do { buffer \<leftarrow> fits 1024 (buffer @ temp); ReadFromUart chunks buffer })
      })"

subsection \<open>Handling a message\<close>

text \<open>An alarm: the text for the state, what is sent at once, and the three ways to inform the user.\<close>

definition alarm_effects :: "int \<Rightarrow> string \<Rightarrow> string \<Rightarrow> string \<Rightarrow> effect list option" where
  "alarm_effects uart_cmd_type state name unicode_name = do {
     name \<leftarrow> fits 512 name;
     unicode_name \<leftarrow> fits 512 unicode_name;
     (val, unicode_val, now) \<leftarrow>
       (if strstr state STR_UART_ALARM_COME \<noteq> None
        then do {
          b \<leftarrow> send_broadcast STR_ALARM_SEND_BROADCAST_PRE ACTION_SYS_ALARM_COME name;
          r \<leftarrow> system_ring DEV_ALARM_RING_CMD;
          Some (STR_CHS_SYS_ALARM_COME, STR_UNI_SYS_ALARM_COME, b # r)
        }
        else if strstr state STR_UART_ALARM_GONE \<noteq> None
        then do {
          b \<leftarrow> send_broadcast STR_ALARM_SEND_BROADCAST_PRE ACTION_SYS_ALARM_GONE name;
          Some (STR_CHS_SYS_ALRAM_GONE, STR_UNI_SYS_ALARM_GONE, [b])
        }
        else Some ([], [], []));
     let alarm = \<lparr>alarm_name = name, alarm_value = val, alarm_unicode_name = unicode_name, alarm_unicode_value = unicode_val\<rparr>;
     e \<leftarrow> InformUserByEmail alarm;
     w \<leftarrow> InformUserByWechat alarm;
     Some (now @ [e, w, InformUserByMobile alarm])
   }"

definition sensor_message :: "'db sqlite \<Rightarrow> int \<Rightarrow> string \<Rightarrow> 'db \<Rightarrow> (effect list \<times> 'db) option" where
  "sensor_message sq uart_cmd_type rest db =
     (case strtok CHR '','' rest of
        None \<Rightarrow> Some ([], db)
      | Some (ip, rest) \<Rightarrow>
          (case strtok CHR '','' rest of
             None \<Rightarrow> Some ([], db)
           | Some (_, rest) \<Rightarrow>
               (case strtok CHR '','' rest of
                  None \<Rightarrow> Some ([], db)
                | Some (state, _) \<Rightarrow> do {
                    (name, db) \<leftarrow> GetDevNameByIP sq ip db;
                    name \<leftarrow> (case name of None \<Rightarrow> Some (SetDefaultAlarmName uart_cmd_type) | Some n \<Rightarrow> fits 1024 n);
                    (uname, db) \<leftarrow> GetDevUnicodeNameByIP sq ip db;
                    uname \<leftarrow> (case uname of None \<Rightarrow> Some (SetDefaultAlarmUnicodeName uart_cmd_type) | Some n \<Rightarrow> fits 1024 n);
                    es \<leftarrow> alarm_effects uart_cmd_type state name uname;
                    Some (es, db)
                  })))"

definition add_message :: "'db sqlite \<Rightarrow> string \<Rightarrow> 'db \<Rightarrow> 'db option" where
  "add_message sq rest db =
     (case strtok CHR '','' rest of
        None \<Rightarrow> Some db
      | Some (ip, rest) \<Rightarrow>
          (case strtok CHR '','' rest of
             None \<Rightarrow> Some db
           | Some (mac, _) \<Rightarrow> map_option snd (AddDevToDynamicTable sq mac ip db)))"

text \<open>Three numbers follow the address; \<open>get_ip_byte\<close> reads four characters of the buffer, where the address ends
  with a NUL and is followed by the first number.\<close>

definition switch_message :: "string \<Rightarrow> uart_queue \<Rightarrow> uart_queue option" where
  "switch_message rest q =
     (case strtok CHR '','' rest of
        None \<Rightarrow> Some q
      | Some (ip, rest1) \<Rightarrow>
          (case strtok CHR '','' rest1 of
             None \<Rightarrow> Some q
           | Some (p1, rest2) \<Rightarrow>
               (case strtok CHR '','' rest2 of
                  None \<Rightarrow> Some q
                | Some (p2, rest3) \<Rightarrow>
                    (case strtok CHR '','' rest3 of
                       None \<Rightarrow> Some q
                     | Some (p3, _) \<Rightarrow>
                         (case get_ip_byte (Some (ip @ NUL # takeWhile (\<lambda>c. c = CHR '','') rest1 @ p1 @ [NUL])) of
                            Inl _ \<Rightarrow> None
                          | Inr (lo, hi) \<Rightarrow>
                              (case uart_data_queuing
                                 [dev_type_code DEV_SWITCH, lo, hi, to_uchar (strtol p1 16), to_uchar (strtol p2 16), to_uchar (strtol p3 16)]
                                 (cmd_len (cmd_list TYPE_SW_DEV)) q of
                                 Inl _ \<Rightarrow> None | Inr q' \<Rightarrow> Some q'))))))"

text \<open>One round of \<open>uart_thread\<close> after a message was read: the string left in the buffer, the effects, the
  contents of the database and the queue.\<close>

definition uart_handle ::
  "'db sqlite \<Rightarrow> string \<Rightarrow> 'db \<Rightarrow> uart_queue \<Rightarrow> (string \<times> effect list \<times> 'db \<times> uart_queue) option" where
  "uart_handle sq buffer db q =
     (if length buffer < 3 then None
      else
        (let text = take (length buffer - 3) buffer in
         case strtok CHR '','' text of
           None \<Rightarrow> Some (text, [], db, q)
         | Some (uart_header, rest) \<Rightarrow> do {
             led \<leftarrow> led_flash LED_FOR_ZIGBEE_NET 1 4;
             cmd \<leftarrow> (if 2 \<le> length uart_header then Some (drop (length uart_header - 2) uart_header) else None);
             let uart_cmd_type = strtol cmd 16;
             let left = takeWhile (\<lambda>c. c = CHR '','') text @ uart_header;
             (if uart_cmd_type = code_of DEV_ADD
              then do { db \<leftarrow> add_message sq rest db; Some (left, [led], db, q) }
              else if uart_cmd_type \<in> {code_of DEV_SOUND, code_of DEV_YUDI, code_of DEV_YANWU, code_of DEV_HONGWAI}
              then do { (es, db) \<leftarrow> sensor_message sq uart_cmd_type rest db; Some (left, led # es, db, q) }
              else if uart_cmd_type = code_of DEV_SWITCH
              then do { q \<leftarrow> switch_message rest q; Some (left, [led], db, q) }
              else Some (left, [led], db, q))
           }))"

subsection \<open>Sending a command\<close>

datatype 'a waited = Returned 'a | Waiting

text \<open>A call that may not return: \<^term>\<open>None\<close> is an access outside an array, \<^term>\<open>Waiting\<close> a call that
  waits for ever.\<close>

definition waited :: "(uart_error + 'a) option \<Rightarrow> 'a waited option" where
  "waited r = (case r of None \<Rightarrow> Some Waiting | Some (Inl _) \<Rightarrow> None | Some (Inr x) \<Rightarrow> Some (Returned x))"

text \<open>The array \<open>ip\<close> of the callers has ten characters.\<close>

definition ip_memory :: "string \<Rightarrow> string option" where
  "ip_memory ip = store 10 ip"

definition SWGetCurrentState ::
  "'db sqlite \<Rightarrow> (bytes \<Rightarrow> int) \<Rightarrow> poll_env \<Rightarrow> string \<Rightarrow> string \<Rightarrow> u8 \<Rightarrow> uart_queue \<Rightarrow> 'db \<Rightarrow>
   ((bytes \<times> control_cmd \<times> uart_queue) waited \<times> 'db) option" where
  "SWGetCurrentState sq wr env mac name num q db = do {
     (m, db) \<leftarrow> isMacAndNameMatch sq mac name db;
     (if \<not> m then Some (Returned ([], CMD_NULL, q), db)
      else do {
        (ip, db) \<leftarrow> GetDevIPByMac sq mac db;
        (case ip of
           None \<Rightarrow> Some (Returned ([], CMD_NULL, q), db)
         | Some ip \<Rightarrow> do {
             mem \<leftarrow> ip_memory ip;
             r \<leftarrow> waited (switch_dev_get_state wr env q (Some mem) num);
             Some (r, db)
           })
      })
   }"

text \<open>The device types are those of \<^typ>\<open>type_index\<close>, by their number.\<close>

definition control_func ::
  "(bytes \<Rightarrow> int) \<Rightarrow> poll_env \<Rightarrow> uart_queue \<Rightarrow> int \<Rightarrow> string \<Rightarrow> u8 \<Rightarrow> u8 \<Rightarrow> (bytes \<times> bool \<times> uart_queue) waited option" where
  "control_func wr env q dev_type ip cmd num =
     (let keep = map_sum id (\<lambda>(b, r). (b, r, q)) in
      if dev_type = 0 then waited (switch_dev_control_func wr env q (Some ip) cmd num)
      else if dev_type = 1 then waited (Some (keep (chuanglian_dev_control_func wr (Some ip) cmd)))
      else if dev_type = 2 then waited (Some (keep (door_dev_control_func wr (Some ip) cmd)))
      else if dev_type = 3 then waited (Some (keep (kongtiao_dev_control_func wr (Some ip) cmd num)))
      else if dev_type = 4 then waited (Some (keep (tv_dev_control_func wr (Some ip) cmd num)))
      else Some (Returned ([], False, q)))"

definition ForwardControlToUart ::
  "'db sqlite \<Rightarrow> (bytes \<Rightarrow> int) \<Rightarrow> poll_env \<Rightarrow> string \<Rightarrow> string \<Rightarrow> int \<Rightarrow> u8 \<Rightarrow> u8 \<Rightarrow> uart_queue \<Rightarrow> 'db \<Rightarrow>
   ((bytes \<times> bool \<times> uart_queue) waited \<times> 'db) option" where
  "ForwardControlToUart sq wr env mac name dev_type cmd num q db = do {
     (m, db) \<leftarrow> isMacAndNameMatch sq mac name db;
     (if \<not> m then Some (Returned ([], False, q), db)
      else do {
        (ip, db) \<leftarrow> GetDevIPByMac sq mac db;
        (case ip of
           None \<Rightarrow> Some (Returned ([], False, q), db)
         | Some ip \<Rightarrow> do {
             mem \<leftarrow> ip_memory ip;
             r \<leftarrow> control_func wr env q dev_type mem cmd num;
             Some (r, db)
           })
      })
   }"

end
