(* ===== verification/Sms_Control.thy ===== *)
theory Sms_Control
  imports Sms Alarm_Db Uart_Thread
begin

text \<open>
  The threads of the text messages: commands that users send (\<open>src/src/dev_manage/sms_control.c\<close>), the messages
  the modem announces and delivers, and the text that informs of an alarm (\<open>sms_common.c\<close>). The files \<open>user.db\<close>
  and \<open>dev.db\<close> are two contents \<open>u\<close> and \<open>d\<close> of the same library.
\<close>

subsection \<open>Commands\<close>

definition SMS_ACTION_GET_LIST :: nat where
  "SMS_ACTION_GET_LIST = 0"

definition SMS_ACTION_CLOSE :: nat where
  "SMS_ACTION_CLOSE = 1"

definition SMS_ACTION_OPEN :: nat where
  "SMS_ACTION_OPEN = 2"

definition SMS_ACTION_GET_STATE :: nat where
  "SMS_ACTION_GET_STATE = 3"

definition SMS_ACTION_MAX :: nat where
  "SMS_ACTION_MAX = 4"

text \<open>What the text asks for: the action with the address and number of the device, none when the thread returns.
  The texts of users are C strings in the arrays of \<open>message_info_t\<close>.\<close>

type_synonym sms_request = "(nat \<times> string \<times> u8) option"

definition device_request :: "'db sqlite \<Rightarrow> string \<Rightarrow> 'db \<Rightarrow> (sms_request \<times> 'db) option" where
  "device_request sq user_msg_decode d = do {
     len \<leftarrow> strlen user_msg_decode;
     id \<leftarrow> substring user_msg_decode (replicate 20 NUL) 0 (int len - 1);
     (found, d) \<leftarrow> GetIPAndDevNumberByID sq (c_str id) d;
     (case found of
        None \<Rightarrow> Some (None, d)
      | Some (ip, devnumber) \<Rightarrow> do {
          ip \<leftarrow> store 10 ip;
          c \<leftarrow> (if len = 0 then None else mget user_msg_decode (len - 1));
          let sms_action = int (of_char c) - 0x30 + 1;
          Some (if sms_action > int SMS_ACTION_MAX - 1 then None else Some (nat sms_action, ip, devnumber), d)
        })
   }"

definition decode_request :: "'db sqlite \<Rightarrow> message_info_t \<Rightarrow> 'db \<Rightarrow> (sms_request \<times> 'db) option" where
  "decode_request sq msg d = do {
     n \<leftarrow> strlen (send_content msg);
     (if n > 100 then Some (None, d)
      else do {
        (ret, user_msg_decode) \<leftarrow> gsmDecode7bit (send_content msg) (replicate 100 NUL) n;
        (if ret < 0 then Some (None, d)
         else if \<exists>c\<in>set (c_str user_msg_decode). c \<notin> set ''0123456789'' then Some (None, d)
         else if c_str user_msg_decode = ''909'' then Some (Some (SMS_ACTION_GET_LIST, replicate 10 NUL, 0), d)
         else device_request sq user_msg_decode d)
      })
   }"

definition send_dev_list_by_sms :: "'db sqlite \<Rightarrow> string \<Rightarrow> string \<Rightarrow> 'db \<Rightarrow> (string list \<times> string \<times> 'db) option" where
  "send_dev_list_by_sms sq who g_unicode_dev_list d = do {
     (unicode_dev_list, d) \<leftarrow> GetUnicodeDeviceList sq g_unicode_dev_list d;
     temp \<leftarrow> (if unicode_dev_list = ''_NULL_'' then Some ''5BF94E0D8D77002C8FDC7A0B8BBE5907521788684E3A7A7A0021''
              else fits (16 * 1024) unicode_dev_list);
     (_, out) \<leftarrow> sms_send_to_user (Some who) (Some temp);
     Some (out, unicode_dev_list, d)
   }"

text \<open>What the thread did: the frame it wrote to the coordinator, what it wrote to the modem, the list of devices that
  it left, and the queue.\<close>

record sms_effect =
  frame :: bytes
  modem :: "string list"
  dev_list :: string
  queue_after :: uart_queue

definition switch_by_sms ::
  "(bytes \<Rightarrow> int) \<Rightarrow> poll_env \<Rightarrow> uart_queue \<Rightarrow> string \<Rightarrow> string \<Rightarrow> control_cmd \<Rightarrow> u8 \<Rightarrow> sms_effect waited option" where
  "switch_by_sms wr env q g_unicode_dev_list ip cmd devnumber = do {
     r \<leftarrow> waited (switch_dev_control_func wr env q (Some ip) (cmd_code cmd) devnumber);
     Some (case r of
             Waiting \<Rightarrow> Waiting
           | Returned (f, _, q') \<Rightarrow> Returned \<lparr>frame = f, modem = [], dev_list = g_unicode_dev_list, queue_after = q'\<rparr>)
   }"

definition user_msg_process ::
  "'db sqlite \<Rightarrow> (bytes \<Rightarrow> int) \<Rightarrow> poll_env \<Rightarrow> message_info_t option \<Rightarrow> string \<Rightarrow> uart_queue \<Rightarrow> 'db \<Rightarrow> 'db \<Rightarrow>
   (sms_effect waited \<times> 'db \<times> 'db) option" where
  "user_msg_process sq wr env msg_info g_unicode_dev_list q u d =
     (let nothing = Returned \<lparr>frame = [], modem = [], dev_list = g_unicode_dev_list, queue_after = q\<rparr> in
      case msg_info of
        None \<Rightarrow> Some (nothing, u, d)
      | Some msg \<Rightarrow> do {
          (valid, u) \<leftarrow> isUserMobileNumberValid sq (c_str (send_number msg)) u;
          (if \<not> valid then Some (nothing, u, d)
           else do {
             (request, d) \<leftarrow> (if charset msg = CHARSET_7BITS then decode_request sq msg d else Some (None, d));
             (case request of
                None \<Rightarrow> Some (nothing, u, d)
              | Some (sms_action, ip, devnumber) \<Rightarrow>
                  if sms_action = SMS_ACTION_GET_LIST
                  then do {
                    (out, lst, d) \<leftarrow> send_dev_list_by_sms sq (c_str (send_number msg)) g_unicode_dev_list d;
                    Some (Returned \<lparr>frame = [], modem = out, dev_list = lst, queue_after = q\<rparr>, u, d)
                  }
                  else if sms_action = SMS_ACTION_CLOSE
                  then do { r \<leftarrow> switch_by_sms wr env q g_unicode_dev_list ip CMD_SW_CLOSE devnumber; Some (r, u, d) }
                  else if sms_action = SMS_ACTION_OPEN
                  then do { r \<leftarrow> switch_by_sms wr env q g_unicode_dev_list ip CMD_SW_OPEN devnumber; Some (r, u, d) }
                  else if sms_action = SMS_ACTION_GET_STATE
                  then do { r \<leftarrow> switch_by_sms wr env q g_unicode_dev_list ip CMD_SW_GET_STATE devnumber; Some (r, u, d) }
                  else Some (nothing, u, d))
           })
        })"

subsection \<open>Messages from the modem\<close>

text \<open>The line for the log, \<open>%-20s\<close> as padding on the right.\<close>

definition pad_right :: "nat \<Rightarrow> string \<Rightarrow> string" where
  "pad_right n s = s @ replicate (n - length s) CHR '' ''"

definition save_gsm_log :: "message_info_t \<Rightarrow> string option" where
  "save_gsm_log info = fits 1024 (pad_right 20 (c_str (center_number info)) @ pad_right 20 (c_str (send_number info)) @
     pad_right 25 (c_str (send_time info)) @ c_str (send_content info) @ [CHR 0x0A])"

text \<open>
  One read of \<open>sms_read_thread\<close>: \<open>buffer\<close> is what the modem sent. It delivers a message or announces one; the
  answer is written to the modem, and a delivered message is logged and starts the thread above. \<open>junk\<close> is
  what the local structure of \<open>handler_receive_msg\<close> holds before.
\<close>

definition sms_read ::
  "nat \<Rightarrow> message_info_t \<Rightarrow> string \<Rightarrow> string \<Rightarrow> (string list \<times> (string \<times> message_info_t) option \<times> string) option" where
  "sms_read slack junk rcv_msg_sim_index buffer =
     (case strstr buffer ''0891'' of
        Some pdu \<Rightarrow> do {
          info \<leftarrow> handler_receive_msg slack junk (pdu @ [NUL]);
          log \<leftarrow> save_gsm_log info;
          out \<leftarrow> fits MAX_BUFFER_SIZE (''AT+CMGD='' @ rcv_msg_sim_index @ [CHR 0x0D]);
          Some ([out], Some (log, info), rcv_msg_sim_index)
        }
      | None \<Rightarrow>
          if strstr buffer ''CMTI:'' \<noteq> None
          then do {
            (_, rest) \<leftarrow> strtok CHR '','' buffer;
            (index, _) \<leftarrow> strtok CHR '','' rest;
            index \<leftarrow> fits 3 index;
            out \<leftarrow> fits MAX_BUFFER_SIZE (''AT+CMGR='' @ index @ [CHR 0x0D]);
            Some ([out], None, index)
          }
          else Some ([], None, rcv_msg_sim_index))"

subsection \<open>Informing of an alarm\<close>

lemma strtok_shorter: "strtok d s = Some (t, r) \<Longrightarrow> length r < length s"
proof -
  assume "strtok d s = Some (t, r)"
  then have *: "dropWhile (\<lambda>c. c = d) s \<noteq> []" "r = drop 1 (dropWhile (\<lambda>c. c \<noteq> d) (dropWhile (\<lambda>c. c = d) s))"
    by (auto simp: strtok_def Let_def split: if_splits)
  have "length (dropWhile (\<lambda>c. c \<noteq> d) (dropWhile (\<lambda>c. c = d) s)) \<le> length s"
    by (meson dual_order.trans length_dropWhile_le)
  moreover have "s \<noteq> []" using *(1) by auto
  ultimately show ?thesis using *(2) by (cases s) auto
qed

text \<open>The loop over the list: the numbers with what was written to the modem for each.\<close>

function send_each :: "string \<Rightarrow> string \<Rightarrow> (string \<times> string list) list option" where
  "send_each content temp =
     (case strtok CHR '','' temp of
        None \<Rightarrow> Some []
      | Some (mobile, rest) \<Rightarrow> do {
          tempMobile \<leftarrow> fits 12 mobile;
          (_, out) \<leftarrow> sms_send_to_user (Some tempMobile) (Some content);
          more \<leftarrow> send_each content rest;
          Some ((tempMobile, out) # more)
        })"
  by pat_completeness auto
termination
  by (relation "measure (\<lambda>(c, s). length s)") (auto dest: strtok_shorter)

declare send_each.simps [simp del]

text \<open>
  \<open>strcpy\<close> copies the alarm up to the NUL behind its name; the other fields are what the array on the stack held.
\<close>

definition send_msg_thread ::
  "'db sqlite \<Rightarrow> bool \<Rightarrow> string option \<Rightarrow> alarm_t \<Rightarrow> string \<Rightarrow> 'db \<Rightarrow> ((string \<times> string list) list \<times> string \<times> 'db) option" where
  "send_msg_thread sq is_sms_ok started_with alarm g_mobile_list u =
     (if \<not> is_sms_ok then Some ([], g_mobile_list, u)
      else case started_with of
        None \<Rightarrow> Some ([], g_mobile_list, u)
      | Some name \<Rightarrow> do {
          name \<leftarrow> fits 512 name;
          let alarm = alarm\<lparr>alarm_name := name\<rparr>;
          content \<leftarrow> fits 1024 (alarm_unicode_name alarm @ alarm_unicode_value alarm);
          (mobiles, u) \<leftarrow> GetMobileList sq g_mobile_list u;
          (if mobiles = ''_NULL_'' then Some ([], mobiles, u)
           else do {
             temp \<leftarrow> fits 1024 mobiles;
             out \<leftarrow> send_each content temp;
             Some (out, mobiles, u)
           })
        })"

end
