(* ===== verification/Alarm_List.thy ===== *)
theory Alarm_List
  imports Alarm_Db Dev_Tables
begin

text \<open>
  What the operations on the alarm list do, for a library that behaves as documented: the list as a map from
  type and value to the state, the calls as operations on this map, and who is informed.
\<close>

subsection \<open>Reading the statements\<close>

definition alarm_columns :: "column list" where
  "alarm_columns = map (\<lambda>n. \<lparr>col_name = n, col_auto = False, col_default = []\<rparr>) [''F_TYPE'', ''F_VALUE'', ''F_STATE'']"

lemma parse_alarm_create:
  "parse_sql ''create table alarmtable(F_TYPE VARCHAR(30),F_VALUE VARCHAR(50),F_STATE VARCHAR(10));'' = Some (Create ''alarmtable'' alarm_columns)"
  by code_simp

lemma parse_alarm:
  assumes "QUOTE \<notin> set ty" "QUOTE \<notin> set value" "QUOTE \<notin> set state"
  shows "parse_sql (''insert into alarmtable values('' @ quoted ty @ '','' @ quoted value @ '','' @ quoted state @ '')'') =
      Some (Insert ''alarmtable'' [] [ty, value, state])"
    "parse_sql (''select F_VALUE from alarmtable where F_TYPE = '' @ quoted ty @ '' and F_STATE = '' @ quoted state) =
      Some (Select [''F_VALUE''] ''alarmtable'' (Conj (Equal ''F_TYPE'' (Const ty)) (Equal ''F_STATE'' (Const state))))"
    "parse_sql (''select * from alarmtable where F_TYPE='' @ quoted ty @ '' and F_VALUE='' @ quoted value) =
      Some (Select [] ''alarmtable'' (Conj (Equal ''F_TYPE'' (Const ty)) (Equal ''F_VALUE'' (Const value))))"
    "parse_sql (''delete from alarmtable where F_TYPE='' @ quoted ty @ '' and F_VALUE='' @ quoted value) =
      Some (Delete ''alarmtable'' (Conj (Equal ''F_TYPE'' (Const ty)) (Equal ''F_VALUE'' (Const value))))"
    "parse_sql (''update alarmtable set F_STATE = '' @ quoted state @ '' where F_TYPE='' @ quoted ty @ '' and F_VALUE='' @ quoted value) =
      Some (Update ''alarmtable'' [(''F_STATE'', state)] (Conj (Equal ''F_TYPE'' (Const ty)) (Equal ''F_VALUE'' (Const value))))"
    "parse_sql (''select * from alarmtable where F_TYPE='' @ quoted ty @ '' and F_VALUE='' @ quoted value @ '' and F_STATE='' @ quoted state) =
      Some (Select [] ''alarmtable'' (Conj (Equal ''F_TYPE'' (Const ty)) (Conj (Equal ''F_VALUE'' (Const value)) (Equal ''F_STATE'' (Const state)))))"
  using assms by (simp_all add: sql_simps)

subsection \<open>The table\<close>

definition alarm_schema :: "tables \<Rightarrow> bool" where
  "alarm_schema T \<longleftrightarrow> (\<exists>t. T ''alarmtable'' = Some t \<and> columns t = alarm_columns \<and> (\<forall>r\<in>set (rows t). length r = 3))"

definition alarm_rows :: "tables \<Rightarrow> string list list" where
  "alarm_rows T = rows (the (T ''alarmtable''))"

definition alarm_item :: "string list \<Rightarrow> (string \<times> string) \<times> string" where
  "alarm_item r = ((r ! 0, r ! 1), r ! 2)"

text \<open>An entry is listed once, under one of the two types, open or closed.\<close>

definition alarm_ok :: "tables \<Rightarrow> bool" where
  "alarm_ok T \<longleftrightarrow> alarm_schema T \<and> distinct (map (fst \<circ> alarm_item) (alarm_rows T)) \<and>
     (\<forall>r\<in>set (alarm_rows T). r ! 0 \<in> {''email'', ''mobile''} \<and> r ! 2 \<in> {''o'', ''c''})"

definition alarm_map :: "tables \<Rightarrow> string \<times> string \<rightharpoonup> string" where
  "alarm_map T = map_of (map alarm_item (alarm_rows T))"

abbreviation alarm_names :: "string list" where
  "alarm_names \<equiv> [''F_TYPE'', ''F_VALUE'', ''F_STATE'']"

lemma alarm_schemaE:
  assumes "alarm_schema T"
  obtains t where "T ''alarmtable'' = Some t" "names t = alarm_names" "columns t = alarm_columns" "alarm_rows T = rows t"
    "\<forall>r\<in>set (rows t). length r = 3"
  using assms by (auto simp: alarm_schema_def alarm_rows_def names_def alarm_columns_def)

lemma row_of_3: "length r = 3 \<Longrightarrow> r = [r ! 0, r ! 1, r ! 2]"
  by (rule nth_equalityI) (auto simp: less_Suc_eq numeral_eq_Suc)

lemma cell_alarm:
  assumes "length r = 3"
  shows "cell alarm_names r ''F_TYPE'' = r ! 0" "cell alarm_names r ''F_VALUE'' = r ! 1" "cell alarm_names r ''F_STATE'' = r ! 2"
  by (subst row_of_3 [OF assms], simp add: cell_def)+

lemma alarm_opens:
  assumes "sqlite_spec sq tb"
  shows "\<exists>db'. alarm_database_open sq db = (True, db') \<and> tb db' = ensure_table ''alarmtable'' alarm_columns (tb db)"
  by (simp add: alarm_database_open_def spec_open [OF assms] SQLITE_ERROR_def CreateAlarmTable_def
      exec_create_table [OF assms parse_alarm_create])

lemma alarm_sql_file: "sqlite_spec sq tb \<Longrightarrow> sql_file sq tb (alarm_database_open sq) alarm_schema"
proof (unfold_locales, assumption)
  fix db assume "sqlite_spec sq tb" "alarm_schema (tb db)"
  then show "\<exists>db'. alarm_database_open sq db = (True, db') \<and> tb db' = tb db"
    using alarm_opens [of sq tb db] by (auto simp: ensure_table_def elim: alarm_schemaE)
qed

interpretation alarm_tables: sql_file table_sqlite id "alarm_database_open table_sqlite" alarm_schema
  by (rule alarm_sql_file [OF table_sqlite_spec])

subsection \<open>The statements on the map\<close>

definition key_cond :: "string \<Rightarrow> string \<Rightarrow> cond" where
  "key_cond ty value = Conj (Equal ''F_TYPE'' (Const ty)) (Equal ''F_VALUE'' (Const value))"

lemma key_cond_known [simp]: "known alarm_names (key_cond ty value)"
  by (simp add: key_cond_def)

lemma key_cond_holds: "length r = 3 \<Longrightarrow> holds alarm_names (key_cond ty value) r \<longleftrightarrow> fst (alarm_item r) = (ty, value)"
  by (simp add: key_cond_def cell_alarm alarm_item_def)

lemma filter_alarm:
  "\<forall>r\<in>set rs. length r = 3 \<Longrightarrow> filter (\<lambda>r. \<not> holds alarm_names (key_cond ty value) r) rs = filter (\<lambda>r. fst (alarm_item r) \<noteq> (ty, value)) rs"
  by (rule filter_cong) (simp_all add: key_cond_holds)

lemma alarm_exists:
  assumes "alarm_schema T"
  shows "\<exists>rs. run_query (Select [] ''alarmtable'' (key_cond ty value)) T = Some rs \<and> (rs \<noteq> [] \<longleftrightarrow> (ty, value) \<in> dom (alarm_map T))"
proof -
  obtain t where t: "T ''alarmtable'' = Some t" "names t = alarm_names" "alarm_rows T = rows t" "\<forall>r\<in>set (rows t). length r = 3"
    using assms by (rule alarm_schemaE)
  have "(\<exists>r\<in>set (rows t). holds alarm_names (key_cond ty value) r) \<longleftrightarrow> (ty, value) \<in> fst ` set (map alarm_item (rows t))"
    using t(4) by (force simp: key_cond_holds)
  then show ?thesis using t by (simp add: filter_empty_conv alarm_map_def dom_map_of_conv_image_fst)
qed

lemma alarm_insert_rows:
  assumes "alarm_schema T"
  shows "\<exists>T'. run_update (Insert ''alarmtable'' [] [ty, value, st]) T = Some T' \<and> alarm_schema T' \<and>
    alarm_rows T' = alarm_rows T @ [[ty, value, st]]"
proof -
  obtain t where t: "T ''alarmtable'' = Some t" "names t = alarm_names" "columns t = alarm_columns" "alarm_rows T = rows t"
    "\<forall>r\<in>set (rows t). length r = 3" using assms by (rule alarm_schemaE)
  let ?r = "[ty, value, st]"
  let ?T = "T(''alarmtable'' \<mapsto> t\<lparr>rows := rows t @ [?r], last_id := last_id t + 1\<rparr>)"
  have "new_row t [] ?r = ?r" using t(2,3) by (simp add: new_row_def alarm_columns_def)
  then have "run_update (Insert ''alarmtable'' [] ?r) T = Some ?T" using t(1,2) by simp
  moreover have "alarm_schema ?T" using t(3,5) by (simp add: alarm_schema_def)
  ultimately show ?thesis using t(4) by (simp add: alarm_rows_def)
qed

lemma alarm_insert:
  assumes "alarm_ok T" "(ty, value) \<notin> dom (alarm_map T)" "ty \<in> {''email'', ''mobile''}"
  shows "\<exists>T'. run_update (Insert ''alarmtable'' [] [ty, value, ''o'']) T = Some T' \<and> alarm_ok T' \<and>
    alarm_map T' = (alarm_map T)((ty, value) \<mapsto> ''o'')"
proof -
  let ?r = "[ty, value, ''o'']"
  obtain T' where T': "run_update (Insert ''alarmtable'' [] ?r) T = Some T'" "alarm_schema T'" "alarm_rows T' = alarm_rows T @ [?r]"
    using alarm_insert_rows [of T ty "value" "''o''"] assms(1) unfolding alarm_ok_def by blast
  have new: "(ty, value) \<notin> fst ` set (map alarm_item (alarm_rows T))" using assms(2) by (simp add: alarm_map_def dom_map_of_conv_image_fst)
  have item: "alarm_item ?r = ((ty, value), ''o'')" by (simp add: alarm_item_def)
  have "alarm_ok T'"
    using assms(1,3) T'(2) new item unfolding alarm_ok_def T'(3) by (auto simp: image_image)
  moreover have "alarm_map T' = (alarm_map T)((ty, value) \<mapsto> ''o'')"
    unfolding alarm_map_def T'(3) map_append list.map item by (rule map_of_snoc [OF new])
  ultimately show ?thesis using T'(1) by blast
qed

text \<open>What a deletion and a change of the state leave of the table.\<close>

lemma alarm_delete:
  assumes "alarm_ok T"
  shows "\<exists>T'. run_update (Delete ''alarmtable'' (key_cond ty value)) T = Some T' \<and> alarm_ok T' \<and>
    alarm_map T' = (alarm_map T)((ty, value) := None)"
proof -
  have "alarm_schema T" using assms(1) by (simp add: alarm_ok_def)
  then obtain t where t: "T ''alarmtable'' = Some t" "names t = alarm_names" "columns t = alarm_columns" "alarm_rows T = rows t"
    "\<forall>r\<in>set (rows t). length r = 3" by (rule alarm_schemaE)
  let ?rs = "filter (\<lambda>r. fst (alarm_item r) \<noteq> (ty, value)) (rows t)"
  let ?T = "T(''alarmtable'' \<mapsto> t\<lparr>rows := ?rs\<rparr>)"
  have run: "run_update (Delete ''alarmtable'' (key_cond ty value)) T = Some ?T"
    using t(1,2) by (simp add: filter_alarm [OF t(5)])
  have rows: "alarm_rows ?T = ?rs" by (simp add: alarm_rows_def)
  have "map alarm_item ?rs = filter (\<lambda>p. fst p \<noteq> (ty, value)) (map alarm_item (rows t))"
    by (simp add: filter_map comp_def)
  then have "alarm_map ?T = (alarm_map T)((ty, value) := None)"
    unfolding alarm_map_def rows t(4) by (simp only: map_of_filter_key)
  moreover have "alarm_ok ?T"
    using assms t(3,4,5) unfolding alarm_ok_def rows by (auto simp: alarm_schema_def distinct_map_filter)
  ultimately show ?thesis using run by blast
qed

lemma alarm_change:
  assumes "alarm_ok T" "(ty, value) \<in> dom (alarm_map T)" "s \<in> {''o'', ''c''}"
  shows "\<exists>T'. run_update (Update ''alarmtable'' [(''F_STATE'', s)] (key_cond ty value)) T = Some T' \<and> alarm_ok T' \<and>
    alarm_map T' = (alarm_map T)((ty, value) \<mapsto> s)"
proof -
  have "alarm_schema T" using assms(1) by (simp add: alarm_ok_def)
  then obtain t where t: "T ''alarmtable'' = Some t" "names t = alarm_names" "columns t = alarm_columns" "alarm_rows T = rows t"
    "\<forall>r\<in>set (rows t). length r = 3" by (rule alarm_schemaE)
  define f where "f r = (if fst (alarm_item r) = (ty, value) then [r ! 0, r ! 1, s] else r)" for r
  let ?T = "T(''alarmtable'' \<mapsto> t\<lparr>rows := map f (rows t)\<rparr>)"
  have upd: "update_row alarm_names [(''F_STATE'', s)] r = [r ! 0, r ! 1, s]" if "length r = 3" for r
    by (subst (1) row_of_3 [OF that]) (simp add: update_row_def)
  have changed: "map (\<lambda>r. if holds alarm_names (key_cond ty value) r then update_row alarm_names [(''F_STATE'', s)] r else r) (rows t) =
      map f (rows t)"
    using t(5) by (simp add: f_def key_cond_holds upd)
  have run: "run_update (Update ''alarmtable'' [(''F_STATE'', s)] (key_cond ty value)) T = Some ?T"
    by (simp only: run_update.simps t(1,2) bind.bind_lunit changed key_cond_known) simp
  have rows: "alarm_rows ?T = map f (rows t)" by (simp add: alarm_rows_def)
  have item: "alarm_item (f r) = (fst (alarm_item r), if fst (alarm_item r) = (ty, value) then s else snd (alarm_item r))" for r
    by (simp add: f_def alarm_item_def)
  have key: "(ty, value) \<in> fst ` set (map alarm_item (rows t))"
    using assms(2) t(4) by (simp add: alarm_map_def dom_map_of_conv_image_fst)
  have "map alarm_item (map f (rows t)) = map (\<lambda>(j, i). (j, if j = (ty, value) then s else i)) (map alarm_item (rows t))"
    by (simp add: item case_prod_unfold)
  then have "alarm_map ?T = (alarm_map T)((ty, value) \<mapsto> s)"
    unfolding alarm_map_def rows t(4) by (simp only: map_of_replace [OF key])
  moreover have "alarm_ok ?T"
  proof -
    have same: "map (fst \<circ> alarm_item) (map f (rows t)) = map (fst \<circ> alarm_item) (rows t)" by (simp add: item)
    have "alarm_schema ?T" using t(3,5) by (auto simp: alarm_schema_def f_def)
    moreover have "\<forall>r\<in>set (map f (rows t)). r ! 0 \<in> {''email'', ''mobile''} \<and> r ! 2 \<in> {''o'', ''c''}"
      using assms(1,3) t(4) by (auto simp: alarm_ok_def f_def)
    ultimately show ?thesis using assms(1) t(4) unfolding alarm_ok_def rows same by simp
  qed
  ultimately show ?thesis using run by blast
qed

subsection \<open>The calls\<close>

definition alarm_file :: "'db sqlite \<Rightarrow> ('db \<Rightarrow> tables) \<Rightarrow> 'db \<Rightarrow> (string \<times> string \<rightharpoonup> string) \<Rightarrow> bool" where
  "alarm_file sq tb db m \<longleftrightarrow> sqlite_spec sq tb \<and> alarm_ok (tb db) \<and> alarm_map (tb db) = m"

definition type_name :: "int \<Rightarrow> string" where
  "type_name ty = (if ty = ALARM_TYPE_EMAIL then ''email'' else ''mobile'')"

definition type_ok :: "int \<Rightarrow> bool" where
  "type_ok ty \<longleftrightarrow> ty = ALARM_TYPE_EMAIL \<or> ty = ALARM_TYPE_MOBILE"

lemma type_name_plain: "QUOTE \<notin> set (type_name ty)" "type_name ty \<in> {''email'', ''mobile''}" "length (type_name ty) \<le> 6"
  by (simp_all add: type_name_def)

lemmas parse_key = parse_alarm [OF type_name_plain(1), folded key_cond_def]

lemmas alarm_types = type_ok_def type_name_def ALARM_TYPE_EMAIL_def ALARM_TYPE_MOBILE_def

text \<open>What a call returns and the map it leaves.\<close>

definition alarm_leaves ::
  "'db sqlite \<Rightarrow> ('db \<Rightarrow> tables) \<Rightarrow> ('a \<times> 'db) option \<Rightarrow> 'a \<Rightarrow> (string \<times> string \<rightharpoonup> string) \<Rightarrow> bool" where
  "alarm_leaves sq tb r x m \<longleftrightarrow> (\<exists>db'. r = Some (x, db') \<and> alarm_file sq tb db' m)"

lemma alarm_leaves_bind:
  assumes "alarm_leaves sq tb r x m" "\<And>db'. alarm_file sq tb db' m \<Longrightarrow> alarm_leaves sq tb (f x db') y m'"
  shows "alarm_leaves sq tb (r \<bind> (\<lambda>(x, db). f x db)) y m'"
  using assms by (auto simp: alarm_leaves_def)

lemma alarm_exec:
  assumes "alarm_file sq tb db m" "parse_sql s = Some u" "\<not> is_query u" "length s < n"
    "\<exists>T. run_update u (tb db) = Some T \<and> alarm_ok T \<and> alarm_map T = m'"
  shows "alarm_leaves sq tb (on_alarm sq f (exec_sql sq n s) db) True m'"
proof -
  have spec: "sqlite_spec sq tb" and schema: "alarm_schema (tb db)" using assms(1) by (auto simp: alarm_file_def alarm_ok_def)
  obtain T where T: "run_update u (tb db) = Some T" "alarm_ok T" "alarm_map T = m'" using assms(5) by blast
  show ?thesis
    using sql_file.exec_yields [OF alarm_sql_file [OF spec] schema assms(2,3) T(1) assms(4), of f] T(2,3) spec
    unfolding alarm_leaves_def alarm_file_def by blast
qed

lemma alarm_select:
  assumes "alarm_file sq tb db m" "parse_sql s = Some q" "run_query q (tb db) = Some rs" "length s < n" "rs \<noteq> [] \<longleftrightarrow> b"
  shows "alarm_leaves sq tb (on_alarm sq f (\<lambda>db. query sq n s db \<bind> (\<lambda>rs. Some (rs \<noteq> [], db))) db) b m"
proof -
  have spec: "sqlite_spec sq tb" and schema: "alarm_schema (tb db)" using assms(1) by (auto simp: alarm_file_def alarm_ok_def)
  show ?thesis
    using sql_file.exists_yields [OF alarm_sql_file [OF spec] schema assms(2-4), of f] assms(1,5)
    by (auto simp: alarm_leaves_def alarm_file_def)
qed

lemma isAlarmTypeAndValueMatch_leaves:
  assumes "alarm_file sq tb db m" "type_ok ty" "arg value"
  shows "alarm_leaves sq tb (isAlarmTypeAndValueMatch sq ty value db) ((type_name ty, value) \<in> dom m) m"
proof -
  note q = argD(1) [OF assms(3)] and len = argD(2) [OF assms(3)]
  have "alarm_schema (tb db)" "alarm_map (tb db) = m" using assms(1) by (simp_all add: alarm_file_def alarm_ok_def)
  then obtain rs where rs: "run_query (Select [] ''alarmtable'' (key_cond (type_name ty) value)) (tb db) = Some rs"
    "rs \<noteq> [] \<longleftrightarrow> (type_name ty, value) \<in> dom m"
    using alarm_exists [of "tb db" "type_name ty" "value"] by blast
  have "alarm_leaves sq tb (on_alarm sq False (\<lambda>db. query sq 1024 (''select * from alarmtable where F_TYPE='' @
      quoted (type_name ty) @ '' and F_VALUE='' @ quoted value) db \<bind> (\<lambda>rs. Some (rs \<noteq> [], db))) db)
      ((type_name ty, value) \<in> dom m) m"
    by (rule alarm_select [OF assms(1) parse_key(3) [OF q, of "''o''"] rs(1) _ rs(2)])
      (use len type_name_plain(3) [of ty] in simp_all)
  then show ?thesis using assms(2) by (auto simp: isAlarmTypeAndValueMatch_def alarm_types)
qed

lemma insertIntoAlarmTable_leaves:
  assumes "alarm_file sq tb db m" "type_ok ty" "arg value" "(type_name ty, value) \<notin> dom m"
  shows "alarm_leaves sq tb (insertIntoAlarmTable sq ty value db) True (m((type_name ty, value) \<mapsto> ''o''))"
proof -
  note q = argD(1) [OF assms(3)] and len = argD(2) [OF assms(3)]
  have ok: "alarm_ok (tb db)" "alarm_map (tb db) = m" using assms(1) by (simp_all add: alarm_file_def)
  have "alarm_leaves sq tb (on_alarm sq False (exec_sql sq 1024 (''insert into alarmtable values('' @ quoted (type_name ty) @ '','' @
      quoted value @ '','' @ quoted ''o'' @ '')'')) db) True (m((type_name ty, value) \<mapsto> ''o''))"
    by (rule alarm_exec [OF assms(1) parse_key(1) [OF q]])
      (use len type_name_plain(3) [of ty] alarm_insert [OF ok(1) _ type_name_plain(2)] ok(2) assms(4) in simp_all)
  then show ?thesis using assms(2) by (auto simp: insertIntoAlarmTable_def alarm_types)
qed

lemma DeleteByEmailOrMobile_leaves:
  assumes "alarm_file sq tb db m" "type_ok ty" "arg value"
  shows "alarm_leaves sq tb (DeleteByEmailOrMobile sq ty value db) True (m((type_name ty, value) := None))"
proof -
  note q = argD(1) [OF assms(3)] and len = argD(2) [OF assms(3)]
  have ok: "alarm_ok (tb db)" "alarm_map (tb db) = m" using assms(1) by (simp_all add: alarm_file_def)
  have "alarm_leaves sq tb (on_alarm sq False (exec_sql sq 1024 (''delete from alarmtable where F_TYPE='' @ quoted (type_name ty) @
      '' and F_VALUE='' @ quoted value)) db) True (m((type_name ty, value) := None))"
    by (rule alarm_exec [OF assms(1) parse_key(4) [OF q, of "''o''"]])
      (use len type_name_plain(3) [of ty] alarm_delete [OF ok(1)] ok(2) in simp_all)
  then show ?thesis using assms(2) by (auto simp: DeleteByEmailOrMobile_def alarm_types)
qed

text \<open>The state that a lock action sets.\<close>

definition lock_state :: "int \<Rightarrow> string" where
  "lock_state lock_type = (if lock_type = ALARM_LOCK then ''c'' else ''o'')"

lemma SetAlarmState_leaves:
  assumes "alarm_file sq tb db m" "type_ok ty" "arg value" "(type_name ty, value) \<in> dom m"
    "lock_type = ALARM_LOCK \<or> lock_type = ALARM_UNLOCK"
  shows "alarm_leaves sq tb (SetAlarmState sq lock_type ty value db) True (m((type_name ty, value) \<mapsto> lock_state lock_type))"
proof -
  note q = argD(1) [OF assms(3)] and len = argD(2) [OF assms(3)]
  have ok: "alarm_ok (tb db)" "alarm_map (tb db) = m" using assms(1) by (simp_all add: alarm_file_def)
  have state: "QUOTE \<notin> set (lock_state lock_type)" "length (lock_state lock_type) = 1" "lock_state lock_type \<in> {''o'', ''c''}"
    by (simp_all add: lock_state_def)
  have stmt: "state_statement s ty value = ''update alarmtable set F_STATE = '' @ quoted s @ '' where F_TYPE='' @
      quoted (type_name ty) @ '' and F_VALUE='' @ quoted value" for s
    using assms(2) by (auto simp: state_statement_def alarm_types)
  have "alarm_leaves sq tb (on_alarm sq False (exec_sql sq 1024 (state_statement (lock_state lock_type) ty value)) db) True
      (m((type_name ty, value) \<mapsto> lock_state lock_type))"
    unfolding stmt
    by (rule alarm_exec [OF assms(1) parse_key(5) [OF q state(1)]])
      (use len type_name_plain(3) [of ty] state(2) alarm_change [OF ok(1) _ state(3)] ok(2) assms(4) in simp_all)
  then show ?thesis using assms(5) by (auto simp: SetAlarmState_def lock_state_def ALARM_LOCK_def ALARM_UNLOCK_def)
qed

subsection \<open>The alarm list as an abstract machine\<close>

datatype alarm_op = Add_Alarm int string | Delete_Alarm int string | Lock_Alarm int string | Unlock_Alarm int string

fun alarm_call :: "'db sqlite \<Rightarrow> alarm_op \<Rightarrow> 'db \<Rightarrow> (bool \<times> 'db) option" where
  "alarm_call sq (Add_Alarm ty value) db = AddAlarmItem sq ty value db"
| "alarm_call sq (Delete_Alarm ty value) db = DeleteFromAlarmTable sq ty value db"
| "alarm_call sq (Lock_Alarm ty value) db = ChangeAlarmItemToState sq ALARM_LOCK ty value db"
| "alarm_call sq (Unlock_Alarm ty value) db = ChangeAlarmItemToState sq ALARM_UNLOCK ty value db"

fun alarm_key :: "alarm_op \<Rightarrow> string \<times> string" where
  "alarm_key (Add_Alarm ty value) = (type_name ty, value)"
| "alarm_key (Delete_Alarm ty value) = (type_name ty, value)"
| "alarm_key (Lock_Alarm ty value) = (type_name ty, value)"
| "alarm_key (Unlock_Alarm ty value) = (type_name ty, value)"

fun alarm_type :: "alarm_op \<Rightarrow> int" where
  "alarm_type (Add_Alarm ty value) = ty"
| "alarm_type (Delete_Alarm ty value) = ty"
| "alarm_type (Lock_Alarm ty value) = ty"
| "alarm_type (Unlock_Alarm ty value) = ty"

text \<open>The arguments of the calls. An entry of another type than the two is not looked for before it is added, so that
  adding it is not an operation on the map (\<open>alarm_unknown_type\<close> below).\<close>

fun alarm_op_ok :: "alarm_op \<Rightarrow> bool" where
  "alarm_op_ok (Add_Alarm ty value) \<longleftrightarrow> type_ok ty \<and> arg value"
| "alarm_op_ok (Delete_Alarm ty value) \<longleftrightarrow> arg value"
| "alarm_op_ok (Lock_Alarm ty value) \<longleftrightarrow> arg value"
| "alarm_op_ok (Unlock_Alarm ty value) \<longleftrightarrow> arg value"

text \<open>What the calls promise: an entry is added open when it is unknown; only a known one is deleted, closed or opened;
  there is none of another type.\<close>

fun alarm_target :: "alarm_op \<Rightarrow> string option" where
  "alarm_target (Add_Alarm _ _) = Some ''o''"
| "alarm_target (Delete_Alarm _ _) = None"
| "alarm_target (Lock_Alarm _ _) = Some ''c''"
| "alarm_target (Unlock_Alarm _ _) = Some ''o''"

fun adds :: "alarm_op \<Rightarrow> bool" where
  "adds (Add_Alarm _ _) \<longleftrightarrow> True"
| "adds _ \<longleftrightarrow> False"

definition alarm_step :: "alarm_op \<Rightarrow> (string \<times> string \<rightharpoonup> string) \<Rightarrow> bool \<times> (string \<times> string \<rightharpoonup> string)" where
  "alarm_step op m =
     (if \<not> type_ok (alarm_type op) \<or> (adds op \<longleftrightarrow> alarm_key op \<in> dom m) then (False, m) else (True, m(alarm_key op := alarm_target op)))"

lemma AddAlarmItem_leaves:
  assumes "alarm_file sq tb db m" "type_ok ty" "arg value"
  shows "alarm_leaves sq tb (AddAlarmItem sq ty value db) (fst (alarm_step (Add_Alarm ty value) m)) (snd (alarm_step (Add_Alarm ty value) m))"
  unfolding AddAlarmItem_def
  by (rule alarm_leaves_bind [OF isAlarmTypeAndValueMatch_leaves [OF assms]])
    (cases "(type_name ty, value) \<in> dom m";
      use insertIntoAlarmTable_leaves [OF _ assms(2,3)] assms(2) in \<open>simp add: alarm_step_def alarm_leaves_def del: domIff\<close>)

lemma isAlarmTypeAndValueMatch_unknown:
  assumes "sqlite_spec sq tb" "alarm_schema (tb db)" "\<not> type_ok ty"
  shows "\<exists>db'. isAlarmTypeAndValueMatch sq ty value db = Some (False, db') \<and> tb db' = tb db"
proof -
  obtain db' where "alarm_database_open sq db = (True, db')" "tb db' = tb db"
    using alarm_opens [OF assms(1), of db] assms(2) by (auto simp: ensure_table_def elim: alarm_schemaE)
  then show ?thesis using assms(3) by (auto simp: isAlarmTypeAndValueMatch_def on_db_def type_ok_def)
qed

lemma unknown_leaves:
  assumes "alarm_file sq tb db m" "\<not> type_ok ty"
  shows "alarm_leaves sq tb (isAlarmTypeAndValueMatch sq ty value db \<bind> (\<lambda>(e, db). if e then f db else Some (False, db))) False m"
  using isAlarmTypeAndValueMatch_unknown [of sq tb db ty "value"] assms
  by (fastforce simp: alarm_leaves_def alarm_file_def alarm_ok_def)

lemma DeleteFromAlarmTable_leaves:
  assumes "alarm_file sq tb db m" "arg value"
  shows "alarm_leaves sq tb (DeleteFromAlarmTable sq ty value db) (fst (alarm_step (Delete_Alarm ty value) m))
    (snd (alarm_step (Delete_Alarm ty value) m))"
proof (cases "type_ok ty")
  case True
  show ?thesis unfolding DeleteFromAlarmTable_def
    by (rule alarm_leaves_bind [OF isAlarmTypeAndValueMatch_leaves [OF assms(1) True assms(2)]])
      (cases "(type_name ty, value) \<in> dom m";
        use DeleteByEmailOrMobile_leaves [OF _ True assms(2)] True in \<open>simp add: alarm_step_def alarm_leaves_def del: domIff\<close>)
next
  case False
  then show ?thesis
    using unknown_leaves [OF assms(1) False] by (simp add: DeleteFromAlarmTable_def alarm_step_def)
qed

lemma ChangeAlarmItemToState_leaves:
  assumes "alarm_file sq tb db m" "type_ok ty" "arg value" "lock_type = ALARM_LOCK \<or> lock_type = ALARM_UNLOCK"
  shows "alarm_leaves sq tb (ChangeAlarmItemToState sq lock_type ty value db) ((type_name ty, value) \<in> dom m)
    (if (type_name ty, value) \<in> dom m then m((type_name ty, value) \<mapsto> lock_state lock_type) else m)"
  unfolding ChangeAlarmItemToState_def
  by (rule alarm_leaves_bind [OF isAlarmTypeAndValueMatch_leaves [OF assms(1-3)]])
    (cases "(type_name ty, value) \<in> dom m";
      use SetAlarmState_leaves [OF _ assms(2,3) _ assms(4)] in \<open>simp add: alarm_leaves_def del: domIff\<close>)

lemma locked_leaves:
  assumes "alarm_file sq tb db m" "arg value" "lock_type = ALARM_LOCK \<or> lock_type = ALARM_UNLOCK"
  shows "alarm_leaves sq tb (ChangeAlarmItemToState sq lock_type ty value db) (type_ok ty \<and> (type_name ty, value) \<in> dom m)
    (if type_ok ty \<and> (type_name ty, value) \<in> dom m then m((type_name ty, value) \<mapsto> lock_state lock_type) else m)"
proof (cases "type_ok ty")
  case True
  then show ?thesis using ChangeAlarmItemToState_leaves [OF assms(1) True assms(2,3)] by simp
next
  case False
  then show ?thesis using unknown_leaves [OF assms(1) False] by (simp add: ChangeAlarmItemToState_def)
qed

lemma alarm_call_leaves:
  assumes "alarm_file sq tb db m" "alarm_op_ok op"
  shows "alarm_leaves sq tb (alarm_call sq op db) (fst (alarm_step op m)) (snd (alarm_step op m))"
proof (cases op)
  case (Add_Alarm ty val)
  then show ?thesis using AddAlarmItem_leaves [OF assms(1), of ty val] assms(2) by simp
next
  case (Delete_Alarm ty val)
  then show ?thesis using DeleteFromAlarmTable_leaves [OF assms(1), of val ty] assms(2) by simp
next
  case (Lock_Alarm ty val)
  then show ?thesis using locked_leaves [OF assms(1), of val ALARM_LOCK ty] assms(2)
    by (cases "type_ok ty \<and> (type_name ty, val) \<in> dom m") (auto simp: alarm_step_def lock_state_def simp del: domIff)
next
  case (Unlock_Alarm ty val)
  then show ?thesis using locked_leaves [OF assms(1), of val ALARM_UNLOCK ty] assms(2)
    by (cases "type_ok ty \<and> (type_name ty, val) \<in> dom m")
      (auto simp: alarm_step_def lock_state_def ALARM_LOCK_def ALARM_UNLOCK_def simp del: domIff)
qed

fun alarm_calls :: "'db sqlite \<Rightarrow> alarm_op list \<Rightarrow> 'db \<Rightarrow> (bool list \<times> 'db) option" where
  "alarm_calls sq [] db = Some ([], db)"
| "alarm_calls sq (op # ops) db = do {
     (b, db) \<leftarrow> alarm_call sq op db;
     (bs, db) \<leftarrow> alarm_calls sq ops db;
     Some (b # bs, db)
   }"

fun alarm_steps :: "alarm_op list \<Rightarrow> (string \<times> string \<rightharpoonup> string) \<Rightarrow> bool list \<times> (string \<times> string \<rightharpoonup> string)" where
  "alarm_steps [] m = ([], m)"
| "alarm_steps (op # ops) m = (let (b, m) = alarm_step op m; (bs, m) = alarm_steps ops m in (b # bs, m))"

lemma alarm_calls_leaves:
  assumes "alarm_file sq tb db m" "list_all alarm_op_ok ops"
  shows "alarm_leaves sq tb (alarm_calls sq ops db) (fst (alarm_steps ops m)) (snd (alarm_steps ops m))"
  using assms
proof (induction ops arbitrary: db m)
  case Nil
  then show ?case by (simp add: alarm_leaves_def)
next
  case (Cons op ops)
  then obtain db' where db': "alarm_call sq op db = Some (fst (alarm_step op m), db')" "alarm_file sq tb db' (snd (alarm_step op m))"
    using alarm_call_leaves [of sq tb db m op] by (auto simp: alarm_leaves_def)
  then show ?case
    using Cons.IH [OF db'(2)] Cons.prems(2) by (auto simp: alarm_leaves_def case_prod_unfold Let_def)
qed

text \<open>An entry of another type is added as a mail address each time, whether it is listed or not.\<close>

lemma AddAlarmItem_unknown:
  assumes "sqlite_spec sq tb" "alarm_schema (tb db)" "\<not> type_ok ty" "arg value"
  shows "\<exists>db'. AddAlarmItem sq ty value db = Some (True, db') \<and> alarm_schema (tb db') \<and>
    alarm_rows (tb db') = alarm_rows (tb db) @ [[''email'', value, ''o'']]"
proof -
  obtain db1 where db1: "isAlarmTypeAndValueMatch sq ty value db = Some (False, db1)" "tb db1 = tb db"
    using isAlarmTypeAndValueMatch_unknown [OF assms(1-3)] by blast
  obtain T where T: "run_update (Insert ''alarmtable'' [] [''email'', value, ''o'']) (tb db1) = Some T" "alarm_schema T"
    "alarm_rows T = alarm_rows (tb db) @ [[''email'', value, ''o'']]"
    using alarm_insert_rows [OF assms(2)] unfolding db1(2) by blast
  have "QUOTE \<notin> set ''email''" "QUOTE \<notin> set ''o''" by simp_all
  note parse = parse_alarm(1) [OF this(1) argD(1) [OF assms(4)] this(2)]
  have "\<exists>db'. insertIntoAlarmTable sq ty value db1 = Some (True, db') \<and> tb db' = T"
    using sql_file.exec_yields [OF alarm_sql_file [OF assms(1)] _ parse _ T(1), of 1024 False] assms(2,3) db1(2) argD(2) [OF assms(4)]
    by (simp add: insertIntoAlarmTable_def type_ok_def)
  then show ?thesis using db1(1) T(2,3) by (auto simp: AddAlarmItem_def)
qed

lemma alarm_unknown_type:
  assumes "sqlite_spec sq tb" "alarm_ok (tb db)" "\<not> type_ok ty" "arg value"
  shows "\<exists>db'. alarm_calls sq [Add_Alarm ty value, Add_Alarm ty value] db = Some ([True, True], db') \<and> \<not> alarm_ok (tb db')"
proof -
  have "alarm_schema (tb db)" using assms(2) by (simp add: alarm_ok_def)
  then obtain db1 where db1: "AddAlarmItem sq ty value db = Some (True, db1)" "alarm_schema (tb db1)"
    "alarm_rows (tb db1) = alarm_rows (tb db) @ [[''email'', value, ''o'']]"
    using AddAlarmItem_unknown [OF assms(1) _ assms(3,4)] by blast
  then obtain db2 where "AddAlarmItem sq ty value db1 = Some (True, db2)"
    "alarm_rows (tb db2) = (alarm_rows (tb db) @ [[''email'', value, ''o'']]) @ [[''email'', value, ''o'']]"
    using AddAlarmItem_unknown [OF assms(1) db1(2) assms(3,4)] by auto
  then show ?thesis using db1(1) by (simp add: alarm_ok_def)
qed

text \<open>
  C26: the calls on the alarm list implement a map from type and value to the state. For values free of quotes and of at
  most 200 characters, every sequence of additions, deletions, locks and unlocks, the additions of one of the two types
  mail and mobile, returns what the operations on the map return, and leaves a table in which every entry is listed once and
  stands for this map.
\<close>

theorem alarm_refinement:
  assumes "sqlite_spec sq tb" "alarm_ok (tb db)" "list_all alarm_op_ok ops"
  shows "\<exists>db'. alarm_calls sq ops db = Some (fst (alarm_steps ops (alarm_map (tb db))), db') \<and> alarm_ok (tb db') \<and>
    alarm_map (tb db') = snd (alarm_steps ops (alarm_map (tb db)))"
  using alarm_calls_leaves [of sq tb db "alarm_map (tb db)" ops] assms by (auto simp: alarm_leaves_def alarm_file_def)

definition new_alarms :: tables where
  "new_alarms = snd (alarm_database_open table_sqlite Map.empty)"

lemma new_alarms: "alarm_file table_sqlite id new_alarms Map.empty"
  using alarm_opens [OF table_sqlite_spec, of Map.empty]
  by (auto simp: alarm_file_def table_sqlite_spec new_alarms_def ensure_table_def alarm_ok_def alarm_schema_def alarm_rows_def
      alarm_map_def)

definition some_alarms :: "alarm_op list" where
  "some_alarms = [Add_Alarm 1 ''13800000001'', Add_Alarm 1 ''13800000002'', Lock_Alarm 1 ''13800000001'',
     Add_Alarm 1 ''13800000001'', Delete_Alarm 0 ''a'']"

lemma alarm_refinement_witness:
  "\<exists>db'. alarm_calls table_sqlite some_alarms new_alarms = Some ([True, True, True, False, False], db') \<and> alarm_ok (id db') \<and>
     alarm_map (id db') = [(''mobile'', ''13800000002'') \<mapsto> ''o'', (''mobile'', ''13800000001'') \<mapsto> ''c'']"
proof -
  have m: "alarm_map (id new_alarms) = Map.empty" "alarm_ok (id new_alarms)" using new_alarms by (simp_all add: alarm_file_def)
  have steps: "alarm_steps some_alarms Map.empty = ([True, True, True, False, False],
      [(''mobile'', ''13800000002'') \<mapsto> ''o'', (''mobile'', ''13800000001'') \<mapsto> ''c''])"
    by (simp add: some_alarms_def alarm_step_def alarm_types)
  have "list_all alarm_op_ok some_alarms"
    by (simp add: some_alarms_def alarm_types arg_def)
  then show ?thesis
    using alarm_refinement [where ops = some_alarms and db = new_alarms, OF table_sqlite_spec m(2)] unfolding m(1) steps by simp
qed

subsection \<open>Who is informed\<close>

definition open_values :: "string \<Rightarrow> (string \<times> string \<rightharpoonup> string) \<Rightarrow> string set" where
  "open_values ty m = {v. m (ty, v) = Some ''o''}"

definition comma_list :: "string list \<Rightarrow> string" where
  "comma_list vs = butlast (concat (map (\<lambda>v. v @ '','') vs))"

lemma cat_rows_all:
  "\<forall>r\<in>set rs. f r = Some (g r) \<Longrightarrow> length (s @ concat (map g rs)) < n \<Longrightarrow> cat_rows n f s rs = Some (s @ concat (map g rs))"
  by (induction rs arbitrary: s) (simp_all add: fits_def)

text \<open>The rows of the query for the open entries of a type.\<close>

lemma open_rows:
  assumes "alarm_file sq tb db m" "ty \<in> {''email'', ''mobile''}"
  shows "\<exists>db' vs. alarm_database_open sq db = (True, db') \<and> alarm_file sq tb db' m \<and> distinct vs \<and> set vs = open_values ty m \<and>
    sql_get_table sq (''select F_VALUE from alarmtable where F_TYPE = '' @ quoted ty @ '' and F_STATE = '' @ quoted ''o'') db' =
      map (\<lambda>v. [v]) vs"
proof -
  have spec: "sqlite_spec sq tb" and ok: "alarm_ok (tb db)" "alarm_schema (tb db)" and m: "alarm_map (tb db) = m"
    using assms(1) by (auto simp: alarm_file_def alarm_ok_def)
  obtain t where t: "tb db ''alarmtable'' = Some t" "names t = alarm_names" "alarm_rows (tb db) = rows t" "\<forall>r\<in>set (rows t). length r = 3"
    using ok(2) by (rule alarm_schemaE)
  let ?w = "Conj (Equal ''F_TYPE'' (Const ty)) (Equal ''F_STATE'' (Const ''o''))"
  let ?q = "Select [''F_VALUE''] ''alarmtable'' ?w"
  define us where "us = map (\<lambda>r. r ! 1) (filter (\<lambda>r. r ! 0 = ty \<and> r ! 2 = ''o'') (rows t))"
  have sel: "filter (holds alarm_names ?w) (rows t) = filter (\<lambda>r. r ! 0 = ty \<and> r ! 2 = ''o'') (rows t)"
    using t(4) by (intro filter_cong) (simp_all add: cell_alarm)
  have run: "run_query ?q (tb db) = Some (map (\<lambda>v. [v]) us)"
    using t(1,2,4) by (auto simp: sel us_def project_def cell_alarm)
  have parse: "parse_sql (''select F_VALUE from alarmtable where F_TYPE = '' @ quoted ty @ '' and F_STATE = '' @ quoted ''o'') = Some ?q"
    using assms(2) by (intro parse_alarm(2) [of _ "[]"]) auto
  obtain db' rs where db': "alarm_database_open sq db = (True, db')" "tb db' = tb db"
    "sql_get_table sq (''select F_VALUE from alarmtable where F_TYPE = '' @ quoted ty @ '' and F_STATE = '' @ quoted ''o'') db' = rs"
    "mset rs = mset (map (\<lambda>v. [v]) us)"
    using sql_file.query_runs [OF alarm_sql_file [OF spec] ok(2) parse run] by blast
  have "\<forall>r\<in>set rs. \<exists>v. r = [v]" using mset_eq_setD [OF db'(4)] by auto
  then have rs: "rs = map (\<lambda>v. [v]) (map hd rs)" by (induction rs) auto
  have "mset (map hd rs) = image_mset hd (mset (map (\<lambda>v. [v]) us))" using db'(4) by (metis mset_map)
  then have us: "mset (map hd rs) = mset us" by (simp add: multiset.map_comp comp_def flip: mset_map)
  have keys: "distinct (map (\<lambda>r. (r ! 0, r ! 1)) (rows t))"
    using ok(1) t(3) by (simp add: alarm_ok_def alarm_item_def comp_def)
  have "distinct us"
    using keys unfolding us_def by (auto simp: distinct_map inj_on_def)
  then have "distinct (map hd rs)" using us by (metis mset_eq_imp_distinct_iff)
  moreover have "set (map hd rs) = open_values ty m"
  proof -
    have d: "distinct (map fst (map alarm_item (rows t)))" using keys by (simp add: alarm_item_def comp_def)
    have "m (ty, v) = Some ''o'' \<longleftrightarrow> ((ty, v), ''o'') \<in> set (map alarm_item (rows t))" for v
      using map_of_eq_Some_iff [OF d, of "(ty, v)" "''o''"] m t(3) by (simp only: alarm_map_def)
    then have "set us = open_values ty m" by (auto simp: us_def open_values_def alarm_item_def)
    then show ?thesis using mset_eq_setD [OF us] by simp
  qed
  moreover have "alarm_file sq tb db' m" using spec ok m db'(2) by (simp add: alarm_file_def)
  ultimately show ?thesis using db' rs by metis
qed

lemma length_comma_list: "distinct vs \<Longrightarrow> length (concat (map (\<lambda>v. v @ '','') vs)) = (\<Sum>v\<in>set vs. length v + 1)"
  by (simp add: length_concat comp_def sum_list_distinct_conv_sum_set)

lemma comma_list_Cons: "comma_list (v # vs) = (if vs = [] then v else v @ CHR '','' # comma_list vs)"
proof (cases vs)
  case (Cons w ws)
  then have "concat (map (\<lambda>v. v @ '','') vs) \<noteq> []" by simp
  then show ?thesis using Cons by (simp add: comma_list_def butlast_append)
qed (simp add: comma_list_def butlast_append)

lemma open_list:
  assumes "alarm_file sq tb db m" "ty \<in> {''email'', ''mobile''}" "(\<Sum>v\<in>open_values ty m. length v + 1) < 1024"
  shows "\<exists>db' vs rs. alarm_database_open sq db = (True, db') \<and> alarm_file sq tb db' m \<and> distinct vs \<and> set vs = open_values ty m \<and>
    sql_get_table sq (''select F_VALUE from alarmtable where F_TYPE = '' @ quoted ty @ '' and F_STATE = '' @ quoted ''o'') db' = rs \<and>
    (rs = [] \<longleftrightarrow> vs = []) \<and>
    cat_rows 1024 (\<lambda>r. map_option (\<lambda>c. c @ '','') (mget r 0)) [] rs = Some (concat (map (\<lambda>v. v @ '','') vs))"
proof -
  obtain db' vs where r: "alarm_database_open sq db = (True, db')" "alarm_file sq tb db' m" "distinct vs" "set vs = open_values ty m"
    "sql_get_table sq (''select F_VALUE from alarmtable where F_TYPE = '' @ quoted ty @ '' and F_STATE = '' @ quoted ''o'') db' =
      map (\<lambda>v. [v]) vs"
    using open_rows [OF assms(1,2)] by auto
  have "cat_rows 1024 (\<lambda>r. map_option (\<lambda>c. c @ '','') (mget r 0)) [] (map (\<lambda>v. [v]) vs) =
      Some ([] @ concat (map (\<lambda>r. hd r @ '','') (map (\<lambda>v. [v]) vs)))"
    using assms(3) length_comma_list [OF r(3)] r(4) by (intro cat_rows_all) (simp_all add: mget_def comp_def)
  then have "cat_rows 1024 (\<lambda>r. map_option (\<lambda>c. c @ '','') (mget r 0)) [] (map (\<lambda>v. [v]) vs) =
      Some (concat (map (\<lambda>v. v @ '','') vs))" by (simp add: comp_def)
  then show ?thesis using r by blast
qed

lemma GetMobileList_leaves:
  assumes "alarm_file sq tb db m" "(\<Sum>v\<in>open_values ''mobile'' m. length v + 1) < 1024"
  shows "\<exists>vs. alarm_leaves sq tb (GetMobileList sq g db) (if vs = [] then ''_NULL_'' else comma_list vs) m \<and> distinct vs \<and>
    set vs = open_values ''mobile'' m"
  using open_list [OF assms(1) _ assms(2)]
  by (auto simp: alarm_leaves_def GetMobileList_def on_db_def comma_list_def Let_def)

lemma GetEmailList_leaves:
  assumes "alarm_file sq tb db m" "(\<Sum>v\<in>open_values ''email'' m. length v + 1) < 1024"
  shows "\<exists>vs. alarm_leaves sq tb (GetEmailList sq g db) (if vs = [] then ''_NULL_'' else comma_list vs) m \<and> distinct vs \<and>
    set vs = open_values ''email'' m"
  using open_list [OF assms(1) _ assms(2)]
  by (auto simp: alarm_leaves_def GetEmailList_def on_db_def comma_list_def Let_def)

lemma isUserMobileNumberValid_leaves:
  assumes "alarm_file sq tb db m" "arg v"
  shows "alarm_leaves sq tb (isUserMobileNumberValid sq v db) (v \<in> open_values ''mobile'' m) m"
proof -
  have ok: "alarm_ok (tb db)" "alarm_schema (tb db)" and m: "alarm_map (tb db) = m"
    using assms(1) by (auto simp: alarm_file_def alarm_ok_def)
  obtain t where t: "tb db ''alarmtable'' = Some t" "names t = alarm_names" "alarm_rows (tb db) = rows t" "\<forall>r\<in>set (rows t). length r = 3"
    using ok(2) by (rule alarm_schemaE)
  let ?w = "Conj (Equal ''F_TYPE'' (Const ''mobile'')) (Conj (Equal ''F_VALUE'' (Const v)) (Equal ''F_STATE'' (Const ''o'')))"
  have d: "distinct (map fst (map alarm_item (rows t)))" using ok(1) t(3) by (simp add: alarm_ok_def)
  have "v \<in> open_values ''mobile'' m \<longleftrightarrow> ((''mobile'', v), ''o'') \<in> set (map alarm_item (rows t))"
    using map_of_eq_Some_iff [OF d, of "(''mobile'', v)" "''o''"] m t(3) by (simp only: alarm_map_def open_values_def mem_Collect_eq)
  also have "\<dots> \<longleftrightarrow> (\<exists>r\<in>set (rows t). holds alarm_names ?w r)"
    using t(4) by (force simp: alarm_item_def cell_alarm)
  finally have found: "map (project alarm_names []) (filter (holds alarm_names ?w) (rows t)) \<noteq> [] \<longleftrightarrow> v \<in> open_values ''mobile'' m"
    by (simp only: filter_empty_conv map_is_Nil_conv Set.ball_simps not_not)
  have run: "run_query (Select [] ''alarmtable'' ?w) (tb db) = Some (map (project alarm_names []) (filter (holds alarm_names ?w) (rows t)))"
    using t(1,2) by simp
  show ?thesis
    unfolding isUserMobileNumberValid_def
    by (rule alarm_select [OF assms(1) parse_alarm(6) run _ found]) (use argD [OF assms(2)] in simp_all)
qed

text \<open>
  C29: who is informed of an alarm is who may give commands: the list that \<open>GetMobileList\<close> builds consists of the
  numbers whose entry is open, each once, separated by commas, as long as it fits its array, and
  \<open>isUserMobileNumberValid\<close> accepts exactly these.
\<close>

theorem alarm_receivers:
  assumes "sqlite_spec sq tb" "alarm_ok (tb db)" "(\<Sum>v\<in>open_values ''mobile'' (alarm_map (tb db)). length v + 1) < 1024"
  shows "\<exists>vs db'. GetMobileList sq g db = Some (if vs = [] then ''_NULL_'' else comma_list vs, db') \<and> distinct vs \<and>
    set vs = open_values ''mobile'' (alarm_map (tb db)) \<and>
    (\<forall>v. arg v \<longrightarrow> (\<exists>db2. isUserMobileNumberValid sq v db = Some (v \<in> set vs, db2)))"
proof -
  let ?m = "alarm_map (tb db)"
  have listed: "alarm_file sq tb db ?m" using assms(1,2) by (simp add: alarm_file_def)
  obtain vs where vs: "alarm_leaves sq tb (GetMobileList sq g db) (if vs = [] then ''_NULL_'' else comma_list vs) ?m" "distinct vs"
    "set vs = open_values ''mobile'' ?m"
    using GetMobileList_leaves [OF listed assms(3)] by blast
  have "\<exists>db2. isUserMobileNumberValid sq v db = Some (v \<in> set vs, db2)" if "arg v" for v
    using isUserMobileNumberValid_leaves [OF listed that] unfolding alarm_leaves_def vs(3) by blast
  then show ?thesis using vs unfolding alarm_leaves_def by blast
qed

text \<open>A list with one open and one locked number.\<close>

lemma one_open_number: "\<exists>u. alarm_ok (id u) \<and> open_values ''mobile'' (alarm_map (id u)) = {''13800000002''}"
proof -
  have "list_all alarm_op_ok some_alarms" by (simp add: some_alarms_def alarm_types arg_def)
  then obtain u where "alarm_file table_sqlite id u (snd (alarm_steps some_alarms Map.empty))"
    using alarm_calls_leaves [OF new_alarms] by (auto simp: alarm_leaves_def)
  then show ?thesis
    by (intro exI [of _ u]) (auto simp: alarm_file_def some_alarms_def alarm_step_def alarm_types
        open_values_def split: if_splits)
qed

lemma alarm_receivers_witness:
  "\<exists>db vs db'. open_values ''mobile'' (alarm_map db) = {''13800000002''} \<and>
    GetMobileList table_sqlite [] db = Some (if vs = [] then ''_NULL_'' else comma_list vs, db') \<and> distinct vs \<and>
    set vs = open_values ''mobile'' (alarm_map db) \<and>
    (\<forall>v. arg v \<longrightarrow> (\<exists>db2. isUserMobileNumberValid table_sqlite v db = Some (v \<in> set vs, db2)))"
proof -
  obtain db where ok: "alarm_ok (id db)" and vals: "open_values ''mobile'' (alarm_map (id db)) = {''13800000002''}"
    using one_open_number by blast
  have "(\<Sum>v\<in>open_values ''mobile'' (alarm_map (id db)). length v + 1) < 1024" unfolding vals by simp
  then show ?thesis using alarm_receivers [where db = db and g = "[]", OF table_sqlite_spec ok] vals by (intro exI [of _ db]) simp
qed

end
