(* ===== verification/Uart_Link.thy ===== *)
theory Uart_Link
  imports Uart_Thread
begin

text \<open>
  The Zigbee link as a whole: messages put together from chunks, reports and echoes that the UART thread handles,
  and control requests that wait for their echo.
\<close>

subsection \<open>Putting messages together\<close>

lemma strlen_chunk: "NUL \<notin> set chunk \<Longrightarrow> length chunk < 50 \<Longrightarrow> strlen (c_array 50 chunk) = Some (length chunk)"
proof -
  assume c: "NUL \<notin> set chunk" "length chunk < 50"
  obtain k where k: "50 - length chunk = Suc k" using c(2) by (cases "50 - length chunk") auto
  have "c_array 50 chunk = chunk @ NUL # replicate k NUL" unfolding c_array_def take_append k using c(2) k by simp
  then show ?thesis using c(1) by simp
qed

text \<open>A chunk as the driver delivers it.\<close>

definition chunk_ok :: "string \<Rightarrow> bool" where
  "chunk_ok c \<longleftrightarrow> c \<noteq> [] \<and> length c < 50 \<and> NUL \<notin> set c"

lemma read_start:
  "chunk_ok c \<Longrightarrow> CHR ''*'' \<in> set c \<Longrightarrow> ReadFromUart (c # cs) buffer = ReadFromUart cs c"
  by (simp add: chunk_ok_def strlen_chunk fits_def)

lemma read_middle:
  "chunk_ok c \<Longrightarrow> CHR ''*'' \<notin> set c \<Longrightarrow> CHR ''#'' \<notin> set c \<Longrightarrow> length buffer + length c < 1024 \<Longrightarrow>
   ReadFromUart (c # cs) buffer = ReadFromUart cs (buffer @ c)"
  by (simp add: chunk_ok_def strlen_chunk fits_def)

lemma read_end:
  "chunk_ok c \<Longrightarrow> CHR ''*'' \<notin> set c \<Longrightarrow> CHR ''#'' \<in> set c \<Longrightarrow> length buffer + length c < 1024 \<Longrightarrow>
   ReadFromUart (c # cs) buffer = Some (True, buffer @ c, cs)"
  by (simp add: chunk_ok_def strlen_chunk fits_def)

declare ReadFromUart.simps(2) [simp del]

lemma read_middles:
  "list_all (\<lambda>c. chunk_ok c \<and> CHR ''*'' \<notin> set c \<and> CHR ''#'' \<notin> set c) ms \<Longrightarrow>
   length buffer + length (concat ms) < 1024 \<Longrightarrow>
   ReadFromUart (ms @ cs) buffer = ReadFromUart cs (buffer @ concat ms)"
  by (induction ms arbitrary: buffer) (simp_all add: read_middle)

text \<open>
  A message that arrives in several chunks, the star in the first and the hash in the last, is put together
  whole, whatever the buffer held before, and the chunks behind it are left.
\<close>

theorem read_message:
  assumes "chunk_ok f" "CHR ''*'' \<in> set f" "chunk_ok l" "CHR ''*'' \<notin> set l" "CHR ''#'' \<in> set l"
    "list_all (\<lambda>c. chunk_ok c \<and> CHR ''*'' \<notin> set c \<and> CHR ''#'' \<notin> set c) ms"
    "length (f @ concat ms @ l) < 1024"
  shows "ReadFromUart (f # ms @ l # rest) buffer = Some (True, f @ concat ms @ l, rest)"
  using assms by (simp add: read_start read_middles read_end)

lemma read_message_witness:
  "ReadFromUart [''*02,0A0B,'', ''01,01,10'', ''...#'', ''*''] ''old'' = Some (True, ''*02,0A0B,01,01,10...#'', [''*''])"
  using read_message [of "''*02,0A0B,''" "''...#''" "[''01,01,10'']" "[''*'']" "''old''"] by (simp add: chunk_ok_def)

text \<open>
  C35: a message that arrives in one chunk is not handled: its star is seen first, so the hash in the same chunk is not
  looked for, and the next star discards it. Any number of such messages leaves the thread without a message.
\<close>

theorem read_whole_messages_lost:
  assumes "list_all (\<lambda>c. chunk_ok c \<and> CHR ''*'' \<in> set c) cs" "cs \<noteq> []"
  shows "ReadFromUart cs buffer = Some (False, last cs, [])"
  using assms by (induction cs arbitrary: buffer) (auto simp: read_start)

lemma read_whole_messages_lost_witness:
  "ReadFromUart [''*02,0A0B,01,01,10...#'', ''*01,0A0B,0102...#''] [] = Some (False, ''*01,0A0B,0102...#'', [])"
  using read_whole_messages_lost [of "[''*02,0A0B,01,01,10...#'', ''*01,0A0B,0102...#'']" "[]"] by (simp add: chunk_ok_def)

subsection \<open>Messages\<close>

lemma fmt_X_no: "digit_val 16 c = None \<Longrightarrow> c \<notin> set (fmt_X p n)"
  using pad_digits_all_digits [of 16 p n] by (auto simp: fmt_X_def)

lemma fmt_X_comma: "CHR '','' \<notin> set (fmt_X p n)"
  by (rule fmt_X_no) code_simp

lemma fmt_X_nonempty: "fmt_X p n \<noteq> []"
  by (simp add: fmt_X_def pad_digits_nonempty)

lemma byte_text: "to_uchar (strtol (fmt_X 2 (unat b)) 16) = b"
proof -
  have "strtol (fmt_X 2 (unat b)) 16 = int (unat b)"
    using strtol_fmt_X_byte [OF unat_u8_less [of b]] by (simp add: c_str_no_NUL)
  then show ?thesis by (simp only: to_uchar_def) simp
qed

text \<open>The text of an address, and the line for a six-byte reply of a switch, with the three characters the thread cuts off.\<close>

definition address_text :: "u8 \<times> u8 \<Rightarrow> string" where
  "address_text a = fmt_X 2 (unat (snd a)) @ fmt_X 2 (unat (fst a))"

definition echo_line :: "bytes \<Rightarrow> string" where
  "echo_line f = ''*02,'' @ address_text (f ! 1, f ! 2) @ '','' @ fmt_X 2 (unat (f ! 3)) @ '','' @ fmt_X 2 (unat (f ! 4)) @ '','' @
     fmt_X 2 (unat (f ! 5))"

definition report_line :: "u8 \<times> u8 \<Rightarrow> string \<Rightarrow> string" where
  "report_line a mac = ''*01,'' @ address_text a @ '','' @ mac"

lemma address_text_facts: "CHR '','' \<notin> set (address_text a)" "address_text a \<noteq> []" "length (address_text a) = 4"
  by (simp_all add: address_text_def fmt_X_comma fmt_X_nonempty word_bounds)

lemma arg_address_text: "arg (address_text a)"
proof -
  have "digit_val 16 QUOTE = None" by code_simp
  then have "QUOTE \<notin> set (address_text a)" by (simp add: address_text_def fmt_X_no)
  then show ?thesis by (simp add: arg_def address_text_facts)
qed

lemma get_ip_byte_address: "get_ip_byte (Some (c_array 10 (address_text a))) = Inr a"
proof -
  have "c_array 10 (address_text a) = address_text a @ replicate 6 NUL" by (simp add: c_array_def address_text_facts)
  then show ?thesis using get_ip_byte_text [of "snd a" "fst a" "replicate 6 NUL"] by (simp add: address_text_def)
qed

lemma switch_cmd_type: "switch_cmd a cmd num ! 0 = dev_type_code DEV_SWITCH"
  by (simp add: switch_cmd_def Let_def split: prod.split)

lemma header_code: "strtol ''02'' 16 = 2" "strtol ''01'' 16 = 1"
  by code_simp+

lemma switch_message_echo:
  assumes "length f = 6" "f ! 0 = dev_type_code DEV_SWITCH" "uart_data_queuing f 6 q = Inr q'"
  shows "switch_message (address_text (f ! 1, f ! 2) @ '','' @ fmt_X 2 (unat (f ! 3)) @ '','' @ fmt_X 2 (unat (f ! 4)) @ '','' @
     fmt_X 2 (unat (f ! 5))) q = Some q'"
proof -
  have f: "f = [dev_type_code DEV_SWITCH, f ! 1, f ! 2, f ! 3, f ! 4, f ! 5]"
    using assms(1,2) by (intro nth_equalityI) (auto simp: less_Suc_eq numeral_eq_Suc)
  have ip: "get_ip_byte (Some (address_text (f ! Suc 0, f ! 2) @ NUL # t)) = Inr (f ! Suc 0, f ! 2)" for t
    using get_ip_byte_text [of "f ! 2" "f ! 1" "NUL # t"] by (simp add: address_text_def)
  have q: "uart_data_queuing [dev_type_code DEV_SWITCH, f ! Suc 0, f ! 2, f ! 3, f ! 4, f ! 5] 6 q = Inr q'"
    using assms(3) f by simp
  have cmd: "cmd_len (cmd_list TYPE_SW_DEV) = 6" by code_simp
  show ?thesis
    by (simp add: cmd switch_message_def strtok_token address_text_facts fmt_X_comma fmt_X_nonempty ip byte_text q
        del: dev_type_code.simps)
qed

text \<open>The echo of a frame is queued as this very frame.\<close>

lemma uart_handle_echo:
  assumes "length f = 6" "f ! 0 = dev_type_code DEV_SWITCH" "uart_data_queuing f 6 q = Inr q'" "length t = 3"
  shows "\<exists>led. uart_handle sq (echo_line f @ t) db q = Some (''*02'', [led], db, q')"
proof -
  let ?rest = "address_text (f ! 1, f ! 2) @ '','' @ fmt_X 2 (unat (f ! 3)) @ '','' @ fmt_X 2 (unat (f ! 4)) @ '','' @
     fmt_X 2 (unat (f ! 5))"
  have line: "echo_line f = ''*02'' @ CHR '','' # ?rest" by (simp add: echo_line_def)
  have cut: "take (length (echo_line f @ t) - 3) (echo_line f @ t) = ''*02'' @ CHR '','' # ?rest"
    unfolding line [symmetric] using assms(4) by simp
  have tok: "strtok CHR '','' (''*02'' @ CHR '','' # ?rest) = Some (''*02'', ?rest)" by (rule strtok_token) simp_all
  have led: "led_flash LED_FOR_ZIGBEE_NET 1 4 = Some (System ''led_flash 2 1 4&'')" by code_simp
  have "\<not> length (echo_line f @ t) < 3" using assms(4) by simp
  moreover have "switch_message ?rest q = Some q'" by (rule switch_message_echo [OF assms(1-3)])
  then have msg: "switch_message ?rest q \<bind> (\<lambda>q. Some (''*02'', [led], db, q)) = Some (''*02'', [led], db, q')" for led :: effect
    by (simp only: bind.bind_lunit)
  ultimately show ?thesis
    unfolding uart_handle_def cut Let_def tok using msg by (simp add: led [unfolded One_nat_def] header_code)
qed

text \<open>A report line puts the address of the device into the table.\<close>

lemma uart_handle_report:
  assumes "mac \<noteq> []" "CHR '','' \<notin> set mac" "AddDevToDynamicTable sq mac (address_text a) db = Some (b, db')" "length t = 3"
  shows "\<exists>led. uart_handle sq (report_line a mac @ t) db q = Some (''*01'', [led], db', q)"
proof -
  let ?rest = "address_text a @ CHR '','' # mac"
  have line: "report_line a mac = ''*01'' @ CHR '','' # ?rest" by (simp add: report_line_def)
  have cut: "take (length (report_line a mac @ t) - 3) (report_line a mac @ t) = ''*01'' @ CHR '','' # ?rest"
    unfolding line [symmetric] using assms(4) by simp
  have tok: "strtok CHR '','' (''*01'' @ CHR '','' # ?rest) = Some (''*01'', ?rest)" by (rule strtok_token) simp_all
  have led: "led_flash LED_FOR_ZIGBEE_NET 1 4 = Some (System ''led_flash 2 1 4&'')" by code_simp
  have add: "add_message sq ?rest db = Some db'"
    using assms(1-3) by (simp add: add_message_def strtok_token address_text_facts)
  have "\<not> length (report_line a mac @ t) < 3" using assms(4) by simp
  then show ?thesis
    unfolding uart_handle_def cut Let_def tok by (simp add: led [unfolded One_nat_def] header_code add)
qed

text \<open>What the thread does to the queue when it handles a line while another thread waits.\<close>

definition handled_queue :: "'db sqlite \<Rightarrow> string \<Rightarrow> 'db \<Rightarrow> uart_queue \<Rightarrow> uart_queue" where
  "handled_queue sq line db q = (case uart_handle sq line db q of None \<Rightarrow> q | Some (_, _, _, q') \<Rightarrow> q')"

lemma handled_echo:
  assumes "length f = 6" "f ! 0 = dev_type_code DEV_SWITCH" "length t = 3"
  shows "handled_queue sq (echo_line f @ t) db = uart_put f"
proof
  fix q
  have "\<exists>q'. uart_data_queuing f 6 q = Inr q'"
    using assms(1) by (simp add: uart_data_queuing_def Let_def UART_DATA_NUM_def)
  then obtain q' where q': "uart_data_queuing f 6 q = Inr q'" ..
  then show "handled_queue sq (echo_line f @ t) db q = uart_put f q"
    using uart_handle_echo [OF assms(1,2) q' assms(3), of sq db]
    by (auto simp: handled_queue_def uart_put_def UART_DATA_NUM_def)
qed

text \<open>
  A command for a registered device goes to the address that the device reported last. It is answered as soon as the
  frame is echoed, at once if it cannot be written, and never without an echo.
\<close>

lemma forward_switch:
  assumes "dev_file sq tb db v" "view_ok v" "has_device mac name v" "arg mac" "arg name"
    "map_of (v_addresses v) mac = Some (address_text a)" "env_keeps_queue env" "uart_queue_ok q"
  shows "\<exists>r db'. ForwardControlToUart sq wr env mac name 0 cmd num q db = Some (r, db') \<and> dev_file sq tb db' v \<and>
    (if wr (switch_cmd a cmd num) \<noteq> 6 then r = Returned (switch_cmd a cmd num, False, q)
     else if \<exists>j. switch_cmd a cmd num \<in> set (pending (queue_at env 0 q j))
     then \<exists>q'. r = Returned (switch_cmd a cmd num, True, q') \<and> uart_queue_ok q'
     else r = Waiting)"
proof -
  let ?f = "switch_cmd a cmd num"
  have spec: "sqlite_spec sq tb" using assms(1) by (simp add: dev_file_def)
  have dist: "distinct (map fst (v_addresses v))" using assms(2) by (simp add: view_ok_def)
  have yes: "(\<exists>d\<in>set (v_devices v). dev_mac d = mac \<and> dev_name d = name) = True" using assms(3) by (simp add: has_device_def)
  obtain db2 where match: "isMacAndNameMatch sq mac name db = Some (True, db2)" "dev_file sq tb db2 v"
    using isMacAndNameMatch_leaves [OF assms(1,4,5)] spec unfolding leaves_def dev_file_def yes by blast
  obtain db3 where get: "GetDevIPByMac sq mac db2 = Some (Some (address_text a), db3)" "dev_file sq tb db3 v"
    using GetDevIPByMac_finds [OF match(2) dist assms(4)] unfolding assms(6) by blast
  have "ForwardControlToUart sq wr env mac name 0 cmd num q db =
      map_option (\<lambda>r. (r, db3)) (waited (switch_dev_control_func wr env q (Some (c_array 10 (address_text a))) cmd num))"
    by (simp add: ForwardControlToUart_def match(1) get(1) ip_memory_def store_def address_text_facts control_func_def map_option_case
        split: option.split)
  then show ?thesis
    using switch_control_outcome [OF get_ip_byte_address [of a] assms(7,8), where dev_cmd = cmd and n = num and wr = wr] get(2)
    by (auto simp: waited_def Let_def split: if_splits)
qed

text \<open>
  C2: the link from end to end. After a device reported its network address on the Zigbee link, a request to switch
  that device, made under its registered name, sends the command frame to this very address; when the switch echoes
  the frame while the requester polls the queue, the request returns true. The requester needs a free slot in the queue.
\<close>

theorem zigbee_link:
  assumes "dev_file sq tb db v" "view_ok v" "has_device mac name v" "arg mac" "arg name" "mac \<noteq> []" "CHR '','' \<notin> set mac"
    "uart_queue_ok q" "\<not> uart_full q" "length t = 3" "length t' = 3" "wr (switch_cmd a cmd num) = 6"
  shows "\<exists>out db1 db2 q2. uart_handle sq (report_line a mac @ t) db q = Some (''*01'', out, db1, q) \<and>
    ForwardControlToUart sq wr (\<lambda>_. handled_queue sq (echo_line (switch_cmd a cmd num) @ t') db1) mac name 0 cmd num q db1 =
      Some (Returned (switch_cmd a cmd num, True, q2), db2)"
proof -
  let ?f = "switch_cmd a cmd num"
  let ?env = "\<lambda>_ :: nat. uart_put ?f"
  let ?v = "view_step (Report mac (address_text a)) v"
  have spec: "sqlite_spec sq tb" using assms(1) by (simp add: dev_file_def)
  have ip: "arg (address_text a)" by (rule arg_address_text)
  obtain db1 where db1: "AddDevToDynamicTable sq mac (address_text a) db = Some (True, db1)" "dev_file sq tb db1 ?v"
    using AddDevToDynamicTable_leaves [OF assms(1,4) ip] spec unfolding leaves_def dev_file_def by blast
  have "view_ok ?v" by (rule view_ok_report [OF assms(2)])
  have known: "map_of (v_addresses ?v) mac = Some (address_text a)" unfolding map_of_report by simp
  have there: "has_device mac name ?v" using assms(3) by (simp add: has_device_def)
  have env: "env_keeps_queue ?env" by (simp add: env_keeps_queue_def uart_put_ok UART_DATA_NUM_def)
  have "?f \<in> set (pending (queue_at ?env 0 q 1))"
    using pending_put [OF assms(8) _ assms(9), of ?f] by (simp add: UART_DATA_NUM_def flip: set_mset_mset)
  then have echo: "\<exists>j. ?f \<in> set (pending (queue_at ?env 0 q j))" by blast
  obtain q2 db3 where "ForwardControlToUart sq wr ?env mac name 0 cmd num q db1 = Some (Returned (?f, True, q2), db3)"
    using forward_switch [OF db1(2) \<open>view_ok ?v\<close> there assms(4,5) known env assms(8), of wr cmd num] assms(12) echo
    by (auto split: if_splits)
  moreover obtain led where "uart_handle sq (report_line a mac @ t) db q = Some (''*01'', [led], db1, q)"
    using uart_handle_report [OF assms(6,7) db1(1) assms(10)] by blast
  ultimately show ?thesis
    using handled_echo [OF length_switch_cmd switch_cmd_type assms(11), where sq = sq and db = db1] by auto
qed

lemma zigbee_link_witness:
  "\<exists>db out db1 db2 q2. uart_handle table_sqlite (report_line (0x0B, 0x0A) ''0102'' @ ''...'') db (uart_data_quene_init idle_slots) =
      Some (''*01'', out, db1, uart_data_quene_init idle_slots) \<and>
    ForwardControlToUart table_sqlite (\<lambda>b. int (length b))
      (\<lambda>_. handled_queue table_sqlite (echo_line (switch_cmd (0x0B, 0x0A) 0 1) @ ''...'') db1) ''0102'' ''lamp'' 0 0 1
      (uart_data_quene_init idle_slots) db1 = Some (Returned (switch_cmd (0x0B, 0x0A) 0 1, True, q2), db2)"
proof -
  obtain db v where db: "dev_file table_sqlite id db v" "view_ok v" "has_device ''0102'' ''lamp'' v" using lamp_registered by blast
  have q: "uart_queue_ok (uart_data_quene_init idle_slots)" by (rule uart_data_quene_init_ok [OF idle_slots_sized])
  have free: "\<not> uart_full (uart_data_quene_init idle_slots)" by code_simp
  show ?thesis
    by (rule exI [of _ db], rule zigbee_link [OF db _ _ _ _ q free]) (simp_all add: arg_def)
qed

end
