(* ===== verification/Sms_Command.thy ===== *)
theory Sms_Command
  imports Sms_Control Alarm_List Uart_Link
begin

text \<open>
  Text messages end to end: who is obeyed, what a command does to the switch it names, and to whom an alarm is sent.
\<close>

subsection \<open>Commands\<close>

abbreviation sms_nothing :: "string \<Rightarrow> uart_queue \<Rightarrow> sms_effect waited" where
  "sms_nothing g q \<equiv> Returned \<lparr>frame = [], modem = [], dev_list = g, queue_after = q\<rparr>"

text \<open>
  C27: a message from a number whose entry in the alarm list is not open, because it was never added, was deleted or is
  locked, has no effect: nothing is written to the switches or the modem, and the alarm list is as before.
\<close>

theorem sms_unauthorised:
  assumes "sqlite_spec sq tb" "alarm_ok (tb u)" "arg (c_str (send_number msg))"
    "alarm_map (tb u) (''mobile'', c_str (send_number msg)) \<noteq> Some ''o''"
  shows "\<exists>u'. user_msg_process sq wr env (Some msg) g q u d = Some (sms_nothing g q, u', d) \<and> alarm_map (tb u') = alarm_map (tb u)"
proof -
  have "alarm_file sq tb u (alarm_map (tb u))" using assms(1,2) by (simp add: alarm_file_def)
  from isUserMobileNumberValid_leaves [OF this assms(3)] show ?thesis
    using assms(4) by (auto simp: alarm_leaves_def alarm_file_def open_values_def user_msg_process_def)
qed

definition message_from :: "string \<Rightarrow> string \<Rightarrow> message_info_t" where
  "message_from number text = \<lparr>center_number = replicate 20 NUL, send_number = number @ replicate (20 - length number) NUL,
     send_time = replicate 20 NUL, send_content = hex_text (pack7 text) @ replicate (512 - 2 * length (pack7 text)) NUL,
     charset = CHARSET_7BITS\<rparr>"

lemma message_from_number [simp]: "NUL \<notin> set number \<Longrightarrow> length number < 20 \<Longrightarrow> c_str (send_number (message_from number text)) = number"
proof -
  assume n: "NUL \<notin> set number" "length number < 20"
  then have "20 - length number = Suc (19 - length number)" by simp
  then have "send_number (message_from number text) = number @ NUL # replicate (19 - length number) NUL"
    by (simp add: message_from_def)
  then show ?thesis using n(1) by simp
qed

lemma charset_message_from: "charset (message_from number text) = CHARSET_7BITS"
  by (simp add: message_from_def)

lemma sms_unauthorised_witness:
  "\<exists>u u'. alarm_map u = Map.empty \<and>
    user_msg_process table_sqlite (\<lambda>b. 0) (\<lambda>_ q. q) (Some (message_from ''13800000001'' ''10'')) [] (uart_data_quene_init idle_slots) u Map.empty =
      Some (sms_nothing [] (uart_data_quene_init idle_slots), u', Map.empty) \<and>
    alarm_map u' = alarm_map u"
proof -
  have m: "alarm_map (id new_alarms) = Map.empty" "alarm_ok (id new_alarms)" using new_alarms by (simp_all add: alarm_file_def)
  show ?thesis
    using sms_unauthorised [where u = new_alarms and msg = "message_from ''13800000001'' ''10''", OF table_sqlite_spec m(2)] m(1)
    by (auto simp: arg_def)
qed

lemma hex_text_plain: "NUL \<notin> set (hex_text bs)"
  by (induction bs) (simp_all add: hex_text_def)

lemma digits_text: "\<forall>c\<in>set (dec (int i)). c \<in> set ''0123456789''"
proof -
  have "digit_val 10 c \<noteq> None \<Longrightarrow> c \<in> set ''0123456789''" for c
  proof -
    assume "digit_val 10 c \<noteq> None"
    then have "48 \<le> (of_char c :: nat) \<and> of_char c < (58 :: nat)" by (auto simp: digit_val_def Let_def split: if_splits)
    then have "of_char c \<in> set [48..<58 :: nat]" by (simp only: set_upt atLeastLessThan_iff)
    then have "char_of (of_char c :: nat) \<in> set (map char_of [48..<58 :: nat])" unfolding set_map by (rule imageI)
    moreover have "map char_of [48..<58 :: nat] = ''0123456789''" by code_simp
    ultimately show ?thesis by (simp only: char_of_char)
  qed
  then show ?thesis using dec_number [of i] by (auto simp: is_number_def list_all_iff)
qed

text \<open>A message from the network holds the packed text, which the thread gets back.\<close>

lemma decode_message:
  assumes "\<forall>c\<in>set text. c \<in> set ''0123456789''" "length text \<le> 28" "text \<noteq> ''909''"
  shows "\<exists>r. decode_request sq (message_from number text) d = device_request sq (text @ NUL # r) d"
proof -
  let ?m = "length (pack7 text)"
  have m: "?m \<le> 25" using assms(2) by (simp add: pack7_def)
  have ascii: "\<forall>c\<in>set text. c \<noteq> NUL \<and> of_char c < (128 :: nat)" using assms(1) by fastforce
  have "512 - 2 * ?m = 2 * ?m + (512 - 4 * ?m)" using m by simp
  then have content: "send_content (message_from number text) =
      hex_text (pack7 text) @ replicate (2 * ?m) NUL @ replicate (512 - 4 * ?m) NUL"
    by (simp only: message_from_def message_info_t.select_convs replicate_add)
  obtain k where "512 - 2 * ?m = Suc k" using m by (cases "512 - 2 * ?m") auto
  then have len: "strlen (send_content (message_from number text)) = Some (2 * ?m)"
    by (simp add: message_from_def hex_text_plain)
  obtain n r where "gsmDecode7bit (send_content (message_from number text)) (replicate 100 NUL) (2 * ?m) = Some (int n, text @ NUL # r)"
    using gsmDecode7bit_text [OF ascii assms(2), of "replicate 100 NUL" "replicate (512 - 4 * ?m) NUL"] unfolding content by auto
  moreover have "NUL \<notin> set text" using ascii by blast
  moreover have "\<not> (\<exists>c\<in>set text. c \<notin> set ''0123456789'')" using assms(1) by blast
  ultimately show ?thesis
    using m assms(3) unfolding decode_request_def len by (intro exI [of _ r]) (simp del: set_simps)
qed

definition sms_cmd :: "char \<Rightarrow> control_cmd option" where
  "sms_cmd c = (if c = CHR ''0'' then Some CMD_SW_CLOSE else if c = CHR ''1'' then Some CMD_SW_OPEN
     else if c = CHR ''2'' then Some CMD_SW_GET_STATE else None)"

lemma device_request_finds:
  assumes "dev_file sq tb d v" "view_ok v" "e \<in> set (v_devices v)" "dev_id e = dec (int i)" "i < 2147483648"
    "arg (dev_mac e)" "length (dev_mac e) < 50" "map_of (v_addresses v) (dev_mac e) = Some ip" "length ip < 10"
    "c \<in> {CHR ''0'', CHR ''1'', CHR ''2''}"
  shows "\<exists>d'. device_request sq (dec (int i) @ c # NUL # r) d =
    Some (Some (nat (int (of_char c) - 47), c_array 10 ip, to_uchar (atoi (dev_number e))), d')"
proof -
  let ?s = "dec (int i) @ c # NUL # r"
  have len: "length (dec (int i)) \<le> 10" by (rule length_dec [OF assms(5)])
  have plain: "NUL \<notin> set (dec (int i) @ [c])" using assms(10) by auto
  have n: "strlen ?s = Some (length (dec (int i)) + 1)" using strlen_memory [OF plain, of r] by simp
  have sub: "substring ?s (replicate 20 NUL) 0 (int (length (dec (int i)) + 1) - 1) =
      Some (dec (int i) @ NUL # drop (Suc (length (dec (int i)))) (replicate 20 NUL))"
    by (rule substring_middle [where a = "[]" and c = "c # NUL # r"]) (use len in simp_all)
  have id: "c_str (dec (int i) @ NUL # drop (Suc (length (dec (int i)))) (replicate 20 NUL)) = dec (int i)"
    using plain by simp
  obtain d' where "GetIPAndDevNumberByID sq (dec (int i)) d = Some (Some (ip, to_uchar (atoi (dev_number e))), d')"
    using GetIPAndDevNumberByID_finds [OF assms(1-5) atoi_dec [OF assms(5)] assms(6-8)] by blast
  then show ?thesis
    unfolding device_request_def n bind.bind_lunit sub id
    using assms(9,10) by (auto simp: store_def SMS_ACTION_MAX_def mget_def)
qed

text \<open>
  C5: a user whose number is open commands a switch by a text message: the number of the device followed by 0, 1 or 2,
  packed as the network delivers it, makes the controller write the close, open or state frame for the network address
  that the device reported and the channel it was registered with. The thread ends as soon as the frame is echoed.
\<close>

theorem sms_command:
  assumes "sqlite_spec sq tb" "alarm_ok (tb u)" "alarm_map (tb u) (''mobile'', number) = Some ''o''" "arg number"
    "NUL \<notin> set number" "length number < 20"
    "dev_file sq tb d v" "view_ok v" "e \<in> set (v_devices v)" "dev_id e = dec (int i)" "i < 2147483648"
    "arg (dev_mac e)" "length (dev_mac e) < 50" "map_of (v_addresses v) (dev_mac e) = Some (address_text a)"
    "dev_number e = dec (int (unat n))" "sms_cmd c = Some cmd" "env_keeps_queue env" "uart_queue_ok q"
  shows "\<exists>r u' d'. user_msg_process sq wr env (Some (message_from number (dec (int i) @ [c]))) g q u d = Some (r, u', d') \<and>
    (case r of
       Returned eff \<Rightarrow> frame eff = switch_cmd a (cmd_code cmd) n \<and> modem eff = []
     | Waiting \<Rightarrow> wr (switch_cmd a (cmd_code cmd) n) = 6 \<and>
         (\<forall>j. switch_cmd a (cmd_code cmd) n \<notin> set (pending (queue_at env 0 q j))))"
proof -
  let ?msg = "message_from number (dec (int i) @ [c])" and ?f = "switch_cmd a (cmd_code cmd) n"
  have "alarm_file sq tb u (alarm_map (tb u))" using assms(1,2) by (simp add: alarm_file_def)
  from isUserMobileNumberValid_leaves [OF this assms(4)] obtain u' where
    valid: "isUserMobileNumberValid sq number u = Some (True, u')"
    using assms(3) by (auto simp: alarm_leaves_def open_values_def)
  have c: "c \<in> {CHR ''0'', CHR ''1'', CHR ''2''}" using assms(16) by (auto simp: sms_cmd_def split: if_splits)
  have ds: "\<forall>x\<in>set (dec (int i) @ [c]). x \<in> set ''0123456789''" using digits_text [of i] c by auto
  have short: "length (dec (int i) @ [c]) \<le> 28" using length_dec [OF assms(11)] by simp
  have "last (dec (int i) @ [c]) \<noteq> last ''909''" using c by auto
  then have "dec (int i) @ [c] \<noteq> ''909''" by metis
  then obtain r where "decode_request sq ?msg d = device_request sq (dec (int i) @ c # NUL # r) d"
    using decode_message [OF ds short, of sq number d] by auto
  moreover have num: "to_uchar (atoi (dev_number e)) = n"
  proof -
    have "unat n < 2147483648" using unat_u8_less [of n] by simp
    then show ?thesis unfolding assms(15) atoi_dec [OF \<open>unat n < 2147483648\<close>] to_uchar_of_nat by simp
  qed
  ultimately obtain d' where request: "decode_request sq ?msg d = Some (Some (nat (int (of_char c) - 47), c_array 10 (address_text a), n), d')"
    using device_request_finds [OF assms(7-14) _ c, of r] by (auto simp: address_text_facts)
  have run: "user_msg_process sq wr env (Some ?msg) g q u d =
      map_option (\<lambda>r. (r, u', d')) (switch_by_sms wr env q g (c_array 10 (address_text a)) cmd n)"
    using valid request assms(16) message_from_number [OF assms(5,6), of "dec (int i) @ [c]"]
    by (auto simp: user_msg_process_def Let_def sms_cmd_def charset_message_from option.map_comp comp_def
        SMS_ACTION_GET_LIST_def SMS_ACTION_CLOSE_def SMS_ACTION_OPEN_def SMS_ACTION_GET_STATE_def map_option_case
        split: if_splits option.splits)
  show ?thesis
    using switch_control_outcome [OF get_ip_byte_address [of a] assms(17,18), of "cmd_code cmd" n wr]
    unfolding run by (auto simp: switch_by_sms_def waited_def Let_def split: if_splits)
qed

lemma lamp_reported:
  "\<exists>d v e. dev_file table_sqlite id d v \<and> view_ok v \<and> e \<in> set (v_devices v) \<and> dev_id e = dec (int 1) \<and> dev_mac e = ''0102'' \<and>
     dev_number e = dec (int (unat (1 :: u8))) \<and> map_of (v_addresses v) ''0102'' = Some (address_text (0x0B, 0x0A))"
proof -
  let ?ops = "[a_device, Report ''0102'' (address_text (0x0B, 0x0A))]"
  let ?v = "fold view_step ?ops empty_view"
  have "\<exists>e\<in>set (v_devices ?v). dev_id e = dec (int 1) \<and> dev_mac e = ''0102'' \<and> dev_number e = dec (int (unat (1 :: u8)))"
    by (simp add: a_device_def empty_view_def add_check_def add_device_def with_group_def Let_def)
  moreover have "map_of (v_addresses ?v) ''0102'' = Some (address_text (0x0B, 0x0A))"
    by (simp add: a_device_def empty_view_def add_check_def add_device_def with_group_def Let_def)
  moreover obtain d where "dev_file table_sqlite id d ?v" "view_ok ?v"
    using dev_run_follows [OF new_file empty_view_ok, of ?ops] arg_address_text by (auto simp: empty_view_def arg_def)
  ultimately show ?thesis by blast
qed

lemma sms_command_witness:
  "\<exists>u d r u' d'. user_msg_process table_sqlite (\<lambda>b. int (length b)) (\<lambda>_ q. q) (Some (message_from ''13800000002'' (dec (int 1) @ ''1'')))
      [] (uart_data_quene_init idle_slots) u d = Some (r, u', d') \<and>
    (case r of
       Returned eff \<Rightarrow> frame eff = switch_cmd (0x0B, 0x0A) (cmd_code CMD_SW_OPEN) 1 \<and> modem eff = []
     | Waiting \<Rightarrow> int (length (switch_cmd (0x0B, 0x0A) (cmd_code CMD_SW_OPEN) 1)) = 6 \<and>
         (\<forall>j. switch_cmd (0x0B, 0x0A) (cmd_code CMD_SW_OPEN) 1 \<notin>
            set (pending (queue_at (\<lambda>_ q. q) 0 (uart_data_quene_init idle_slots) j))))"
proof -
  obtain u where u: "alarm_ok (id u)" "open_values ''mobile'' (alarm_map (id u)) = {''13800000002''}"
    using one_open_number by blast
  then have o: "alarm_map (id u) (''mobile'', ''13800000002'') = Some ''o''" by (auto simp: open_values_def)
  obtain d v e where d: "dev_file table_sqlite id d v" "view_ok v" "e \<in> set (v_devices v)" "dev_id e = dec (int 1)"
      "dev_mac e = ''0102''" "dev_number e = dec (int (unat (1 :: u8)))" "map_of (v_addresses v) ''0102'' = Some (address_text (0x0B, 0x0A))"
    using lamp_reported by blast
  have q: "uart_queue_ok (uart_data_quene_init idle_slots)" by (rule uart_data_quene_init_ok [OF idle_slots_sized])
  show ?thesis
    by (rule exI [of _ u], rule exI [of _ d], rule sms_command [OF table_sqlite_spec u(1) o _ _ _ d(1-4) _ _ _ _ d(6) _ _ q])
      (use d in \<open>simp_all add: arg_def sms_cmd_def env_keeps_queue_def\<close>)
qed

subsection \<open>Alarms\<close>

lemma number_plain: "is_number v \<Longrightarrow> v \<noteq> [] \<and> CHR '','' \<notin> set v \<and> NUL \<notin> set v \<and> hd v \<noteq> CHR ''_''"
  by (cases v) (auto simp: is_number_def list_all_iff digit_val_def)

lemma send_each_list:
  assumes "\<forall>v\<in>set vs. v \<noteq> [] \<and> CHR '','' \<notin> set v \<and> NUL \<notin> set v \<and> length v < 12" "NUL \<notin> set content" "vs \<noteq> []"
  shows "send_each content (comma_list vs) = Some (map (\<lambda>v. (v, concat (map (modem_frames v) (text_parts content)))) vs)"
  using assms(1,3)
proof (induction vs)
  case (Cons v vs)
  have v: "v \<noteq> []" "CHR '','' \<notin> set v" "NUL \<notin> set v" "length v < 12" "length v \<le> 16" using Cons.prems(1) by auto
  note sent = sms_send_to_user_run [OF v(3,5) assms(2)]
  have none: "send_each content [] = Some []" by (subst send_each.simps) (simp add: strtok_def)
  show ?case
  proof (cases "vs = []")
    case True
    then show ?thesis
      by (subst send_each.simps) (simp add: comma_list_Cons strtok_token [OF v(1,2)] fits_def v(4) sent none)
  next
    case False
    then show ?thesis
      using Cons.IH Cons.prems
      by (subst send_each.simps) (simp add: comma_list_Cons strtok_token [OF v(1,2)] fits_def v(4) sent)
  qed
qed simp



end
