(* ===== verification/Calendar_Time.thy ===== *)
theory Calendar_Time
  imports Sql
begin

text \<open>
  Calendar time (\<open>GetCurrentTime\<close> and \<open>TimeAdd\<close> of \<open>src/src/dev_manage/timertask.c\<close>). \<open>localtime\<close> and
  \<open>mktime\<close> of the C library are modelled for a time zone with the constant offset \<open>tz\<close> (seconds); the field
  \<open>tm_isdst\<close>, which the code does not set, has no effect there. \<open>localtime\<close> gives a valid date and undoes
  \<open>mktime\<close>, so the time at which a switch is turned back is the printed time plus the given hours and minutes.
\<close>

subsection \<open>Calendar time\<close>

record tm =
  tm_min :: int
  tm_hour :: int
  tm_mday :: int
  tm_mon :: int
  tm_year :: int
  tm_wday :: int

definition leap_year :: "int \<Rightarrow> bool" where
  "leap_year y \<longleftrightarrow> 4 dvd y \<and> (\<not> 100 dvd y \<or> 400 dvd y)"

definition year_length :: "int \<Rightarrow> int" where
  "year_length y = (if leap_year y then 366 else 365)"

definition month_lengths :: "int \<Rightarrow> int list" where
  "month_lengths y = [31, if leap_year y then 29 else 28, 31, 30, 31, 30, 31, 31, 30, 31, 30, 31]"

text \<open>The days from January 1, 1970 to January 1 of a year.\<close>

definition days_before_year :: "int \<Rightarrow> int" where
  "days_before_year y = 365 * (y - 1970) + ((y - 1) div 4 - 492) - ((y - 1) div 100 - 19) + ((y - 1) div 400 - 4)"

definition local_seconds :: "tm \<Rightarrow> int" where
  "local_seconds t =
     (let y = 1900 + tm_year t + tm_mon t div 12; m = nat (tm_mon t mod 12) in
      (days_before_year y + sum_list (take m (month_lengths y)) + tm_mday t - 1) * 86400 + tm_hour t * 3600 + tm_min t * 60)"

definition in_time_t :: "int \<Rightarrow> bool" where
  "in_time_t t \<longleftrightarrow> - 2147483648 \<le> t \<and> t < 2147483648"

definition mktime :: "int \<Rightarrow> tm \<Rightarrow> int" where
  "mktime tz t = (if in_time_t (local_seconds t - tz) then local_seconds t - tz else -1)"

function year_of :: "int \<Rightarrow> int \<Rightarrow> int \<times> int" where
  "year_of y d =
     (if d < 0 then year_of (y - 1) (d + year_length (y - 1))
      else if d \<ge> year_length y then year_of (y + 1) (d - year_length y)
      else (y, d))"
  by pat_completeness auto
termination
  by (relation "measure (\<lambda>(y, d). if d < 0 then nat (- d) + 400 else nat d)") (auto simp: year_length_def split: if_splits)

declare year_of.simps [simp del]

fun month_of :: "int list \<Rightarrow> int \<Rightarrow> int \<times> int" where
  "month_of [] d = (0, d)"
| "month_of (l # ls) d = (if d < l then (0, d) else (let (m, r) = month_of ls (d - l) in (m + 1, r)))"

definition localtime :: "int \<Rightarrow> int \<Rightarrow> tm" where
  "localtime tz t =
     (let s = t + tz; (y, d) = year_of 1970 (s div 86400); (m, r) = month_of (month_lengths y) d; rest = s mod 86400 in
      \<lparr>tm_min = rest mod 3600 div 60, tm_hour = rest div 3600, tm_mday = r + 1, tm_mon = m, tm_year = y - 1900,
       tm_wday = (s div 86400 + 4) mod 7\<rparr>)"

text \<open>The format of both functions that print a time.\<close>

definition time_text :: "tm \<Rightarrow> string" where
  "time_text t = fmt_d 4 (1900 + tm_year t) @ ''-'' @ fmt_d 2 (1 + tm_mon t) @ ''-'' @ fmt_d 2 (tm_mday t) @ '' '' @
     fmt_d 2 (tm_hour t) @ '':'' @ fmt_d 2 (tm_min t)"

definition GetCurrentTime :: "int \<Rightarrow> int \<Rightarrow> (string \<times> u8) option" where
  "GetCurrentTime tz spentTime =
     (let timePassed = localtime tz spentTime; weekday = (word_of_int (tm_wday timePassed) :: u8) in
      do {
        current_time \<leftarrow> fits 20 (time_text timePassed);
        Some (current_time, if weekday = 0 then 7 else weekday)
      })"

text \<open>The tokens of the date and, behind the blank, of the time; a missing token is a null pointer, and \<open>int\<close> and
  \<open>time_t\<close> must not overflow.\<close>

definition TimeAdd :: "int \<Rightarrow> string \<Rightarrow> int \<Rightarrow> int \<Rightarrow> string option" where
  "TimeAdd tz pre_happen_time hour minutes = do {
     pre_time \<leftarrow> fits 20 pre_happen_time;
     (pre1, rest) \<leftarrow> strtok CHR '' '' pre_time;
     let pre2 = strtok CHR '' '' rest;
     (y, r) \<leftarrow> strtok CHR ''-'' pre1;
     (mo, r) \<leftarrow> strtok CHR ''-'' r;
     (d, r) \<leftarrow> strtok CHR ''-'' r;
     (h, r) \<leftarrow> strtok CHR '':'' (case pre2 of Some (t, _) \<Rightarrow> t | None \<Rightarrow> r);
     (mi, _) \<leftarrow> strtok CHR '':'' r;
     let time1 = mktime tz \<lparr>tm_min = atoi mi, tm_hour = atoi h, tm_mday = atoi d, tm_mon = atoi mo - 1, tm_year = atoi y - 1900,
                            tm_wday = 0\<rparr>;
     (if in_time_t (hour * 60 * 60) \<and> in_time_t (minutes * 60) \<and> in_time_t (hour * 60 * 60 + minutes * 60) \<and>
         in_time_t (time1 + (hour * 60 * 60 + minutes * 60))
      then fits 20 (time_text (localtime tz (time1 + (hour * 60 * 60 + minutes * 60)))) else None)
   }"

subsection \<open>From seconds to a date and back\<close>

definition valid_tm :: "tm \<Rightarrow> bool" where
  "valid_tm t \<longleftrightarrow> 0 \<le> tm_mon t \<and> tm_mon t < 12 \<and> 1 \<le> tm_mday t \<and>
     tm_mday t \<le> month_lengths (1900 + tm_year t) ! nat (tm_mon t) \<and>
     0 \<le> tm_hour t \<and> tm_hour t < 24 \<and> 0 \<le> tm_min t \<and> tm_min t < 60"

lemma div_step:
  fixes y k :: int
  assumes "0 < k"
  shows "y div k = (y - 1) div k + (if k dvd y then 1 else 0)"
proof -
  let ?q = "(y - 1) div k" and ?r = "(y - 1) mod k"
  have y: "y = k * ?q + (?r + 1)" using mult_div_mod_eq [of k "y - 1"] by simp
  have r: "0 \<le> ?r" "?r < k" using assms by simp_all
  show ?thesis
  proof (cases "?r + 1 = k")
    case True
    then have "y = k * (?q + 1) + 0" using y by (simp add: distrib_left)
    from int_div_pos_eq [OF this] int_mod_pos_eq [OF this] assms show ?thesis by (simp add: dvd_eq_mod_eq_0)
  next
    case False
    then have "?r + 1 < k" using r by simp
    from int_div_pos_eq [OF y _ this] int_mod_pos_eq [OF y _ this] r show ?thesis by (simp add: dvd_eq_mod_eq_0)
  qed
qed

lemma days_before_next: "days_before_year (y + 1) = days_before_year y + year_length y"
proof -
  have d: "400 dvd y \<Longrightarrow> 100 dvd y" "100 dvd y \<Longrightarrow> 4 dvd y" by (erule dvd_trans [rotated], simp)+
  have "days_before_year (y + 1) = 365 * (y + 1 - 1970) + (y div 4 - 492) - (y div 100 - 19) + (y div 400 - 4)"
    by (simp only: days_before_year_def add_diff_cancel_right')
  also have "\<dots> = 365 * (y - 1970) + ((y - 1) div 4 - 492) - ((y - 1) div 100 - 19) + ((y - 1) div 400 - 4) + year_length y"
    unfolding div_step [of 4 y, simplified] div_step [of 100 y, simplified] div_step [of 400 y, simplified] year_length_def leap_year_def
    using d by (cases "4 dvd y"; cases "100 dvd y"; cases "400 dvd y") simp_all
  finally show ?thesis by (simp only: days_before_year_def)
qed

lemma year_length_pos: "0 < year_length y"
  by (simp add: year_length_def)

lemma year_of_correct:
  "year_of y d = (y', d') \<Longrightarrow> days_before_year y + d = days_before_year y' + d' \<and> 0 \<le> d' \<and> d' < year_length y'"
proof (induction y d arbitrary: y' d' rule: year_of.induct)
  case (1 y d)
  show ?case
  proof (cases "d < 0")
    case True
    then have "year_of (y - 1) (d + year_length (y - 1)) = (y', d')" using "1.prems" by (subst (asm) year_of.simps) simp
    from "1.IH"(1) [OF True this] show ?thesis using days_before_next [of "y - 1"] by simp
  next
    case False
    show ?thesis
    proof (cases "d \<ge> year_length y")
      case True
      then have "year_of (y + 1) (d - year_length y) = (y', d')" using "1.prems" False by (subst (asm) year_of.simps) simp
      from "1.IH"(2) [OF False True this] show ?thesis using days_before_next [of y] by simp
    next
      case small: False
      then have "(y, d) = (y', d')" using "1.prems" False by (subst (asm) year_of.simps) simp
      then show ?thesis using False small by simp
    qed
  qed
qed

lemma month_of_correct:
  "month_of ls d = (m, r) \<Longrightarrow> 0 \<le> d \<Longrightarrow> d < sum_list ls \<Longrightarrow>
   0 \<le> m \<and> m < int (length ls) \<and> sum_list (take (nat m) ls) + r = d \<and> 0 \<le> r \<and> r < ls ! nat m"
proof (induction ls arbitrary: d m r)
  case (Cons l ls)
  show ?case
  proof (cases "d < l")
    case True
    then show ?thesis using Cons.prems by simp
  next
    case False
    obtain m' r' where mr: "month_of ls (d - l) = (m', r')" by (cases "month_of ls (d - l)")
    then have m: "m = m' + 1" "r = r'" using Cons.prems(1) False by simp_all
    have ih: "0 \<le> m' \<and> m' < int (length ls) \<and> sum_list (take (nat m') ls) + r' = d - l \<and> 0 \<le> r' \<and> r' < ls ! nat m'"
      using Cons.IH [OF mr] Cons.prems(2,3) False by simp
    then have "nat m = Suc (nat m')" using m(1) by (simp add: nat_add_distrib)
    then show ?thesis using ih m by simp
  qed
qed simp

lemma sum_month_lengths: "sum_list (month_lengths y) = year_length y"
  by (simp add: month_lengths_def year_length_def)

lemma local_seconds_valid:
  assumes "0 \<le> tm_mon t" "tm_mon t < 12"
  shows "local_seconds t = (days_before_year (1900 + tm_year t) + sum_list (take (nat (tm_mon t)) (month_lengths (1900 + tm_year t))) +
    (tm_mday t - 1)) * 86400 + (tm_hour t * 3600 + tm_min t * 60)"
proof -
  have "tm_mon t div 12 = 0" "tm_mon t mod 12 = tm_mon t" using assms by simp_all
  then show ?thesis by (simp only: local_seconds_def Let_def) simp
qed

lemma localtime_correct:
  "valid_tm (localtime tz t)" "local_seconds (localtime tz t) = t + tz - (t + tz) mod 60"
proof -
  let ?s = "t + tz"
  obtain y d where yd: "year_of 1970 (?s div 86400) = (y, d)" by (cases "year_of 1970 (?s div 86400)")
  note y = year_of_correct [OF yd]
  obtain m r where mr: "month_of (month_lengths y) d = (m, r)" by (cases "month_of (month_lengths y) d")
  have "d < sum_list (month_lengths y)" using y by (simp add: sum_month_lengths)
  note m = month_of_correct [OF mr _ this]
  have len: "int (length (month_lengths y)) = 12" by (simp add: month_lengths_def)
  have lt: "localtime tz t = \<lparr>tm_min = ?s mod 86400 mod 3600 div 60, tm_hour = ?s mod 86400 div 3600, tm_mday = r + 1,
      tm_mon = m, tm_year = y - 1900, tm_wday = (?s div 86400 + 4) mod 7\<rparr>"
    by (simp add: localtime_def yd mr Let_def)
  define rest where "rest = ?s mod 86400"
  have rest: "0 \<le> rest" "rest < 86400" by (simp_all add: rest_def)
  have time: "0 \<le> rest div 3600" "rest div 3600 < 24" "0 \<le> rest mod 3600 div 60" "rest mod 3600 div 60 < 60"
    using rest by (simp_all add: pos_imp_zdiv_nonneg_iff div_less_iff_less_mult)
  show "valid_tm (localtime tz t)"
    using m y len time unfolding valid_tm_def lt rest_def [symmetric] by simp
  have base: "days_before_year 1970 = 0" by (simp add: days_before_year_def)
  have clock: "rest div 3600 * 3600 + rest mod 3600 div 60 * 60 = rest - rest mod 60"
  proof -
    have "rest mod 3600 mod 60 = rest mod 60" by (rule mod_mod_cancel) simp
    then show ?thesis using div_mult_mod_eq [of rest 3600] div_mult_mod_eq [of "rest mod 3600" 60] by linarith
  qed
  have sec: "rest mod 60 = ?s mod 60" unfolding rest_def by (rule mod_mod_cancel) simp
  have split: "?s = ?s div 86400 * 86400 + rest" unfolding rest_def by simp
  have days: "days_before_year y + sum_list (take (nat m) (month_lengths y)) + r = ?s div 86400"
    using y m base by linarith
  have loc: "local_seconds (localtime tz t) = (days_before_year y + sum_list (take (nat m) (month_lengths y)) + r) * 86400 +
      (rest div 3600 * 3600 + rest mod 3600 div 60 * 60)"
  proof -
    have year: "1900 + (y - 1900) = y" and day: "r + 1 - 1 = r" by simp_all
    have "0 \<le> tm_mon (localtime tz t)" "tm_mon (localtime tz t) < 12" using m y len unfolding lt by simp_all
    note seconds = local_seconds_valid [OF this]
    show ?thesis unfolding seconds unfolding lt rest_def [symmetric] tm.select_convs year day by (rule refl)
  qed
  have "?s div 86400 * 86400 + (rest - ?s mod 60) = ?s - ?s mod 60" using split by (simp only: add_diff_eq)
  then show "local_seconds (localtime tz t) = ?s - ?s mod 60" unfolding loc clock sec days .
qed

subsection \<open>The printed time\<close>

lemma fmt_d_number:
  assumes "0 \<le> v" "v < 2147483648"
  shows "atoi (fmt_d p v) = v" "fmt_d p v \<noteq> []" "CHR ''-'' \<notin> set (fmt_d p v)" "CHR '':'' \<notin> set (fmt_d p v)"
    "CHR '' '' \<notin> set (fmt_d p v)"
proof -
  have v: "fmt_d p v = pad_digits 10 p (nat v)" using assms(1) by (simp add: fmt_d_def)
  have "all_digits 10 (fmt_d p v)" unfolding v by (rule pad_digits_all_digits) simp_all
  then have "\<forall>c\<in>set (fmt_d p v). digit_val 10 c \<noteq> None" .
  then show "CHR ''-'' \<notin> set (fmt_d p v)" "CHR '':'' \<notin> set (fmt_d p v)" "CHR '' '' \<notin> set (fmt_d p v)"
    by (auto simp: digit_val_def)
  show "fmt_d p v \<noteq> []" by (simp add: v pad_digits_nonempty)
  show "atoi (fmt_d p v) = v" using assms by (simp add: atoi_def v strtol_pad_digits)
qed

lemma length_fmt_d: "0 < p \<Longrightarrow> 0 \<le> v \<Longrightarrow> v < 10 ^ p \<Longrightarrow> length (fmt_d p v) = p"
  using length_pad_digits [of p 10 "nat v"] by (simp add: fmt_d_def nat_less_iff)

lemma month_length_bounds: "0 \<le> m \<Longrightarrow> m < 12 \<Longrightarrow> month_lengths y ! nat m \<le> 31 \<and> 0 < month_lengths y ! nat m"
proof -
  assume "0 \<le> m" "m < 12"
  then have "month_lengths y ! nat m \<in> set (month_lengths y)" by (intro nth_mem) (simp add: month_lengths_def)
  then show ?thesis by (auto simp: month_lengths_def)
qed

lemma valid_tm_fields:
  assumes "valid_tm t" "0 \<le> 1900 + tm_year t" "tm_year t < 8100"
  shows "0 \<le> 1 + tm_mon t \<and> 1 + tm_mon t < 100" "0 \<le> tm_mday t \<and> tm_mday t < 100" "0 \<le> tm_hour t \<and> tm_hour t < 100"
    "0 \<le> tm_min t \<and> tm_min t < 100" "0 \<le> 1900 + tm_year t \<and> 1900 + tm_year t < 10000"
  using assms month_length_bounds [of "tm_mon t" "1900 + tm_year t"] by (auto simp: valid_tm_def)

lemma time_text_fits:
  assumes "valid_tm t" "0 \<le> 1900 + tm_year t" "tm_year t < 8100"
  shows "length (time_text t) = 16"
  using valid_tm_fields [OF assms] by (simp add: time_text_def length_fmt_d)

lemma time_text_plain: "QUOTE \<notin> set (time_text t)"
proof -
  have "digit_val 10 QUOTE = None" by code_simp
  then have "QUOTE \<notin> set (fmt_d p v)" for p v
    using pad_digits_all_digits [of 10 p "nat \<bar>v\<bar>"] by (auto simp: fmt_d_def)
  then show ?thesis by (simp add: time_text_def)
qed

lemma GetCurrentTime_text:
  assumes "GetCurrentTime tz t = Some (now, w)"
  shows "now = time_text (localtime tz t)" "1 \<le> w" "QUOTE \<notin> set now" "length now < 20"
proof -
  have "v \<noteq> 0 \<Longrightarrow> 1 \<le> v" for v :: u8 by (simp add: word_le_nat_alt Suc_le_eq unat_gt_0)
  then show "now = time_text (localtime tz t)" "1 \<le> w" "length now < 20"
    using assms by (auto simp: GetCurrentTime_def Let_def fits_def bind_eq_Some_conv split: if_splits)
  then show "QUOTE \<notin> set now" using time_text_plain by simp
qed

text \<open>What \<open>TimeAdd\<close> reads from a printed time.\<close>

lemma TimeAdd_reads:
  assumes "valid_tm t" "0 \<le> 1900 + tm_year t" "tm_year t < 8100"
  shows "TimeAdd tz (time_text t) h m =
    (let s = mktime tz (t\<lparr>tm_wday := 0\<rparr>) + (h * 60 * 60 + m * 60) in
     if in_time_t (h * 60 * 60) \<and> in_time_t (m * 60) \<and> in_time_t (h * 60 * 60 + m * 60) \<and> in_time_t s
     then fits 20 (time_text (localtime tz s)) else None)"
proof -
  note f = valid_tm_fields [OF assms]
  note n = fmt_d_number [of "1900 + tm_year t" 4] fmt_d_number [of "1 + tm_mon t" 2] fmt_d_number [of "tm_mday t" 2]
    fmt_d_number [of "tm_hour t" 2] fmt_d_number [of "tm_min t" 2]
  let ?Y = "fmt_d 4 (1900 + tm_year t)" and ?M = "fmt_d 2 (1 + tm_mon t)" and ?D = "fmt_d 2 (tm_mday t)"
  let ?h = "fmt_d 2 (tm_hour t)" and ?m = "fmt_d 2 (tm_min t)"
  let ?date = "?Y @ CHR ''-'' # ?M @ CHR ''-'' # ?D" and ?clock = "?h @ CHR '':'' # ?m"
  have t: "time_text t = ?date @ CHR '' '' # ?clock" by (simp add: time_text_def)
  have pre: "strtok CHR '' '' (time_text t) = Some (?date, ?clock)" "strtok CHR '' '' ?clock = Some (?clock, [])"
    unfolding t by (rule strtok_token; use n f in simp)+
  have date: "strtok CHR ''-'' ?date = Some (?Y, ?M @ CHR ''-'' # ?D)" "strtok CHR ''-'' (?M @ CHR ''-'' # ?D) = Some (?M, ?D)"
    "strtok CHR ''-'' ?D = Some (?D, [])"
    by (rule strtok_token; use n f in simp)+
  have clock: "strtok CHR '':'' ?clock = Some (?h, ?m)" "strtok CHR '':'' ?m = Some (?m, [])"
    by (rule strtok_token; use n f in simp)+
  have tm: "\<lparr>tm_min = atoi ?m, tm_hour = atoi ?h, tm_mday = atoi ?D, tm_mon = atoi ?M - 1, tm_year = atoi ?Y - 1900, tm_wday = 0\<rparr> =
      t\<lparr>tm_wday := 0\<rparr>"
    using n f by simp
  have "fits 20 (time_text t) = Some (time_text t)" using time_text_fits [OF assms] by (simp add: fits_def)
  then show ?thesis by (simp add: TimeAdd_def pre date clock tm Let_def)
qed

lemma year_bounds:
  assumes "days_before_year y + d = q" "0 \<le> d" "d < 366" "- 26000 \<le> q" "q \<le> 26000"
  shows "1890 \<le> y" "y \<le> 2050"
proof -
  have "365 * (y - 1970) + (a - 492) - (b - 19) + (c - 4) + d = q \<Longrightarrow> 4 * a \<le> y - 1 \<Longrightarrow> y - 1 < 4 * a + 4 \<Longrightarrow>
      100 * b \<le> y - 1 \<Longrightarrow> y - 1 < 100 * b + 100 \<Longrightarrow> 400 * c \<le> y - 1 \<Longrightarrow> y - 1 < 400 * c + 400 \<Longrightarrow> 1890 \<le> y \<and> y \<le> 2050"
    for a b c using assms(2-5) by simp
  from this [OF assms(1) [unfolded days_before_year_def]] show "1890 \<le> y" "y \<le> 2050" by simp_all
qed

lemma localtime_year:
  assumes "in_time_t t" "\<bar>tz\<bar> \<le> 86400"
  shows "1890 \<le> 1900 + tm_year (localtime tz t)" "1900 + tm_year (localtime tz t) \<le> 2050"
proof -
  let ?s = "t + tz"
  obtain y d where yd: "year_of 1970 (?s div 86400) = (y, d)" by (cases "year_of 1970 (?s div 86400)")
  obtain m r where mr: "month_of (month_lengths y) d = (m, r)" by (cases "month_of (month_lengths y) d")
  have y: "1900 + tm_year (localtime tz t) = y" by (simp add: localtime_def yd mr Let_def)
  have base: "days_before_year 1970 = 0" by (simp add: days_before_year_def)
  have "- 2147483648 - 86400 \<le> ?s" "?s \<le> 2147483648 + 86400" using assms by (auto simp: in_time_t_def)
  then have "- 26000 \<le> ?s div 86400" "?s div 86400 \<le> 26000" by linarith+
  moreover have "days_before_year y + d = ?s div 86400" "0 \<le> d" "d < 366"
    using year_of_correct [OF yd] base by (auto simp: year_length_def split: if_splits)
  ultimately show "1890 \<le> 1900 + tm_year (localtime tz t)" "1900 + tm_year (localtime tz t) \<le> 2050"
    unfolding y using year_bounds by blast+
qed

lemma localtime_text:
  assumes "in_time_t t" "\<bar>tz\<bar> \<le> 86400"
  shows "length (time_text (localtime tz t)) = 16"
  by (rule time_text_fits [OF localtime_correct(1)]) (use localtime_year [OF assms] in linarith)+

text \<open>
  The time at which a switch is turned back. For a printed valid time and a number of hours and minutes,
  \<open>TimeAdd\<close> prints the valid time that is exactly so much later, whatever months and leap years are between, as long
  as both are in the range of a 32-bit \<open>time_t\<close>.
\<close>

lemma time_add_correct:
  assumes "valid_tm t" "0 \<le> 1900 + tm_year t" "tm_year t < 8100" "\<bar>tz\<bar> \<le> 86400"
    "in_time_t (local_seconds t - tz)" "in_time_t (local_seconds t - tz + (h * 3600 + m * 60))"
    "0 \<le> h" "h < 500000" "0 \<le> m" "m < 100"
  shows "\<exists>t'. TimeAdd tz (time_text t) h m = Some (time_text t') \<and> valid_tm t' \<and>
    local_seconds t' = local_seconds t + h * 3600 + m * 60 \<and> length (time_text t') = 16"
proof -
  let ?s = "local_seconds t - tz + (h * 3600 + m * 60)"
  note v = localtime_correct [where tz = tz and t = ?s] and len = localtime_text [OF assms(6,4)]
  have "local_seconds t = 60 * ((days_before_year (1900 + tm_year t) +
      sum_list (take (nat (tm_mon t)) (month_lengths (1900 + tm_year t))) + (tm_mday t - 1)) * 1440 + (tm_hour t * 60 + tm_min t))"
    using local_seconds_valid [of t] assms(1) by (simp add: valid_tm_def algebra_simps)
  then obtain k where "local_seconds t = 60 * k" by blast
  then have "(?s + tz) mod 60 = 0" using mod_mult_self1_is_0 [of 60 "k + h * 60 + m"] by (simp add: algebra_simps)
  have sec: "local_seconds (localtime tz ?s) = local_seconds t + h * 3600 + m * 60"
    using v(2) \<open>(?s + tz) mod 60 = 0\<close> by simp
  have wday: "local_seconds (t\<lparr>tm_wday := 0\<rparr>) = local_seconds t" by (simp add: local_seconds_def)
  have "in_time_t (h * 60 * 60)" "in_time_t (m * 60)" "in_time_t (h * 60 * 60 + m * 60)"
    using assms(7-10) by (simp_all add: in_time_t_def)
  then have "TimeAdd tz (time_text t) h m = Some (time_text (localtime tz ?s))"
    using assms(5,6) len unfolding TimeAdd_reads [OF assms(1-3)] by (simp add: mktime_def wday Let_def fits_def algebra_simps)
  then show ?thesis using v(1) sec len by blast
qed

text \<open>
  C33: a task that is repeated on days of the week has a time of day only, which \<open>TimeAdd\<close> does not survive: it reads
  the date behind a hyphen that is not there, through a null pointer.
\<close>

theorem time_add_time_of_day:
  assumes "CHR ''-'' \<notin> set time"
  shows "TimeAdd tz time h m = None"
proof -
  have no_hyphen: "\<exists>y. strtok CHR ''-'' s = None \<or> strtok CHR ''-'' s = Some (y, [])" if "CHR ''-'' \<notin> set s" for s
  proof (cases "s = []")
    case False
    then show ?thesis using strtok_token(2) [OF False that] by blast
  qed (simp add: strtok_def)
  have end_of: "strtok d [] = None" for d by (simp add: strtok_def)
  have part: "CHR ''-'' \<notin> set s" if "strtok CHR '' '' time = Some (s, r)" for s r
    using that assms by (auto simp: strtok_def Let_def split: if_splits dest: set_takeWhileD set_dropWhileD)
  show ?thesis
  proof (cases "strtok CHR '' '' time")
    case (Some p)
    obtain s r where p: "p = (s, r)" by (cases p)
    then have "strtok CHR ''-'' s = None \<or> (\<exists>y. strtok CHR ''-'' s = Some (y, []))"
      using no_hyphen [OF part [of s r]] Some by auto
    then show ?thesis by (auto simp: TimeAdd_def Some p end_of fits_def)
  qed (simp add: TimeAdd_def fits_def)
qed

lemma time_add_time_of_day_witness: "TimeAdd 28800 ''08:30'' 1 0 = None"
  by (rule time_add_time_of_day) simp

text \<open>What a reader takes the characters of a printed time for.\<close>

definition read_time :: "string \<Rightarrow> tm" where
  "read_time s =
     \<lparr>tm_min = atoi (take 2 (drop 14 s)), tm_hour = atoi (take 2 (drop 11 s)), tm_mday = atoi (take 2 (drop 8 s)),
      tm_mon = atoi (take 2 (drop 5 s)) - 1, tm_year = atoi (take 4 s) - 1900, tm_wday = 0\<rparr>"

lemma read_time_text:
  assumes "valid_tm t" "0 \<le> 1900 + tm_year t" "tm_year t < 8100"
  shows "read_time (time_text t) = t\<lparr>tm_wday := 0\<rparr>" "map (nth (time_text t)) [4, 7, 10, 13] = ''-- :''"
proof -
  note f = valid_tm_fields [OF assms]
  note n = fmt_d_number(1) [of "1900 + tm_year t" 4] fmt_d_number(1) [of "1 + tm_mon t" 2] fmt_d_number(1) [of "tm_mday t" 2]
    fmt_d_number(1) [of "tm_hour t" 2] fmt_d_number(1) [of "tm_min t" 2]
  note l = length_fmt_d [of 4 "1900 + tm_year t"] length_fmt_d [of 2 "1 + tm_mon t"] length_fmt_d [of 2 "tm_mday t"]
    length_fmt_d [of 2 "tm_hour t"] length_fmt_d [of 2 "tm_min t"]
  show "read_time (time_text t) = t\<lparr>tm_wday := 0\<rparr>" using f n l by (simp add: read_time_def time_text_def)
  show "map (nth (time_text t)) [4, 7, 10, 13] = ''-- :''" using f l by (simp add: time_text_def nth_append)
qed

text \<open>
  C32: the clock as text. At every moment of a 32-bit \<open>time_t\<close> and in every zone up to a day away the text has 16
  characters, which the array of 20 holds; read back it is a valid date and time, namely the one of the moment
  without its seconds; and the day of the week is the one of this date, from 1 for Monday to 7 for Sunday, so that it selects
  one of the seven bits of a period.
\<close>

theorem current_time_type:
  assumes "in_time_t t" "\<bar>tz\<bar> \<le> 86400"
  shows "\<exists>s w. GetCurrentTime tz t = Some (s, w) \<and> length s = 16 \<and> map (nth s) [4, 7, 10, 13] = ''-- :'' \<and>
    valid_tm (read_time s) \<and> local_seconds (read_time s) = t + tz - (t + tz) mod 60 \<and>
    int (unat w) = (local_seconds (read_time s) div 86400 + 3) mod 7 + 1"
proof -
  let ?l = "localtime tz t" and ?s = "t + tz"
  note v = localtime_correct [of tz t] and len = localtime_text [OF assms] and year = localtime_year [OF assms]
  have rd: "read_time (time_text ?l) = ?l\<lparr>tm_wday := 0\<rparr>" "map (nth (time_text ?l)) [4, 7, 10, 13] = ''-- :''"
    by (rule read_time_text [OF v(1)]; use year in linarith)+
  have same: "valid_tm (?l\<lparr>tm_wday := 0\<rparr>) = valid_tm ?l" "local_seconds (?l\<lparr>tm_wday := 0\<rparr>) = local_seconds ?l"
    by (simp_all add: valid_tm_def local_seconds_def)
  have day: "(?s - ?s mod 60) div 86400 = ?s div 86400"
  proof -
    have "?s - ?s mod 60 = ?s div 60 * 60" by (simp add: minus_mod_eq_div_mult)
    moreover have "?s div 60 * 60 div 86400 = ?s div 60 div 1440" by (simp add: div_mult_mult2 [of 60 _ 1440, simplified])
    ultimately show ?thesis by (simp add: zdiv_zmult2_eq [symmetric])
  qed
  define d where "d = ?s div 86400"
  have wday: "tm_wday ?l = (d + 4) mod 7" by (simp add: localtime_def Let_def d_def split: prod.splits)
  let ?w = "if word_of_int ((d + 4) mod 7) = (0 :: u8) then 7 else word_of_int ((d + 4) mod 7) :: u8"
  have "GetCurrentTime tz t = Some (time_text ?l, ?w)" using len by (simp add: GetCurrentTime_def Let_def fits_def wday)
  moreover have "valid_tm (read_time (time_text ?l))" "local_seconds (read_time (time_text ?l)) = ?s - ?s mod 60"
    using v rd(1) same by simp_all
  moreover have "int (unat ?w) = (d + 3) mod 7 + 1"
  proof -
    have "d mod 7 \<in> {0..6}" by simp
    then have "d mod 7 \<in> set [0..6]" by simp
    then have "d mod 7 = 0 \<or> d mod 7 = 1 \<or> d mod 7 = 2 \<or> d mod 7 = 3 \<or> d mod 7 = 4 \<or> d mod 7 = 5 \<or> d mod 7 = 6"
      by (simp add: upto_rec1)
    moreover have "(d + 4) mod 7 = (d mod 7 + 4) mod 7" "(d + 3) mod 7 = (d mod 7 + 3) mod 7" by (simp_all add: mod_add_left_eq)
    ultimately show ?thesis by auto
  qed
  ultimately show ?thesis using len rd(2) day unfolding d_def [symmetric]
    by (intro exI [of _ "time_text ?l"] exI [of _ ?w] conjI) (simp_all only:)
qed

lemma current_time_type_witness:
  "\<exists>s w. GetCurrentTime 28800 1456675200 = Some (s, w) \<and> length s = 16 \<and> map (nth s) [4, 7, 10, 13] = ''-- :'' \<and>
    valid_tm (read_time s) \<and> local_seconds (read_time s) = 1456675200 + 28800 - (1456675200 + 28800) mod 60 \<and>
    int (unat w) = (local_seconds (read_time s) div 86400 + 3) mod 7 + 1"
  by (rule current_time_type) (simp_all add: in_time_t_def)

end
