(* ===== verification/Timertask.thy ===== *)
theory Timertask
  imports Uart_Thread Calendar_Time
begin

text \<open>
  Switching at a given time (\<open>src/src/dev_manage/timertask_db.c\<close> and \<open>timertask.c\<close>): the table
  \<open>timertasktable\<close>, which is in the file of the devices, the tasks that are due and their execution.
\<close>

subsection \<open>The table\<close>

record timertask_item_t =
  task_id :: int
  task_mac :: string
  task_name :: string
  period :: u8
  happen_time :: string
  action :: u8
  tipinfo :: u32
  howlong :: u32
  devnumber :: u8
  create_time :: string

definition CreateTimerTable :: "'db sqlite \<Rightarrow> 'db \<Rightarrow> 'db" where
  "CreateTimerTable sq db = snd (sql_exec sq
     ''create table timertasktable(F_ID INTEGER PRIMARY KEY AUTOINCREMENT,F_MAC VARCHAR(30),F_NAME VARCHAR(50),F_PERIOD INTEGER,F_HAPPENTIME VARCHAR(20),F_ACTION INTEGER,F_TIPINFO INTEGER,F_HOWLONG INTEGER,F_CRETIME VARCHAR(20));'' db)"

definition timer_database_open :: "'db sqlite \<Rightarrow> 'db \<Rightarrow> bool \<times> 'db" where
  "timer_database_open sq db = (if sql_open sq db = SQLITE_ERROR then (False, db) else (True, CreateTimerTable sq db))"

abbreviation on_timer :: "'db sqlite \<Rightarrow> 'a \<Rightarrow> ('db \<Rightarrow> ('a \<times> 'db) option) \<Rightarrow> 'db \<Rightarrow> ('a \<times> 'db) option" where
  "on_timer sq \<equiv> on_db (timer_database_open sq)"

text \<open>\<open>%d\<close> of an unsigned number.\<close>

abbreviation dec_u8 :: "u8 \<Rightarrow> string" where
  "dec_u8 w \<equiv> dec (int (unat w))"

abbreviation dec_u32 :: "u32 \<Rightarrow> string" where
  "dec_u32 w \<equiv> dec (sint w)"

text \<open>The clock is read into \<open>app_status\<close> for the time of creation.\<close>

definition AddOneTimerTask :: "'db sqlite \<Rightarrow> int \<Rightarrow> int \<Rightarrow> timertask_item_t \<Rightarrow> 'db \<Rightarrow> (bool \<times> 'db) option" where
  "AddOneTimerTask sq tz spentTime item = on_timer sq False (\<lambda>db. do {
     (CurrentTime, weekday) \<leftarrow> GetCurrentTime tz spentTime;
     exec_sql sq (1024 * 2) (''insert into timertasktable(F_MAC,F_NAME,F_PERIOD,F_HAPPENTIME,F_ACTION,F_TIPINFO,F_HOWLONG,F_CRETIME) values('' @
       quoted (task_mac item) @ '','' @ quoted (task_name item) @ '','' @ dec_u8 (period item) @ '','' @ quoted (happen_time item) @ '','' @
       dec_u8 (action item) @ '','' @ dec_u32 (tipinfo item) @ '','' @ dec_u32 (howlong item) @ '','' @ quoted CurrentTime @ '')'') db
   })"

definition DeleteOneTimerTaskByID :: "'db sqlite \<Rightarrow> int \<Rightarrow> 'db \<Rightarrow> (bool \<times> 'db) option" where
  "DeleteOneTimerTaskByID sq timertask_id = on_timer sq False (\<lambda>db.
     exec_sql sq 512 (''delete from timertasktable where F_ID='' @ dec timertask_id) db)"

text \<open>The items of the rows, written to an array of 100.\<close>

definition read_task :: "'db sqlite \<Rightarrow> string list \<Rightarrow> 'db \<Rightarrow> (timertask_item_t \<times> 'db) option" where
  "read_task sq r db = do {
     i \<leftarrow> mget r 0;
     mac \<leftarrow> mget r 1 \<bind> fits 30; name \<leftarrow> mget r 2 \<bind> fits 50;
     p \<leftarrow> mget r 3; h \<leftarrow> mget r 4 \<bind> fits 20; a \<leftarrow> mget r 5; t \<leftarrow> mget r 6; l \<leftarrow> mget r 7; c \<leftarrow> mget r 8 \<bind> fits 20;
     (n, db) \<leftarrow> GetDevNumberByMacAndName sq mac name db;
     Some (\<lparr>task_id = atoi i, task_mac = mac, task_name = name, period = to_uchar (atoi p), happen_time = h,
            action = to_uchar (atoi a), tipinfo = word_of_int (atoi t), howlong = word_of_int (atoi l), devnumber = n,
            create_time = c\<rparr>, db)
   }"

fun read_tasks :: "'db sqlite \<Rightarrow> nat \<Rightarrow> string list list \<Rightarrow> 'db \<Rightarrow> (timertask_item_t list \<times> 'db) option" where
  "read_tasks sq room [] db = Some ([], db)"
| "read_tasks sq room (r # rs) db =
     (if room = 0 then None
      else do {
        (item, db) \<leftarrow> read_task sq r db;
        (items, db) \<leftarrow> read_tasks sq (room - 1) rs db;
        Some (item # items, db)
      })"

text \<open>The result is the number in \<open>nums\<close>, an \<open>unsigned char\<close>, and the array. A null time leaves the file open.\<close>

definition GetValidThingsToDo :: "'db sqlite \<Rightarrow> string option \<Rightarrow> u8 \<Rightarrow> u8 \<Rightarrow> 'db \<Rightarrow> ((u8 \<times> timertask_item_t list) \<times> 'db) option" where
  "GetValidThingsToDo sq curr_time weekday nums = on_timer sq (nums, []) (\<lambda>db.
     case curr_time of
       None \<Rightarrow> Some ((nums, []), db)
     | Some longtime \<Rightarrow>
         if length longtime < 11 then None
         else do {
           let shorttime = drop 11 longtime;
           rs \<leftarrow> query sq 1024 (''select * from timertasktable where (F_HAPPENTIME='' @ quoted longtime @
             '' and  F_PERIOD=0) or (F_HAPPENTIME='' @ quoted shorttime @ '' and (F_PERIOD&(1<<'' @ dec (int (unat weekday) - 1) @ ''))!=0);'') db;
           (items, db) \<leftarrow> read_tasks sq 100 rs db;
           Some ((of_nat (length rs), items), db)
         })"

definition task_entry :: "string list \<Rightarrow> string option" where
  "task_entry r = do {
     i \<leftarrow> mget r 0; mac \<leftarrow> mget r 1; name \<leftarrow> mget r 2; p \<leftarrow> mget r 3; h \<leftarrow> mget r 4; a \<leftarrow> mget r 5; t \<leftarrow> mget r 6; l \<leftarrow> mget r 7; c \<leftarrow> mget r 8;
     fits (1024 * 2) (''{'' @ json_member ''id'' i @ '','' @ json_member ''mac'' mac @ '','' @ json_member ''name'' name @ '','' @
       json_member ''period'' p @ '','' @ json_member ''happentime'' h @ '','' @ json_member ''action'' a @ '','' @
       json_member ''tipinfo'' t @ '','' @ json_member ''howlong'' l @ '','' @ json_member ''cretime'' c @ ''},'')
   }"

definition GetAllTimerTaskInfo :: "'db sqlite \<Rightarrow> string \<Rightarrow> 'db \<Rightarrow> (string \<times> 'db) option" where
  "GetAllTimerTaskInfo sq g_timertask_info = on_timer sq g_timertask_info (\<lambda>db.
     (let rs = sql_get_table sq ''select * from timertasktable order by F_ID DESC'' db in
      if rs \<noteq> []
      then do { s \<leftarrow> cat_rows (1024 * 4) task_entry ''['' rs; Some (set_last CHR '']'' s, db) }
      else Some (''_NULL_'', db)))"

subsection \<open>Execution\<close>

text \<open>The items one after the other; one that waits keeps the thread from the rest.\<close>

fun run_tasks ::
  "'db sqlite \<Rightarrow> (bytes \<Rightarrow> int) \<Rightarrow> poll_env \<Rightarrow> timertask_item_t list \<Rightarrow> uart_queue \<Rightarrow> 'db \<Rightarrow>
   ((bytes list \<times> uart_queue) waited \<times> 'db) option" where
  "run_tasks sq wr env [] q db = Some (Returned ([], q), db)"
| "run_tasks sq wr env (item # items) q db = do {
     (r, db) \<leftarrow> ForwardControlToUart sq wr env (task_mac item) (task_name item) 0 (action item) (devnumber item) q db;
     (case r of
        Waiting \<Rightarrow> Some (Waiting, db)
      | Returned (f, _, q) \<Rightarrow> do {
          (r, db) \<leftarrow> run_tasks sq wr env items q db;
          Some (case r of Waiting \<Rightarrow> Waiting | Returned (fs, q) \<Rightarrow> Returned (f # fs, q), db)
        })
   }"

definition do_timer_func ::
  "'db sqlite \<Rightarrow> (bytes \<Rightarrow> int) \<Rightarrow> poll_env \<Rightarrow> int \<Rightarrow> int \<Rightarrow> uart_queue \<Rightarrow> 'db \<Rightarrow> ((bytes list \<times> uart_queue) waited \<times> 'db) option" where
  "do_timer_func sq wr env tz spentTime q db = do {
     (CurrentTime, weekday) \<leftarrow> GetCurrentTime tz spentTime;
     ((nums, items), db) \<leftarrow> GetValidThingsToDo sq (Some CurrentTime) weekday 0 db;
     run_tasks sq wr env (take (unat nums) items) q db
   }"

end
