(* ===== verification/Timer_Tables.thy ===== *)
theory Timer_Tables
  imports Timertask
begin

text \<open>
  What the operations on the timer tasks do, for a library that behaves as documented: the table as a list of tasks,
  and which of them are due.
\<close>

subsection \<open>Reading the statements\<close>

definition timer_columns :: "column list" where
  "timer_columns = map (\<lambda>n. \<lparr>col_name = n, col_auto = (n = ''F_ID''), col_default = []\<rparr>)
     [''F_ID'', ''F_MAC'', ''F_NAME'', ''F_PERIOD'', ''F_HAPPENTIME'', ''F_ACTION'', ''F_TIPINFO'', ''F_HOWLONG'', ''F_CRETIME'']"

lemma parse_timer_create:
  "parse_sql ''create table timertasktable(F_ID INTEGER PRIMARY KEY AUTOINCREMENT,F_MAC VARCHAR(30),F_NAME VARCHAR(50),F_PERIOD INTEGER,F_HAPPENTIME VARCHAR(20),F_ACTION INTEGER,F_TIPINFO INTEGER,F_HOWLONG INTEGER,F_CRETIME VARCHAR(20));'' =
     Some (Create ''timertasktable'' timer_columns)"
  by code_simp

definition due_cond :: "string \<Rightarrow> string \<Rightarrow> string \<Rightarrow> cond" where
  "due_cond longtime shorttime n =
     Disj (Conj (Equal ''F_HAPPENTIME'' (Const longtime)) (Equal ''F_PERIOD'' (Const ''0'')))
       (Conj (Equal ''F_HAPPENTIME'' (Const shorttime)) (Has_Bit ''F_PERIOD'' n))"

lemma parse_timer_insert:
  assumes "QUOTE \<notin> set mac" "QUOTE \<notin> set name" "QUOTE \<notin> set time" "QUOTE \<notin> set now"
  shows "parse_sql (''insert into timertasktable(F_MAC,F_NAME,F_PERIOD,F_HAPPENTIME,F_ACTION,F_TIPINFO,F_HOWLONG,F_CRETIME) values('' @
       quoted mac @ '','' @ quoted name @ '','' @ dec (int p) @ '','' @ quoted time @ '','' @
       dec (int a) @ '','' @ dec (int t) @ '','' @ dec (int l) @ '','' @ quoted now @ '')'') =
     Some (Insert ''timertasktable'' [''F_MAC'', ''F_NAME'', ''F_PERIOD'', ''F_HAPPENTIME'', ''F_ACTION'', ''F_TIPINFO'', ''F_HOWLONG'', ''F_CRETIME'']
       [mac, name, dec (int p), time, dec (int a), dec (int t), dec (int l), now])"
  using assms by (simp add: sql_simps)

lemma parse_timer_delete:
  "parse_sql (''delete from timertasktable where F_ID='' @ dec (int n)) =
     Some (Delete ''timertasktable'' (Equal ''F_ID'' (Const (dec (int n)))))"
  using lex_word [of "dec (int n)" "[]" "[]"] by (simp add: sql_simps)

lemma zero_number: "is_number ''0''"
  by (simp add: is_number_def digit_val_def)

lemma parse_timer_due:
  assumes "QUOTE \<notin> set longtime" "QUOTE \<notin> set shorttime"
  shows "parse_sql (''select * from timertasktable where (F_HAPPENTIME='' @ quoted longtime @
      '' and  F_PERIOD=0) or (F_HAPPENTIME='' @ quoted shorttime @ '' and (F_PERIOD&(1<<'' @ dec (int n) @ ''))!=0);'') =
    Some (Select [] ''timertasktable'' (due_cond longtime shorttime (dec (int n))))"
  using assms by (simp add: sql_simps due_cond_def zero_number)

subsection \<open>The table\<close>

text \<open>A stored task: its number, the item that was added and the time it was added.\<close>

type_synonym task = "nat \<times> timertask_item_t \<times> string"

fun task_row :: "task \<Rightarrow> string list" where
  "task_row (k, item, now) = [dec (int k), task_mac item, task_name item, dec_u8 (period item), happen_time item,
     dec_u8 (action item), dec_u32 (tipinfo item), dec_u32 (howlong item), now]"

abbreviation timer_names :: "string list" where
  "timer_names \<equiv> [''F_ID'', ''F_MAC'', ''F_NAME'', ''F_PERIOD'', ''F_HAPPENTIME'', ''F_ACTION'', ''F_TIPINFO'', ''F_HOWLONG'', ''F_CRETIME'']"

definition timer_schema :: "tables \<Rightarrow> bool" where
  "timer_schema T \<longleftrightarrow> (\<exists>t. T ''timertasktable'' = Some t \<and> columns t = timer_columns)"

text \<open>The file holds the devices \<open>v\<close> and the tasks \<open>ts\<close>; the last number that was given is \<open>k\<close>.\<close>

definition timer_file :: "'db sqlite \<Rightarrow> ('db \<Rightarrow> tables) \<Rightarrow> 'db \<Rightarrow> dev_view \<Rightarrow> task list \<Rightarrow> nat \<Rightarrow> bool" where
  "timer_file sq tb db v ts k \<longleftrightarrow> dev_file sq tb db v \<and>
     tb db ''timertasktable'' = Some \<lparr>columns = timer_columns, rows = map task_row ts, last_id = k\<rparr>"

text \<open>Texts and numbers that fit the fields of the structure and the statement.\<close>

definition item_ok :: "timertask_item_t \<Rightarrow> bool" where
  "item_ok i \<longleftrightarrow> arg (task_mac i) \<and> length (task_mac i) < 30 \<and> arg (task_name i) \<and> length (task_name i) < 50 \<and>
     arg (happen_time i) \<and> length (happen_time i) < 20 \<and> unat (tipinfo i) < 2147483648 \<and> unat (howlong i) < 2147483648"

fun task_ok :: "task \<Rightarrow> bool" where
  "task_ok (k, item, now) \<longleftrightarrow> k < 2147483648 \<and> item_ok item \<and> arg now \<and> length now < 20"

lemma names_timer: "columns t = timer_columns \<Longrightarrow> names t = timer_names"
  by (simp add: names_def timer_columns_def)

lemma timer_opens:
  assumes "sqlite_spec sq tb" "timer_schema (tb db)"
  shows "\<exists>db'. timer_database_open sq db = (True, db') \<and> tb db' = tb db"
proof -
  have "ensure_table ''timertasktable'' timer_columns (tb db) = tb db"
    using assms(2) by (auto simp: timer_schema_def ensure_table_def)
  then show ?thesis
    by (simp add: timer_database_open_def spec_open [OF assms(1)] SQLITE_ERROR_def CreateTimerTable_def
        exec_create_table [OF assms(1) parse_timer_create])
qed

lemma timer_sql_file: "sqlite_spec sq tb \<Longrightarrow> sql_file sq tb (timer_database_open sq) timer_schema"
  by unfold_locales (use timer_opens in auto)

interpretation timer_tables: sql_file table_sqlite id "timer_database_open table_sqlite" timer_schema
  by (rule timer_sql_file [OF table_sqlite_spec])

lemma timer_fileD:
  assumes "timer_file sq tb db v ts k"
  shows "sqlite_spec sq tb" "dev_file sq tb db v" "timer_schema (tb db)"
    "tb db ''timertasktable'' = Some \<lparr>columns = timer_columns, rows = map task_row ts, last_id = k\<rparr>"
  using assms by (auto simp: timer_file_def dev_file_def timer_schema_def)

text \<open>A change of the table leaves the devices alone.\<close>

lemma timer_file_update:
  assumes "timer_file sq tb db v ts k"
    "tb db' = (tb db)(''timertasktable'' \<mapsto> \<lparr>columns = timer_columns, rows = map task_row ts', last_id = k'\<rparr>)"
  shows "timer_file sq tb db' v ts' k'"
  using assms by (auto simp: timer_file_def dev_file_def dev_schema_def table_names_def view_def devices_def addresses_def
      groups_def static_rows_def dynamic_rows_def group_rows_def)

lemma timer_file_same: "timer_file sq tb db v ts k \<Longrightarrow> tb db' = tb db \<Longrightarrow> timer_file sq tb db' v ts k"
  by (simp add: timer_file_def dev_file_def)

subsection \<open>Adding and deleting\<close>

lemma sint_small: "unat (w :: u32) < 2147483648 \<Longrightarrow> sint w = int (unat w)"
proof -
  assume "unat w < 2147483648"
  then have "uint w < 2147483648" unfolding uint_nat by linarith
  moreover have "- 2147483648 \<le> uint w" by (rule order_trans [of _ 0]) simp_all
  ultimately have "signed_take_bit 31 (uint w) = uint w" by (intro signed_take_bit_int_eq_self) simp_all
  then show ?thesis by (simp add: sint_uint)
qed

lemma length_dec_u8: "length (dec_u8 w) \<le> 10"
  using length_dec [of "unat w"] unat_u8_less [of w] by simp

lemma AddOneTimerTask_adds:
  assumes "timer_file sq tb db v ts k" "item_ok item" "GetCurrentTime tz spent = Some (now, w)"
  shows "\<exists>db'. AddOneTimerTask sq tz spent item db = Some (True, db') \<and> timer_file sq tb db' v (ts @ [(k + 1, item, now)]) (k + 1)"
proof -
  note D = timer_fileD [OF assms(1)]
  note i = assms(2) [unfolded item_ok_def arg_def] and now = GetCurrentTime_text [OF assms(3)]
  let ?t = "\<lparr>columns = timer_columns, rows = map task_row ts, last_id = k\<rparr>"
  let ?cs = "tl timer_names" and ?vs = "tl (task_row (k + 1, item, now))"
  let ?t' = "?t\<lparr>rows := map task_row ts @ [task_row (k + 1, item, now)], last_id := k + 1\<rparr>"
  have row: "new_row ?t ?cs ?vs = task_row (k + 1, item, now)"
    by (simp add: new_row_def timer_columns_def add.commute)
  have ins: "run_update (Insert ''timertasktable'' ?cs ?vs) (tb db) = Some ((tb db)(''timertasktable'' \<mapsto> ?t'))"
    unfolding run_update.simps D(4) bind.bind_lunit row names_timer [of ?t, simplified] by simp
  have num: "dec_u32 (tipinfo item) = dec (int (unat (tipinfo item)))" "dec_u32 (howlong item) = dec (int (unat (howlong item)))"
    using i by (simp_all only: sint_small)
  have len: "length (dec_u8 (period item)) \<le> 10" "length (dec_u8 (action item)) \<le> 10" "length (dec_u32 (tipinfo item)) \<le> 10"
    "length (dec_u32 (howlong item)) \<le> 10"
    using length_dec_u8 length_dec [of "unat (tipinfo item)"] length_dec [of "unat (howlong item)"] i unfolding num by blast+
  have "\<exists>db'. on_timer sq False (exec_sql sq (1024 * 2) (''insert into timertasktable(F_MAC,F_NAME,F_PERIOD,F_HAPPENTIME,F_ACTION,F_TIPINFO,F_HOWLONG,F_CRETIME) values('' @
       quoted (task_mac item) @ '','' @ quoted (task_name item) @ '','' @ dec_u8 (period item) @ '','' @ quoted (happen_time item) @ '','' @
       dec_u8 (action item) @ '','' @ dec_u32 (tipinfo item) @ '','' @ dec_u32 (howlong item) @ '','' @ quoted now @ '')'')) db = Some (True, db') \<and>
       tb db' = (tb db)(''timertasktable'' \<mapsto> ?t')"
    unfolding num
    by (rule sql_file.exec_yields [OF timer_sql_file [OF D(1)] D(3) parse_timer_insert])
      (use i now len ins in \<open>simp_all add: num arg_def\<close>)
  then show ?thesis using timer_file_update [OF assms(1)] by (force simp: AddOneTimerTask_def assms(3))
qed

lemma DeleteOneTimerTaskByID_deletes:
  assumes "timer_file sq tb db v ts k" "\<forall>t\<in>set ts. task_ok t" "n < 2147483648"
  shows "\<exists>db'. DeleteOneTimerTaskByID sq (int n) db = Some (True, db') \<and> timer_file sq tb db' v (filter (\<lambda>t. fst t \<noteq> n) ts) k"
proof -
  note D = timer_fileD [OF assms(1)]
  let ?t = "\<lparr>columns = timer_columns, rows = map task_row ts, last_id = k\<rparr>"
  let ?w = "Equal ''F_ID'' (Const (dec (int n)))"
  have "holds timer_names ?w (task_row t) \<longleftrightarrow> fst t = n" if "t \<in> set ts" for t
  proof (cases t)
    case (fields m i c)
    then have "m < 2147483648" using assms(2) that by auto
    then show ?thesis using dec_inject [OF _ assms(3), of m] fields by (simp add: cell_def)
  qed
  then have "filter (\<lambda>r. \<not> holds timer_names ?w r) (map task_row ts) = map task_row (filter (\<lambda>t. fst t \<noteq> n) ts)"
    unfolding filter_map by (intro arg_cong [where f = "map task_row"] filter_cong) simp_all
  then have del: "run_update (Delete ''timertasktable'' ?w) (tb db) =
      Some ((tb db)(''timertasktable'' \<mapsto> \<lparr>columns = timer_columns, rows = map task_row (filter (\<lambda>t. fst t \<noteq> n) ts), last_id = k\<rparr>))"
    using names_timer [of ?t] D(4) by simp
  have "\<exists>db'. on_timer sq False (exec_sql sq 512 (''delete from timertasktable where F_ID='' @ dec (int n))) db = Some (True, db') \<and>
       tb db' = (tb db)(''timertasktable'' \<mapsto> \<lparr>columns = timer_columns, rows = map task_row (filter (\<lambda>t. fst t \<noteq> n) ts), last_id = k\<rparr>)"
    by (rule sql_file.exec_yields [OF timer_sql_file [OF D(1)] D(3) parse_timer_delete _ del])
      (use length_dec [OF assms(3)] in simp_all)
  then show ?thesis using timer_file_update [OF assms(1)] by (force simp: DeleteOneTimerTaskByID_def)
qed

subsection \<open>The tasks that are due\<close>

definition due :: "string \<Rightarrow> u8 \<Rightarrow> timertask_item_t \<Rightarrow> bool" where
  "due longtime weekday i \<longleftrightarrow> happen_time i = longtime \<and> period i = 0 \<or>
     happen_time i = drop 11 longtime \<and> bit (period i) (unat weekday - 1)"

text \<open>The channel of the device with an address and a name.\<close>

definition channel :: "dev_view \<Rightarrow> string \<Rightarrow> string \<Rightarrow> u8" where
  "channel v mac name = (case find (\<lambda>d. dev_mac d = mac \<and> dev_name d = name) (v_devices v) of
     None \<Rightarrow> 0 | Some d \<Rightarrow> to_uchar (atoi (dev_number d)))"

fun stored :: "dev_view \<Rightarrow> task \<Rightarrow> timertask_item_t" where
  "stored v (k, item, now) =
     item\<lparr>task_id := int k, devnumber := channel v (task_mac item) (task_name item), create_time := now\<rparr>"

lemma view_ok_same_name:
  assumes "view_ok v" "d \<in> set (v_devices v)" "e \<in> set (v_devices v)" "dev_name d = dev_name e"
  shows "d = e"
proof -
  have "sorted_wrt (\<lambda>d e. dev_name d \<noteq> dev_name e) (v_devices v)"
    using assms(1) unfolding view_ok_def by (blast intro: sorted_wrt_mono_rel [rotated] dest: apart_def [THEN iffD1])
  then have "distinct (map dev_name (v_devices v))" by (simp add: distinct_conv_nth sorted_wrt_iff_nth_less) (metis linorder_neqE_nat)
  then show ?thesis using assms(2-4) by (auto simp: distinct_map dest: inj_onD)
qed

lemma GetDevNumberByMacAndName_finds:
  assumes "timer_file sq tb db v ts k" "view_ok v" "arg mac" "arg name"
  shows "\<exists>db'. GetDevNumberByMacAndName sq mac name db = Some (channel v mac name, db') \<and> timer_file sq tb db' v ts k"
proof -
  note D = timer_fileD [OF assms(1)]
  have sch: "dev_schema (tb db)" and dv: "v_devices v = map device_of (static_rows (tb db))"
    using D(2) by (auto simp: dev_file_def view_def devices_def)
  let ?w = "Conj (Equal ''F_MAC'' (Const mac)) (Equal ''F_NAME'' (Const name))"
  let ?P = "\<lambda>d. dev_mac d = mac \<and> dev_name d = name"
  let ?s = "''select F_DEVNUMBER from statictable where F_MAC='' @ quoted mac @ '' and F_NAME='' @ quoted name"
  define xs where "xs = filter (holds static_names ?w) (static_rows (tb db))"
  have xs: "r \<in> set xs \<longleftrightarrow> r \<in> set (static_rows (tb db)) \<and> ?P (device_of r)" for r
    using row_lengths(1) [OF sch] by (auto simp: xs_def cell_static)
  have sel: "run_query (Select [''F_DEVNUMBER''] ''statictable'' ?w) (tb db) = Some (map (project static_names [''F_DEVNUMBER'']) xs)"
    unfolding xs_def by (rule select_static [OF sch]) simp_all
  have "\<exists>x db'. on_dev sq 0 (\<lambda>db. query sq 1024 ?s db \<bind>
      (\<lambda>rs. if rs \<noteq> [] then do { c \<leftarrow> first_cell 0 rs; Some (to_uchar (atoi c), db) } else Some (0, db))) db = Some (x, db') \<and>
      tb db' = tb db \<and> x = channel v mac name"
  proof (rule sql_file.query_yields [OF dev_sql_file [OF D(1)] sch parse_static_queries(5) sel])
    fix rs :: "string list list"
    assume "mset rs = mset (map (project static_names [''F_DEVNUMBER'']) xs)"
    from mset_eq_setD [OF this] have rs: "set rs = project static_names [''F_DEVNUMBER''] ` set xs" by simp
    show "\<exists>x. (\<forall>db'. (if rs \<noteq> [] then do { c \<leftarrow> first_cell 0 rs; Some (to_uchar (atoi c), db') } else Some (0, db')) = Some (x, db')) \<and>
        x = channel v mac name"
    proof (cases rs)
      case Nil
      then have "\<not> (\<exists>d\<in>set (v_devices v). ?P d)" using rs xs by (auto simp: dv)
      then have "find ?P (v_devices v) = None" by (auto simp: find_None_iff)
      then show ?thesis using Nil by (simp add: channel_def)
    next
      case (Cons r rest)
      then obtain x where x: "x \<in> set xs" "r = project static_names [''F_DEVNUMBER''] x" using rs by auto
      then have d: "device_of x \<in> set (v_devices v)" "?P (device_of x)" and len: "length x = 7"
        using xs row_lengths(1) [OF sch] by (auto simp: dv)
      then obtain e where e: "find ?P (v_devices v) = Some e" by (cases "find ?P (v_devices v)") (auto simp: find_None_iff)
      then have "e \<in> set (v_devices v)" "?P e" by (auto simp: find_Some_iff)
      then have "e = device_of x" using view_ok_same_name [OF assms(2)] d by metis
      then show ?thesis using Cons x(2) e len by (simp add: channel_def first_cell_def mget_def project_def cell_static)
    qed
  qed (use argD [OF assms(3)] argD [OF assms(4)] in simp_all)
  then show ?thesis unfolding GetDevNumberByMacAndName_def using timer_file_same [OF assms(1)] by blast
qed

lemma atoi_dec_u8: "to_uchar (atoi (dec_u8 w)) = w"
proof -
  have "atoi (dec (int (unat w))) = int (unat w)" by (rule atoi_dec) (use unat_u8_less [of w] in simp)
  then show ?thesis by (simp add: to_uchar_def)
qed

lemma atoi_dec_u32: "unat w < 2147483648 \<Longrightarrow> word_of_int (atoi (dec_u32 w)) = w"
  using atoi_dec [of "unat w"] by (simp only: sint_small) simp

lemma read_task_stored:
  assumes "timer_file sq tb db v ts k" "view_ok v" "task_ok t"
  shows "\<exists>db'. read_task sq (task_row t) db = Some (stored v t, db') \<and> timer_file sq tb db' v ts k"
proof (cases t)
  case (fields n i now)
  then have ok: "n < 2147483648" "item_ok i" "length now < 20" using assms(3) by simp_all
  note i = ok(2) [unfolded item_ok_def]
  obtain db' where db': "GetDevNumberByMacAndName sq (task_mac i) (task_name i) db = Some (channel v (task_mac i) (task_name i), db')"
    "timer_file sq tb db' v ts k"
    using GetDevNumberByMacAndName_finds [OF assms(1,2)] i by blast
  have "read_task sq (task_row t) db = Some (stored v t, db')"
    unfolding fields read_task_def task_row.simps mget_def fits_def
    using i ok(3) atoi_dec [OF ok(1)] db'(1) by (cases i) (simp add: atoi_dec_u8 [simplified] atoi_dec_u32)
  then show ?thesis using db'(2) by blast
qed

lemma read_tasks_stored:
  assumes "view_ok v" "\<forall>t\<in>set us. task_ok t" "length us \<le> room" "timer_file sq tb db v ts k"
  shows "\<exists>db'. read_tasks sq room (map task_row us) db = Some (map (stored v) us, db') \<and> timer_file sq tb db' v ts k"
  using assms(2-4)
proof (induction us arbitrary: room db)
  case (Cons u us)
  obtain r where room: "room = Suc r" using Cons.prems(2) by (cases room) auto
  obtain db1 where 1: "read_task sq (task_row u) db = Some (stored v u, db1)" "timer_file sq tb db1 v ts k"
    using read_task_stored [OF Cons.prems(3) assms(1), of u] Cons.prems(1) by auto
  obtain db2 where 2: "read_tasks sq r (map task_row us) db1 = Some (map (stored v) us, db2)" "timer_file sq tb db2 v ts k"
    using Cons.IH [OF _ _ 1(2), of r] Cons.prems(1,2) room by auto
  show ?case using 1(1) 2 by (simp add: room)
qed simp

lemma due_holds:
  assumes "task_ok t" "QUOTE \<notin> set long" "1 \<le> wd"
  shows "holds timer_names (due_cond long (drop 11 long) (dec (int (unat wd - 1)))) (task_row t) \<longleftrightarrow> due long wd (fst (snd t))"
proof (cases t)
  case (fields n i now)
  have wd: "unat wd - 1 < 2147483648" using unat_u8_less [of wd] by simp
  have p: "unat (period i) < 2147483648" using unat_u8_less [of "period i"] by simp
  have "dec_u8 (period i) = ''0'' \<longleftrightarrow> period i = 0"
  proof -
    have zero: "''0'' = dec (int 0)" by code_simp
    show ?thesis unfolding zero using dec_inject [OF p, of 0] by (simp add: unat_eq_0)
  qed
  moreover have "bit (atoi (dec_u8 (period i))) (nat (atoi (dec (int (unat wd - 1))))) \<longleftrightarrow> bit (period i) (unat wd - 1)"
    unfolding atoi_dec [OF wd] atoi_dec [OF p] nat_int by (simp add: bit_uint_iff) (auto dest: bit_imp_le_length)
  moreover have "cell timer_names (task_row t) ''F_HAPPENTIME'' = happen_time i" "cell timer_names (task_row t) ''F_PERIOD'' = dec_u8 (period i)"
    unfolding fields task_row.simps cell_def by simp_all
  ultimately show ?thesis unfolding due_def due_cond_def by (simp add: fields)
qed

lemma mset_map_elims: "mset rs = mset (map f xs) \<Longrightarrow> \<exists>ys. rs = map f ys \<and> mset ys = mset xs"
proof (induction rs arbitrary: xs)
  case (Cons r rs)
  from mset_eq_setD [OF Cons.prems] obtain x where x: "x \<in> set xs" "r = f x" by auto
  then have "mset (map f xs) = add_mset r (mset (map f (remove1 x xs)))" by (simp add: image_mset_Diff)
  then have "mset rs = mset (map f (remove1 x xs))" using Cons.prems by simp
  then obtain ys where "rs = map f ys" "mset ys = mset (remove1 x xs)" using Cons.IH by blast
  then show ?case using x by (intro exI [of _ "x # ys"]) simp
qed simp

text \<open>
  The tasks that are executed at a time are exactly those that were added for it, each once: the tasks for one time
  with this date and time, and the repeated tasks with this time of day whose period has the bit of the day. The channel
  of each is that of the device with its address and name.
\<close>

lemma timer_due_tasks:
  assumes "timer_file sq tb db v ts k" "view_ok v" "\<forall>t\<in>set ts. task_ok t" "arg long" "11 \<le> length long" "1 \<le> wd"
    "length (filter (\<lambda>t. due long wd (fst (snd t))) ts) \<le> 100"
  shows "\<exists>items db'. GetValidThingsToDo sq (Some long) wd nums db = Some ((of_nat (length items), items), db') \<and>
    timer_file sq tb db' v ts k \<and> mset items = mset (map (stored v) (filter (\<lambda>t. due long wd (fst (snd t))) ts))"
proof -
  note D = timer_fileD [OF assms(1)]
  let ?us = "filter (\<lambda>t. due long wd (fst (snd t))) ts" and ?n = "dec (int (unat wd - 1))"
  let ?w = "due_cond long (drop 11 long) ?n"
  let ?s = "''select * from timertasktable where (F_HAPPENTIME='' @ quoted long @ '' and  F_PERIOD=0) or (F_HAPPENTIME='' @
    quoted (drop 11 long) @ '' and (F_PERIOD&(1<<'' @ ?n @ ''))!=0);''"
  have q: "QUOTE \<notin> set long" "QUOTE \<notin> set (drop 11 long)" "length long \<le> 200"
    using assms(4) by (auto simp: arg_def dest: in_set_dropD)
  have "filter (holds timer_names ?w) (map task_row ts) = map task_row ?us"
    unfolding filter_map comp_def
    by (intro arg_cong [where f = "map task_row"] filter_cong refl due_holds) (use assms(3,6) q in auto)
  then have sel: "run_query (Select [] ''timertasktable'' ?w) (tb db) = Some (map task_row ?us)"
    using D(4) names_timer [of "\<lparr>columns = timer_columns, rows = map task_row ts, last_id = k\<rparr>"]
    by (simp add: due_cond_def project_def)
  have "length ?n \<le> 10" by (rule length_dec) (use unat_u8_less [of wd] in simp)
  then have len: "length ?s < 1024" using q(3) by simp
  obtain db1 rs where 1: "timer_database_open sq db = (True, db1)" "tb db1 = tb db" "sql_get_table sq ?s db1 = rs"
    "mset rs = mset (map task_row ?us)"
    using sql_file.query_runs [OF timer_sql_file [OF D(1)] D(3) parse_timer_due [OF q(1,2)] sel] by blast
  have "timer_file sq tb db1 v ts k" by (rule timer_file_same [OF assms(1) 1(2)])
  moreover obtain us where us: "rs = map task_row us" "mset us = mset ?us"
    using mset_map_elims [OF 1(4)] by blast
  moreover have "\<forall>t\<in>set us. task_ok t" "length us \<le> 100"
    using assms(3,7) mset_eq_setD [OF us(2)] mset_eq_length [OF us(2)] by simp_all
  ultimately obtain db2 where 2: "read_tasks sq 100 rs db1 = Some (map (stored v) us, db2)" "timer_file sq tb db2 v ts k"
    using read_tasks_stored [OF assms(2), of us 100 sq tb db1 ts k] unfolding us(1) by blast
  have n: "dec (int (unat wd) - 1) = ?n" using assms(6) by (simp add: word_le_nat_alt of_nat_diff)
  have "GetValidThingsToDo sq (Some long) wd nums db = Some ((of_nat (length us), map (stored v) us), db2)"
    using 1(1,3) 2(1) assms(5) len us(1) unfolding GetValidThingsToDo_def n on_db_def query_def fits_def by simp
  moreover have "mset (map (stored v) us) = mset (map (stored v) ?us)" using us(2) by (simp only: mset_map)
  ultimately show ?thesis using 2(2) by (metis length_map)
qed

text \<open>A file with a lamp on channel 1 and a task for it on Mondays and Tuesdays.\<close>

definition lamp_item :: timertask_item_t where
  "lamp_item = \<lparr>task_id = 0, task_mac = ''0102'', task_name = ''lamp'', period = 3, happen_time = ''08:30'', action = 0,
     tipinfo = 0, howlong = 0, devnumber = 0, create_time = []\<rparr>"

definition lamp_tasks :: "task list" where
  "lamp_tasks = [(1, lamp_item, ''2016-02-28 23:30'')]"

definition lamp_tables :: tables where
  "lamp_tables =
     [''statictable'' \<mapsto> \<lparr>columns = plain_columns static_names, rows = [[dec (int 1), ''0102'', ''lamp'', ''706F'', dec (int 1), dec (int 1), dec (int 0)]], last_id = 1\<rparr>,
      ''dynamictable'' \<mapsto> \<lparr>columns = plain_columns [''F_MAC'', ''F_IP''], rows = [[''0102'', ''0A0B'']], last_id = 1\<rparr>,
      ''grouptable'' \<mapsto> \<lparr>columns = plain_columns [''F_ID'', ''F_GROUPNAME''], rows = [[dec (int 1), ''hall'']], last_id = 1\<rparr>,
      ''timertasktable'' \<mapsto> \<lparr>columns = timer_columns, rows = map task_row lamp_tasks, last_id = 1\<rparr>]"

definition lamp_view :: dev_view where
  "lamp_view = \<lparr>v_devices = [\<lparr>dev_id = dec (int 1), dev_mac = ''0102'', dev_name = ''lamp'', dev_unicode = ''706F'', dev_group = dec (int 1),
       dev_number = dec (int 1), dev_kind = dec (int 0)\<rparr>],
     v_addresses = [(''0102'', ''0A0B'')], v_groups = [(''hall'', dec (int 1))], v_last_dev = 1, v_last_group = 1\<rparr>"

lemma lamp_view_ok: "view_ok lamp_view"
  by (auto simp: view_ok_def lamp_view_def numbered_def groups_ok_def)

lemma lamp_file: "timer_file table_sqlite id lamp_tables lamp_view lamp_tasks 1"
  using table_sqlite_spec
  by (simp add: timer_file_def dev_file_def dev_schema_def table_names_def conforms_def lamp_tables_def lamp_view_def view_def devices_def
      addresses_def groups_def static_rows_def dynamic_rows_def group_rows_def device_of_def static_names_def)

lemma lamp_tasks_ok: "\<forall>t\<in>set lamp_tasks. task_ok t"
  by (simp add: lamp_tasks_def lamp_item_def item_ok_def arg_def)

text \<open>The task is due on a Tuesday.\<close>

lemma lamp_due: "filter (\<lambda>t. due ''2016-03-01 08:30'' 2 (fst (snd t))) lamp_tasks = lamp_tasks"
  by (simp add: lamp_tasks_def lamp_item_def due_def)

end
