(* ===== verification/Timer_Run.thy ===== *)
theory Timer_Run
  imports Timer_Tables Uart_Link
begin

text \<open>
  The execution of the timer tasks: what the timer thread writes to the switches, and that it comes to its end when they
  echo.
\<close>

text \<open>The frame of a task, for the network addresses \<open>adr\<close>.\<close>

definition task_frame :: "(string \<Rightarrow> u8 \<times> u8) \<Rightarrow> timertask_item_t \<Rightarrow> bytes" where
  "task_frame adr i = switch_cmd (adr (task_mac i)) (action i) (devnumber i)"

definition reachable :: "dev_view \<Rightarrow> (string \<Rightarrow> u8 \<times> u8) \<Rightarrow> timertask_item_t \<Rightarrow> bool" where
  "reachable v adr i \<longleftrightarrow> has_device (task_mac i) (task_name i) v \<and> arg (task_mac i) \<and> arg (task_name i) \<and>
     map_of (v_addresses v) (task_mac i) = Some (address_text (adr (task_mac i)))"

text \<open>A frame that cannot be written or is echoed while a thread waits, whatever is in the queue.\<close>

definition answers :: "(bytes \<Rightarrow> int) \<Rightarrow> poll_env \<Rightarrow> bytes \<Rightarrow> bool" where
  "answers wr env f \<longleftrightarrow> (\<forall>q. uart_queue_ok q \<longrightarrow> wr f \<noteq> 6 \<or> (\<exists>j. f \<in> set (pending (queue_at env 0 q j))))"

lemma run_tasks_all:
  assumes "view_ok v" "env_keeps_queue env"
  shows "\<forall>i\<in>set items. reachable v adr i \<and> answers wr env (task_frame adr i) \<Longrightarrow> dev_file sq tb db v \<Longrightarrow> uart_queue_ok q \<Longrightarrow>
    \<exists>q' db'. run_tasks sq wr env items q db = Some (Returned (map (task_frame adr) items, q'), db') \<and> dev_file sq tb db' v \<and> uart_queue_ok q'"
proof (induction items arbitrary: q db)
  case (Cons i items)
  let ?f = "task_frame adr i"
  have i: "reachable v adr i" "answers wr env ?f" using Cons.prems(1) by simp_all
  obtain r db1 where 1: "ForwardControlToUart sq wr env (task_mac i) (task_name i) 0 (action i) (devnumber i) q db = Some (r, db1)"
    "dev_file sq tb db1 v"
    "if wr ?f \<noteq> 6 then r = Returned (?f, False, q)
     else if \<exists>j. ?f \<in> set (pending (queue_at env 0 q j)) then \<exists>q'. r = Returned (?f, True, q') \<and> uart_queue_ok q' else r = Waiting"
    using forward_switch [OF Cons.prems(2) assms(1) _ _ _ _ assms(2) Cons.prems(3)] i(1) unfolding reachable_def task_frame_def by blast
  then obtain b q1 where r: "r = Returned (?f, b, q1)" "uart_queue_ok q1"
    using i(2) Cons.prems(3) by (auto simp: answers_def split: if_splits)
  then obtain q2 db2 where 2: "run_tasks sq wr env items q1 db1 = Some (Returned (map (task_frame adr) items, q2), db2)"
    "dev_file sq tb db2 v" "uart_queue_ok q2"
    using Cons.IH [OF _ 1(2) r(2)] Cons.prems(1) by auto
  then show ?case using 1(1) r(1) by simp
qed simp

text \<open>
  C3: one run of the timer ends when every switch echoes. At every time it writes the frame of each task that is due, once
  each and in some order, with the action of the task and the address and channel its device has now, and no other frame.
\<close>

theorem timer_run:
  assumes "timer_file sq tb db v ts k" "view_ok v" "\<forall>t\<in>set ts. task_ok t" "in_time_t now" "\<bar>tz\<bar> \<le> 86400"
    "GetCurrentTime tz now = Some (long, wd)" "us = filter (\<lambda>t. due long wd (fst (snd t))) ts" "length us \<le> 100"
    "\<forall>t\<in>set us. reachable v adr (stored v t) \<and> answers wr env (task_frame adr (stored v t))" "env_keeps_queue env" "uart_queue_ok q"
  shows "\<exists>items q' db'. do_timer_func sq wr env tz now q db = Some (Returned (map (task_frame adr) items, q'), db') \<and>
    mset items = mset (map (stored v) us)"
proof -
  note now = GetCurrentTime_text [OF assms(6)]
  have len: "length long = 16" unfolding now(1) by (rule localtime_text [OF assms(4,5)])
  then have long: "arg long" using now(3) by (simp add: arg_def)
  obtain items db1 where 1: "GetValidThingsToDo sq (Some long) wd 0 db = Some ((of_nat (length items), items), db1)"
    "timer_file sq tb db1 v ts k" "mset items = mset (map (stored v) us)"
    using timer_due_tasks [OF assms(1-3) long, of wd 0] len now(2) assms(7,8) by auto
  have n: "length items \<le> 100" using mset_eq_length [OF 1(3)] assms(8) by simp
  have "\<forall>i\<in>set items. reachable v adr i \<and> answers wr env (task_frame adr i)" using mset_eq_setD [OF 1(3)] assms(9) by auto
  then obtain q2 db2 where "run_tasks sq wr env items q db1 = Some (Returned (map (task_frame adr) items, q2), db2)"
    using run_tasks_all [OF assms(2,10) _ timer_fileD(2) [OF 1(2)] assms(11), of items adr wr] by blast
  moreover have "take (unat (of_nat (length items) :: u8)) items = items" using n by (simp add: unat_of_nat)
  ultimately have "do_timer_func sq wr env tz now q db = Some (Returned (map (task_frame adr) items, q2), db2)"
    using assms(6) 1(1) by (simp add: do_timer_func_def)
  then show ?thesis using 1(3) by blast
qed

definition lamp_frame :: bytes where
  "lamp_frame = switch_cmd (0x0B, 0x0A) 0 1"

text \<open>Other threads that take the replies of all other switches and queue the one of the lamp.\<close>

definition lamp_env :: poll_env where
  "lamp_env = (\<lambda>_ _. uart_put lamp_frame (uart_data_quene_init idle_slots))"

lemma lamp_env: "env_keeps_queue lamp_env" "answers (\<lambda>b. int (length b)) lamp_env lamp_frame"
proof -
  have ok: "uart_queue_ok (uart_data_quene_init idle_slots)" by (rule uart_data_quene_init_ok [OF idle_slots_sized])
  have len: "length lamp_frame = UART_DATA_NUM" by (simp add: lamp_frame_def UART_DATA_NUM_def)
  show "env_keeps_queue lamp_env" by (simp add: env_keeps_queue_def lamp_env_def uart_put_ok ok len)
  have "lamp_frame \<in> set (pending (queue_at lamp_env 0 q 1))" for q
  proof -
    have "\<not> uart_full (uart_data_quene_init idle_slots)" by code_simp
    then show ?thesis using pending_put [OF ok _ _, of lamp_frame] len by (simp add: lamp_env_def flip: set_mset_mset)
  qed
  then show "answers (\<lambda>b. int (length b)) lamp_env lamp_frame" unfolding answers_def by blast
qed

lemma timer_run_witness:
  "\<exists>items q' db'. do_timer_func table_sqlite (\<lambda>b. int (length b)) lamp_env 28800 1456792200 (uart_data_quene_init idle_slots) lamp_tables =
      Some (Returned (map (task_frame (\<lambda>_. (0x0B, 0x0A))) items, q'), db') \<and>
    mset items = mset (map (stored lamp_view) lamp_tasks)"
proof -
  have clock: "GetCurrentTime 28800 1456792200 = Some (''2016-03-01 08:30'', 2)" "in_time_t 1456792200" "\<bar>28800 :: int\<bar> \<le> 86400"
    by code_simp+
  have q: "uart_queue_ok (uart_data_quene_init idle_slots)" by (rule uart_data_quene_init_ok [OF idle_slots_sized])
  have a: "address_text (0x0B, 0x0A) = ''0A0B''" by code_simp
  have "atoi (dec 1) = 1" using atoi_dec [of 1] by simp
  then have "stored lamp_view t = lamp_item\<lparr>task_id := 1, devnumber := 1, create_time := ''2016-02-28 23:30''\<rparr>" if "t \<in> set lamp_tasks" for t
    using that by (simp add: lamp_tasks_def lamp_view_def lamp_item_def channel_def to_uchar_def)
  then have "\<forall>t\<in>set lamp_tasks. reachable lamp_view (\<lambda>_. (0x0B, 0x0A)) (stored lamp_view t) \<and>
      answers (\<lambda>b. int (length b)) lamp_env (task_frame (\<lambda>_. (0x0B, 0x0A)) (stored lamp_view t))"
    using lamp_env(2) by (simp add: reachable_def task_frame_def lamp_frame_def lamp_item_def has_device_def lamp_view_def arg_def a)
  then show ?thesis
    by (intro timer_run [OF lamp_file lamp_view_ok lamp_tasks_ok clock(2,3,1) lamp_due [symmetric] _ _ lamp_env(1) q])
      (simp_all add: lamp_tasks_def)
qed

end
