(* ===== verification/City_Id.thy ===== *)
theory City_Id
  imports Sql_File
begin

text \<open>
  The identifiers of the cities for the weather (\<open>src/src/dev_manage/cityid.c\<close>): the table \<open>citytable\<close> of a database
  file of its own. The lookup copies the identifier to an array of its caller, of 20 characters.
\<close>

definition CreateCityTable :: "'db sqlite \<Rightarrow> 'db \<Rightarrow> 'db" where
  "CreateCityTable sq db = snd (sql_exec sq ''create table citytable(F_NAME VARCHAR(30),F_CityID VARCHAR(50));'' db)"

definition city_database_open :: "'db sqlite \<Rightarrow> 'db \<Rightarrow> bool \<times> 'db" where
  "city_database_open sq db = (if sql_open sq db = SQLITE_ERROR then (False, db) else (True, CreateCityTable sq db))"

abbreviation on_city :: "'db sqlite \<Rightarrow> 'a \<Rightarrow> ('db \<Rightarrow> ('a \<times> 'db) option) \<Rightarrow> 'db \<Rightarrow> ('a \<times> 'db) option" where
  "on_city sq \<equiv> on_db (city_database_open sq)"

definition insertIntoCityIDTable :: "'db sqlite \<Rightarrow> string \<Rightarrow> string \<Rightarrow> 'db \<Rightarrow> (bool \<times> 'db) option" where
  "insertIntoCityIDTable sq name cityid = on_city sq False
     (exec_sql sq 1024 (''insert into citytable values('' @ quoted name @ '','' @ quoted cityid @ '')''))"

definition GetCityIDByName :: "'db sqlite \<Rightarrow> string \<Rightarrow> 'db \<Rightarrow> (string option \<times> 'db) option" where
  "GetCityIDByName sq name = on_city sq None (\<lambda>db. do {
     rs \<leftarrow> query sq 1024 (''select F_CityID from citytable where F_NAME='' @ quoted name) db;
     (case rs of
        [] \<Rightarrow> Some (None, db)
      | r # _ \<Rightarrow> do { c \<leftarrow> mget r 0 \<bind> fits 20; Some (Some c, db) })
   })"

end
