(* ===== verification/Family_Group.thy ===== *)
theory Family_Group
  imports Sql
begin

text \<open>
  The family group of the hub (\<open>src/src/dev_manage/familygroup.c\<close>): two lines of the file
  \<open>/usr/dev/family_info.ini\<close>, which is opened for appending. The file is its contents, \<^term>\<open>None\<close> if there is none.
  The structure that is read into is a variable of the caller of which only the first four bytes are cleared, so its
  contents before are a parameter.
\<close>

record groupInfo_t =
  group_id :: string
  group_name :: string

abbreviation CR :: char where
  "CR \<equiv> CHR 0x0D"

abbreviation LF :: char where
  "LF \<equiv> CHR 0x0A"

abbreviation crlf :: string where
  "crlf \<equiv> [CR, LF]"

subsection \<open>Saving\<close>

text \<open>\<open>fopen\<close> for appending creates the file; \<open>can_open\<close> tells whether it succeeds.\<close>

definition SaveFamilyGroupInfo :: "bool \<Rightarrow> groupInfo_t \<Rightarrow> string option \<Rightarrow> (bool \<times> string option) option" where
  "SaveFamilyGroupInfo can_open group_info contents = do {
     line \<leftarrow> fits 1024 (c_str (group_id group_info) @ crlf @ c_str (group_name group_info) @ crlf);
     Some (if \<not> can_open then (False, contents)
           else (True, Some ((case contents of None \<Rightarrow> [] | Some s \<Rightarrow> s) @ line)))
   }"

definition SetFamilyGroupInfo :: "bool \<Rightarrow> groupInfo_t \<Rightarrow> string option \<Rightarrow> (bool \<times> string option) option" where
  "SetFamilyGroupInfo can_open group_info contents = SaveFamilyGroupInfo can_open group_info contents"

subsection \<open>Reading\<close>

text \<open>A line with its line feed, and what is left; none at the end of the file.\<close>

definition getline :: "string \<Rightarrow> (string \<times> string) option" where
  "getline s =
     (if s = [] then None
      else let l = takeWhile (\<lambda>c. c \<noteq> LF) s; r = dropWhile (\<lambda>c. c \<noteq> LF) s in Some (l @ take 1 r, drop 1 r))"

text \<open>\<open>strncpy\<close> of the characters of a line without its terminator, then the last two characters are cut off: the
  length is that of the line and whatever the array held behind it.\<close>

definition put_line :: "string \<Rightarrow> string \<Rightarrow> string option" where
  "put_line mem line =
     (let l = c_str line in
      if length l > length mem then None
      else do {
        let mem = l @ drop (length l) mem;
        n \<leftarrow> strlen mem;
        (if n < 2 then None else mput mem (n - 2) NUL)
      })"

definition GetFamilyGroupInfo :: "groupInfo_t \<Rightarrow> string option \<Rightarrow> (bool \<times> groupInfo_t) option" where
  "GetFamilyGroupInfo group_info contents =
     (case contents of
        None \<Rightarrow> Some (False, group_info)
      | Some s \<Rightarrow>
          (case getline s of
             None \<Rightarrow> Some (False, group_info)
           | Some (line, s) \<Rightarrow> do {
               i \<leftarrow> put_line (group_id group_info) line;
               let group_info = group_info\<lparr>group_id := i\<rparr>;
               (case getline s of
                  None \<Rightarrow> Some (False, group_info)
                | Some (line, s) \<Rightarrow> do {
                    n \<leftarrow> put_line (group_name group_info) line;
                    Some (True, group_info\<lparr>group_name := n\<rparr>)
                  })
             }))"

subsection \<open>The first group stays\<close>

definition group_line :: "string \<Rightarrow> bool" where
  "group_line s \<longleftrightarrow> NUL \<notin> set s \<and> LF \<notin> set s"

lemma getline_line: "group_line s \<Longrightarrow> getline (s @ CR # LF # r) = Some (s @ crlf, r)"
  by (auto simp: getline_def group_line_def Let_def takeWhile_append takeWhile_eq_all_conv dropWhile_append)

lemma put_line_zero:
  assumes "NUL \<notin> set s" "length s + 2 < length mem" "mem ! (length s + 2) = NUL"
  shows "put_line mem (s @ crlf) = Some (s @ NUL # LF # NUL # drop (length s + 3) mem)"
proof -
  have d: "drop (length s + 2) mem = NUL # drop (length s + 3) mem"
    using Cons_nth_drop_Suc [OF assms(2)] assms(3) by (simp add: numeral_3_eq_3)
  have c: "c_str (s @ crlf) = s @ crlf" using assms(1) by (intro c_str_no_NUL) auto
  have "strlen ((s @ crlf) @ NUL # drop (length s + 3) mem) = Some (length s + 2)"
    using assms(1) by (subst strlen_memory) auto
  then show ?thesis using assms(2) d unfolding put_line_def c by (simp add: mput_def)
qed

text \<open>
  C34: the file keeps the first group for ever. When a first group, each of whose two lines is shorter than 500 characters
  and has no line feed, was saved into a new file, whatever groups of fewer than 1020 characters are saved later, with the
  file opened or not, what is read back is the first one. This supposes that the two arrays of 512 characters, which are
  not initialised, hold a zero byte where the copied lines end; without one the read does not stop there.
\<close>

theorem family_group_first:
  assumes "group_line i" "group_line n" "length i < 500" "length n < 500"
    "\<forall>(ok, g)\<in>set gs. length (c_str (group_id g)) + length (c_str (group_name g)) < 1020"
    "length (group_id stack) = 512" "length (group_name stack) = 512"
    "group_id stack ! (length i + 2) = NUL" "group_name stack ! (length n + 2) = NUL"
  shows "\<exists>f g. SetFamilyGroupInfo True \<lparr>group_id = i, group_name = n\<rparr> None = Some (True, Some f) \<and>
    (let f' = fold (\<lambda>(ok, g) f. the (map_option snd (SetFamilyGroupInfo ok g f))) gs (Some f) in
     GetFamilyGroupInfo stack f' = Some (True, g) \<and> c_str (group_id g) = i \<and> c_str (group_name g) = n)"
proof -
  let ?l = "i @ CR # LF # n @ crlf"
  have plain: "c_str i = i" "c_str n = n" using assms(1,2) by (simp_all add: group_line_def c_str_no_NUL)
  have first: "SetFamilyGroupInfo True \<lparr>group_id = i, group_name = n\<rparr> None = Some (True, Some ?l)"
    using assms(3,4) by (simp add: SetFamilyGroupInfo_def SaveFamilyGroupInfo_def plain fits_def)
  have later: "\<exists>r. fold (\<lambda>(ok, g) f. the (map_option snd (SetFamilyGroupInfo ok g f))) gs (Some (?l @ r0)) = Some (?l @ r)" for r0
    using assms(5)
  proof (induction gs arbitrary: r0)
    case (Cons p gs)
    obtain ok g where p: "p = (ok, g)" by (cases p)
    have "\<exists>b r1. SetFamilyGroupInfo ok g (Some (?l @ r0)) = Some (b, Some (?l @ r1))"
      using Cons.prems p by (auto simp: SetFamilyGroupInfo_def SaveFamilyGroupInfo_def fits_def)
    then obtain b r1 where "SetFamilyGroupInfo ok g (Some (?l @ r0)) = Some (b, Some (?l @ r1))" by blast
    then show ?case using Cons.IH [of r1] Cons.prems p by simp
  qed simp
  obtain r where r: "fold (\<lambda>(ok, g) f. the (map_option snd (SetFamilyGroupInfo ok g f))) gs (Some ?l) = Some (?l @ r)"
    using later [of "[]"] by auto
  have "NUL \<notin> set i" "NUL \<notin> set n" using assms(1,2) by (simp_all add: group_line_def)
  note puts = put_line_zero [OF this(1) _ assms(8)] put_line_zero [OF this(2) _ assms(9)]
  have "\<exists>g. GetFamilyGroupInfo stack (Some (?l @ r)) = Some (True, g) \<and> c_str (group_id g) = i \<and> c_str (group_name g) = n"
    using getline_line [OF assms(1), of "n @ CR # LF # r"] getline_line [OF assms(2), of r] puts assms(3,4,6,7)
      \<open>NUL \<notin> set i\<close> \<open>NUL \<notin> set n\<close>
    by (simp add: GetFamilyGroupInfo_def)
  then show ?thesis using first r by (auto simp: Let_def)
qed

lemma family_group_first_witness:
  "\<exists>f g. SetFamilyGroupInfo True \<lparr>group_id = ''1'', group_name = ''home''\<rparr> None = Some (True, Some f) \<and>
    (let f' = fold (\<lambda>(ok, g) f. the (map_option snd (SetFamilyGroupInfo ok g f)))
        [(True, \<lparr>group_id = ''2'', group_name = ''work''\<rparr>), (False, \<lparr>group_id = ''3'', group_name = ''x''\<rparr>)] (Some f) in
     GetFamilyGroupInfo \<lparr>group_id = replicate 512 NUL, group_name = replicate 512 NUL\<rparr> f' = Some (True, g) \<and>
       c_str (group_id g) = ''1'' \<and> c_str (group_name g) = ''home'')"
  by (rule family_group_first) (simp_all add: group_line_def c_str_def)

end
