(* ===== verification/Socketd.thy ===== *)
theory Socketd
  imports Timertask Alarm_Db Sms City_Id Family_Group
begin

text \<open>
  The server for the app (\<open>src/src/dev_manage/socketd.c\<close> and \<open>net_broadcast.c\<close>): one thread per connection reads a
  request, a JSON object with the members \<open>param0\<close> to \<open>param8\<close>, executes it and answers. The JSON library is a
  parameter; its functions return null pointers as \<^term>\<open>None\<close>.
\<close>

record 'j cjson =
  cJSON_Parse :: "string \<Rightarrow> 'j option"
  cJSON_GetObjectItem :: "'j \<Rightarrow> string \<Rightarrow> 'j option"
  valuestring :: "'j \<Rightarrow> string option"

text \<open>What the thread finds around it: the flags of the application, whether the file of the group can be opened, the
  clock, and the memory of its stack. Sockets for datagrams can be opened.\<close>

record net_env =
  is_sms_ok :: bool
  is_uart_ok :: bool
  can_append :: bool
  clock :: int
  time_zone :: int
  group_stack :: groupInfo_t

text \<open>The state the threads share: three database files, the file of the group, the replies of the switches and the
  texts that the lists are built in.\<close>

record 'db hub =
  dev_db :: 'db
  user_db :: 'db
  city_db :: 'db
  group_file :: "string option"
  uart_q :: uart_queue
  g_dev_list :: string
  g_group_name :: string
  g_alarm_alllist :: string
  g_timertask_info :: string

datatype net_event =
  Reply string
| Started effect
| To_uart bytes
| To_modem "string list"
| Closed

definition SOCKET_RESPONSE_YES :: string where
  "SOCKET_RESPONSE_YES = ''YES''"

definition SOCKET_RESPONSE_NO :: string where
  "SOCKET_RESPONSE_NO = ''NO''"

definition SOCKET_RESPONSE_MAC_EXIST :: string where
  "SOCKET_RESPONSE_MAC_EXIST = ''MAC_EXIST''"

definition SOCKET_RESPONSE_NAME_EXIST :: string where
  "SOCKET_RESPONSE_NAME_EXIST = ''NAME_EXIST''"

text \<open>The parameters of a request; only the last three may be null.\<close>

record request =
  who :: string
  user_action :: string
  r_mac :: string
  r_name :: string
  r_type :: "string option"
  r_cmd :: string
  r_group :: string
  r_param1 :: "string option"
  r_param2 :: "string option"

text \<open>A member that is missing is a null pointer that is read. A null value of a parameter that must not be null is the
  second \<^term>\<open>None\<close>.\<close>

definition read_request :: "'j cjson \<Rightarrow> 'j \<Rightarrow> request option option" where
  "read_request js root =
     (let param = \<lambda>k. map_option (valuestring js) (cJSON_GetObjectItem js root k) in
      do {
        w \<leftarrow> param ''param0''; ua \<leftarrow> param ''param1''; mac \<leftarrow> param ''param2''; name \<leftarrow> param ''param3''; ty \<leftarrow> param ''param4'';
        cmd \<leftarrow> param ''param5''; gr \<leftarrow> param ''param6''; p1 \<leftarrow> param ''param7''; p2 \<leftarrow> param ''param8'';
        Some (do {
          w \<leftarrow> w; ua \<leftarrow> ua; mac \<leftarrow> mac; name \<leftarrow> name; cmd \<leftarrow> cmd; gr \<leftarrow> gr;
          Some \<lparr>who = w, user_action = ua, r_mac = mac, r_name = name, r_type = ty, r_cmd = cmd, r_group = gr,
                r_param1 = p1, r_param2 = p2\<rparr>
        })
      })"

text \<open>The name and, behind a colon, its code for the display.\<close>

definition split_name :: "string \<Rightarrow> (string \<times> string) option" where
  "split_name s = do { (name, r) \<leftarrow> strtok CHR '':'' s; (unicode, _) \<leftarrow> strtok CHR '':'' r; Some (name, unicode) }"

type_synonym 'db served = "(net_event list waited \<times> 'db hub) option"

abbreviation answered :: "'db hub \<Rightarrow> net_event list \<Rightarrow> 'db served" where
  "answered h evs \<equiv> Some (Returned evs, h)"

definition response_client :: "bool \<Rightarrow> net_event list" where
  "response_client ret = [Reply (if ret then SOCKET_RESPONSE_YES else SOCKET_RESPONSE_NO), Closed]"

abbreviation wrote :: "bytes \<Rightarrow> net_event list" where
  "wrote f \<equiv> (if f = [] then [] else [To_uart f])"

subsection \<open>Devices and groups\<close>

definition serve_dev_add :: "'db sqlite \<Rightarrow> request \<Rightarrow> 'db hub \<Rightarrow> 'db served" where
  "serve_dev_add sq r h =
     (case split_name (r_name r) of
        None \<Rightarrow> answered h [Closed]
      | Some (name, unicode) \<Rightarrow> do {
          n \<leftarrow> r_param1 r; t \<leftarrow> r_param2 r;
          (ret, db) \<leftarrow> AddDevToStaticTable sq (r_mac r) name unicode (r_group r) (to_uchar (atoi n)) (to_uchar (atoi t)) (dev_db h);
          evs \<leftarrow> (if ret = DEV_ADD_OK
                  then map_option (\<lambda>e. [Reply SOCKET_RESPONSE_YES, Started e]) (send_broadcast (who r) ACTION_DEV_ADD name)
                  else if ret = DEV_MAC_EXIST then Some [Reply SOCKET_RESPONSE_MAC_EXIST]
                  else if ret = DEV_NAME_EXIST then Some [Reply SOCKET_RESPONSE_NAME_EXIST]
                  else Some []);
          answered (h\<lparr>dev_db := db\<rparr>) (evs @ [Closed])
        })"

definition serve_dev_remove :: "'db sqlite \<Rightarrow> request \<Rightarrow> 'db hub \<Rightarrow> 'db served" where
  "serve_dev_remove sq r h = do {
     (ret, db) \<leftarrow> RemoveDevFromStaticTable sq (r_mac r) (r_name r) (dev_db h);
     evs \<leftarrow> (if ret then map_option (\<lambda>e. [Started e]) (send_broadcast (who r) ACTION_DEV_REMOVE (r_name r)) else Some []);
     answered (h\<lparr>dev_db := db\<rparr>) (evs @ response_client ret)
   }"

definition serve_dev_edit :: "'db sqlite \<Rightarrow> request \<Rightarrow> 'db hub \<Rightarrow> 'db served" where
  "serve_dev_edit sq r h =
     (case (split_name (r_name r), r_param1 r) of
        (Some (name, unicode), Some oldname) \<Rightarrow> do {
          (ret, db) \<leftarrow> UpdateDevDisplayName sq (r_mac r) oldname name unicode (dev_db h);
          evs \<leftarrow> (if ret then map_option (\<lambda>e. [Started e]) (send_broadcast (who r) ACTION_DEV_EDIT name) else Some []);
          answered (h\<lparr>dev_db := db\<rparr>) (evs @ response_client ret)
        }
      | _ \<Rightarrow> answered h [Closed])"

definition serve_dev_lists :: "'db sqlite \<Rightarrow> USER_ACTION \<Rightarrow> request \<Rightarrow> 'db hub \<Rightarrow> 'db served" where
  "serve_dev_lists sq a r h =
     (case a of
        ACTION_DEV_ADD_GROUP \<Rightarrow> do {
          (ret, db) \<leftarrow> AddDevGroupName sq (r_group r) (dev_db h);
          answered (h\<lparr>dev_db := db\<rparr>) (response_client ret)
        }
      | ACTION_GET_DEV_LIST \<Rightarrow> do {
          (s, db) \<leftarrow> GetDeviceList sq (g_dev_list h) (dev_db h);
          answered (h\<lparr>dev_db := db, g_dev_list := s\<rparr>) [Reply s, Closed]
        }
      | ACTION_GET_ALL_GROUP_NAME \<Rightarrow> do {
          (s, db) \<leftarrow> GetAllGroupName sq (g_group_name h) (dev_db h);
          answered (h\<lparr>dev_db := db, g_group_name := s\<rparr>) [Reply s, Closed]
        }
      | _ \<Rightarrow> do {
          (ret, db) \<leftarrow> UpdateDevGroupName sq (r_mac r) (r_name r) (r_group r) (dev_db h);
          answered (h\<lparr>dev_db := db\<rparr>) (response_client ret)
        })"

subsection \<open>Switches and text messages\<close>

definition serve_dev_control ::
  "'db sqlite \<Rightarrow> (bytes \<Rightarrow> int) \<Rightarrow> poll_env \<Rightarrow> net_env \<Rightarrow> request \<Rightarrow> 'db hub \<Rightarrow> 'db served" where
  "serve_dev_control sq wr env ne r h =
     (if is_uart_ok ne
      then do {
        t \<leftarrow> r_type r; n \<leftarrow> r_param1 r;
        (res, db) \<leftarrow> ForwardControlToUart sq wr env (r_mac r) (r_name r) (atoi t) (to_uchar (atoi (r_cmd r))) (to_uchar (atoi n)) (uart_q h) (dev_db h);
        (case res of
           Waiting \<Rightarrow> Some (Waiting, h\<lparr>dev_db := db\<rparr>)
         | Returned (f, ret, q) \<Rightarrow> answered (h\<lparr>dev_db := db, uart_q := q\<rparr>) (wrote f @ response_client ret))
      }
      else answered h (response_client False))"

definition serve_sw_get_state ::
  "'db sqlite \<Rightarrow> (bytes \<Rightarrow> int) \<Rightarrow> poll_env \<Rightarrow> request \<Rightarrow> 'db hub \<Rightarrow> 'db served" where
  "serve_sw_get_state sq wr env r h = do {
     n \<leftarrow> r_param1 r;
     (res, db) \<leftarrow> SWGetCurrentState sq wr env (r_mac r) (r_name r) (to_uchar (atoi n)) (uart_q h) (dev_db h);
     (case res of
        Waiting \<Rightarrow> Some (Waiting, h\<lparr>dev_db := db\<rparr>)
      | Returned (f, state, q) \<Rightarrow>
          answered (h\<lparr>dev_db := db, uart_q := q\<rparr>) (wrote f @ [Reply (dec (int (unat (cmd_code state)))), Closed]))
   }"

definition serve_send_msg :: "net_env \<Rightarrow> request \<Rightarrow> 'db hub \<Rightarrow> 'db served" where
  "serve_send_msg ne r h =
     (if is_sms_ok ne
      then do {
        (ret, frames) \<leftarrow> sms_send_to_user (Some (r_mac r)) (Some (r_name r));
        answered h (To_modem frames # response_client ret)
      }
      else answered h (response_client False))"

subsection \<open>The alarm list and the cities\<close>

definition serve_alarm :: "'db sqlite \<Rightarrow> USER_ACTION \<Rightarrow> request \<Rightarrow> 'db hub \<Rightarrow> 'db served" where
  "serve_alarm sq a r h = do {
     t \<leftarrow> r_type r;
     (ret, db) \<leftarrow>
       (case a of
          ACTION_ALARM_ADD \<Rightarrow> AddAlarmItem sq (atoi t) (r_mac r) (user_db h)
        | ACTION_ALARM_LOCK \<Rightarrow> ChangeAlarmItemToState sq ALARM_LOCK (atoi t) (r_mac r) (user_db h)
        | ACTION_ALARM_UNLOCK \<Rightarrow> ChangeAlarmItemToState sq ALARM_UNLOCK (atoi t) (r_mac r) (user_db h)
        | _ \<Rightarrow> DeleteFromAlarmTable sq (atoi t) (r_mac r) (user_db h));
     answered (h\<lparr>user_db := db\<rparr>) (response_client ret)
   }"

definition serve_alarm_list :: "'db sqlite \<Rightarrow> 'db hub \<Rightarrow> 'db served" where
  "serve_alarm_list sq h = do {
     (s, db) \<leftarrow> GetAlarmAllList sq (g_alarm_alllist h) (user_db h);
     answered (h\<lparr>user_db := db, g_alarm_alllist := s\<rparr>) [Reply s, Closed]
   }"

definition serve_city :: "'db sqlite \<Rightarrow> request \<Rightarrow> 'db hub \<Rightarrow> 'db served" where
  "serve_city sq r h = do {
     (c, db) \<leftarrow> GetCityIDByName sq (r_name r) (city_db h);
     answered (h\<lparr>city_db := db\<rparr>) [Reply (case c of Some cityid \<Rightarrow> cityid | None \<Rightarrow> SOCKET_RESPONSE_NO), Closed]
   }"

subsection \<open>The family group\<close>

definition serve_set_group :: "net_env \<Rightarrow> request \<Rightarrow> 'db hub \<Rightarrow> 'db served" where
  "serve_set_group ne r h = do {
     i \<leftarrow> fits 512 (r_mac r); n \<leftarrow> fits 512 (r_name r);
     (ret, f) \<leftarrow> SetFamilyGroupInfo (can_append ne) \<lparr>group_id = i, group_name = n\<rparr> (group_file h);
     answered (h\<lparr>group_file := f\<rparr>) (response_client ret)
   }"

text \<open>Only as many bytes of the structure are cleared as a pointer has.\<close>

definition serve_get_group :: "net_env \<Rightarrow> 'db hub \<Rightarrow> 'db served" where
  "serve_get_group ne h =
     (let group_info = (group_stack ne)\<lparr>group_id := replicate 4 NUL @ drop 4 (group_id (group_stack ne))\<rparr> in
      do {
        (ret, g) \<leftarrow> GetFamilyGroupInfo group_info (group_file h);
        (if ret
         then do {
           buf \<leftarrow> fits 1024 (c_str (group_id g) @ '','' @ c_str (group_name g) @ '','');
           answered h [Reply buf, Closed]
         }
         else answered h [Reply ''_FAIL_'', Closed])
      })"

subsection \<open>Timer tasks\<close>

text \<open>The task of a request; the fields that \<open>AddOneTimerTask\<close> does not use are not set.\<close>

definition request_task :: "request \<Rightarrow> timertask_item_t option" where
  "request_task r = do {
     mac \<leftarrow> fits 30 (r_mac r); name \<leftarrow> fits 50 (r_name r);
     time \<leftarrow> r_param1 r \<bind> fits 20; t \<leftarrow> r_type r; l \<leftarrow> r_param2 r;
     Some \<lparr>task_id = 0, task_mac = mac, task_name = name, period = to_uchar (atoi t), happen_time = time,
           action = to_uchar (atoi (r_cmd r)), tipinfo = word_of_int (atoi (r_group r)), howlong = word_of_int (atoi l),
           devnumber = 0, create_time = []\<rparr>
   }"

text \<open>The task that turns the switch back.\<close>

definition turn_back :: "int \<Rightarrow> timertask_item_t \<Rightarrow> timertask_item_t option" where
  "turn_back tz item = do {
     time \<leftarrow> TimeAdd tz (happen_time item) (sint (howlong item div 100)) (sint (howlong item mod 100));
     Some (item\<lparr>happen_time := time,
       action := (if action item = cmd_code CMD_SW_OPEN then cmd_code CMD_SW_CLOSE else cmd_code CMD_SW_OPEN), howlong := 0\<rparr>)
   }"

definition serve_add_timertask :: "'db sqlite \<Rightarrow> net_env \<Rightarrow> request \<Rightarrow> 'db hub \<Rightarrow> 'db served" where
  "serve_add_timertask sq ne r h = do {
     item \<leftarrow> request_task r;
     (ret, db) \<leftarrow> AddOneTimerTask sq (time_zone ne) (clock ne) item (dev_db h);
     (if ret \<and> 0 < howlong item
      then do {
        item \<leftarrow> turn_back (time_zone ne) item;
        (ret, db) \<leftarrow> AddOneTimerTask sq (time_zone ne) (clock ne) item db;
        answered (h\<lparr>dev_db := db\<rparr>) (response_client ret)
      }
      else answered (h\<lparr>dev_db := db\<rparr>) (response_client ret))
   }"

definition serve_delete_timertask :: "'db sqlite \<Rightarrow> 'db hub \<Rightarrow> 'db served" where
  "serve_delete_timertask sq h =
     (let timertask_id = 0 in
      do {
        (ret, db) \<leftarrow> DeleteOneTimerTaskByID sq timertask_id (dev_db h);
        answered (h\<lparr>dev_db := db\<rparr>) (response_client ret)
      })"

definition serve_timertask_info :: "'db sqlite \<Rightarrow> 'db hub \<Rightarrow> 'db served" where
  "serve_timertask_info sq h = do {
     (s, db) \<leftarrow> GetAllTimerTaskInfo sq (g_timertask_info h) (dev_db h);
     answered (h\<lparr>dev_db := db, g_timertask_info := s\<rparr>) [Reply s, Closed]
   }"

subsection \<open>The thread of a connection\<close>

definition serve ::
  "'db sqlite \<Rightarrow> (bytes \<Rightarrow> int) \<Rightarrow> poll_env \<Rightarrow> net_env \<Rightarrow> request \<Rightarrow> 'db hub \<Rightarrow> 'db served" where
  "serve sq wr env ne r h =
     (case action_of (atoi (user_action r)) of
        None \<Rightarrow> answered h [Closed]
      | Some a \<Rightarrow>
          (case a of
             ACTION_DEV_ADD \<Rightarrow> serve_dev_add sq r h
           | ACTION_DEV_REMOVE \<Rightarrow> serve_dev_remove sq r h
           | ACTION_DEV_ADD_GROUP \<Rightarrow> serve_dev_lists sq a r h
           | ACTION_DEV_EDIT \<Rightarrow> serve_dev_edit sq r h
           | ACTION_GET_ALARM_LIST \<Rightarrow> serve_alarm_list sq h
           | ACTION_GET_DEV_LIST \<Rightarrow> serve_dev_lists sq a r h
           | ACTION_GET_CITY_ID \<Rightarrow> serve_city sq r h
           | ACTION_DEV_CONTROL \<Rightarrow> serve_dev_control sq wr env ne r h
           | ACTION_SEND_MSG \<Rightarrow> serve_send_msg ne r h
           | ACTION_ALARM_ADD \<Rightarrow> serve_alarm sq a r h
           | ACTION_ALARM_LOCK \<Rightarrow> serve_alarm sq a r h
           | ACTION_ALARM_UNLOCK \<Rightarrow> serve_alarm sq a r h
           | ACTION_ALARM_DELETE \<Rightarrow> serve_alarm sq a r h
           | ACTION_GET_ALL_GROUP_NAME \<Rightarrow> serve_dev_lists sq a r h
           | ACTION_UPDATE_DEV_GROUP \<Rightarrow> serve_dev_lists sq a r h
           | ACTION_SET_GROUP_ID \<Rightarrow> serve_set_group ne r h
           | ACTION_GET_GROUP_ID \<Rightarrow> serve_get_group ne h
           | ACTION_ADD_TIMERTASK \<Rightarrow> serve_add_timertask sq ne r h
           | ACTION_DELETE_TIMERTASK \<Rightarrow> serve_delete_timertask sq h
           | ACTION_GET_TIMERTASK_INFO \<Rightarrow> serve_timertask_info sq h
           | ACTION_SW_GET_STATE \<Rightarrow> serve_sw_get_state sq wr env r h
           | _ \<Rightarrow> answered h [Closed]))"

text \<open>What was read: \<^term>\<open>None\<close> if \<open>read\<close> failed, nothing if the client sent nothing within five seconds. The buffer
  has 512 bytes, with no room for a terminator behind a request of that length. A request that is not JSON leaves the
  connection open.\<close>

definition client_thread ::
  "'j cjson \<Rightarrow> 'db sqlite \<Rightarrow> (bytes \<Rightarrow> int) \<Rightarrow> poll_env \<Rightarrow> net_env \<Rightarrow> string option \<Rightarrow> 'db hub \<Rightarrow> 'db served" where
  "client_thread js sq wr env ne received h =
     (case received of
        None \<Rightarrow> answered h [Closed]
      | Some s \<Rightarrow>
          (let buffer = c_array 512 s in
           do {
             led \<leftarrow> led_flash LED_FOR_NETWORK 1 3;
             _ \<leftarrow> strlen buffer;
             (case cJSON_Parse js (c_str buffer) of
                None \<Rightarrow> answered h [Started led]
              | Some root \<Rightarrow> do {
                  rq \<leftarrow> read_request js root;
                  (res, h) \<leftarrow> (case rq of
                     None \<Rightarrow> answered h [Closed]
                   | Some r \<Rightarrow> serve sq wr env ne r h);
                  Some (case res of Waiting \<Rightarrow> Waiting | Returned evs \<Rightarrow> Returned (Started led # evs), h)
                })
           }))"

end
