(* ===== verification/Socket_Service.thy ===== *)
theory Socket_Service
  imports Socketd Timer_Tables Uart_Link
begin

text \<open>
  Requests of the app end to end: what reaches the switches, which tasks the timer has afterwards, and how a connection
  ends.
\<close>

subsection \<open>A connection\<close>

fun is_reply :: "net_event \<Rightarrow> bool" where
  "is_reply (Reply _) = True"
| "is_reply _ = False"

definition ends_once :: "net_event list \<Rightarrow> bool" where
  "ends_once evs \<longleftrightarrow> (\<exists>es. evs = es @ [Closed] \<and> Closed \<notin> set es \<and> length (filter is_reply es) \<le> 1)"

lemma ends_once_simps [simp]:
  "ends_once [Closed]" "ends_once [Reply s, Closed]" "ends_once [e, Closed] \<longleftrightarrow> e \<noteq> Closed"
  "ends_once (response_client b)" "ends_once (To_uart f # response_client b)" "ends_once (To_modem fs # response_client b)"
  "ends_once [To_uart f, Reply s, Closed]"
  by (cases e; auto simp: ends_once_def response_client_def Cons_eq_append_conv append_eq_Cons_conv)+

lemma ends_once_Started [simp]: "ends_once (Started e # evs) \<longleftrightarrow> ends_once evs"
proof -
  have "Started e # evs = es @ [Closed] \<longleftrightarrow> (\<exists>es'. es = Started e # es' \<and> evs = es' @ [Closed])" for es by (cases es) auto
  then show ?thesis by (auto simp: ends_once_def)
qed

lemma ends_once_broadcast [simp]: "ends_once [Reply s, Started e, Closed]"
  by (simp add: ends_once_def append_eq_Cons_conv Cons_eq_append_conv)

lemma served_add: "serve_dev_add sq r h = Some (Returned evs, h') \<Longrightarrow> ends_once evs"
  by (auto simp: serve_dev_add_def bind_eq_Some_conv split: option.splits if_splits)

lemma served_remove: "serve_dev_remove sq r h = Some (Returned evs, h') \<Longrightarrow> ends_once evs"
  by (auto simp: serve_dev_remove_def bind_eq_Some_conv split: if_splits)

lemma served_edit: "serve_dev_edit sq r h = Some (Returned evs, h') \<Longrightarrow> ends_once evs"
  by (auto simp: serve_dev_edit_def bind_eq_Some_conv split: option.splits if_splits)

lemma served_lists: "serve_dev_lists sq a r h = Some (Returned evs, h') \<Longrightarrow> ends_once evs"
  by (cases a) (auto simp: serve_dev_lists_def bind_eq_Some_conv)

lemma ends_once_wrote [simp]: "ends_once (wrote f @ response_client b)" "ends_once (wrote f @ [Reply s, Closed])"
  by simp_all

lemma waited_answered [simp]:
  "(case r of Waiting \<Rightarrow> Some (Waiting, h1) | Returned x \<Rightarrow> k x) = Some (Returned evs, h') \<longleftrightarrow>
   (\<exists>x. r = Returned x \<and> k x = Some (Returned evs, h'))"
  by (cases r) auto

lemma served_switch: "serve_dev_control sq wr env ne r h = Some (Returned evs, h') \<Longrightarrow> ends_once evs"
  by (cases "is_uart_ok ne") (auto simp: serve_dev_control_def bind_eq_Some_conv)

lemma served_state: "serve_sw_get_state sq wr env r h = Some (Returned evs, h') \<Longrightarrow> ends_once evs"
  by (auto simp: serve_sw_get_state_def bind_eq_Some_conv)

lemma served_message: "serve_send_msg ne r h = Some (Returned evs, h') \<Longrightarrow> ends_once evs"
  by (auto simp: serve_send_msg_def bind_eq_Some_conv split: if_splits)

lemma served_alarm: "serve_alarm sq a r h = Some (Returned evs, h') \<Longrightarrow> ends_once evs"
  by (cases a) (auto simp: serve_alarm_def bind_eq_Some_conv)

lemma served_texts:
  "serve_alarm_list sq h = Some (Returned evs, h') \<Longrightarrow> ends_once evs"
  "serve_city sq r h = Some (Returned evs, h') \<Longrightarrow> ends_once evs"
  "serve_set_group ne r h = Some (Returned evs, h') \<Longrightarrow> ends_once evs"
  "serve_delete_timertask sq h = Some (Returned evs, h') \<Longrightarrow> ends_once evs"
  "serve_timertask_info sq h = Some (Returned evs, h') \<Longrightarrow> ends_once evs"
  by (auto simp: serve_alarm_list_def serve_city_def serve_set_group_def serve_delete_timertask_def serve_timertask_info_def
      bind_eq_Some_conv)

lemma served_get_group: "serve_get_group ne h = Some (Returned evs, h') \<Longrightarrow> ends_once evs"
  by (auto simp: serve_get_group_def bind_eq_Some_conv split: if_splits)

lemma served_task: "serve_add_timertask sq ne r h = Some (Returned evs, h') \<Longrightarrow> ends_once evs"
  by (auto simp: serve_add_timertask_def bind_eq_Some_conv split: if_splits)

lemmas served = served_add served_remove served_edit served_lists served_switch served_state served_message served_alarm served_texts served_get_group served_task

lemma serve_ends: "serve sq wr env ne r h = Some (Returned evs, h') \<Longrightarrow> ends_once evs"
proof -
  assume s: "serve sq wr env ne r h = Some (Returned evs, h')"
  show ?thesis
  proof (cases "action_of (atoi (user_action r))")
    case None
    then show ?thesis using s by (auto simp: serve_def)
  next
    case (Some a)
    show ?thesis using s by (cases a) (auto simp: serve_def Some dest: served)
  qed
qed

lemma prefixed_Returned [simp]:
  "(case r of Waiting \<Rightarrow> Waiting | Returned evs \<Rightarrow> Returned (e # evs)) = Returned ys \<longleftrightarrow> (\<exists>zs. r = Returned zs \<and> ys = e # zs)"
  by (cases r) auto

text \<open>
  C30: a connection that is served to its end gets at most one answer and is closed exactly once, behind it, whatever the
  request is. Only a request that is not JSON leaves the connection open, and nothing is done then.
\<close>

theorem net_connection:
  assumes "client_thread js sq wr env ne received h = Some (Returned evs, h')"
  shows "if \<exists>s. received = Some s \<and> cJSON_Parse js (c_str (c_array 512 s)) = None then (\<exists>led. evs = [Started led]) \<and> h' = h
    else ends_once evs"
  using assms serve_ends
  by (auto simp: client_thread_def Let_def bind_eq_Some_conv split: option.splits)

text \<open>A library that knows one request, for concrete connections.\<close>

definition one_request :: "string list \<Rightarrow> (string \<times> string) list cjson" where
  "one_request vs =
     \<lparr>cJSON_Parse = (\<lambda>s. if s = ''{}'' then Some (zip (map (\<lambda>c. ''param'' @ [c]) ''012345678'') vs) else None),
      cJSON_GetObjectItem = (\<lambda>ob k. map_option (\<lambda>v. [(k, v)]) (map_of ob k)),
      valuestring = (\<lambda>ob. case ob of [] \<Rightarrow> None | p # _ \<Rightarrow> Some (snd p))\<rparr>"

lemma one_request_reads:
  "cJSON_Parse (one_request vs) ''{}'' = Some (zip (map (\<lambda>c. ''param'' @ [c]) ''012345678'') vs)"
  "read_request (one_request [w, ua, mac, name, ty, cmd, gr, p1, p2])
     (zip (map (\<lambda>c. ''param'' @ [c]) ''012345678'') [w, ua, mac, name, ty, cmd, gr, p1, p2]) =
   Some (Some \<lparr>who = w, user_action = ua, r_mac = mac, r_name = name, r_type = Some ty, r_cmd = cmd, r_group = gr,
     r_param1 = Some p1, r_param2 = Some p2\<rparr>)"
  by (simp_all add: one_request_def read_request_def)

definition quiet_env :: net_env where
  "quiet_env = \<lparr>is_sms_ok = False, is_uart_ok = True, can_append = True, clock = 1456668000, time_zone = 28800,
     group_stack = \<lparr>group_id = replicate 512 NUL, group_name = replicate 512 NUL\<rparr>\<rparr>"

definition lamp_hub :: "tables hub" where
  "lamp_hub = \<lparr>dev_db = lamp_tables, user_db = Map.empty, city_db = Map.empty, group_file = None, uart_q = uart_data_quene_init idle_slots,
     g_dev_list = [], g_group_name = [], g_alarm_alllist = [], g_timertask_info = []\<rparr>"

text \<open>A request that is read reaches its handler.\<close>

abbreviation net_led :: effect where
  "net_led \<equiv> System ''led_flash 1 1 3&''"

lemma net_led: "led_flash LED_FOR_NETWORK 1 3 = Some net_led"
  by code_simp

lemma client_serves:
  assumes "cJSON_Parse js s = Some root" "read_request js root = Some (Some r)" "NUL \<notin> set s" "length s < 512"
  shows "client_thread js sq wr env ne (Some s) h =
    map_option (\<lambda>(res, h). (case res of Waiting \<Rightarrow> Waiting | Returned evs \<Rightarrow> Returned (Started net_led # evs), h)) (serve sq wr env ne r h)"
proof -
  have buf: "c_array 512 s = s @ NUL # replicate (511 - length s) NUL"
    using store_memory [OF assms(4)] by (simp add: store_def assms(4))
  show ?thesis
    unfolding client_thread_def net_led
    by (simp add: buf assms(1-3) Let_def map_option_case case_prod_unfold bind_eq_Some_conv split: option.split)
qed

lemma net_connection_witness:
  "if \<exists>s. Some ''{}'' = Some s \<and> cJSON_Parse (one_request [''app'', ''5'', ''13800000001'', ''4F60'', ''0'', ''0'', ''0'', ''0'', ''0'']) (c_str (c_array 512 s)) = None
   then (\<exists>led. [Started net_led, Reply ''NO'', Closed] = [Started led]) \<and> lamp_hub = lamp_hub
   else ends_once [Started net_led, Reply ''NO'', Closed]"
proof (rule net_connection)
  have "action_of (atoi ''5'') = Some ACTION_SEND_MSG" by code_simp
  then show "client_thread (one_request [''app'', ''5'', ''13800000001'', ''4F60'', ''0'', ''0'', ''0'', ''0'', ''0'']) table_sqlite (\<lambda>_. 0) (\<lambda>_ q. q)
      quiet_env (Some ''{}'') lamp_hub = Some (Returned [Started net_led, Reply ''NO'', Closed], lamp_hub)"
    by (simp add: client_serves [OF one_request_reads] serve_def serve_send_msg_def quiet_env_def response_client_def SOCKET_RESPONSE_NO_def)
qed

subsection \<open>Switching\<close>

text \<open>
  C4: a request to control a registered switch writes exactly one frame, with the requested command and channel, for the
  network address that the device reported last. The answer is YES when the switch echoes the frame and NO when the frame
  cannot be written; a frame without an echo is never answered.
\<close>

theorem net_switch:
  assumes "cJSON_Parse js s = Some root" "read_request js root = Some (Some r)" "NUL \<notin> set s" "length s < 512"
    "action_of (atoi (user_action r)) = Some ACTION_DEV_CONTROL" "is_uart_ok ne" "r_type r = Some t" "atoi t = 0" "r_param1 r = Some n"
    "dev_file sq tb (dev_db h) v" "view_ok v" "has_device (r_mac r) (r_name r) v" "arg (r_mac r)" "arg (r_name r)"
    "map_of (v_addresses v) (r_mac r) = Some (address_text a)" "env_keeps_queue env" "uart_queue_ok (uart_q h)"
    "f = switch_cmd a (to_uchar (atoi (r_cmd r))) (to_uchar (atoi n))"
  shows "\<exists>res h'. client_thread js sq wr env ne (Some s) h = Some (res, h') \<and> dev_file sq tb (dev_db h') v \<and>
    (if wr f \<noteq> 6 then res = Returned [Started net_led, To_uart f, Reply ''NO'', Closed]
     else if \<exists>j. f \<in> set (pending (queue_at env 0 (uart_q h) j)) then res = Returned [Started net_led, To_uart f, Reply ''YES'', Closed]
     else res = Waiting)"
proof -
  have "length f = 6" by (simp add: assms(18))
  then have "f \<noteq> []" by auto
  obtain res db where
    "ForwardControlToUart sq wr env (r_mac r) (r_name r) 0 (to_uchar (atoi (r_cmd r))) (to_uchar (atoi n)) (uart_q h) (dev_db h) = Some (res, db)"
    "dev_file sq tb db v"
    "if wr f \<noteq> 6 then res = Returned (f, False, uart_q h)
     else if \<exists>j. f \<in> set (pending (queue_at env 0 (uart_q h) j)) then \<exists>q'. res = Returned (f, True, q') \<and> uart_queue_ok q' else res = Waiting"
    using forward_switch [OF assms(10-17), of wr "to_uchar (atoi (r_cmd r))" "to_uchar (atoi n)"] unfolding assms(18) by blast
  then show ?thesis
    using \<open>f \<noteq> []\<close>
    by (auto simp: client_serves [OF assms(1-4)] serve_def assms(5-9) serve_dev_control_def response_client_def SOCKET_RESPONSE_YES_def
        SOCKET_RESPONSE_NO_def split: if_splits)
qed

lemma net_switch_witness:
  "\<exists>res h'. client_thread (one_request [''app'', ''4'', ''0102'', ''lamp'', ''0'', ''0'', ''0'', ''1'', ''0'']) table_sqlite (\<lambda>b. int (length b)) (\<lambda>_ q. q)
      quiet_env (Some ''{}'') lamp_hub = Some (res, h') \<and> dev_file table_sqlite id (dev_db h') lamp_view \<and>
    (if int (length (switch_cmd (0x0B, 0x0A) 0 1)) \<noteq> 6 then res = Returned [Started net_led, To_uart (switch_cmd (0x0B, 0x0A) 0 1), Reply ''NO'', Closed]
     else if \<exists>j. switch_cmd (0x0B, 0x0A) 0 1 \<in> set (pending (queue_at (\<lambda>_ q. q) 0 (uart_data_quene_init idle_slots) j))
     then res = Returned [Started net_led, To_uart (switch_cmd (0x0B, 0x0A) 0 1), Reply ''YES'', Closed]
     else res = Waiting)"
proof -
  have a: "action_of (atoi ''4'') = Some ACTION_DEV_CONTROL" "atoi ''0'' = 0" "atoi ''1'' = 1"
    "address_text (0x0B, 0x0A) = ''0A0B''" by code_simp+
  have dev: "dev_file table_sqlite id (dev_db lamp_hub) lamp_view" using timer_fileD(2) [OF lamp_file] by (simp add: lamp_hub_def)
  have q: "uart_queue_ok (uart_data_quene_init idle_slots)" by (rule uart_data_quene_init_ok [OF idle_slots_sized])
  have env: "env_keeps_queue (\<lambda>_ q. q)" by (simp add: env_keeps_queue_def)
  have hub_q: "uart_q lamp_hub = uart_data_quene_init idle_slots" by (simp add: lamp_hub_def)
  show ?thesis
    by (rule net_switch [OF one_request_reads(1) one_request_reads(2) _ _ _ _ _ a(2) _ dev lamp_view_ok _ _ _ _ env, where ne = quiet_env and
        a = "(0x0B, 0x0A)" and n = "''1''", unfolded hub_q])
      (use q a in \<open>simp_all add: to_uchar_def quiet_env_def lamp_view_def has_device_def arg_def\<close>)
qed

subsection \<open>Switching for a time\<close>

definition opposite :: "u8 \<Rightarrow> u8" where
  "opposite act = (if act = cmd_code CMD_SW_OPEN then cmd_code CMD_SW_CLOSE else cmd_code CMD_SW_OPEN)"

text \<open>
  C6: a request to switch once at a time, for some hours and minutes, stores exactly two more tasks: the requested one and
  one with the opposite action, for the same device and exactly so much later.
\<close>

theorem net_timer_pair:
  assumes "cJSON_Parse js s = Some root" "read_request js root = Some (Some r)" "NUL \<notin> set s" "length s < 512"
    "action_of (atoi (user_action r)) = Some ACTION_ADD_TIMERTASK" "request_task r = Some item" "item_ok item"
    "happen_time item = time_text t" "0 < howlong item" "unat (howlong item) < 50000000"
    "valid_tm t" "0 \<le> 1900 + tm_year t" "tm_year t < 8100" "\<bar>time_zone ne\<bar> \<le> 86400" "in_time_t (local_seconds t - time_zone ne)"
    "secs = int (unat (howlong item) div 100) * 3600 + int (unat (howlong item) mod 100) * 60"
    "in_time_t (local_seconds t - time_zone ne + secs)"
    "GetCurrentTime (time_zone ne) (clock ne) = Some (now, w)" "timer_file sq tb (dev_db h) v ts k"
  shows "\<exists>t' h'. client_thread js sq wr env ne (Some s) h = Some (Returned [Started net_led, Reply ''YES'', Closed], h') \<and>
    timer_file sq tb (dev_db h') v (ts @ [(k + 1, item, now),
      (k + 2, item\<lparr>happen_time := time_text t', action := opposite (action item), howlong := 0\<rparr>, now)]) (k + 2) \<and>
    valid_tm t' \<and> local_seconds t' = local_seconds t + secs"
proof -
  let ?l = "unat (howlong item)"
  have u: "unat (howlong item div 100) = ?l div 100" "unat (howlong item mod 100) = ?l mod 100"
    by (simp_all add: unat_div unat_mod)
  have n: "sint (howlong item div 100) = int (?l div 100)" "sint (howlong item mod 100) = int (?l mod 100)"
    using sint_small [of "howlong item div 100"] sint_small [of "howlong item mod 100"] assms(10) unfolding u by linarith+
  have hours: "?l div 100 < 500000" using assms(10) by linarith
  obtain t' where t': "TimeAdd (time_zone ne) (time_text t) (int (?l div 100)) (int (?l mod 100)) = Some (time_text t')" "valid_tm t'"
    "local_seconds t' = local_seconds t + secs" "length (time_text t') = 16"
    using time_add_correct [OF assms(11-15), of "int (?l div 100)" "int (?l mod 100)"] hours assms(16,17) by (auto simp: add.assoc)
  let ?opp = "item\<lparr>happen_time := time_text t', action := opposite (action item), howlong := 0\<rparr>"
  have opp: "turn_back (time_zone ne) item = Some ?opp"
    by (simp add: turn_back_def n t'(1) assms(8) opposite_def)
  have ok: "item_ok ?opp" using assms(7) t'(4) by (simp add: item_ok_def arg_def time_text_plain)
  obtain db1 where 1: "AddOneTimerTask sq (time_zone ne) (clock ne) item (dev_db h) = Some (True, db1)"
    "timer_file sq tb db1 v (ts @ [(k + 1, item, now)]) (k + 1)"
    using AddOneTimerTask_adds [OF assms(19,7,18)] by blast
  obtain db2 where 2: "AddOneTimerTask sq (time_zone ne) (clock ne) ?opp db1 = Some (True, db2)"
    "timer_file sq tb db2 v ((ts @ [(k + 1, item, now)]) @ [(k + 1 + 1, ?opp, now)]) (k + 1 + 1)"
    using AddOneTimerTask_adds [OF 1(2) ok assms(18)] by blast
  have "serve sq wr env ne r h = Some (Returned [Reply ''YES'', Closed], h\<lparr>dev_db := db2\<rparr>)"
    by (simp add: serve_def assms(5,6,9) serve_add_timertask_def 1(1) opp 2(1) response_client_def SOCKET_RESPONSE_YES_def)
  then have "client_thread js sq wr env ne (Some s) h = Some (Returned [Started net_led, Reply ''YES'', Closed], h\<lparr>dev_db := db2\<rparr>)"
    by (simp add: client_serves [OF assms(1-4)])
  then show ?thesis using 2(2) t'(2,3) by (intro exI [of _ t'] exI [of _ "h\<lparr>dev_db := db2\<rparr>"]) simp
qed

definition once_item :: timertask_item_t where
  "once_item = \<lparr>task_id = 0, task_mac = ''0102'', task_name = ''lamp'', period = 0, happen_time = ''2016-02-28 23:30'', action = 0,
     tipinfo = 0, howlong = 2545, devnumber = 0, create_time = []\<rparr>"

definition once_time :: tm where
  "once_time = \<lparr>tm_min = 30, tm_hour = 23, tm_mday = 28, tm_mon = 1, tm_year = 116, tm_wday = 0\<rparr>"

lemma net_timer_pair_witness:
  "\<exists>t' h'. client_thread (one_request [''app'', ''19'', ''0102'', ''lamp'', ''0'', ''0'', ''0'', ''2016-02-28 23:30'', ''2545'']) table_sqlite
      (\<lambda>_. 0) (\<lambda>_ q. q) quiet_env (Some ''{}'') lamp_hub = Some (Returned [Started net_led, Reply ''YES'', Closed], h') \<and>
    timer_file table_sqlite id (dev_db h') lamp_view (lamp_tasks @ [(1 + 1, once_item, ''2016-02-28 22:00''),
        (1 + 2, once_item\<lparr>happen_time := time_text t', action := opposite (action once_item), howlong := 0\<rparr>, ''2016-02-28 22:00'')]) (1 + 2) \<and>
    valid_tm t' \<and> local_seconds t' = local_seconds once_time + (25 * 3600 + 45 * 60)"
proof -
  let ?r = "\<lparr>who = ''app'', user_action = ''19'', r_mac = ''0102'', r_name = ''lamp'', r_type = Some ''0'', r_cmd = ''0'', r_group = ''0'',
     r_param1 = Some ''2016-02-28 23:30'', r_param2 = Some ''2545''\<rparr> :: request"
  have t: "happen_time once_item = time_text once_time" "valid_tm once_time" "in_time_t (local_seconds once_time - 28800)"
    "in_time_t (local_seconds once_time - 28800 + (25 * 3600 + 45 * 60))" "action_of (atoi ''19'') = Some ACTION_ADD_TIMERTASK"
    "request_task ?r = Some once_item" "0 < howlong once_item" "unat (howlong once_item) = 2545" by code_simp+
  have y: "0 \<le> 1900 + tm_year once_time" "tm_year once_time < 8100" by (simp_all add: once_time_def)
  have hub: "timer_file table_sqlite id (dev_db lamp_hub) lamp_view lamp_tasks 1" using lamp_file by (simp add: lamp_hub_def)
  have item: "item_ok once_item" by (simp add: item_ok_def arg_def once_item_def)
  have env: "time_zone quiet_env = 28800" "GetCurrentTime (time_zone quiet_env) (clock quiet_env) = Some (''2016-02-28 22:00'', 7)"
    by code_simp+
  show ?thesis
    by (rule net_timer_pair [OF one_request_reads(1) one_request_reads(2) _ _ _ t(6) item t(1) t(7) _ t(2) y])
      (use t(3-5) hub env in \<open>simp_all add: t(8)\<close>)
qed

text \<open>
  C31: no timer task can be deleted by a request. The handler ignores which task is meant and deletes the task with the
  number 0; tasks are numbered from 1, so every task is kept, and the app is told that it was deleted.
\<close>

theorem net_delete_task:
  assumes "cJSON_Parse js s = Some root" "read_request js root = Some (Some r)" "NUL \<notin> set s" "length s < 512"
    "action_of (atoi (user_action r)) = Some ACTION_DELETE_TIMERTASK" "timer_file sq tb (dev_db h) v ts k" "\<forall>t\<in>set ts. task_ok t"
    "\<forall>t\<in>set ts. 0 < fst t"
  shows "\<exists>h'. client_thread js sq wr env ne (Some s) h = Some (Returned [Started net_led, Reply ''YES'', Closed], h') \<and>
    timer_file sq tb (dev_db h') v ts k"
proof -
  have "filter (\<lambda>t. fst t \<noteq> 0) ts = ts" using assms(8) by (auto simp: filter_id_conv)
  then obtain db where db: "DeleteOneTimerTaskByID sq 0 (dev_db h) = Some (True, db)" "timer_file sq tb db v ts k"
    using DeleteOneTimerTaskByID_deletes [OF assms(6,7), of 0] by auto
  then have "serve sq wr env ne r h = Some (Returned [Reply ''YES'', Closed], h\<lparr>dev_db := db\<rparr>)"
    by (simp add: serve_def assms(5) serve_delete_timertask_def response_client_def SOCKET_RESPONSE_YES_def)
  then show ?thesis using db(2) by (simp add: client_serves [OF assms(1-4)])
qed

lemma net_delete_task_witness:
  "\<exists>h'. client_thread (one_request [''app'', ''20'', ''1'', ''1'', ''1'', ''1'', ''1'', ''1'', ''1'']) table_sqlite (\<lambda>_. 0) (\<lambda>_ q. q)
      quiet_env (Some ''{}'') lamp_hub = Some (Returned [Started net_led, Reply ''YES'', Closed], h') \<and>
    timer_file table_sqlite id (dev_db h') lamp_view lamp_tasks 1"
proof -
  have a: "action_of (atoi ''20'') = Some ACTION_DELETE_TIMERTASK" by code_simp
  have hub: "timer_file table_sqlite id (dev_db lamp_hub) lamp_view lamp_tasks 1" using lamp_file by (simp add: lamp_hub_def)
  show ?thesis
    by (rule net_delete_task [OF one_request_reads(1) one_request_reads(2) _ _ _ hub lamp_tasks_ok])
      (simp_all add: a lamp_tasks_def)
qed

end
