(* ===== verification/Mail.thy ===== *)
theory Mail
  imports Base64 Sms_Control Alarm_List
begin

text \<open>
  Mails about alarms (\<open>SendMail\<close> and its helpers in \<open>src/src/dev_manage/mail.c\<close>, \<open>mail_common.c\<close>): the dialogue with a
  mail server, line by line, and the thread that sends an alarm to all open addresses of the alarm list. The sockets are a
  parameter. The answers of the server are only printed, so that of what \<open>recv\<close> returns the number of bytes is modelled.
\<close>

subsection \<open>The sockets\<close>

text \<open>A host: the family of its addresses and the first of them as text.\<close>

record hostent =
  h_addrtype :: int
  h_addr :: string

record 's sockets =
  gethostbyname :: "string \<Rightarrow> 's \<Rightarrow> hostent option \<times> 's"
  socket :: "'s \<Rightarrow> int \<times> 's"
  setsockopt :: "int \<Rightarrow> 's \<Rightarrow> int \<times> 's"
  connect :: "int \<Rightarrow> string \<Rightarrow> int \<Rightarrow> 's \<Rightarrow> int \<times> 's"
  send :: "int \<Rightarrow> string \<Rightarrow> 's \<Rightarrow> 's"
  recv :: "int \<Rightarrow> 's \<Rightarrow> int \<times> 's"
  close :: "int \<Rightarrow> 's \<Rightarrow> 's"
  sleep :: "nat \<Rightarrow> 's \<Rightarrow> 's"

definition AF_INET :: int where "AF_INET = 2"
definition AF_INET6 :: int where "AF_INET6 = 10"

record MAIL_SERVER =
  name :: string
  port :: int
  username :: string
  password :: string

datatype MAIL_SERVER_ITEM = SERVER_QQ | SERVER_126 | SERVER_SOHU

subsection \<open>The dialogue\<close>

text \<open>\<open>inet_ntop\<close> returns no string when the address does not fit its array of 20 characters.\<close>

definition GetIPByDomainName :: "'s sockets \<Rightarrow> string \<Rightarrow> 's \<Rightarrow> (string option \<times> 's) option" where
  "GetIPByDomainName net domainName s =
     do {
       name \<leftarrow> fits 50 domainName;
       let (hptr, s) = gethostbyname net name s;
       case hptr of
         None \<Rightarrow> Some (None, s)
       | Some h \<Rightarrow>
           if h_addrtype h = AF_INET \<or> h_addrtype h = AF_INET6
           then map_option (\<lambda>ip. (Some ip, s)) (fits 20 (h_addr h))
           else Some (None, s)
     }"

definition open_socket :: "'s sockets \<Rightarrow> string \<Rightarrow> int \<Rightarrow> 's \<Rightarrow> int \<times> 's" where
  "open_socket net ip p s =
     (let (sockfd, s) = socket net s in
      if sockfd < 0 then (- 1, s)
      else
        (let (r, s) = setsockopt net sockfd s in
         if r = - 1 then (- 1, s)
         else (let (r, s) = connect net sockfd ip p s in if r < 0 then (- 1, close net sockfd s) else (sockfd, s))))"

text \<open>The wait for the greeting: as long as the server closes the connection without one, a new connection is made. The
  new socket is not checked.\<close>

partial_function (option) greeting :: "'s sockets \<Rightarrow> string \<Rightarrow> int \<Rightarrow> int \<Rightarrow> 's \<Rightarrow> (int \<times> 's) option" where
  "greeting net ip p sockfd s =
     (let (n, s) = recv net sockfd s in
      if n = 0 then (let (sockfd, s) = open_socket net ip p (close net sockfd (sleep net 2 s)) in greeting net ip p sockfd s)
      else Some (sockfd, s))"

text \<open>The part before the dialogue; no socket when the mail cannot be sent.\<close>

definition mail_connect :: "'s sockets \<Rightarrow> MAIL_SERVER \<Rightarrow> 's \<Rightarrow> (int option \<times> 's) option" where
  "mail_connect net server s =
     do {
       (ip, s) \<leftarrow> GetIPByDomainName net (name server) s;
       case ip of
         None \<Rightarrow> Some (None, s)
       | Some ip \<Rightarrow>
           (let (sockfd, s) = open_socket net ip (port server) s in
            if sockfd < 0 then Some (None, s)
            else map_option (\<lambda>(sockfd, s). (Some sockfd, s)) (greeting net ip (port server) sockfd s))
     }"

text \<open>A line is written to an array of 1500 bytes and sent, and the answer is awaited.\<close>

definition exchange :: "'s sockets \<Rightarrow> int \<Rightarrow> string \<Rightarrow> 's \<Rightarrow> 's" where
  "exchange net sockfd buf s = snd (recv net sockfd (send net sockfd buf s))"

definition say :: "'s sockets \<Rightarrow> int \<Rightarrow> string \<Rightarrow> 's \<Rightarrow> 's option" where
  "say net sockfd text s = map_option (\<lambda>buf. exchange net sockfd buf s) (fits 1500 text)"

text \<open>User and password are the format of a \<open>sprintf\<close> without further arguments. The encoded text must leave a zero in its
  array.\<close>

definition login_text :: "string \<Rightarrow> string option" where
  "login_text fmt =
     do {
       buf \<leftarrow> (if CHR ''%'' \<in> set fmt then None else fits 1500 fmt);
       dbuf \<leftarrow> base64 (replicate 128 0) (map of_char buf) (length buf);
       (if (0 :: u8) \<in> set dbuf then Some (map (\<lambda>x. char_of (unat x)) (takeWhile (\<lambda>x. x \<noteq> 0) dbuf)) else None)
     }"

function recipients :: "'s sockets \<Rightarrow> int \<Rightarrow> string \<Rightarrow> 's \<Rightarrow> 's option" where
  "recipients net sockfd userlist s =
     (case strtok CHR '','' userlist of
        None \<Rightarrow> Some s
      | Some (userto, rest) \<Rightarrow>
          do { s \<leftarrow> say net sockfd (''RCPT TO: <'' @ userto @ ''>'' @ CRLF) s; recipients net sockfd rest s })"
  by pat_completeness auto
termination
  by (relation "measure (\<lambda>(net, sockfd, userlist, s). length userlist)") (auto dest: strtok_shorter)

declare recipients.simps [simp del]

definition SendMail :: "'s sockets \<Rightarrow> MAIL_SERVER \<Rightarrow> string \<Rightarrow> string \<Rightarrow> 's \<Rightarrow> (bool \<times> 's) option" where
  "SendMail net server to body s =
     do {
       (c, s) \<leftarrow> mail_connect net server s;
       case c of
         None \<Rightarrow> Some (False, s)
       | Some sockfd \<Rightarrow>
           do {
             s \<leftarrow> say net sockfd (''EHLO licp'' @ CRLF) s;
             s \<leftarrow> say net sockfd (''AUTH LOGIN'' @ CRLF) s;
             login \<leftarrow> login_text (username server);
             s \<leftarrow> say net sockfd (login @ CRLF) s;
             pass \<leftarrow> login_text (password server);
             s \<leftarrow> say net sockfd (pass @ CRLF) s;
             s \<leftarrow> say net sockfd (''MAIL FROM: <'' @ username server @ ''>'' @ CRLF) s;
             userlist \<leftarrow> fits 1024 to;
             s \<leftarrow> recipients net sockfd userlist s;
             s \<leftarrow> say net sockfd (''DATA'' @ CRLF) s;
             s \<leftarrow> say net sockfd (body @ CRLF @ ''.'' @ CRLF) s;
             s \<leftarrow> say net sockfd (''QUIT'' @ CRLF) s;
             Some (True, close net sockfd s)
           }
     }"

subsection \<open>The thread\<close>

text \<open>The text of the mail is a variable of the program, which the next alarm overwrites; the thread reads what it holds. The
  accounts in \<open>mail_server_list\<close> are a parameter. The result is the list of the addresses, the alarm list and the
  sockets.\<close>

definition send_mail_thread ::
  "'s sockets \<Rightarrow> (MAIL_SERVER_ITEM \<Rightarrow> MAIL_SERVER) \<Rightarrow> 'db sqlite \<Rightarrow> string \<Rightarrow> string \<Rightarrow> 'db \<Rightarrow> 's \<Rightarrow> (string \<times> 'db \<times> 's) option" where
  "send_mail_thread net mail_server_list sq body g_email_list u s =
     do {
       (email_list, u) \<leftarrow> GetEmailList sq g_email_list u;
       if email_list = ''_NULL_'' then Some (email_list, u, s)
       else
         do {
           (ip, s) \<leftarrow> GetIPByDomainName net ''www.baidu.com'' s;
           if ip = None then Some (email_list, u, s)
           else
             do {
               (sent, s) \<leftarrow> SendMail net (mail_server_list SERVER_QQ) email_list body s;
               if sent then Some (email_list, u, s)
               else
                 do {
                   (sent, s) \<leftarrow> SendMail net (mail_server_list SERVER_126) email_list body s;
                   if sent then Some (email_list, u, s)
                   else
                     do {
                       (sent, s) \<leftarrow> SendMail net (mail_server_list SERVER_SOHU) email_list body s;
                       Some (email_list, u, s)
                     }
                 }
             }
         }
     }"

subsection \<open>What is sent\<close>

text \<open>The lines of a mail.\<close>

definition base64_text :: "string \<Rightarrow> string" where
  "base64_text t = map (\<lambda>x. char_of (unat x)) (b64_encode (map of_char t))"

definition dialogue :: "MAIL_SERVER \<Rightarrow> string list \<Rightarrow> string \<Rightarrow> string list" where
  "dialogue server vs body =
     map (\<lambda>t. t @ CRLF)
       ([''EHLO licp'', ''AUTH LOGIN'', base64_text (username server), base64_text (password server),
         ''MAIL FROM: <'' @ username server @ ''>''] @
        map (\<lambda>v. ''RCPT TO: <'' @ v @ ''>'') vs @
        [''DATA'', body @ CRLF @ ''.'', ''QUIT''])"

definition deliver :: "'s sockets \<Rightarrow> int \<Rightarrow> string list \<Rightarrow> 's \<Rightarrow> 's" where
  "deliver net sockfd ls s = close net sockfd (fold (exchange net sockfd) ls s)"

lemma say_fits: "length text < 1500 \<Longrightarrow> say net sockfd text s = Some (exchange net sockfd text s)"
  by (simp add: say_def fits_def)

lemma sextets_letters: "set (sextets v) \<subseteq> set alphabet"
proof -
  have "length alphabet = 64" by (simp add: alphabet_def letter_codes_facts)
  then have "alphabet ! (x mod 64) \<in> set alphabet" for x by (intro nth_mem) simp
  then show ?thesis by (auto simp: sextets_def simp del: alphabet_def)
qed

lemma encoded_nonzero: "0 \<notin> set (b64_encode bs)"
proof -
  have "set (b64_encode bs) \<subseteq> insert PAD (set alphabet)"
    using sextets_letters by (induction bs rule: b64_encode.induct) (auto dest: in_set_takeD)
  moreover have "0 \<notin> set alphabet" by code_simp
  ultimately show ?thesis by auto
qed

lemma login_text_run:
  assumes "CHR ''%'' \<notin> set t" "length t \<le> 93"
  shows "login_text t = Some (base64_text t)"
proof -
  define enc where "enc = b64_encode (map of_char t)"
  have n: "length enc < 128" using assms(2) by (simp add: enc_def length_b64_encode)
  then obtain k where k: "replicate (128 - length enc) (0 :: u8) = 0 # k" by (cases "128 - length enc") auto
  have "base64 (replicate 128 0) (map of_char t) (length t) = Some (enc @ 0 # k)"
    using base64_run [of "map of_char t" "replicate 128 0"] assms(2) n k by (simp add: enc_def overwrite_def length_b64_encode)
  moreover have "takeWhile (\<lambda>x. x \<noteq> 0) (enc @ 0 # k) = enc"
    using encoded_nonzero [of "map of_char t"] by (simp add: enc_def takeWhile_append2 takeWhile_append)
  ultimately show ?thesis using assms by (simp add: login_text_def fits_def base64_text_def enc_def)
qed

lemma length_base64_text: "length t \<le> 93 \<Longrightarrow> length (base64_text t) \<le> 124"
  using div_le_mono [of "length t + 2" 95 3] by (simp add: base64_text_def length_b64_encode)

lemma recipients_list:
  assumes "\<forall>v\<in>set vs. v \<noteq> [] \<and> CHR '','' \<notin> set v \<and> length v < 1024"
  shows "recipients net sockfd (comma_list vs) s = Some (fold (exchange net sockfd) (map (\<lambda>v. ''RCPT TO: <'' @ v @ ''>'' @ CRLF) vs) s)"
  using assms
proof (induction vs arbitrary: s)
  case Nil
  then show ?case by (subst recipients.simps) (simp add: comma_list_def strtok_def)
next
  case (Cons v vs)
  have v: "v \<noteq> []" "CHR '','' \<notin> set v" "length v < 1024" using Cons.prems by auto
  have none: "recipients net sockfd [] s = Some s" for s by (subst recipients.simps) (simp add: strtok_def)
  have "length (''RCPT TO: <'' @ v @ ''>'' @ CRLF) < 1500" using v(3) by (simp add: CRLF_def)
  note say = say_fits [OF this]
  have IH: "recipients net sockfd (comma_list vs) s = Some (fold (exchange net sockfd) (map (\<lambda>v. ''RCPT TO: <'' @ v @ ''>'' @ CRLF) vs) s)"
    for s using Cons.IH Cons.prems by simp
  have token: "strtok CHR '','' (comma_list (v # vs)) = Some (v, comma_list vs)"
    by (cases "vs = []") (simp_all add: comma_list_Cons strtok_token [OF v(1,2)], simp add: comma_list_def)
  show ?case by (subst recipients.simps) (simp only: token say IH option.case prod.case Option.bind.simps list.map fold_simps)
qed

text \<open>An account whose user and password fit the array for the encoded text.\<close>

definition account_ok :: "MAIL_SERVER \<Rightarrow> bool" where
  "account_ok server \<longleftrightarrow> CHR ''%'' \<notin> set (username server) \<and> length (username server) \<le> 93 \<and>
     CHR ''%'' \<notin> set (password server) \<and> length (password server) \<le> 93"

definition address_list_ok :: "string list \<Rightarrow> bool" where
  "address_list_ok vs \<longleftrightarrow> (\<forall>v\<in>set vs. v \<noteq> [] \<and> CHR '','' \<notin> set v) \<and> length (concat (map (\<lambda>v. v @ '','') vs)) \<le> 1024"

lemma SendMail_run:
  assumes "account_ok server" "address_list_ok vs" "length body < 1495" "mail_connect net server s = Some (c, s1)"
  shows "SendMail net server (comma_list vs) body s =
    Some (case c of None \<Rightarrow> (False, s1) | Some sockfd \<Rightarrow> (True, deliver net sockfd (dialogue server vs body) s1))"
proof -
  have len: "length (comma_list vs) < 1024"
    using assms(2) unfolding address_list_ok_def comma_list_def length_butlast by linarith
  have "length v < 1024" if "v \<in> set vs" for v
  proof -
    have "length (v @ '','') \<le> length (concat (map (\<lambda>v. v @ '','') vs))"
      using that by (auto simp: length_concat comp_def intro: member_le_sum_list)
    then show ?thesis using assms(2) by (simp add: address_list_ok_def)
  qed
  then have "\<forall>v\<in>set vs. v \<noteq> [] \<and> CHR '','' \<notin> set v \<and> length v < 1024" using assms(2) by (simp add: address_list_ok_def)
  from recipients_list [OF this]
  have "recipients net fd (comma_list vs) s' = Some (fold (exchange net fd) (map (\<lambda>v. ''RCPT TO: <'' @ v @ ''>'' @ CRLF) vs) s')"
    for fd s' .
  moreover have "login_text (username server) = Some (base64_text (username server))"
      "login_text (password server) = Some (base64_text (password server))"
      "length (base64_text (username server)) \<le> 124" "length (base64_text (password server)) \<le> 124"
    using assms(1) by (simp_all add: account_ok_def login_text_run length_base64_text)
  ultimately show ?thesis
    using assms len
    by (cases c) (simp_all add: SendMail_def say_fits fits_def CRLF_def account_ok_def dialogue_def deliver_def comp_def)
qed

text \<open>The text of an alarm fits into the line when its name and value are together shorter than 904 characters, although each
  of them may have up to 511; otherwise it overruns the array.\<close>

lemma mail_text_length: "length (SEND_MAIL_MOBAN_WITH_ATTACH a v ''121'') = 591 + length a + length v"
  by (simp add: SEND_MAIL_MOBAN_WITH_ATTACH_def CRLF_def dq_def)

lemma InformUserByEmail_fits:
  assumes "length (alarm_name alarm) + length (alarm_value alarm) < 904"
  obtains body where "InformUserByEmail alarm = Some (Mail_Thread body)" "length body < 1495"
  using assms by (simp add: InformUserByEmail_def fits_def mail_text_length)

lemma mail_overrun:
  assumes "1495 \<le> length body" "mail_connect net server s = Some (Some sockfd, s1)"
  shows "SendMail net server to body s = None"
proof -
  have "say net sockfd (body @ CRLF @ ''.'' @ CRLF) s' = None" for s' using assms(1) by (simp add: say_def fits_def CRLF_def)
  then show ?thesis using assms(2) by (auto simp: SendMail_def Option.bind_eq_None_conv)
qed

text \<open>
  C23: \<open>SendMail\<close> sends a mail whatever the server answers. Once there is a socket, it sends the lines of the protocol, with
  user and password in Base64 and a line for each address, and returns TRUE; without a socket it sends nothing and
  returns FALSE. The account must fit its arrays, and the mail must be shorter than 1495 characters.
\<close>

theorem mail_dialogue:
  assumes "account_ok server" "address_list_ok vs" "length body < 1495" "mail_connect net server s = Some (c, s1)"
  shows "SendMail net server (comma_list vs) body s =
    Some (case c of None \<Rightarrow> (False, s1) | Some sockfd \<Rightarrow> (True, deliver net sockfd (dialogue server vs body) s1))"
  by (rule SendMail_run [OF assms])

text \<open>A network in which every name has an address, every connection succeeds and every line is answered; its state is the
  list of the lines that were sent.\<close>

definition good_net :: "string list sockets" where
  "good_net = \<lparr>gethostbyname = (\<lambda>n s. (Some \<lparr>h_addrtype = AF_INET, h_addr = ''10.0.0.1''\<rparr>, s)), socket = (\<lambda>s. (3, s)),
     setsockopt = (\<lambda>_ s. (0, s)), connect = (\<lambda>_ _ _ s. (0, s)), send = (\<lambda>_ l s. s @ [l]), recv = (\<lambda>_ s. (4, s)),
     close = (\<lambda>_ s. s), sleep = (\<lambda>_ s. s)\<rparr>"

definition an_account :: "MAIL_SERVER_ITEM \<Rightarrow> MAIL_SERVER" where
  "an_account k = \<lparr>name = ''smtp.example.com'', port = 25, username = ''hub'', password = ''key''\<rparr>"

lemma good_net_connects: "mail_connect good_net (an_account k) s = Some (Some 3, s)"
  by (simp add: mail_connect_def GetIPByDomainName_def fits_def good_net_def an_account_def open_socket_def greeting.simps
      AF_INET_def)

lemma an_account_ok: "account_ok (an_account k)"
  by (simp add: account_ok_def an_account_def)

lemma an_account_lines:
  "username (an_account k) = ''hub''" "password (an_account k) = ''key''" "base64_text ''hub'' = ''aHVi''" "base64_text ''key'' = ''a2V5''"
  by (simp_all add: an_account_def base64_text_def group24_def sextets_def alphabet_def letter_codes_def nth_append, code_simp+)

lemma deliver_good: "deliver good_net sockfd ls s = s @ ls"
  by (induction ls arbitrary: s) (simp_all add: deliver_def good_net_def exchange_def)

lemma mail_dialogue_witness:
  "SendMail good_net (an_account SERVER_QQ) ''a@b.cn,c@d.cn'' ''rain'' [] =
    Some (True, map (\<lambda>t. t @ CRLF) [''EHLO licp'', ''AUTH LOGIN'', ''aHVi'', ''a2V5'',
      ''MAIL FROM: <hub>'', ''RCPT TO: <a@b.cn>'', ''RCPT TO: <c@d.cn>'', ''DATA'', ''rain'' @ CRLF @ ''.'', ''QUIT''])"
proof -
  have vs: "address_list_ok [''a@b.cn'', ''c@d.cn'']" "comma_list [''a@b.cn'', ''c@d.cn''] = ''a@b.cn,c@d.cn''"
    by (simp_all add: address_list_ok_def comma_list_def)
  show ?thesis
    using mail_dialogue [OF an_account_ok vs(1) _ good_net_connects, of "''rain''" SERVER_QQ "[]"] vs(2)
    by (simp add: dialogue_def an_account_lines deliver_good)
qed

subsection \<open>Who gets a mail of an alarm\<close>

text \<open>The first of the servers to which there is a connection gets the mail.\<close>

fun mail_by :: "'s sockets \<Rightarrow> MAIL_SERVER list \<Rightarrow> string list \<Rightarrow> string \<Rightarrow> 's \<Rightarrow> 's option" where
  "mail_by net [] vs body s = Some s"
| "mail_by net (server # servers) vs body s =
     do {
       (c, s) \<leftarrow> mail_connect net server s;
       case c of None \<Rightarrow> mail_by net servers vs body s | Some sockfd \<Rightarrow> Some (deliver net sockfd (dialogue server vs body) s)
     }"

text \<open>The alarm list holds no address that starts with an underscore, so that no list is taken for the empty one.\<close>

definition is_address :: "string \<Rightarrow> bool" where
  "is_address v \<longleftrightarrow> v \<noteq> [] \<and> CHR '','' \<notin> set v \<and> hd v \<noteq> CHR ''_''"

lemma SendMail_by:
  assumes "account_ok server" "address_list_ok vs" "length body < 1495"
  shows "do { (sent, s) \<leftarrow> SendMail net server (comma_list vs) body s; if sent then Some (f s) else map_option f (mail_by net servers vs body s) } =
    map_option f (mail_by net (server # servers) vs body s)"
proof (cases "mail_connect net server s")
  case None
  then show ?thesis by (simp add: SendMail_def)
next
  case (Some r)
  obtain c s1 where "r = (c, s1)" by (cases r)
  with Some show ?thesis using SendMail_run [OF assms, of net s c s1] by (cases c) simp_all
qed

lemma comma_list_not_null: "vs \<noteq> [] \<Longrightarrow> \<forall>v\<in>set vs. is_address v \<Longrightarrow> comma_list vs \<noteq> ''_NULL_''"
proof
  assume "vs \<noteq> []" "\<forall>v\<in>set vs. is_address v" "comma_list vs = ''_NULL_''"
  then obtain v ws where "vs = v # ws" "v \<noteq> []" "hd v \<noteq> CHR ''_''" by (cases vs) (auto simp: is_address_def)
  then show False using \<open>comma_list vs = ''_NULL_''\<close> by (cases v) (auto simp: comma_list_Cons split: if_splits)
qed

text \<open>
  C13: the thread that mails an alarm writes to every address whose entry in the alarm list is open, once each, and to no
  other. It tries the three servers in turn until there is a connection to one, and does nothing when no entry is open or
  there is no network. It does not end if a server closes every connection without a greeting.
\<close>

theorem alarm_mails:
  assumes "sqlite_spec sq tb" "alarm_ok (tb u)"
    "(\<Sum>v\<in>open_values ''email'' (alarm_map (tb u)). length v + 1) < 1024"
    "\<forall>v\<in>open_values ''email'' (alarm_map (tb u)). is_address v"
    "\<forall>k. account_ok (accounts k)" "length body < 1495"
  shows "\<exists>vs u'. distinct vs \<and> set vs = open_values ''email'' (alarm_map (tb u)) \<and>
    send_mail_thread net accounts sq body g u (s :: 's) =
      map_option (\<lambda>s'. (if vs = [] then ''_NULL_'' else comma_list vs, u', s'))
        (if vs = [] then Some s
         else do {
           (ip, s) \<leftarrow> GetIPByDomainName net ''www.baidu.com'' s;
           if ip = None then Some s
           else mail_by net [accounts SERVER_QQ, accounts SERVER_126, accounts SERVER_SOHU] vs body s
         })"
proof -
  have listed: "alarm_file sq tb u (alarm_map (tb u))" using assms(1,2) by (simp add: alarm_file_def)
  obtain vs u' where vs: "GetEmailList sq g u = Some (if vs = [] then ''_NULL_'' else comma_list vs, u')" "distinct vs"
    "set vs = open_values ''email'' (alarm_map (tb u))"
    using GetEmailList_leaves [OF listed assms(3), of g] by (auto simp: alarm_leaves_def)
  have ok: "address_list_ok vs"
    using assms(3,4) length_comma_list [OF vs(2)] vs(3) by (simp add: address_list_ok_def is_address_def)
  have null: "comma_list vs \<noteq> ''_NULL_''" if "vs \<noteq> []" using comma_list_not_null [OF that] assms(4) vs(3) by simp
  define f where "f = (\<lambda>s :: 's. (comma_list vs, u', s))"
  note step = SendMail_by [OF spec [OF assms(5)] ok assms(6), where f = f and net = net]
  have "SendMail net (accounts SERVER_SOHU) (comma_list vs) body s \<bind> (\<lambda>(sent, s). Some (f s)) =
      map_option f (mail_by net [accounts SERVER_SOHU] vs body s)" for s
    using step [of SERVER_SOHU s "[]"] by (simp cong: if_cong)
  with step [of SERVER_QQ _ "[accounts SERVER_126, accounts SERVER_SOHU]"] step [of SERVER_126 _ "[accounts SERVER_SOHU]"]
  have three: "do { (sent, s) \<leftarrow> SendMail net (accounts SERVER_QQ) (comma_list vs) body s;
      if sent then Some (comma_list vs, u', s)
      else do { (sent, s) \<leftarrow> SendMail net (accounts SERVER_126) (comma_list vs) body s;
        if sent then Some (comma_list vs, u', s)
        else do { (sent, s) \<leftarrow> SendMail net (accounts SERVER_SOHU) (comma_list vs) body s; Some (comma_list vs, u', s) } } } =
      map_option f (mail_by net [accounts SERVER_QQ, accounts SERVER_126, accounts SERVER_SOHU] vs body s)" for s
    by (simp only: f_def)
  show ?thesis
  proof (cases "vs = []")
    case True
    then show ?thesis using vs by (intro exI [of _ vs] exI [of _ u']) (simp add: send_mail_thread_def)
  next
    case False
    then show ?thesis using vs null [OF False]
      by (intro exI [of _ vs] exI [of _ u'])
        (cases "GetIPByDomainName net ''www.baidu.com'' s"; auto simp: send_mail_thread_def three f_def)
  qed
qed

text \<open>An alarm list with one open and one locked address, and the mail that goes out.\<close>

definition mail_alarms :: "alarm_op list" where
  "mail_alarms = [Add_Alarm 0 ''a@b.cn'', Add_Alarm 0 ''c@d.cn'', Lock_Alarm 0 ''c@d.cn'']"

lemma one_open_address: "\<exists>u. alarm_ok (id u) \<and> open_values ''email'' (alarm_map (id u)) = {''a@b.cn''}"
proof -
  have "list_all alarm_op_ok mail_alarms" by (simp add: mail_alarms_def alarm_types arg_def)
  then obtain u where "alarm_file table_sqlite id u (snd (alarm_steps mail_alarms Map.empty))"
    using alarm_calls_leaves [OF new_alarms] by (auto simp: alarm_leaves_def)
  then show ?thesis
    by (intro exI [of _ u]) (auto simp: alarm_file_def mail_alarms_def alarm_step_def alarm_types
        open_values_def split: if_splits)
qed

lemma alarm_mails_witness:
  "\<exists>u vs u'. distinct vs \<and> set vs = {''a@b.cn''} \<and>
    send_mail_thread good_net an_account table_sqlite ''rain'' [] u [] =
      Some (comma_list vs, u', map (\<lambda>t. t @ CRLF) [''EHLO licp'', ''AUTH LOGIN'', ''aHVi'', ''a2V5'', ''MAIL FROM: <hub>'',
        ''RCPT TO: <a@b.cn>'', ''DATA'', ''rain'' @ CRLF @ ''.'', ''QUIT''])"
proof -
  obtain u where u: "alarm_ok (id u)" "open_values ''email'' (alarm_map (id u)) = {''a@b.cn''}"
    using one_open_address by blast
  have sum: "(\<Sum>v\<in>open_values ''email'' (alarm_map (id u)). length v + 1) < 1024" unfolding u(2) by simp
  have adr: "\<forall>v\<in>open_values ''email'' (alarm_map (id u)). is_address v" unfolding u(2) by (simp add: is_address_def)
  have ip: "GetIPByDomainName good_net ''www.baidu.com'' s = Some (Some ''10.0.0.1'', s)" for s
    by (simp add: GetIPByDomainName_def good_net_def fits_def)
  obtain vs u' where vs: "distinct vs" "set vs = {''a@b.cn''}" "send_mail_thread good_net an_account table_sqlite ''rain'' [] u [] =
      Some (comma_list vs, u', deliver good_net 3 (dialogue (an_account SERVER_QQ) vs ''rain'') [])"
    using alarm_mails [where u = u and accounts = an_account and body = "''rain''" and net = good_net and g = "[]" and s = "[]",
        OF table_sqlite_spec u(1) sum adr] an_account_ok ip
      good_net_connects [of SERVER_QQ] unfolding u(2) by (auto split: if_splits)
  have "length vs = 1" using distinct_card [OF vs(1)] unfolding vs(2) by simp
  then have "vs = [''a@b.cn'']" using vs(2) by (cases vs) auto
  then show ?thesis using vs(3)
    by (intro exI [of _ u] exI [of _ vs] exI [of _ u']) (simp add: deliver_good dialogue_def an_account_lines)
qed

end
