(* ===== verification/Gpio.thy ===== *)
theory Gpio
  imports Prelude
begin

text \<open>
  The pins that the kernel drivers use (\<open>src/driver\<close>). The functions of the kernel, and with them the board and what
  is connected to it, are a parameter: a state that setting a pin, changing its direction and waiting change, and from which
  the level of a pin is read. Time is counted in nanoseconds.
\<close>

record ('p, 's) board =
  gpio_set_value :: "'p \<Rightarrow> bool \<Rightarrow> 's \<Rightarrow> 's"
  gpio_get_value :: "'p \<Rightarrow> 's \<Rightarrow> bool"
  cfg_output :: "'p \<Rightarrow> 's \<Rightarrow> 's"
  cfg_input :: "'p \<Rightarrow> 's \<Rightarrow> 's"
  pull_up :: "'p \<Rightarrow> 's \<Rightarrow> 's"
  ndelay :: "nat \<Rightarrow> 's \<Rightarrow> 's"

definition udelay :: "('p, 's) board \<Rightarrow> nat \<Rightarrow> 's \<Rightarrow> 's" where
  "udelay b n = ndelay b (n * 1000)"

definition msleep :: "('p, 's) board \<Rightarrow> nat \<Rightarrow> 's \<Rightarrow> 's" where
  "msleep b n = ndelay b (n * 1000000)"

definition EFAULT :: int where
  "EFAULT = 14"

subsection \<open>Bits of a byte\<close>

text \<open>The next bit of a byte that arrives with its highest bit first, and the byte with given bits.\<close>

unbundle bit_operations_syntax

definition shift_in :: "u8 \<Rightarrow> bool \<Rightarrow> u8" where
  "shift_in w c = push_bit 1 w OR (if c then 1 else 0)"

definition byte_msb :: "bool list \<Rightarrow> u8" where
  "byte_msb bs = foldl shift_in 0 bs"

text \<open>The same for a byte that arrives with its lowest bit first.\<close>

definition shift_down :: "u8 \<Rightarrow> bool \<Rightarrow> u8" where
  "shift_down w c = drop_bit 1 w OR (if c then 0x80 else 0)"

definition byte_lsb :: "bool list \<Rightarrow> u8" where
  "byte_lsb bs = foldl shift_down 0 bs"

lemma bit_shift_in: "bit (shift_in w c) i \<longleftrightarrow> (if i = 0 then c else i < 8 \<and> bit w (i - 1))"
  unfolding shift_in_def bit_or_iff bit_push_bit_iff by (cases c) (auto simp: bit_1_iff dest: bit_imp_le_length)

lemma bit_foldl_shift_in:
  "length bs \<le> 8 \<Longrightarrow> bit (foldl shift_in x bs) i \<longleftrightarrow>
    (if i < length bs then bs ! (length bs - 1 - i) else i < 8 \<and> bit x (i - length bs))"
proof (induction bs arbitrary: i rule: rev_induct)
  case (snoc c bs)
  then show ?case by (cases i) (auto simp: bit_shift_in nth_append)
next
  case Nil
  then show ?case by (auto dest: bit_imp_le_length)
qed

lemma shift_in_byte: "length bs = 8 \<Longrightarrow> foldl shift_in x bs = byte_msb bs"
  by (rule bit_word_eqI) (simp add: byte_msb_def bit_foldl_shift_in)

end
