(* ===== verification/Nrf24l01.thy ===== *)
theory Nrf24l01
  imports Gpio C_Library
begin

text \<open>
  The driver of the radio (\<open>src/driver/nrf24l01/nRF24L01.c\<close>). The driver moves the lines of the serial bus itself: it puts
  a bit on MOSI, raises the clock, reads MISO and lowers the clock. A frame is what it sends while CSN is low. An
  application writes twelve hexadecimal digits, the number of an action and the address of a device, and the driver sends the
  action three times.
\<close>

unbundle bit_operations_syntax

subsection \<open>The driver\<close>

datatype pin = CE | CSN | SCK | MOSI | MISO

definition TX_ADR_WIDTH :: nat where "TX_ADR_WIDTH = 5"

definition RX_ADR_WIDTH :: nat where "RX_ADR_WIDTH = 5"

text \<open>The commands and the registers of the radio that the driver uses.\<close>

definition WRITE_REG :: u8 where "WRITE_REG = 0x20"
definition RD_RX_PLOAD :: u8 where "RD_RX_PLOAD = 0x61"
definition WR_TX_PLOAD :: u8 where "WR_TX_PLOAD = 0xA0"
definition FLUSH_TX :: u8 where "FLUSH_TX = 0xE1"
definition FLUSH_RX :: u8 where "FLUSH_RX = 0xE2"
definition CONFIG :: u8 where "CONFIG = 0x00"
definition EN_AA :: u8 where "EN_AA = 0x01"
definition EN_RXADDR :: u8 where "EN_RXADDR = 0x02"
definition RF_CH :: u8 where "RF_CH = 0x05"
definition RF_SETUP :: u8 where "RF_SETUP = 0x06"
definition STATUS :: u8 where "STATUS = 0x07"
definition RX_ADDR_P0 :: u8 where "RX_ADDR_P0 = 0x0A"
definition TX_ADDR :: u8 where "TX_ADDR = 0x10"
definition RX_PW_P0 :: u8 where "RX_PW_P0 = 0x11"

text \<open>The variables of the driver.\<close>

record nrf24l01 =
  TX_ADDRESS :: "u8 list"
  RX_ADDRESS :: "u8 list"
  ACTION :: u8
  PLOAD_WIDTH :: u8

definition nrf24l01_start :: nrf24l01 where
  "nrf24l01_start = \<lparr>TX_ADDRESS = [5, 6, 7, 8, 9], RX_ADDRESS = [5, 6, 7, 8, 9], ACTION = 0, PLOAD_WIDTH = 6\<rparr>"

text \<open>One bit in each direction, and the eight bits of a byte.\<close>

definition SPI_bit :: "(pin, 's) board \<Rightarrow> u8 \<Rightarrow> 's \<Rightarrow> u8 \<times> 's" where
  "SPI_bit b tmp s =
     (let s = gpio_set_value b MOSI (tmp AND 0x80 \<noteq> 0) s;
          s = ndelay b 60 (gpio_set_value b SCK True s);
          tmp = shift_in tmp (gpio_get_value b MISO s) in
      (tmp, ndelay b 60 (gpio_set_value b SCK False s)))"

fun SPI_bits :: "(pin, 's) board \<Rightarrow> nat \<Rightarrow> u8 \<Rightarrow> 's \<Rightarrow> u8 \<times> 's" where
  "SPI_bits b 0 tmp s = (tmp, s)"
| "SPI_bits b (Suc n) tmp s = (let (tmp, s) = SPI_bit b tmp s in SPI_bits b n tmp s)"

definition SPI_RW :: "(pin, 's) board \<Rightarrow> u8 \<Rightarrow> 's \<Rightarrow> u8 \<times> 's" where
  "SPI_RW b tmp s = SPI_bits b 8 tmp s"

definition CSN_L :: "(pin, 's) board \<Rightarrow> 's \<Rightarrow> 's" where
  "CSN_L b s = ndelay b 60 (gpio_set_value b CSN False s)"

definition CSN_H :: "(pin, 's) board \<Rightarrow> 's \<Rightarrow> 's" where
  "CSN_H b s = ndelay b 60 (gpio_set_value b CSN True s)"

definition SPI_Read :: "(pin, 's) board \<Rightarrow> u8 \<Rightarrow> 's \<Rightarrow> u8 \<times> 's" where
  "SPI_Read b reg s =
     (let (_, s) = SPI_RW b reg (CSN_L b s); (reg_val, s) = SPI_RW b 0 s in (reg_val, CSN_H b s))"

definition SPI_RW_Reg :: "(pin, 's) board \<Rightarrow> u8 \<Rightarrow> u8 \<Rightarrow> 's \<Rightarrow> u8 \<times> 's" where
  "SPI_RW_Reg b reg v s =
     (let (status, s) = SPI_RW b reg (CSN_L b s); (_, s) = SPI_RW b v s in (status, CSN_H b s))"

fun write_bytes :: "(pin, 's) board \<Rightarrow> u8 list \<Rightarrow> 's \<Rightarrow> 's" where
  "write_bytes b [] s = s"
| "write_bytes b (x # xs) s = write_bytes b xs (ndelay b 20 (snd (SPI_RW b x s)))"

text \<open>The callers give the length of the buffer, so that the buffer is a list here.\<close>

definition SPI_Write_Buf :: "(pin, 's) board \<Rightarrow> u8 \<Rightarrow> u8 list \<Rightarrow> 's \<Rightarrow> u8 \<times> 's" where
  "SPI_Write_Buf b reg pBuf s =
     (let (status, s) = SPI_RW b reg (CSN_L b s) in (status, CSN_H b (write_bytes b pBuf s)))"

fun read_spi :: "(pin, 's) board \<Rightarrow> nat \<Rightarrow> 's \<Rightarrow> u8 list \<times> 's" where
  "read_spi b 0 s = ([], s)"
| "read_spi b (Suc n) s =
     (let (x, s) = SPI_RW b 0 s; (xs, s) = read_spi b n (ndelay b 20 s) in (x # xs, s))"

definition SPI_Read_Buf :: "(pin, 's) board \<Rightarrow> u8 \<Rightarrow> nat \<Rightarrow> 's \<Rightarrow> u8 \<times> u8 list \<times> 's" where
  "SPI_Read_Buf b reg uchars s =
     (let (status, s) = SPI_RW b reg (CSN_L b s); (pBuf, s) = read_spi b uchars s in (status, pBuf, CSN_H b s))"

definition Init_nRF24L01 :: "(pin, 's) board \<Rightarrow> nrf24l01 \<Rightarrow> 's \<Rightarrow> 's" where
  "Init_nRF24L01 b r s =
     (let s = cfg_input b MISO (cfg_output b MOSI (cfg_output b SCK (cfg_output b CSN (cfg_output b CE (pull_up b MISO s)))));
          s = ndelay b 60 (gpio_set_value b CE False (udelay b 500 s));
          s = ndelay b 60 (gpio_set_value b CSN True s);
          s = ndelay b 60 (gpio_set_value b SCK False s);
          s = snd (SPI_Write_Buf b (WRITE_REG + TX_ADDR) (TX_ADDRESS r) s);
          s = snd (SPI_Write_Buf b (WRITE_REG + RX_ADDR_P0) (RX_ADDRESS r) s);
          s = snd (SPI_RW_Reg b (WRITE_REG + EN_AA) 0x01 s);
          s = snd (SPI_RW_Reg b (WRITE_REG + EN_RXADDR) 0x01 s);
          s = snd (SPI_RW_Reg b (WRITE_REG + RF_CH) 0 s);
          s = snd (SPI_RW_Reg b (WRITE_REG + RX_PW_P0) (PLOAD_WIDTH r) s);
          s = snd (SPI_RW_Reg b (WRITE_REG + RF_SETUP) 0x07 s) in
      ndelay b 60 (gpio_set_value b CE True s))"

text \<open>The only caller sends the one byte of \<open>ACTION\<close>, and \<open>PLOAD_WIDTH\<close> is one.\<close>

definition nRF24L01_TxPacket :: "(pin, 's) board \<Rightarrow> u8 \<Rightarrow> nrf24l01 \<times> 's \<Rightarrow> nrf24l01 \<times> 's" where
  "nRF24L01_TxPacket b tx_buf = (\<lambda>(r, s).
     (let r = r\<lparr>PLOAD_WIDTH := 1\<rparr>;
          s = ndelay b 60 (gpio_set_value b CE False (Init_nRF24L01 b r s));
          s = snd (SPI_Write_Buf b (WRITE_REG + RX_ADDR_P0) (TX_ADDRESS r) s);
          s = snd (SPI_Write_Buf b WR_TX_PLOAD [tx_buf] s);
          s = snd (SPI_RW_Reg b (WRITE_REG + CONFIG) 0x0e s);
          s = udelay b 10 (gpio_set_value b CE True s) in
      (r, snd (SPI_RW b FLUSH_TX s))))"

text \<open>What was received goes to the first bytes of the buffer of the caller.\<close>

definition nRF24L01_RxPacket :: "(pin, 's) board \<Rightarrow> nrf24l01 \<Rightarrow> u8 list \<Rightarrow> 's \<Rightarrow> u8 \<times> u8 list \<times> 's" where
  "nRF24L01_RxPacket b r rx_buf s =
     (let (status, s) = SPI_Read b STATUS s;
          (revale, rx_buf, s) =
            (if status AND 0x40 \<noteq> 0
             then (let (_, pBuf, s) = SPI_Read_Buf b RD_RX_PLOAD (unat (PLOAD_WIDTH r)) (gpio_set_value b CE False s) in
                   (1, pBuf @ drop (length pBuf) rx_buf, s))
             else (0, rx_buf, s)) in
      (revale, rx_buf, snd (SPI_RW_Reg b (WRITE_REG + STATUS) 0xff s)))"

definition SetRX_Mode :: "(pin, 's) board \<Rightarrow> nrf24l01 \<times> 's \<Rightarrow> nrf24l01 \<times> 's" where
  "SetRX_Mode b = (\<lambda>(r, s).
     (let adr = map of_nat [0..<TX_ADR_WIDTH];
          r = r\<lparr>TX_ADDRESS := adr, RX_ADDRESS := adr, PLOAD_WIDTH := 6\<rparr>;
          s = ndelay b 60 (gpio_set_value b CE False (Init_nRF24L01 b r s));
          s = snd (SPI_RW_Reg b (WRITE_REG + CONFIG) 0x0f s) in
      (r, udelay b 130 (gpio_set_value b CE True s))))"

text \<open>The writes to the array \<open>dest\<close> of two characters are checked: \<open>slack\<close> is the number of bytes behind it that the
  compiler leaves unused.\<close>

fun substring_nrf :: "string \<Rightarrow> string \<Rightarrow> nat \<Rightarrow> nat \<Rightarrow> nat \<Rightarrow> string option" where
  "substring_nrf src dest at index 0 = mput dest at NUL"
| "substring_nrf src dest at index (Suc n) =
     do { c \<leftarrow> mget src index; dest \<leftarrow> mput dest at c; substring_nrf src dest (at + 1) (index + 1) n }"

fun parse_address :: "string \<Rightarrow> nat \<Rightarrow> nat \<Rightarrow> string \<Rightarrow> nrf24l01 \<Rightarrow> (string \<times> nrf24l01) option" where
  "parse_address buffer 0 i dest r = Some (dest, r)"
| "parse_address buffer (Suc n) i dest r =
     do {
       dest \<leftarrow> substring_nrf buffer (replicate 2 NUL @ drop 2 dest) 0 ((i + 1) * 2) 2;
       let k = to_uchar (strtol (c_str dest) 16);
       parse_address buffer n (i + 1) dest (r\<lparr>TX_ADDRESS := (TX_ADDRESS r)[i := k], RX_ADDRESS := (RX_ADDRESS r)[i := k]\<rparr>)
     }"

definition parse_command :: "nat \<Rightarrow> string \<Rightarrow> nrf24l01 \<Rightarrow> nrf24l01 option" where
  "parse_command slack buffer r =
     do {
       (dest, r) \<leftarrow> parse_address buffer 5 0 (replicate (2 + slack) NUL) r;
       dest \<leftarrow> substring_nrf buffer dest 0 0 2;
       Some (r\<lparr>ACTION := to_uchar (strtol (c_str dest) 10)\<rparr>)
     }"

text \<open>Three transmissions; the status that is kept is the last.\<close>

fun transmit :: "(pin, 's) board \<Rightarrow> nat \<Rightarrow> u8 \<Rightarrow> nrf24l01 \<times> 's \<Rightarrow> u8 \<times> nrf24l01 \<times> 's" where
  "transmit b 0 status rs = (status, rs)"
| "transmit b (Suc n) status rs =
     (let (r, s) = nRF24L01_TxPacket b (ACTION (fst rs)) rs;
          (status, s) = SPI_Read b STATUS s;
          s = snd (SPI_RW_Reg b (WRITE_REG + STATUS) status s) in
      transmit b n status (r, msleep b 10 s))"

text \<open>The buffer of the caller is what \<open>copy_from_user\<close> finds for the twelve bytes, none when it fails.\<close>

definition nrf24l01_write ::
  "(pin, 's) board \<Rightarrow> nat \<Rightarrow> string option \<Rightarrow> nrf24l01 \<times> 's \<Rightarrow> (int \<times> nrf24l01 \<times> 's) option" where
  "nrf24l01_write b slack buffer = (\<lambda>(r, s).
     (case buffer of
        None \<Rightarrow> Some (- EFAULT, r, s)
      | Some text12 \<Rightarrow>
          (let TxBuf = take 12 text12 @ [NUL] in
           if length (c_str TxBuf) \<noteq> 12 then Some (- 1, r, s)
           else if length (takeWhile (\<lambda>c. c \<in> set ''0123456789abcdefABCDEF'') TxBuf) < 12 then Some (- 1, r, s)
           else
             do {
               r \<leftarrow> parse_command slack TxBuf r;
               let (status, r, s) = transmit b 3 0 (r, s);
               Some (if status AND 0x20 \<noteq> 0 then 0 else - 1, r, s)
             })))"

text \<open>What the interrupt handler and the read call of the kernel.\<close>

datatype kernel_call = Disable_irq_nosync | Kill_fasync | Enable_irq

definition nrf24l01_irq_handler :: "nrf24l01 \<Rightarrow> kernel_call list" where
  "nrf24l01_irq_handler r = (if PLOAD_WIDTH r = 6 then [Disable_irq_nosync, Kill_fasync] else [])"

text \<open>The array \<open>rcv\<close> has six bytes; a packet that is longer would leave it. \<open>copy_to_user\<close> tells whether the copy
  succeeds. The result, what was copied, the calls of the kernel and the new state.\<close>

definition nrf24l01_read ::
  "(pin, 's) board \<Rightarrow> bool \<Rightarrow> nrf24l01 \<times> 's \<Rightarrow> (int \<times> u8 list \<times> kernel_call list \<times> nrf24l01 \<times> 's) option" where
  "nrf24l01_read b copy_to_user = (\<lambda>(r, s).
     (let (_, rcv, s) = nRF24L01_RxPacket b r (replicate 6 0) s;
          s = snd (SPI_RW_Reg b FLUSH_RX 0 s);
          s = ndelay b 60 (gpio_set_value b CE False (msleep b 10 s));
          s = snd (SPI_RW_Reg b (WRITE_REG + CONFIG) 0x0f s);
          s = udelay b 130 (gpio_set_value b CE True s) in
      if length rcv > 6 then None
      else if copy_to_user then Some (uint (PLOAD_WIDTH r), rcv, [Enable_irq], r, s)
      else Some (- EFAULT, [], [Enable_irq], r, s)))"

subsection \<open>The bus\<close>

text \<open>What the radio sees: the levels of its lines, the bits of the frame that is being sent, and what happened before, the
  frames and the changes of CE.\<close>

datatype bus_event = Ce bool | Frame "bool list"

record bus =
  csn :: bool
  sck :: bool
  mosi :: bool
  frame :: "bool list"
  events :: "bus_event list"

text \<open>A bit is taken when the clock rises while the radio is selected; a frame ends when it is no longer selected.\<close>

fun drive :: "pin \<Rightarrow> bool \<Rightarrow> bus \<Rightarrow> bus" where
  "drive CE v l = l\<lparr>events := events l @ [Ce v]\<rparr>"
| "drive CSN v l =
     (if csn l \<and> \<not> v then l\<lparr>csn := False, frame := []\<rparr>
      else if \<not> csn l \<and> v then l\<lparr>csn := True, frame := [], events := events l @ [Frame (frame l)]\<rparr>
      else l)"
| "drive SCK v l = (if v \<and> \<not> sck l \<and> \<not> csn l then l\<lparr>sck := v, frame := frame l @ [mosi l]\<rparr> else l\<lparr>sck := v\<rparr>)"
| "drive MOSI v l = l\<lparr>mosi := v\<rparr>"
| "drive MISO v l = l"

text \<open>A radio is the bit that it answers after the events and bits before. A board has the radio on its bus when the
  pins move the lines, only the pins do, and MISO is the answer of the radio while it is selected.\<close>

type_synonym radio = "bus_event list \<Rightarrow> bool list \<Rightarrow> bool"

locale radio_bus =
  fixes b :: "(pin, 's) board" and f :: "'s \<Rightarrow> bus" and answer :: radio
  assumes set_pin [simp]: "f (gpio_set_value b p v s) = drive p v (f s)"
    and delay [simp]: "f (ndelay b n s) = f s"
    and config [simp]: "f (cfg_output b p s) = f s" "f (cfg_input b p s) = f s" "f (pull_up b p s) = f s"
    and miso: "\<not> csn (f s) \<Longrightarrow> gpio_get_value b MISO s = answer (events (f s)) (butlast (frame (f s)))"

text \<open>The bits of a byte in the order in which they are sent, and the bits that the radio answers to some bits.\<close>

definition bits_of :: "u8 \<Rightarrow> bool list" where
  "bits_of x = map (\<lambda>i. bit x (7 - i)) [0..<8]"

fun replies :: "radio \<Rightarrow> bus_event list \<Rightarrow> bool list \<Rightarrow> bool list \<Rightarrow> bool list" where
  "replies answer l pre [] = []"
| "replies answer l pre (x # xs) = answer l pre # replies answer l (pre @ [x]) xs"

lemma length_replies [simp]: "length (replies answer l pre xs) = length xs"
  by (induction xs arbitrary: pre) simp_all

lemma length_bits_of [simp]: "length (bits_of x) = 8"
  by (simp add: bits_of_def)

lemma high_bit: "tmp AND 0x80 \<noteq> 0 \<longleftrightarrow> bit tmp 7" for tmp :: u8
proof -
  have "(0x80 :: u8) = push_bit 7 1" by simp
  then show ?thesis by (metis and_exp_eq_0_iff_not_bit push_bit_of_1)
qed

text \<open>The radio is in the middle of a frame, or none is being sent.\<close>

definition in_frame :: "('s \<Rightarrow> bus) \<Rightarrow> 's \<Rightarrow> bus_event list \<Rightarrow> bool list \<Rightarrow> bool" where
  "in_frame f s e fr \<longleftrightarrow> \<not> csn (f s) \<and> \<not> sck (f s) \<and> events (f s) = e \<and> frame (f s) = fr"

definition idle :: "('s \<Rightarrow> bus) \<Rightarrow> 's \<Rightarrow> bus_event list \<Rightarrow> bool" where
  "idle f s e \<longleftrightarrow> csn (f s) \<and> \<not> sck (f s) \<and> events (f s) = e"

definition bytes_frame :: "u8 list \<Rightarrow> bus_event" where
  "bytes_frame xs = Frame (concat (map bits_of xs))"

text \<open>What the radio answers to a byte that is sent after the given bits of a frame.\<close>

definition answered :: "radio \<Rightarrow> bus_event list \<Rightarrow> bool list \<Rightarrow> u8 \<Rightarrow> u8" where
  "answered answer e fr x = byte_msb (replies answer e fr (bits_of x))"

context radio_bus
begin

lemma longer_delay [simp]: "f (udelay b n s) = f s" "f (msleep b n s) = f s"
  by (simp_all add: udelay_def msleep_def)

text \<open>A bit, and a byte, within a frame.\<close>

lemma SPI_bit_run:
  assumes "\<not> csn (f s)" "\<not> sck (f s)"
  obtains s' where "SPI_bit b tmp s = (shift_in tmp (answer (events (f s)) (frame (f s))), s')"
    "f s' = (f s)\<lparr>mosi := bit tmp 7, frame := frame (f s) @ [bit tmp 7]\<rparr>"
  using assms by (simp add: SPI_bit_def Let_def miso high_bit)

lemma SPI_bits_run:
  "n \<le> 8 \<Longrightarrow> \<not> csn (f s) \<Longrightarrow> \<not> sck (f s) \<Longrightarrow> xs = map (\<lambda>i. bit tmp (7 - i)) [0..<n] \<Longrightarrow>
    \<exists>s' m. SPI_bits b n tmp s = (foldl shift_in tmp (replies answer (events (f s)) (frame (f s)) xs), s') \<and>
      f s' = (f s)\<lparr>mosi := m, frame := frame (f s) @ xs\<rparr>"
proof (induction n arbitrary: tmp s xs)
  case 0
  then show ?case by (simp add: exI [of _ "mosi (f s)"])
next
  case (Suc n)
  let ?tmp = "shift_in tmp (answer (events (f s)) (frame (f s)))"
  define ys where "ys = map (\<lambda>i. bit ?tmp (7 - i)) [0..<n]"
  have "ys = map (\<lambda>i. bit tmp (7 - Suc i)) [0..<n]"
    using Suc.prems(1) unfolding ys_def by (auto simp: bit_shift_in)
  then have xs: "xs = bit tmp 7 # ys"
    using Suc.prems(4) by (simp add: map_upt_Suc del: upt_Suc)
  obtain s1 where 1: "SPI_bit b tmp s = (?tmp, s1)" "f s1 = (f s)\<lparr>mosi := bit tmp 7, frame := frame (f s) @ [bit tmp 7]\<rparr>"
    using SPI_bit_run [OF Suc.prems(2,3)] by blast
  have "n \<le> 8" "\<not> csn (f s1)" "\<not> sck (f s1)" using 1(2) Suc.prems(1-3) by simp_all
  from Suc.IH [OF this ys_def] show ?case using 1 xs by fastforce
qed

lemma SPI_RW_in_frame:
  assumes "in_frame f s e fr"
  shows "in_frame f (snd (SPI_RW b x s)) e (fr @ bits_of x)" "fst (SPI_RW b x s) = answered answer e fr x"
proof -
  have "\<not> csn (f s)" "\<not> sck (f s)" using assms by (simp_all add: in_frame_def)
  from SPI_bits_run [OF order_refl this bits_of_def [of x]] obtain s' m
    where "SPI_bits b 8 x s = (foldl shift_in x (replies answer (events (f s)) (frame (f s)) (bits_of x)), s')"
      "f s' = (f s)\<lparr>mosi := m, frame := frame (f s) @ bits_of x\<rparr>" by blast
  then show "in_frame f (snd (SPI_RW b x s)) e (fr @ bits_of x)" "fst (SPI_RW b x s) = answered answer e fr x"
    using assms by (simp_all add: SPI_RW_def in_frame_def answered_def shift_in_byte)
qed

text \<open>Bits that are sent while the radio is not selected do not reach it.\<close>

lemma SPI_RW_idle: "idle f s e \<Longrightarrow> idle f (snd (SPI_RW b x s)) e"
proof -
  have "idle f (snd (SPI_bits b n x s)) e" if "idle f s e" for n x s
    using that
  proof (induction n arbitrary: x s)
    case (Suc n)
    then have "idle f (snd (SPI_bit b x s)) e" by (simp add: SPI_bit_def idle_def Let_def)
    then show ?case using Suc.IH by (simp add: case_prod_beta)
  qed simp
  then show "idle f s e \<Longrightarrow> ?thesis" by (simp add: SPI_RW_def)
qed

lemma CSN_L_frame: "idle f s e \<Longrightarrow> in_frame f (CSN_L b s) e []"
  by (simp add: idle_def in_frame_def CSN_L_def)

lemma CSN_H_idle: "in_frame f s e fr \<Longrightarrow> idle f (CSN_H b s) (e @ [Frame fr])"
  by (simp add: idle_def in_frame_def CSN_H_def)

lemma CE_idle: "idle f s e \<Longrightarrow> idle f (gpio_set_value b CE v s) (e @ [Ce v])"
  by (simp add: idle_def)

lemma delay_state [simp]: "in_frame f (ndelay b n s) e fr \<longleftrightarrow> in_frame f s e fr" "idle f (ndelay b n s) e \<longleftrightarrow> idle f s e"
    "idle f (udelay b n s) e \<longleftrightarrow> idle f s e" "idle f (msleep b n s) e \<longleftrightarrow> idle f s e"
  by (simp_all add: in_frame_def idle_def)

lemma write_bytes_frame: "in_frame f s e fr \<Longrightarrow> in_frame f (write_bytes b xs s) e (fr @ concat (map bits_of xs))"
proof (induction xs arbitrary: s fr)
  case (Cons x xs)
  from Cons.IH [of "ndelay b 20 (snd (SPI_RW b x s))" "fr @ bits_of x"] SPI_RW_in_frame(1) [OF Cons.prems, of x]
  show ?case by simp
qed simp

lemma SPI_Write_Buf_idle:
  assumes "idle f s e"
  shows "idle f (snd (SPI_Write_Buf b reg xs s)) (e @ [bytes_frame (reg # xs)])"
  using CSN_H_idle [OF write_bytes_frame [OF SPI_RW_in_frame(1) [OF CSN_L_frame [OF assms], of reg], of xs]]
  by (simp add: SPI_Write_Buf_def bytes_frame_def case_prod_beta)

lemma SPI_RW_Reg_idle:
  assumes "idle f s e"
  shows "idle f (snd (SPI_RW_Reg b reg v s)) (e @ [bytes_frame [reg, v]])"
  using CSN_H_idle [OF SPI_RW_in_frame(1) [OF SPI_RW_in_frame(1) [OF CSN_L_frame [OF assms], of reg], of v]]
  by (simp add: SPI_RW_Reg_def bytes_frame_def case_prod_beta)

lemma SPI_Read_idle:
  assumes "idle f s e"
  shows "idle f (snd (SPI_Read b reg s)) (e @ [bytes_frame [reg, 0]])"
    "fst (SPI_Read b reg s) = answered answer e (bits_of reg) 0"
proof -
  note first = SPI_RW_in_frame(1) [OF CSN_L_frame [OF assms], of reg]
  show "idle f (snd (SPI_Read b reg s)) (e @ [bytes_frame [reg, 0]])"
    using CSN_H_idle [OF SPI_RW_in_frame(1) [OF first, of 0]] by (simp add: SPI_Read_def bytes_frame_def case_prod_beta)
  show "fst (SPI_Read b reg s) = answered answer e (bits_of reg) 0"
    using SPI_RW_in_frame(2) [OF first, of 0] by (simp add: SPI_Read_def case_prod_beta)
qed

end

text \<open>What the initialisation and the transmission of a byte put on the bus.\<close>

definition init_events :: "nrf24l01 \<Rightarrow> bus_event list" where
  "init_events r =
     [Ce False, bytes_frame (0x30 # TX_ADDRESS r), bytes_frame (0x2A # RX_ADDRESS r), bytes_frame [0x21, 0x01],
      bytes_frame [0x22, 0x01], bytes_frame [0x25, 0], bytes_frame [0x31, PLOAD_WIDTH r], bytes_frame [0x26, 0x07], Ce True]"

definition send_events :: "nrf24l01 \<Rightarrow> u8 \<Rightarrow> bus_event list" where
  "send_events r x =
     init_events (r\<lparr>PLOAD_WIDTH := 1\<rparr>) @
     [Ce False, bytes_frame (0x2A # TX_ADDRESS r), bytes_frame [0xA0, x], bytes_frame [0x20, 0x0e], Ce True]"

text \<open>The attempts: after each the status is read and written back.\<close>

fun attempts :: "radio \<Rightarrow> nrf24l01 \<Rightarrow> nat \<Rightarrow> u8 \<Rightarrow> bus_event list \<Rightarrow> u8 \<times> bus_event list" where
  "attempts answer r 0 status e = (status, e)"
| "attempts answer r (Suc n) status e =
     (let e = e @ send_events r (ACTION r);
          status = answered answer e (bits_of STATUS) 0 in
      attempts answer r n status (e @ [bytes_frame [STATUS, 0], bytes_frame [0x27, status]]))"

text \<open>The radio is not selected; its clock may be anywhere.\<close>

definition deselected :: "('s \<Rightarrow> bus) \<Rightarrow> 's \<Rightarrow> bus_event list \<Rightarrow> bool" where
  "deselected f s e \<longleftrightarrow> csn (f s) \<and> events (f s) = e"

lemma idle_deselected: "idle f s e \<Longrightarrow> deselected f s e"
  by (simp add: idle_def deselected_def)

lemmas nrf24l01_commands = WRITE_REG_def WR_TX_PLOAD_def CONFIG_def EN_AA_def EN_RXADDR_def RF_CH_def RF_SETUP_def
  STATUS_def RX_ADDR_P0_def TX_ADDR_def RX_PW_P0_def

context radio_bus
begin

lemma Init_events:
  assumes "deselected f s e"
  shows "idle f (Init_nRF24L01 b r s) (e @ init_events r)"
proof -
  let ?s = "cfg_input b MISO (cfg_output b MOSI (cfg_output b SCK (cfg_output b CSN (cfg_output b CE (pull_up b MISO s)))))"
  let ?s = "ndelay b 60 (gpio_set_value b CE False (udelay b 500 ?s))"
  let ?s = "ndelay b 60 (gpio_set_value b SCK False (ndelay b 60 (gpio_set_value b CSN True ?s)))"
  have "idle f ?s (e @ [Ce False])" using assms by (simp add: idle_def deselected_def)
  note SPI_Write_Buf_idle [OF this, of "0x30" "TX_ADDRESS r"]
  note SPI_Write_Buf_idle [OF this, of "0x2A" "RX_ADDRESS r"]
  note SPI_RW_Reg_idle [OF this, of "0x21" 1]
  note SPI_RW_Reg_idle [OF this, of "0x22" 1]
  note SPI_RW_Reg_idle [OF this, of "0x25" 0]
  note SPI_RW_Reg_idle [OF this, of "0x31" "PLOAD_WIDTH r"]
  note SPI_RW_Reg_idle [OF this, of "0x26" 7]
  note CE_idle [OF this, of True]
  then show ?thesis by (simp add: Init_nRF24L01_def init_events_def nrf24l01_commands Let_def)
qed

lemma TxPacket_events:
  assumes "deselected f s e"
  shows "idle f (snd (nRF24L01_TxPacket b x (r, s))) (e @ send_events r x)"
    "fst (nRF24L01_TxPacket b x (r, s)) = r\<lparr>PLOAD_WIDTH := 1\<rparr>"
proof -
  note CE_idle [OF Init_events [OF assms, of "r\<lparr>PLOAD_WIDTH := 1\<rparr>"], of False]
  then have "idle f (ndelay b 60 (gpio_set_value b CE False (Init_nRF24L01 b (r\<lparr>PLOAD_WIDTH := 1\<rparr>) s)))
      ((e @ init_events (r\<lparr>PLOAD_WIDTH := 1\<rparr>)) @ [Ce False])" by simp
  note SPI_Write_Buf_idle [OF this, of "0x2A" "TX_ADDRESS r"]
  note SPI_Write_Buf_idle [OF this, of "0xA0" "[x]"]
  note SPI_RW_Reg_idle [OF this, of "0x20" "0x0e"]
  note CE_idle [OF this, of True]
  then have "idle f (udelay b 10 (gpio_set_value b CE True (snd (SPI_RW_Reg b 0x20 0x0e
    (snd (SPI_Write_Buf b 0xA0 [x] (snd (SPI_Write_Buf b 0x2A (TX_ADDRESS r)
      (ndelay b 60 (gpio_set_value b CE False (Init_nRF24L01 b (r\<lparr>PLOAD_WIDTH := 1\<rparr>) s)))))))))))
    (e @ send_events r x)" by (simp add: send_events_def)
  note SPI_RW_idle [OF this, of FLUSH_TX]
  then show "idle f (snd (nRF24L01_TxPacket b x (r, s))) (e @ send_events r x)"
    by (simp add: nRF24L01_TxPacket_def nrf24l01_commands Let_def)
  show "fst (nRF24L01_TxPacket b x (r, s)) = r\<lparr>PLOAD_WIDTH := 1\<rparr>" by (simp add: nRF24L01_TxPacket_def Let_def)
qed

lemma send_events_width [simp]: "send_events (r\<lparr>PLOAD_WIDTH := w\<rparr>) x = send_events r x"
  by (simp add: send_events_def init_events_def)

lemma attempts_width [simp]: "attempts answer (r\<lparr>PLOAD_WIDTH := w\<rparr>) n st e = attempts answer r n st e"
  by (induction n arbitrary: st e) (simp_all add: Let_def)

lemma transmit_events:
  "deselected f s e \<Longrightarrow> attempts answer r n st e = (st', e') \<Longrightarrow>
    \<exists>s'. transmit b n st (r, s) = (st', if n = 0 then r else r\<lparr>PLOAD_WIDTH := 1\<rparr>, s') \<and> deselected f s' e'"
proof (induction n arbitrary: r s st e)
  case (Suc n)
  let ?r = "r\<lparr>PLOAD_WIDTH := 1\<rparr>" and ?e = "e @ send_events r (ACTION r)"
  obtain s1 where 1: "nRF24L01_TxPacket b (ACTION r) (r, s) = (?r, s1)" "idle f s1 ?e"
    using TxPacket_events [OF Suc.prems(1), of "ACTION r" r] by (metis prod.collapse)
  define st1 where "st1 = answered answer ?e (bits_of STATUS) 0"
  obtain s2 where 2: "SPI_Read b STATUS s1 = (st1, s2)" "idle f s2 (?e @ [bytes_frame [STATUS, 0]])"
    using SPI_Read_idle [OF 1(2), of STATUS] unfolding st1_def by (metis prod.collapse)
  define s3 where "s3 = msleep b 10 (snd (SPI_RW_Reg b (WRITE_REG + STATUS) st1 s2))"
  have "deselected f s3 (?e @ [bytes_frame [STATUS, 0], bytes_frame [0x27, st1]])"
    using SPI_RW_Reg_idle [OF 2(2), of "0x27" st1] unfolding s3_def by (intro idle_deselected) (simp add: nrf24l01_commands)
  from Suc.IH [OF this, of ?r st1] show ?case
    using Suc.prems(2) 1(1) 2(1) by (simp add: st1_def s3_def Let_def split: if_splits)
qed simp

end

text \<open>What the radio answers when some bytes of a received packet are read.\<close>

fun payload :: "radio \<Rightarrow> bus_event list \<Rightarrow> bool list \<Rightarrow> nat \<Rightarrow> u8 list" where
  "payload answer e fr 0 = []"
| "payload answer e fr (Suc n) = answered answer e fr 0 # payload answer e (fr @ bits_of 0) n"

lemma length_payload [simp]: "length (payload answer e fr n) = n"
  by (induction n arbitrary: fr) simp_all

context radio_bus
begin

lemma read_spi_run:
  "in_frame f s e fr \<Longrightarrow> fst (read_spi b n s) = payload answer e fr n \<and> (\<exists>fr'. in_frame f (snd (read_spi b n s)) e fr')"
proof (induction n arbitrary: s fr)
  case (Suc n)
  from Suc.IH [of "ndelay b 20 (snd (SPI_RW b 0 s))" "fr @ bits_of 0"] SPI_RW_in_frame [OF Suc.prems, of 0]
  show ?case by (simp add: case_prod_beta)
qed auto

lemma SPI_Read_Buf_run:
  assumes "idle f s e"
  shows "\<exists>status s' e'. SPI_Read_Buf b reg n s = (status, payload answer e (bits_of reg) n, s') \<and> idle f s' e'"
proof -
  note first = SPI_RW_in_frame(1) [OF CSN_L_frame [OF assms], of reg]
  from read_spi_run [OF first, of n] obtain fr where "fst (read_spi b n (snd (SPI_RW b reg (CSN_L b s)))) = payload answer e (bits_of reg) n"
    "in_frame f (snd (read_spi b n (snd (SPI_RW b reg (CSN_L b s))))) e fr" by auto
  then show ?thesis using CSN_H_idle by (fastforce simp: SPI_Read_Buf_def case_prod_beta)
qed

text \<open>A packet is read when the status says that there is one; otherwise the buffer keeps what it held.\<close>

lemma RxPacket_run:
  assumes "idle f s e" "status = answered answer e (bits_of STATUS) 0"
  shows "\<exists>s' e'. nRF24L01_RxPacket b r buf s =
      (if status AND 0x40 \<noteq> 0
       then (1, payload answer (e @ [bytes_frame [STATUS, 0], Ce False]) (bits_of RD_RX_PLOAD) (unat (PLOAD_WIDTH r)) @
              drop (unat (PLOAD_WIDTH r)) buf, s')
       else (0, buf, s')) \<and> idle f s' e'"
proof -
  obtain s1 where 1: "SPI_Read b STATUS s = (status, s1)" "idle f s1 (e @ [bytes_frame [STATUS, 0]])"
    using SPI_Read_idle [OF assms(1), of STATUS] assms(2) by (metis prod.collapse)
  have ce: "idle f (gpio_set_value b CE False s1) (e @ [bytes_frame [STATUS, 0], Ce False])" using CE_idle [OF 1(2)] by simp
  from SPI_Read_Buf_run [OF ce] obtain st s2 e2 where "SPI_Read_Buf b RD_RX_PLOAD (unat (PLOAD_WIDTH r)) (gpio_set_value b CE False s1) =
      (st, payload answer (e @ [bytes_frame [STATUS, 0], Ce False]) (bits_of RD_RX_PLOAD) (unat (PLOAD_WIDTH r)), s2)" "idle f s2 e2"
    by blast
  then show ?thesis
    using 1 SPI_RW_Reg_idle by (cases "status AND 0x40 = 0") (fastforce simp: nRF24L01_RxPacket_def Let_def)+
qed

end

text \<open>The application reads six bytes: the packet, or zeros when there is none.\<close>

lemma nrf24l01_receives:
  assumes "radio_bus b f answer" "idle f s e" "PLOAD_WIDTH r = 6" "status = answered answer e (bits_of STATUS) 0"
  shows "\<exists>s'. nrf24l01_read b True (r, s) =
    Some (6, if status AND 0x40 \<noteq> 0 then payload answer (e @ [bytes_frame [STATUS, 0], Ce False]) (bits_of RD_RX_PLOAD) 6
      else replicate 6 0, [Enable_irq], r, s')"
  using radio_bus.RxPacket_run [OF assms(1,2,4), of r "replicate 6 0"] assms(3)
  by (auto simp: nrf24l01_read_def Let_def split: if_splits)

subsection \<open>The command\<close>

lemma substring_two:
  assumes "take 2 (drop index src) = [c, d]" "3 \<le> length dest"
  shows "substring_nrf src dest 0 index 2 = Some (c # d # NUL # drop 3 dest)"
proof -
  have len: "index + 1 < length src"
    using arg_cong [OF assms(1), of length] by simp
  have "[src ! index, src ! (index + 1)] = take 2 (drop index src)"
    using len by (simp add: numeral_2_eq_2 take_Suc_conv_app_nth)
  then have "mget src index = Some c" "mget src (index + 1) = Some d" using assms(1) len by (simp_all add: mget_def)
  moreover obtain x y z ds where "dest = x # y # z # ds"
    using assms(2) by (cases dest; cases "tl dest"; cases "tl (tl dest)") auto
  ultimately show ?thesis by (simp add: numeral_2_eq_2 numeral_3_eq_3 mput_def)
qed

text \<open>Without a spare byte behind the array the terminator leaves it.\<close>

lemma substring_overrun: "length dest = 2 \<Longrightarrow> substring_nrf src dest 0 index 2 = None"
  by (cases "mget src index"; cases "mget src (Suc index)") (simp_all add: numeral_2_eq_2 mput_def)

lemma two_chars_of: "length cs = 2 \<Longrightarrow> \<exists>c d. cs = [c, d]"
  by (cases cs; cases "tl cs") auto

lemma parse_address_run:
  "length a = 2 \<Longrightarrow> i + n = length adr \<Longrightarrow> 3 \<le> length dest \<Longrightarrow> length (TX_ADDRESS r) = length adr \<Longrightarrow>
    length (RX_ADDRESS r) = length adr \<Longrightarrow>
    \<exists>dest'. 3 \<le> length dest' \<and> parse_address (a @ hex_text adr @ rest) n i dest r =
      Some (dest', r\<lparr>TX_ADDRESS := take i (TX_ADDRESS r) @ drop i adr, RX_ADDRESS := take i (RX_ADDRESS r) @ drop i adr\<rparr>)"
proof (induction n arbitrary: i dest r)
  case (Suc n)
  let ?dest = "replicate 2 NUL @ drop 2 dest" and ?x = "adr ! i"
  let ?r = "r\<lparr>TX_ADDRESS := (TX_ADDRESS r)[i := ?x], RX_ADDRESS := (RX_ADDRESS r)[i := ?x]\<rparr>"
  have i: "i < length adr" using Suc.prems(2) by simp
  obtain c d where cd: "fmt_X 2 (unat ?x) = [c, d]" using two_chars_of [OF length_fmt_X_u8] by blast
  have "take 2 (drop ((i + 1) * 2) (a @ hex_text adr @ rest)) = [c, d]"
    using take_hex_text [OF i, of rest] Suc.prems(1) cd by (simp add: mult.commute)
  from substring_two [OF this, of ?dest] obtain dest1
    where 1: "substring_nrf (a @ hex_text adr @ rest) ?dest 0 ((i + 1) * 2) 2 = Some (fmt_X 2 (unat ?x) @ NUL # dest1)"
    using Suc.prems(3) cd by auto
  have "3 \<le> length (fmt_X 2 (unat ?x) @ NUL # dest1)" "i + 1 + n = length adr"
    "length (TX_ADDRESS ?r) = length adr" "length (RX_ADDRESS ?r) = length adr" using Suc.prems cd by simp_all
  from Suc.IH [OF Suc.prems(1) this(2,1,3,4)] obtain dest'
    where "3 \<le> length dest'" "parse_address (a @ hex_text adr @ rest) n (i + 1) (fmt_X 2 (unat ?x) @ NUL # dest1) ?r =
      Some (dest', ?r\<lparr>TX_ADDRESS := take (i + 1) (TX_ADDRESS ?r) @ drop (i + 1) adr,
        RX_ADDRESS := take (i + 1) (RX_ADDRESS ?r) @ drop (i + 1) adr\<rparr>)" by blast
  moreover have "take (Suc i) (xs[i := ?x]) @ drop (Suc i) adr = take i xs @ drop i adr" if "length xs = length adr" for xs
    using that i by (simp add: take_Suc_conv_app_nth Cons_nth_drop_Suc)
  moreover have "to_uchar (strtol (c_str (fmt_X 2 (unat ?x) @ NUL # dest1)) 16) = ?x"
    using unat_u8_less [of ?x] by (subst strtol_two_hex) (simp_all add: to_uchar_def)
  ultimately show ?case using 1 Suc.prems(4,5) by simp
qed simp

text \<open>The text of a command: the action in decimal, the address in hexadecimal digits.\<close>

definition command_text :: "nat \<Rightarrow> u8 list \<Rightarrow> string" where
  "command_text act adr = pad_digits 10 2 act @ hex_text adr"

lemma parse_command_run:
  assumes "act < 100" "length adr = 5" "length (TX_ADDRESS r) = 5" "length (RX_ADDRESS r) = 5"
  shows "parse_command (Suc k) (command_text act adr @ [NUL]) r =
    Some (r\<lparr>TX_ADDRESS := adr, RX_ADDRESS := adr, ACTION := of_nat act\<rparr>)"
proof -
  let ?a = "pad_digits 10 2 act"
  have a: "length ?a = 2" using assms(1) by (simp add: length_pad_digits)
  obtain c d where cd: "?a = [c, d]" using two_chars_of [OF a] by blast
  have five: "0 + 5 = length adr" "length (TX_ADDRESS r) = length adr" "length (RX_ADDRESS r) = length adr"
    using assms by simp_all
  have "3 \<le> length (replicate (2 + Suc k) NUL)" by simp
  from parse_address_run [OF a five(1) this five(2,3), of "[NUL]"] obtain dest where 1: "3 \<le> length dest"
    "parse_address (command_text act adr @ [NUL]) 5 0 (replicate (2 + Suc k) NUL) r =
      Some (dest, r\<lparr>TX_ADDRESS := adr, RX_ADDRESS := adr\<rparr>)" by (auto simp: command_text_def)
  have "take 2 (drop 0 (command_text act adr @ [NUL])) = [c, d]" using cd by (simp add: command_text_def)
  from substring_two [OF this 1(1)] have "substring_nrf (command_text act adr @ [NUL]) dest 0 0 2 =
      Some (?a @ NUL # drop 3 dest)" using cd by simp
  moreover have "strtol (c_str (?a @ NUL # drop 3 dest)) 10 = int act"
    using assms(1) by (simp add: pad_digits_no_NUL strtol_pad_digits)
  ultimately show ?thesis using 1(2) by (simp add: parse_command_def)
qed

lemma hex_digit_char:
  assumes "digit_val 16 c \<noteq> None"
  shows "c \<in> set ''0123456789abcdefABCDEF''"
proof -
  let ?ns = "[48..<58] @ [65..<71] @ [97..<103]"
  have "of_char c \<in> set ?ns" using assms by (auto simp: digit_val_def Let_def simp del: upt_rec_numeral split: if_splits)
  then have "char_of (of_char c :: nat) \<in> char_of ` set ?ns" by blast
  moreover have "char_of ` set ?ns = set ''0123456789ABCDEFabcdef''" by code_simp
  ultimately show ?thesis by auto
qed

lemma command_text_digits: "all_digits 16 (command_text act adr)"
proof -
  have "all_digits 16 (fmt_X 2 v)" for v by (simp add: fmt_X_def pad_digits_all_digits)
  then have "all_digits 16 (hex_text adr)" by (auto simp: hex_text_def)
  moreover have "digit_val 16 c \<noteq> None" if "digit_val 10 c \<noteq> None" for c
    using that by (auto simp: digit_val_def Let_def split: if_splits)
  then have "all_digits 16 (pad_digits 10 2 act)" using pad_digits_all_digits [of 10 2 act] by simp
  ultimately show ?thesis by (auto simp: command_text_def)
qed

text \<open>Only what consists of twelve hexadecimal digits is a command.\<close>

abbreviation hex_digit :: "char \<Rightarrow> bool" where
  "hex_digit c \<equiv> c \<in> set ''0123456789abcdefABCDEF''"

definition is_command :: "string \<Rightarrow> bool" where
  "is_command t \<longleftrightarrow> length t = 12 \<and> list_all hex_digit t"

lemma command_text_command:
  assumes "act < 100" "length adr = 5"
  shows "is_command (command_text act adr)"
proof -
  have "length (command_text act adr) = 12" using assms by (simp add: command_text_def length_pad_digits)
  moreover have "list_all hex_digit (command_text act adr)"
    unfolding list_all_iff using hex_digit_char command_text_digits [of act adr] by blast
  ultimately show ?thesis unfolding is_command_def by blast
qed

lemma takeWhile_stops:
  assumes "\<not> P z"
  shows "length (takeWhile P (t @ [z])) = length t \<longleftrightarrow> list_all P t" "length (takeWhile P (t @ [z])) \<le> length t"
proof -
  show "length (takeWhile P (t @ [z])) \<le> length t" by (induction t) (simp_all add: assms)
  show "length (takeWhile P (t @ [z])) = length t \<longleftrightarrow> list_all P t" by (induction t) (simp_all add: assms)
qed

lemma write_checks:
  assumes "length t = 12"
  shows "nrf24l01_write b slack (Some t) (r, s) =
    (if is_command t
     then do { r \<leftarrow> parse_command slack (t @ [NUL]) r;
               let (status, r, s) = transmit b 3 0 (r, s);
               Some (if status AND 0x20 \<noteq> 0 then 0 else - 1, r, s) }
     else Some (- 1, r, s))"
proof -
  have no: "\<not> hex_digit NUL" by simp
  have "length (takeWhile hex_digit (t @ [NUL])) < 12 \<longleftrightarrow> \<not> list_all hex_digit t"
    using takeWhile_stops [of hex_digit, OF no, of t] assms by linarith
  moreover have "length (c_str (t @ [NUL])) = 12 \<longleftrightarrow> list_all (\<lambda>c. c \<noteq> NUL) t"
    using takeWhile_stops(1) [of "\<lambda>c. c \<noteq> NUL" NUL t] assms by (simp add: c_str_def)
  moreover have "list_all (\<lambda>c. c \<noteq> NUL) t" if "list_all hex_digit t"
    using that by (rule list.pred_mono_strong) (use no in blast)
  ultimately show ?thesis using assms unfolding nrf24l01_write_def is_command_def
    by (simp add: Let_def del: set_simps)
qed

text \<open>
  C12: a command reaches the radio, provided that the byte behind the array of two characters that the digits are copied
  to, into which the terminator is written, is not in use; without it every command is undefined
  (\<open>nrf24l01_write_overrun\<close>). Then writing the number of an action and an address gives the address to the radio, sends the
  action three times, each time in the frames of a transmission, and returns 0 when the radio reports after the last of them
  that the action was received, and -1 otherwise.
\<close>

theorem nrf24l01_sends:
  assumes "radio_bus b f answer" "deselected f s e" "act < 100" "length adr = 5"
    "length (TX_ADDRESS r) = 5" "length (RX_ADDRESS r) = 5"
    "r' = r\<lparr>TX_ADDRESS := adr, RX_ADDRESS := adr, ACTION := of_nat act\<rparr>" "attempts answer r' 3 0 e = (status, e')"
  shows "\<exists>s'. nrf24l01_write b (Suc k) (Some (command_text act adr)) (r, s) =
      Some (if status AND 0x20 \<noteq> 0 then 0 else - 1, r'\<lparr>PLOAD_WIDTH := 1\<rparr>, s') \<and> deselected f s' e'"
proof -
  obtain s' where "transmit b 3 0 (r', s) = (status, r'\<lparr>PLOAD_WIDTH := 1\<rparr>, s')" "deselected f s' e'"
    using radio_bus.transmit_events [OF assms(1,2,8)] by auto
  moreover have "length (command_text act adr) = 12" "is_command (command_text act adr)"
    using command_text_command [OF assms(3,4)] by (simp_all add: is_command_def)
  ultimately show ?thesis using parse_command_run [OF assms(3-6), of k] by (simp add: write_checks assms(7))
qed

lemma nrf24l01_write_overrun: "length t = 12 \<Longrightarrow> is_command t \<Longrightarrow> nrf24l01_write b 0 (Some t) (r, s) = None"
proof -
  assume t: "length t = 12" "is_command t"
  have "parse_address (t @ [NUL]) (Suc n) 0 (replicate 2 NUL) r = None" for n by (simp add: substring_overrun)
  from this [of 4] have "parse_command 0 (t @ [NUL]) r = None" by (simp add: parse_command_def)
  then show ?thesis using t by (simp add: write_checks)
qed

text \<open>A command leaves the width of the packets at one, so that the interrupt of the radio does not wake the application any
  more.\<close>

lemma transmit_width: "PLOAD_WIDTH (fst (snd (transmit b (Suc n) st rs))) = 1"
proof -
  have tx: "PLOAD_WIDTH (fst (nRF24L01_TxPacket b x rs)) = 1" for x rs
    by (cases rs) (simp add: nRF24L01_TxPacket_def Let_def)
  have "PLOAD_WIDTH (fst rs) = 1 \<Longrightarrow> PLOAD_WIDTH (fst (snd (transmit b n st rs))) = 1" for n st rs
    by (induction n arbitrary: st rs) (simp_all add: Let_def case_prod_beta tx)
  then show ?thesis by (simp add: Let_def case_prod_beta tx)
qed

lemma nrf24l01_write_silences:
  assumes "length t = 12" "is_command t" "nrf24l01_write b slack (Some t) (r, s) = Some (x, r', s')"
  shows "nrf24l01_irq_handler r' = []"
proof -
  obtain r1 where "snd (transmit b 3 0 (r1, s)) = (r', s')"
    using assms by (auto simp: write_checks case_prod_beta Let_def split: bind_splits)
  moreover have "PLOAD_WIDTH (fst (snd (transmit b 3 0 (r1, s)))) = 1" using transmit_width [of b 2] by simp
  ultimately have "PLOAD_WIDTH r' = 1" by simp
  then show ?thesis by (simp add: nrf24l01_irq_handler_def)
qed

text \<open>A board that is nothing but the bus, with any radio on it.\<close>

definition bus_board :: "radio \<Rightarrow> (pin, bus) board" where
  "bus_board answer = \<lparr>gpio_set_value = drive, gpio_get_value = (\<lambda>_ l. answer (events l) (butlast (frame l))),
     cfg_output = (\<lambda>_ l. l), cfg_input = (\<lambda>_ l. l), pull_up = (\<lambda>_ l. l), ndelay = (\<lambda>_ l. l)\<rparr>"

interpretation bus: radio_bus "bus_board answer" "\<lambda>l. l" answer for answer
  by unfold_locales (simp_all add: bus_board_def)

text \<open>A radio that answers a status in which bit 5 is set, after a lost action: the command for the
  device at 1A2B3C4D5E.\<close>

definition received :: radio where
  "received e bs \<longleftrightarrow> length bs = 10"

lemma nrf24l01_sends_witness:
  "\<exists>s' e'. nrf24l01_write (bus_board received) 1 (Some ''071A2B3C4D5E'')
      (nrf24l01_start, \<lparr>csn = True, sck = True, mosi = False, frame = [], events = []\<rparr>) =
    Some (0, \<lparr>TX_ADDRESS = [0x1A, 0x2B, 0x3C, 0x4D, 0x5E], RX_ADDRESS = [0x1A, 0x2B, 0x3C, 0x4D, 0x5E], ACTION = 7,
      PLOAD_WIDTH = 1\<rparr>, s') \<and> deselected (\<lambda>l. l) s' e'"
proof -
  let ?r = "\<lparr>TX_ADDRESS = [0x1A, 0x2B, 0x3C, 0x4D, 0x5E], RX_ADDRESS = [0x1A, 0x2B, 0x3C, 0x4D, 0x5E], ACTION = 7,
      PLOAD_WIDTH = 6\<rparr> :: nrf24l01"
  have reply: "answered received e (bits_of STATUS) 0 = 0x20" for e
  proof -
    have "bits_of STATUS = [False, False, False, False, False, True, True, True]"
      "bits_of 0 = [False, False, False, False, False, False, False, False]" by code_simp+
    then show ?thesis by (simp add: answered_def received_def byte_msb_def shift_in_def)
  qed
  have status: "fst (attempts received ?r 3 0 []) = 0x20" by (simp add: numeral_3_eq_3 Let_def reply)
  have "command_text 7 [0x1A, 0x2B, 0x3C, 0x4D, 0x5E] = ''071A2B3C4D5E''" by code_simp
  moreover have start: "deselected (\<lambda>l. l) \<lparr>csn = True, sck = True, mosi = False, frame = [], events = []\<rparr> []"
    by (simp add: deselected_def)
  obtain e' where "attempts received ?r 3 0 [] = (0x20, e')" using status by (metis prod.collapse)
  note nrf24l01_sends [OF bus.radio_bus_axioms start, where r = nrf24l01_start and r' = ?r and act = 7 and
    adr = "[0x1A, 0x2B, 0x3C, 0x4D, 0x5E]" and k = 0, OF _ _ _ _ _ this]
  ultimately show ?thesis by (auto simp: nrf24l01_start_def)
qed

end
