(* ===== verification/Dht11.thy ===== *)
theory Dht11
  imports Gpio
begin

text \<open>
  The driver of the sensor for temperature and humidity (\<open>src/driver/DHT11/dht11.c\<close>). The sensor is on one pin. It sends
  each bit as a low and a high level, and the bit is the length of the high level; the driver measures it by polling the pin
  every five microseconds. \<open>char\<close> is unsigned on the target.
\<close>

text \<open>The polls that see a level; none when there are more than the limit.\<close>

function count_level :: "(unit, 's) board \<Rightarrow> bool \<Rightarrow> nat \<Rightarrow> nat \<Rightarrow> 's \<Rightarrow> nat option \<times> 's" where
  "count_level b level limit temp s =
     (if gpio_get_value b () s = level
      then if temp + 1 > limit then (None, s) else count_level b level limit (temp + 1) (udelay b 5 s)
      else (Some temp, s))"
  by pat_completeness auto
termination
  by (relation "measure (\<lambda>(b, level, limit, temp, s). limit - temp)") auto

declare count_level.simps [simp del]

fun read_bits :: "(unit, 's) board \<Rightarrow> nat \<Rightarrow> u8 \<Rightarrow> 's \<Rightarrow> u8 \<times> 's" where
  "read_bits b 0 DHT11_byte s = (DHT11_byte, s)"
| "read_bits b (Suc n) DHT11_byte s =
     (case count_level b False 12 0 s of
        (None, s) \<Rightarrow> (1, s)
      | (Some _, s) \<Rightarrow>
          (case count_level b True 20 0 s of
             (None, s) \<Rightarrow> (1, s)
           | (Some temp, s) \<Rightarrow> read_bits b n (shift_in DHT11_byte (temp > 6)) s))"

definition DHT11_read_byte :: "(unit, 's) board \<Rightarrow> 's \<Rightarrow> u8 \<times> 's" where
  "DHT11_read_byte b s = read_bits b 8 0 s"

text \<open>The wait for the end of a level, with at most ten polls.\<close>

fun wait_level :: "(unit, 's) board \<Rightarrow> bool \<Rightarrow> nat \<Rightarrow> 's \<Rightarrow> nat \<times> 's" where
  "wait_level b level 0 s = (0, s)"
| "wait_level b level (Suc DataTemp) s =
     (if gpio_get_value b () s = level then wait_level b level DataTemp (udelay b 10 s) else (Suc DataTemp, s))"

fun read_bytes :: "(unit, 's) board \<Rightarrow> nat \<Rightarrow> 's \<Rightarrow> u8 list \<times> 's" where
  "read_bytes b 0 s = ([], s)"
| "read_bytes b (Suc n) s = (let (x, s) = DHT11_read_byte b s; (xs, s) = read_bytes b n s in (x # xs, s))"

definition released :: "(unit, 's) board \<Rightarrow> 's \<Rightarrow> 's" where
  "released b s = gpio_set_value b () True (cfg_output b () s)"

text \<open>The result and what was copied to the caller; \<open>copy_to_user\<close> tells whether the copy succeeds.\<close>

definition started :: "(unit, 's) board \<Rightarrow> 's \<Rightarrow> 's" where
  "started b s =
     cfg_input b () (udelay b 40 (gpio_set_value b () True (msleep b 18 (gpio_set_value b () False (cfg_output b () s)))))"

definition DHT11_read :: "(unit, 's) board \<Rightarrow> bool \<Rightarrow> nat \<Rightarrow> 's \<Rightarrow> int \<times> u8 list \<times> 's" where
  "DHT11_read b copy_to_user count s =
     (let (DataTemp, s) = wait_level b False 10 (started b s) in
      if DataTemp = 0 then (- EFAULT, [], released b s)
      else
        (let (DataTemp, s) = wait_level b True 10 s in
         if DataTemp = 0 then (- EFAULT, [], released b s)
         else
           (let (tempBuf, s) = read_bytes b 5 s in
            if sum_list (take 4 tempBuf) \<noteq> tempBuf ! 4 then (0, [], s)
            else if copy_to_user then (int (min count 5), take (min count 5) tempBuf, released b s)
            else (- EFAULT, [], released b s))))"

subsection \<open>A sensor\<close>

text \<open>What is on the line: the levels still to come, with their lengths, the first of them the present one. Waiting uses
  it up.\<close>

type_synonym wave = "(bool \<times> nat) list"

fun elapse :: "nat \<Rightarrow> wave \<Rightarrow> wave" where
  "elapse d [] = []"
| "elapse d ((l, n) # w) = (if d < n then (l, n - d) # w else elapse (d - n) w)"

text \<open>The line is high behind the end of the wave. A board reads the line when its pin has the level of the line and waiting
  uses up the wave.\<close>

definition line :: "wave \<Rightarrow> bool" where
  "line w = (case w of [] \<Rightarrow> True | (l, _) # _ \<Rightarrow> l)"

definition reads_wave :: "(unit, 's) board \<Rightarrow> ('s \<Rightarrow> wave) \<Rightarrow> bool" where
  "reads_wave b f \<longleftrightarrow> (\<forall>s. gpio_get_value b () s = line (f s)) \<and> (\<forall>n s. f (ndelay b n s) = elapse n (f s))"

text \<open>The pulses of the sensor: a low and a high level for each bit. A low level takes 10 to 60 microseconds, a high level
  up to 30 for a 0 and 35 to 100 for a 1.\<close>

fun wave_of :: "(nat \<times> nat) list \<Rightarrow> wave \<Rightarrow> wave" where
  "wave_of [] w = w"
| "wave_of ((lo, hi) # ps) w = (False, lo) # (True, hi) # wave_of ps w"

fun pulse_ok :: "nat \<times> nat \<Rightarrow> bool" where
  "pulse_ok (lo, hi) \<longleftrightarrow> 10000 \<le> lo \<and> lo \<le> 60000 \<and> (5000 \<le> hi \<and> hi \<le> 30000 \<or> 35000 \<le> hi \<and> hi \<le> 100000)"

fun pulse_bit :: "nat \<times> nat \<Rightarrow> bool" where
  "pulse_bit (lo, hi) \<longleftrightarrow> 35000 \<le> hi"

fun bytes_of :: "nat \<Rightarrow> bool list \<Rightarrow> u8 list" where
  "bytes_of 0 bs = []"
| "bytes_of (Suc k) bs = byte_msb (take 8 bs) # bytes_of k (drop 8 bs)"

lemma reads_waveD:
  assumes "reads_wave b f"
  shows "gpio_get_value b () s = line (f s)" "f (udelay b n s) = elapse (n * 1000) (f s)"
  using assms by (simp_all add: reads_wave_def udelay_def)

text \<open>The driver counts a poll for each five microseconds that a level lasts, the first at its beginning.\<close>

lemma count_level_run:
  assumes "reads_wave b f" "0 < d" "f s = (l, d) # (\<not> l, n) # w" "d \<le> k * 5000" "k * 5000 < d + 5000" "k * 5000 - d < n"
    "temp + k \<le> limit"
  shows "\<exists>s'. count_level b l limit temp s = (Some (temp + k), s') \<and> f s' = (\<not> l, n - (k * 5000 - d)) # w"
  using assms(2-7)
proof (induction k arbitrary: d s temp)
  case (Suc k)
  let ?s = "udelay b 5 s"
  have f: "f ?s = elapse 5000 ((l, d) # (\<not> l, n) # w)" using reads_waveD(2) [OF assms(1), of 5 s] Suc.prems(2) by simp
  have here: "gpio_get_value b () s = l" using reads_waveD(1) [OF assms(1)] Suc.prems(2) by (simp add: line_def)
  have step: "count_level b l limit temp s = count_level b l limit (temp + 1) ?s"
    using here Suc.prems(6) by (subst count_level.simps) simp
  show ?case
  proof (cases "5000 < d")
    case True
    then have "f ?s = (l, d - 5000) # (\<not> l, n) # w" using f by simp
    moreover have "d - 5000 \<le> k * 5000" "k * 5000 < d - 5000 + 5000" "k * 5000 - (d - 5000) = Suc k * 5000 - d"
      using Suc.prems(3,4) True by simp_all
    ultimately show ?thesis using Suc.IH [of "d - 5000" ?s "temp + 1"] Suc.prems(5,6) True step by simp
  next
    case False
    then have k: "k = 0" using Suc.prems(4) by simp
    have "f ?s = (\<not> l, n - (5000 - d)) # w" using f False Suc.prems(5) k by simp
    moreover from this have "count_level b l limit (temp + 1) ?s = (Some (temp + 1), ?s)"
      using reads_waveD(1) [OF assms(1), of ?s] by (subst count_level.simps) (simp add: line_def)
    ultimately show ?thesis using step k by simp
  qed
qed simp

text \<open>The number of polls.\<close>

lemma polls: "0 < d \<Longrightarrow> \<exists>k. d \<le> k * 5000 \<and> k * 5000 < d + 5000" for d :: nat
  by (rule exI [of _ "(d + 4999) div 5000"]) linarith

lemma read_bits_run:
  assumes "reads_wave b f"
  shows "f s = elapse t (wave_of ps ((False, n) # w)) \<Longrightarrow> t < 10000 \<Longrightarrow> 10000 \<le> n \<Longrightarrow> \<forall>p\<in>set ps. pulse_ok p \<Longrightarrow>
    \<exists>s' t'. read_bits b (length ps) x s = (foldl shift_in x (map pulse_bit ps), s') \<and>
      f s' = elapse t' ((False, n) # w) \<and> t' < 10000"
proof (induction ps arbitrary: s t x)
  case (Cons p ps)
  obtain lo hi where p: "p = (lo, hi)" by (cases p)
  have ok: "10000 \<le> lo" "lo \<le> 60000" "5000 \<le> hi" "hi \<le> 30000 \<or> 35000 \<le> hi" "hi \<le> 100000" using Cons.prems(4) p by auto
  have f: "f s = (False, lo - t) # (True, hi) # wave_of ps ((False, n) # w)" using Cons.prems(1,2) ok(1) p by simp
  have "0 < lo - t" using Cons.prems(2) ok(1) by simp
  then obtain k where k: "lo - t \<le> k * 5000" "k * 5000 < lo - t + 5000" using polls by blast
  have "k \<le> 12" "k * 5000 - (lo - t) < hi" using k ok by linarith+
  then obtain s1 where 1: "count_level b False 12 0 s = (Some k, s1)"
    "f s1 = (True, hi - (k * 5000 - (lo - t))) # wave_of ps ((False, n) # w)"
    using count_level_run [OF assms \<open>0 < lo - t\<close> _ k, of s False hi "wave_of ps ((False, n) # w)" 0 12] f by auto
  define h where "h = hi - (k * 5000 - (lo - t))"
  have h: "0 < h" "h \<le> hi" "hi < h + 5000" using k ok(3) unfolding h_def by linarith+
  obtain m where m: "h \<le> m * 5000" "m * 5000 < h + 5000" using polls [OF h(1)] by blast
  have "m \<le> 20" "6 < m \<longleftrightarrow> 35000 \<le> hi" using m h ok(4,5) by auto
  obtain lo1 w1 where next1: "wave_of ps ((False, n) # w) = (False, lo1) # w1" "10000 \<le> lo1"
  proof (cases ps)
    case Nil
    then show ?thesis using that Cons.prems(3) by simp
  next
    case (Cons p' ps')
    then show ?thesis using that \<open>\<forall>p\<in>set (p # ps). pulse_ok p\<close> by (cases p') simp
  qed
  have "m * 5000 - h < lo1" using m(2) next1(2) by linarith
  then obtain s2 where 2: "count_level b True 20 0 s1 = (Some m, s2)" "f s2 = (False, lo1 - (m * 5000 - h)) # w1"
    using count_level_run [OF assms h(1) _ m, of s1 True lo1 w1 0 20] 1(2) next1(1) \<open>m \<le> 20\<close> by (auto simp: h_def)
  have "f s2 = elapse (m * 5000 - h) (wave_of ps ((False, n) # w))" using 2(2) next1(1) \<open>m * 5000 - h < lo1\<close> by simp
  moreover have "m * 5000 - h < 10000" using m(2) by linarith
  ultimately obtain s' t' where "read_bits b (length ps) (shift_in x (pulse_bit p)) s2 =
      (foldl shift_in (shift_in x (pulse_bit p)) (map pulse_bit ps), s')"
      "f s' = elapse t' ((False, n) # w)" "t' < 10000"
    using Cons.IH [of s2 "m * 5000 - h"] Cons.prems(3,4) by fastforce
  then show ?case using 1(1) 2(1) \<open>6 < m \<longleftrightarrow> 35000 \<le> hi\<close> by (auto simp: p)
next
  case Nil
  then show ?case by (intro exI [of _ s] exI [of _ t]) simp
qed

lemma wave_of_append: "wave_of (ps @ qs) w = wave_of ps (wave_of qs w)"
  by (induction ps w rule: wave_of.induct) simp_all

lemma wave_of_starts:
  "10000 \<le> n \<Longrightarrow> \<forall>p\<in>set ps. pulse_ok p \<Longrightarrow> \<exists>lo w'. wave_of ps ((False, n) # w) = (False, lo) # w' \<and> 10000 \<le> lo"
  by (cases ps) auto

lemma read_bytes_run:
  assumes "reads_wave b f" "10000 \<le> n"
  shows "f s = elapse t (wave_of ps ((False, n) # w)) \<Longrightarrow> t < 10000 \<Longrightarrow> \<forall>p\<in>set ps. pulse_ok p \<Longrightarrow> length ps = 8 * k \<Longrightarrow>
    \<exists>s'. read_bytes b k s = (bytes_of k (map pulse_bit ps), s')"
proof (induction k arbitrary: ps s t)
  case (Suc k)
  let ?ps = "take 8 ps" and ?qs = "drop 8 ps"
  have split: "wave_of ps ((False, n) # w) = wave_of ?ps (wave_of ?qs ((False, n) # w))"
    by (simp flip: wave_of_append)
  have ok: "\<forall>p\<in>set ?ps. pulse_ok p" "\<forall>p\<in>set ?qs. pulse_ok p"
    using Suc.prems(3) by (auto dest: in_set_takeD in_set_dropD)
  obtain lo w' where q: "wave_of ?qs ((False, n) # w) = (False, lo) # w'" "10000 \<le> lo"
    using wave_of_starts [OF assms(2) ok(2)] by blast
  have len: "length ?ps = 8" "length ?qs = 8 * k" using Suc.prems(4) by simp_all
  obtain s1 t1 where 1: "read_bits b 8 0 s = (byte_msb (map pulse_bit ?ps), s1)" "f s1 = elapse t1 ((False, lo) # w')" "t1 < 10000"
    using read_bits_run [OF assms(1), of s t ?ps lo w' 0] Suc.prems(1,2) ok(1) q len(1) unfolding split byte_msb_def by auto
  obtain s2 where "read_bytes b k s1 = (bytes_of k (map pulse_bit ?qs), s2)"
    using Suc.IH [of s1 t1 ?qs] 1(2,3) ok(2) len(2) q(1) by auto
  then show ?case using 1(1) by (simp add: DHT11_read_byte_def take_map drop_map)
qed simp

lemma wait_level_run:
  assumes "reads_wave b f"
  shows "f s = (l, d) # (\<not> l, n) # w \<Longrightarrow> 0 < d \<Longrightarrow> d \<le> m * 10000 \<Longrightarrow> 10000 \<le> n \<Longrightarrow>
    \<exists>k s' t. wait_level b l (Suc m) s = (Suc k, s') \<and> f s' = (\<not> l, n - t) # w \<and> t < 10000"
proof (induction m arbitrary: d s)
  case (Suc m)
  let ?s = "udelay b 10 s"
  have f: "f ?s = elapse 10000 ((l, d) # (\<not> l, n) # w)" using reads_waveD(2) [OF assms(1), of 10 s] Suc.prems(1) by simp
  have "gpio_get_value b () s = l" using reads_waveD(1) [OF assms(1)] Suc.prems(1) by (simp add: line_def)
  then have step: "wait_level b l (Suc (Suc m)) s = wait_level b l (Suc m) ?s" by simp
  show ?case
  proof (cases "10000 < d")
    case True
    then show ?thesis using Suc.IH [of ?s "d - 10000"] Suc.prems f step by (simp del: wait_level.simps)
  next
    case False
    then have "10000 - d < n" using Suc.prems(2,4) by linarith
    then have "f ?s = (\<not> l, n - (10000 - d)) # w" using f False by simp
    moreover from this have "wait_level b l (Suc m) ?s = (Suc m, ?s)"
      using reads_waveD(1) [OF assms(1), of ?s] by (simp add: line_def)
    moreover have "10000 - d < 10000" using Suc.prems(2) by simp
    ultimately show ?thesis unfolding step by blast
  qed
qed simp

text \<open>
  C22: the driver reads the sensor. When the start of the transmission and all pulses have the lengths of a working sensor,
  the call returns the five bytes that the sensor sent if the last of them is the sum of the others, and nothing otherwise.
\<close>

theorem dht11_reads:
  assumes "reads_wave b f" "f (started b s) = (False, a) # (True, c) # wave_of ps ((False, n) # w)" "0 < a" "a \<le> 90000"
    "20000 \<le> c" "c \<le> 90000" "length ps = 40" "\<forall>p\<in>set ps. pulse_ok p" "10000 \<le> n"
    "bs = bytes_of 5 (map pulse_bit ps)"
  shows "\<exists>s'. DHT11_read b True count s =
    (if sum_list (take 4 bs) \<noteq> bs ! 4 then (0, [], s') else (int (min count 5), take (min count 5) bs, released b s'))"
proof -
  have ten: "(10 :: nat) = Suc 9" by simp
  obtain k s1 t where 1: "wait_level b False 10 (started b s) = (Suc k, s1)"
    "f s1 = (True, c - t) # wave_of ps ((False, n) # w)" "t < 10000"
    using wait_level_run [OF assms(1), of "started b s" False a c _ 9] assms(2-5) unfolding ten by auto
  obtain lo w' where q: "wave_of ps ((False, n) # w) = (False, lo) # w'" "10000 \<le> lo"
    using wave_of_starts [OF assms(9,8)] by blast
  have "0 < c - t" "c - t \<le> 9 * 10000" using 1(3) assms(5,6) by linarith+
  then obtain k2 s2 t2 where 2: "wait_level b True 10 s1 = (Suc k2, s2)" "f s2 = (False, lo - t2) # w'" "t2 < 10000"
    using wait_level_run [OF assms(1), of s1 True "c - t" lo w' 9] 1(2) q unfolding ten by (simp del: wait_level.simps) blast
  have "f s2 = elapse t2 (wave_of ps ((False, n) # w))" using 2(2,3) q by simp
  then obtain s3 where "read_bytes b 5 s2 = (bs, s3)"
    using read_bytes_run [OF assms(1,9) _ 2(3) assms(8), of s2 w 5] assms(7,10) by auto
  then show ?thesis using 1(1) 2(1) by (auto simp: DHT11_read_def)
qed

text \<open>A board that is nothing but the wave of a sensor, which reports 40 percent and 25 degrees.\<close>

definition wave_board :: "(unit, wave) board" where
  "wave_board = \<lparr>gpio_set_value = (\<lambda>_ _ w. w), gpio_get_value = (\<lambda>_. line), cfg_output = (\<lambda>_ w. w), cfg_input = (\<lambda>_ w. w),
     pull_up = (\<lambda>_ w. w), ndelay = elapse\<rparr>"

definition sensor_pulses :: "(nat \<times> nat) list" where
  "sensor_pulses = map (\<lambda>c. (50000, if c = CHR ''1'' then 70000 else 27000)) ''0010100000000000000110010000000001000001''"

lemma dht11_reads_witness:
  "\<exists>s'. DHT11_read wave_board True 8 ((True, 18040000) # (False, 80000) # (True, 80000) # wave_of sensor_pulses [(False, 50000)]) =
    (5, [40, 0, 25, 0, 65], released wave_board s')"
proof -
  have bits: "map pulse_bit sensor_pulses = map (\<lambda>c. c = CHR ''1'') ''0010100000000000000110010000000001000001''"
    by (simp add: sensor_pulses_def)
  have bs: "bytes_of 5 (map pulse_bit sensor_pulses) = [40, 0, 25, 0, 65]" unfolding bits by code_simp
  have ps: "length sensor_pulses = 40" "\<forall>p\<in>set sensor_pulses. pulse_ok p"
    by (simp_all add: sensor_pulses_def)
  have w: "reads_wave wave_board id" by (simp add: reads_wave_def wave_board_def)
  have "id (started wave_board ((True, 18040000) # (False, 80000) # (True, 80000) # v)) = (False, 80000) # (True, 80000) # v" for v
    by (simp add: started_def wave_board_def udelay_def msleep_def)
  from dht11_reads [OF w this [of "wave_of sensor_pulses [(False, 50000)]"] _ _ _ _ ps _ bs [symmetric], of 8] show ?thesis by simp
qed

end
