(* ===== verification/Ds18b20.thy ===== *)
theory Ds18b20
  imports Gpio
begin

text \<open>
  The driver of the thermometer (\<open>src/driver/ds18b20/ds18b20.c\<close>). Both sides use one line: a bit is a low pulse of the driver,
  long for a 0 and short for a 1, and after a short pulse the thermometer may hold the line low to answer a 0.
\<close>

record ds18b20 =
  tempH :: u8
  tempL :: u8

definition ds18b20_init :: "(unit, 's) board \<Rightarrow> 's \<Rightarrow> u8 \<times> 's" where
  "ds18b20_init b s =
     (let s = udelay b 10 (gpio_set_value b () True (cfg_output b () s));
          s = udelay b 700 (gpio_set_value b () False s);
          s = udelay b 30 (gpio_set_value b () True s);
          s = udelay b 100 (cfg_input b () s) in
      (if gpio_get_value b () s then 1 else 0, s))"

fun read_slots :: "(unit, 's) board \<Rightarrow> nat \<Rightarrow> u8 \<Rightarrow> 's \<Rightarrow> u8 \<times> 's" where
  "read_slots b 0 byte s = (byte, s)"
| "read_slots b (Suc i) byte s =
     (let s = udelay b 1 (gpio_set_value b () False (cfg_output b () s));
          s = cfg_input b () (gpio_set_value b () True s);
          byte = shift_down byte (gpio_get_value b () s) in
      read_slots b i byte (udelay b 60 s))"

definition ReadByte :: "(unit, 's) board \<Rightarrow> 's \<Rightarrow> u8 \<times> 's" where
  "ReadByte b s = read_slots b 8 0 s"

fun write_slots :: "(unit, 's) board \<Rightarrow> nat \<Rightarrow> u8 \<Rightarrow> 's \<Rightarrow> 's" where
  "write_slots b 0 byte s = s"
| "write_slots b (Suc i) byte s =
     (let s = udelay b 1 (gpio_set_value b () False s);
          s = udelay b 60 (if byte AND 1 \<noteq> 0 then gpio_set_value b () True s else s);
          s = udelay b 15 (gpio_set_value b () True s) in
      write_slots b i (drop_bit 1 byte) s)"

definition WriteByte :: "(unit, 's) board \<Rightarrow> u8 \<Rightarrow> 's \<Rightarrow> 's" where
  "WriteByte b byte s = gpio_set_value b () True (write_slots b 8 byte (cfg_output b () s))"

text \<open>The result of the reset is not used.\<close>

definition ds18b20_proc :: "(unit, 's) board \<Rightarrow> ds18b20 \<times> 's \<Rightarrow> ds18b20 \<times> 's" where
  "ds18b20_proc b = (\<lambda>(t, s).
     (let s = udelay b 400 (snd (ds18b20_init b s));
          s = msleep b 750 (WriteByte b 0x44 (WriteByte b 0xcc s));
          s = udelay b 400 (snd (ds18b20_init b s));
          s = WriteByte b 0xbe (WriteByte b 0xcc s);
          (l, s) = ReadByte b s;
          (h, s) = ReadByte b s in
      (\<lparr>tempH = h, tempL = l\<rparr>, s)))"

text \<open>The buffer of the caller is written directly.\<close>

definition ds18b20_read :: "(unit, 's) board \<Rightarrow> u8 list \<Rightarrow> ds18b20 \<times> 's \<Rightarrow> int \<times> u8 list \<times> ds18b20 \<times> 's" where
  "ds18b20_read b buf ts =
     (let (t, s) = ds18b20_proc b ts in
      (0, if uint (tempH t) * 256 + uint (tempL t) \<le> 2000 then buf[0 := tempL t, 1 := tempH t] else buf, t, s))"

subsection \<open>The line\<close>

text \<open>What the thermometer sees: the lengths of the low pulses so far, in nanoseconds, and of the one that lasts.\<close>

record wire =
  pulses :: "nat list"
  low :: "nat option"

fun drive_wire :: "bool \<Rightarrow> wire \<Rightarrow> wire" where
  "drive_wire True l = (case low l of None \<Rightarrow> l | Some n \<Rightarrow> l\<lparr>pulses := pulses l @ [n], low := None\<rparr>)"
| "drive_wire False l = (case low l of None \<Rightarrow> l\<lparr>low := Some 0\<rparr> | Some _ \<Rightarrow> l)"

text \<open>A thermometer is the level of the line after the pulses before.\<close>

locale one_wire =
  fixes b :: "(unit, 's) board" and f :: "'s \<Rightarrow> wire" and answer :: "nat list \<Rightarrow> bool"
  assumes set_pin [simp]: "f (gpio_set_value b () v s) = drive_wire v (f s)"
    and delay [simp]: "f (ndelay b n s) = (f s)\<lparr>low := map_option (\<lambda>m. m + n) (low (f s))\<rparr>"
    and config [simp]: "f (cfg_output b () s) = f s" "f (cfg_input b () s) = f s"
    and level: "low (f s) = None \<Longrightarrow> gpio_get_value b () s = answer (pulses (f s))"

text \<open>The lengths of the pulses for a byte, and the bits that the thermometer answers to \<open>n\<close> short pulses.\<close>

definition bit_pulse :: "bool \<Rightarrow> nat" where
  "bit_pulse c = (if c then 1000 else 61000)"

definition byte_pulses :: "u8 \<Rightarrow> nat list" where
  "byte_pulses x = map (\<lambda>i. bit_pulse (bit x i)) [0..<8]"

definition slot_bits :: "(nat list \<Rightarrow> bool) \<Rightarrow> nat list \<Rightarrow> nat \<Rightarrow> bool list" where
  "slot_bits answer ps n = map (\<lambda>i. answer (ps @ replicate (Suc i) 1000)) [0..<n]"

definition high :: "('s \<Rightarrow> wire) \<Rightarrow> 's \<Rightarrow> nat list \<Rightarrow> bool" where
  "high f s ps \<longleftrightarrow> f s = \<lparr>pulses = ps, low = None\<rparr>"

context one_wire
begin

lemma longer_delay: "f (udelay b n s) = (f s)\<lparr>low := map_option (\<lambda>m. m + n * 1000) (low (f s))\<rparr>"
    "f (msleep b n s) = (f s)\<lparr>low := map_option (\<lambda>m. m + n * 1000000) (low (f s))\<rparr>"
  by (simp_all add: udelay_def msleep_def)

lemma init_pulse: "high f s ps \<Longrightarrow> high f (snd (ds18b20_init b s)) (ps @ [700000])"
  by (simp add: high_def ds18b20_init_def longer_delay Let_def)

lemma write_slots_pulses: "high f s ps \<Longrightarrow> high f (write_slots b n x s) (ps @ map (\<lambda>i. bit_pulse (bit x i)) [0..<n])"
proof (induction n arbitrary: x s ps)
  case (Suc n)
  let ?s = "udelay b 1 (gpio_set_value b () False s)"
  let ?s = "udelay b 60 (if x AND 1 \<noteq> 0 then gpio_set_value b () True ?s else ?s)"
  have "x AND 1 \<noteq> 0 \<longleftrightarrow> bit x 0" by (simp add: bit_0 and_one_eq odd_iff_mod_2_eq_one)
  then have "high f (udelay b 15 (gpio_set_value b () True ?s)) (ps @ [bit_pulse (bit x 0)])"
    using Suc.prems by (simp add: high_def longer_delay bit_pulse_def)
  from Suc.IH [OF this, of "drop_bit 1 x"] show ?case
    by (cases "x AND 1 = 0") (simp_all add: Let_def map_upt_Suc bit_drop_bit_eq del: upt_Suc)
qed simp

lemma WriteByte_pulses: "high f s ps \<Longrightarrow> high f (WriteByte b x s) (ps @ byte_pulses x)"
proof -
  assume "high f s ps"
  then have "high f (cfg_output b () s) ps" by (simp add: high_def)
  from write_slots_pulses [OF this, of 8 x] show ?thesis by (simp add: high_def WriteByte_def byte_pulses_def)
qed

lemma read_slots_run:
  "high f s ps \<Longrightarrow> fst (read_slots b n x s) = foldl shift_down x (slot_bits answer ps n) \<and>
    high f (snd (read_slots b n x s)) (ps @ replicate n 1000)"
proof (induction n arbitrary: x s ps)
  case (Suc n)
  let ?s = "udelay b 1 (gpio_set_value b () False (cfg_output b () s))"
  let ?s = "cfg_input b () (gpio_set_value b () True ?s)"
  have "high f ?s (ps @ [1000])" using Suc.prems by (simp add: high_def longer_delay)
  then have "gpio_get_value b () ?s = answer (ps @ [1000])" "high f (udelay b 60 ?s) (ps @ [1000])"
    using level [of ?s] by (simp_all add: high_def longer_delay)
  moreover have "slot_bits answer ps (Suc n) = answer (ps @ [1000]) # slot_bits answer (ps @ [1000]) n"
    by (simp add: slot_bits_def map_upt_Suc del: upt_Suc)
  ultimately show ?case using Suc.IH [of "udelay b 60 ?s" "ps @ [1000]" "shift_down x (answer (ps @ [1000]))"]
    by (simp add: Let_def)
qed (simp add: slot_bits_def)

lemma ReadByte_run:
  "high f s ps \<Longrightarrow> \<exists>s'. ReadByte b s = (byte_lsb (slot_bits answer ps 8), s') \<and> high f s' (ps @ replicate 8 1000)"
  using read_slots_run [of s ps 8 0] by (auto simp: ReadByte_def byte_lsb_def prod_eq_iff)

lemma delay_high: "high f s ps \<Longrightarrow> high f (udelay b n s) ps" "high f s ps \<Longrightarrow> high f (msleep b n s) ps"
  by (simp_all add: high_def longer_delay)

end

text \<open>The pulses of a measurement up to the answer: a reset, the commands to skip the address and to convert, and again a reset
  and the commands to skip the address and to read.\<close>

definition measure_pulses :: "nat list" where
  "measure_pulses = [700000] @ byte_pulses 0xcc @ byte_pulses 0x44 @ [700000] @ byte_pulses 0xcc @ byte_pulses 0xbe"

context one_wire
begin

lemma proc_run:
  assumes "high f s ps"
  shows "\<exists>s'. ds18b20_proc b (t, s) =
      (\<lparr>tempH = byte_lsb (slot_bits answer (ps @ measure_pulses @ replicate 8 1000) 8),
        tempL = byte_lsb (slot_bits answer (ps @ measure_pulses) 8)\<rparr>, s') \<and>
    high f s' (ps @ measure_pulses @ replicate 16 1000)"
proof -
  note delay_high(1) [OF init_pulse [OF assms], of 400]
  note delay_high(2) [OF WriteByte_pulses [OF WriteByte_pulses [OF this, of "0xcc"], of "0x44"], of 750]
  note delay_high(1) [OF init_pulse [OF this], of 400]
  note WriteByte_pulses [OF WriteByte_pulses [OF this, of "0xcc"], of "0xbe"]
  from ReadByte_run [OF this] obtain s1 where 1: "ReadByte b (WriteByte b 0xbe (WriteByte b 0xcc (udelay b 400 (snd (ds18b20_init b
      (msleep b 750 (WriteByte b 0x44 (WriteByte b 0xcc (udelay b 400 (snd (ds18b20_init b s))))))))))) =
      (byte_lsb (slot_bits answer (ps @ measure_pulses) 8), s1)" "high f s1 (ps @ measure_pulses @ replicate 8 1000)"
    by (auto simp: measure_pulses_def)
  from ReadByte_run [OF 1(2)] obtain s2 where 2: "ReadByte b s1 =
      (byte_lsb (slot_bits answer (ps @ measure_pulses @ replicate 8 1000) 8), s2)"
      "high f s2 (ps @ measure_pulses @ replicate 8 1000 @ replicate 8 1000)" by auto
  have "replicate 8 (1000 :: nat) @ replicate 8 1000 = replicate 16 1000" by (simp flip: replicate_add)
  then show ?thesis using 1(1) 2 by (simp add: ds18b20_proc_def Let_def)
qed

end

text \<open>
  A measurement sends the reset and the commands of the thermometer, and delivers what it answers, two bytes with the lowest
  bit first, but only when they are a temperature of at most 125 degrees; a temperature below zero, which has its highest
  bit set, is never delivered.
\<close>

theorem ds18b20_reads:
  assumes "one_wire b f answer" "high f s ps"
    "l = byte_lsb (slot_bits answer (ps @ measure_pulses) 8)"
    "h = byte_lsb (slot_bits answer (ps @ measure_pulses @ replicate 8 1000) 8)"
  shows "\<exists>s'. ds18b20_read b buf (t, s) =
      (0, if uint h * 256 + uint l \<le> 2000 then buf[0 := l, 1 := h] else buf, \<lparr>tempH = h, tempL = l\<rparr>, s') \<and>
    high f s' (ps @ measure_pulses @ replicate 16 1000)"
  using one_wire.proc_run [OF assms(1,2), of t] assms(3,4) by (auto simp: ds18b20_read_def)

lemma below_zero: "bit h 7 \<Longrightarrow> \<not> uint h * 256 + uint l \<le> 2000" for h l :: u8
proof -
  assume "bit h 7"
  then have "bit (uint h) 7" by (simp add: bit_uint_iff)
  then have "odd (uint h div 128)" unfolding bit_iff_odd by simp
  then have "uint h div 128 \<noteq> 0" by auto
  then have "128 \<le> uint h" using uint_ge_0 [of h] by (cases "uint h < 128") simp_all
  then show ?thesis using uint_ge_0 [of l] by linarith
qed

text \<open>A board that is nothing but the line, with any thermometer on it.\<close>

definition wire_board :: "(nat list \<Rightarrow> bool) \<Rightarrow> (unit, wire) board" where
  "wire_board answer = \<lparr>gpio_set_value = (\<lambda>_. drive_wire), gpio_get_value = (\<lambda>_ l. answer (pulses l)), cfg_output = (\<lambda>_ l. l),
     cfg_input = (\<lambda>_ l. l), pull_up = (\<lambda>_ l. l), ndelay = (\<lambda>n l. l\<lparr>low := map_option (\<lambda>m. m + n) (low l)\<rparr>)\<rparr>"

interpretation wire: one_wire "wire_board answer" "\<lambda>l. l" answer for answer
  by unfold_locales (simp_all add: wire_board_def)

end
