(* ===== verification/Led_Driver.thy ===== *)
theory Led_Driver
  imports Gpio
begin

text \<open>
  The driver of the four lights (\<open>src/driver/led/leddriver.c\<close>). A low level lights one.
\<close>

datatype led_pin = GPN nat

definition LED_ON :: nat where "LED_ON = 1"
definition LED_OFF :: nat where "LED_OFF = 0"
definition LED_NUMNERS :: nat where "LED_NUMNERS = 4"

definition led_table :: "led_pin list" where
  "led_table = [GPN 4, GPN 2, GPN 3, GPN 1]"

definition leds_ioctl :: "(led_pin, 's) board \<Rightarrow> nat \<Rightarrow> nat \<Rightarrow> 's \<Rightarrow> int \<times> 's" where
  "leds_ioctl b cmd arg s =
     (if arg > LED_NUMNERS - 1 then (- 1, s)
      else (0,
        if cmd = LED_ON then gpio_set_value b (led_table ! arg) False s
        else if cmd = LED_OFF then gpio_set_value b (led_table ! arg) True s
        else s))"

definition leds_init :: "(led_pin, 's) board \<Rightarrow> 's \<Rightarrow> 's" where
  "leds_init b s = fold (\<lambda>p s. gpio_set_value b p True (cfg_output b p s)) led_table s"

subsection \<open>Lights\<close>

text \<open>What the board shows, in the order of the table, when its state is the levels of the pins.\<close>

locale led_board =
  fixes b :: "(led_pin, 's) board" and level :: "'s \<Rightarrow> led_pin \<Rightarrow> bool"
  assumes set_pin: "level (gpio_set_value b p v s) = (level s)(p := v)" and config: "level (cfg_output b p s) = level s"

definition lights :: "('s \<Rightarrow> led_pin \<Rightarrow> bool) \<Rightarrow> 's \<Rightarrow> bool list" where
  "lights level s = map (\<lambda>p. \<not> level s p) led_table"

context led_board
begin

lemma init_dark: "lights level (leds_init b s) = replicate LED_NUMNERS False"
  by (simp add: lights_def leds_init_def led_table_def set_pin config LED_NUMNERS_def numeral_eq_Suc)

text \<open>A command switches the light that it names and no other.\<close>

lemma ioctl_switches:
  assumes "arg < LED_NUMNERS" "cmd = LED_ON \<or> cmd = LED_OFF"
  shows "lights level (snd (leds_ioctl b cmd arg s)) = (lights level s)[arg := cmd = LED_ON]"
proof -
  have "arg = 0 \<or> arg = 1 \<or> arg = 2 \<or> arg = 3" using assms(1) by (auto simp: LED_NUMNERS_def)
  then show ?thesis using assms(2)
    by (auto simp: lights_def leds_ioctl_def led_table_def set_pin LED_NUMNERS_def LED_ON_def LED_OFF_def numeral_eq_Suc)
qed

end

definition level_board :: "(led_pin, led_pin \<Rightarrow> bool) board" where
  "level_board = \<lparr>gpio_set_value = (\<lambda>p v s. s(p := v)), gpio_get_value = (\<lambda>p s. s p), cfg_output = (\<lambda>_ s. s), cfg_input = (\<lambda>_ s. s),
     pull_up = (\<lambda>_ s. s), ndelay = (\<lambda>_ s. s)\<rparr>"

interpretation level: led_board level_board "\<lambda>s. s"
  by unfold_locales (simp_all add: level_board_def)

end
