(* ===== verification/Voice.thy ===== *)
theory Voice
  imports Adpcm Rtp_Packet Rtp_Queue Rtcp
begin

text \<open>
  The threads of the voice program (\<open>mod_cout\<close> and \<open>mod_cin\<close> of \<open>src/src/voice_comm/src/voice/comm.c\<close>, \<open>mod_sout\<close> of
  \<open>sound.c\<close>): one codes and sends what the sound device records, one receives packets and queues them, and one takes
  a packet every 40 milliseconds, decodes it and plays it. A session is a value here; what a thread reads from the sound
  device or a socket, and the memory that it allocates, are arguments.
\<close>

definition SAMPLES :: nat where
  "SAMPLES = 320"

definition SDES_CNAME :: u32 where "SDES_CNAME = 1"
definition SDES_TOOL :: u32 where "SDES_TOOL = 0x20"

subsection \<open>Sending\<close>

text \<open>The parameters of a packet; its extension is not used.\<close>

definition voice_param :: "bytes \<Rightarrow> rtp_param_t" where
  "voice_param outbuf =
     \<lparr>prm_flags = 0, prm_xdef = 0, prm_xlen = 0, prm_xhdr = [], prm_pt = 3, prm_len = int (SAMPLES div 2), prm_payload = outbuf\<rparr>"

record voice_out =
  out_rtp :: rtp_t
  out_vstr :: vstr_t
  out_state :: adpcm_state

definition cout_start :: "rtp_t \<Rightarrow> bytes \<Rightarrow> voice_out" where
  "cout_start s block = \<lparr>out_rtp = s, out_vstr = vstr_init block, out_state = \<lparr>valprev = 0, index = 0\<rparr>\<rparr>"

text \<open>The samples of one packet, and what is sent.\<close>

definition send_frame :: "u32 \<Rightarrow> u32 \<Rightarrow> u16 list \<Rightarrow> voice_out \<Rightarrow> (bytes \<times> voice_out) option" where
  "send_frame tv_sec tv_usec inbuf v =
     do {
       (outbuf, state) \<leftarrow> adpcm_coder inbuf SAMPLES (out_state v);
       (s, p) \<leftarrow> rtp_send tv_sec tv_usec (out_rtp v) (voice_param outbuf) (vstr_flush (out_vstr v));
       datagram \<leftarrow> copy_out p (head p) (size p);
       Some (datagram, \<lparr>out_rtp = s, out_vstr = p, out_state = state\<rparr>)
     }"

fun send_frames :: "(u32 \<times> u32 \<times> u16 list) list \<Rightarrow> voice_out \<Rightarrow> (bytes list \<times> voice_out) option" where
  "send_frames [] v = Some ([], v)"
| "send_frames ((tv_sec, tv_usec, inbuf) # fs) v =
     do { (d, v) \<leftarrow> send_frame tv_sec tv_usec inbuf v; (ds, v) \<leftarrow> send_frames fs v; Some (d # ds, v) }"

text \<open>One round of the loop: a report, and a hundred packets.\<close>

definition send_report :: "u32 \<Rightarrow> u32 \<Rightarrow> vstr_t \<Rightarrow> voice_out \<Rightarrow> (bytes \<times> vstr_t \<times> voice_out) option" where
  "send_report tv_sec tv_usec ctrl v =
     do {
       (s, ctrl) \<leftarrow> rtcp_send_ctrl tv_sec tv_usec (out_rtp v) (vstr_flush ctrl);
       ctrl \<leftarrow> rtcp_append_sdes s ctrl (SDES_CNAME OR SDES_TOOL);
       datagram \<leftarrow> copy_out ctrl (head ctrl) (size ctrl);
       Some (datagram, ctrl, v\<lparr>out_rtp := s\<rparr>)
     }"

definition mod_cout :: "u32 \<Rightarrow> u32 \<Rightarrow> (u32 \<times> u32 \<times> u16 list) list \<Rightarrow> vstr_t \<Rightarrow> voice_out \<Rightarrow> (bytes \<times> bytes list \<times> vstr_t \<times> voice_out) option" where
  "mod_cout tv_sec tv_usec frames ctrl v =
     do {
       (report, ctrl, v) \<leftarrow> send_report tv_sec tv_usec ctrl v;
       (ds, v) \<leftarrow> send_frames (take 100 frames) v;
       Some (report, ds, ctrl, v)
     }"

subsection \<open>Receiving\<close>

text \<open>\<open>recvfrom\<close> cuts a datagram to the length of the buffer. Its result is stored as the size, and \<open>vstr_adv_tail\<close> adds it
  once more. (When \<open>recvfrom\<close> fails the program ends.)\<close>

definition receive :: "bytes \<Rightarrow> vstr_t \<Rightarrow> vstr_t" where
  "receive datagram recv_data =
     (let xs = take RTP_MTU_SIZE datagram;
          recv_data = recv_data\<lparr>data := overwrite 0 xs (data recv_data), size := int (length xs)\<rparr> in
      vstr_adv_tail recv_data (size recv_data))"

definition receive_voice :: "u32 \<Rightarrow> u32 \<Rightarrow> bytes \<Rightarrow> bytes \<Rightarrow> rtp_t \<times> vstr_t \<Rightarrow> (rtp_t \<times> vstr_t) option" where
  "receive_voice tv_sec tv_usec block datagram = (\<lambda>(s, recv_data).
     do {
       let recv_data = receive datagram recv_data;
       (packet, s) \<leftarrow> rtp_recv tv_sec tv_usec block s recv_data;
       s \<leftarrow> (case packet of None \<Rightarrow> Some s | Some pk \<Rightarrow> map_option (\<lambda>(_, _, s). s) (rtp_enqueue s pk));
       Some (s, vstr_flush recv_data)
     })"

definition receive_report :: "u32 \<Rightarrow> u32 \<Rightarrow> rtp_source_t \<Rightarrow> bytes \<Rightarrow> rtp_t \<times> vstr_t \<Rightarrow> (rtp_t \<times> vstr_t) option" where
  "receive_report tv_sec tv_usec old datagram = (\<lambda>(s, recv_data).
     do {
       (_, s, recv_data) \<leftarrow> rtcp_recv tv_sec tv_usec old s (receive datagram recv_data);
       Some (s, vstr_flush recv_data)
     })"

subsection \<open>Playing\<close>

record voice_in =
  in_rtp :: rtp_t
  in_state :: adpcm_state
  in_outbuf :: "u16 list"
  in_fail :: int

definition sout_start :: "rtp_t \<Rightarrow> u16 list \<Rightarrow> voice_in" where
  "sout_start s outbuf = \<lparr>in_rtp = s, in_state = \<lparr>valprev = 0, index = 0\<rparr>, in_outbuf = outbuf, in_fail = 10\<rparr>"

text \<open>A tick of the timer, and what is written to the sound device. The payload is read from where the packet says it is.\<close>

definition play_member :: "u32 \<Rightarrow> voice_in \<Rightarrow> (u16 list option \<times> voice_in) option" where
  "play_member sid v =
     do {
       (packet, s) \<leftarrow> rtp_dequeue (in_rtp v) sid;
       let v = v\<lparr>in_rtp := s\<rparr>;
       v \<leftarrow> (case packet of
              None \<Rightarrow> Some v
            | Some pk \<Rightarrow>
                map_option (\<lambda>(outbuf, state). v\<lparr>in_fail := 0, in_outbuf := outbuf, in_state := state\<rparr>)
                  (adpcm_decoder (drop (nat (payload pk)) (mem pk)) SAMPLES (in_state v)));
       let v = v\<lparr>in_fail := in_fail v + 1\<rparr>;
       Some (if in_fail v < 10 then Some (in_outbuf v) else None, v)
     }"

definition mod_sout :: "voice_in \<Rightarrow> (u16 list option \<times> voice_in) option" where
  "mod_sout v =
     do {
       let s = in_rtp v;
       (member, h) \<leftarrow> ohtbl_traverse (ohtbl_flush (members s));
       let v = v\<lparr>in_rtp := s\<lparr>members := h\<rparr>\<rparr>;
       case member of
         NULL \<Rightarrow> Some (None, v)
       | Vacated \<Rightarrow> None
       | Item (sid, a) \<Rightarrow> play_member sid v
     }"

subsection \<open>A packet from end to end\<close>

lemma rtp_send_max: "rtp_send sec us s param p = Some (s', p') \<Longrightarrow> max p' = max p"
  by (auto simp: rtp_send_def send_extension_def vstr_put_tail_def copy_in_def vstr_set_def vstr_adv_tail_def Let_def
      split: if_splits Option.bind_splits)

text \<open>The state of the sender between two packets.\<close>

definition sender_ok :: "voice_out \<Rightarrow> bool" where
  "sender_ok v \<longleftrightarrow> csrc_ok (out_rtp v) \<and> max (out_vstr v) = 1500 \<and> length (data (out_vstr v)) = 1500 \<and> adpcm_state_ok (out_state v)"

text \<open>The samples that the coder itself takes for the decoded ones, and its next state.\<close>

definition coded :: "u16 list \<Rightarrow> adpcm_state \<Rightarrow> u16 list \<times> adpcm_state" where
  "coded xs st = pack_run (run_of xs st)"

lemma length_wire:
  assumes "csrc_ok s" "prm_flags param = 0"
  shows "length (rtp_wire s param ts) = 12 + 4 * cc s + length (prm_payload param)"
proof -
  have "length (concat (map le32 (csrcs s))) = 4 * cc s"
    using assms(1) by (simp add: csrcs_def csrc_ok_def length_concat comp_def sum_list_triv)
  then show ?thesis using assms(2) by (simp add: rtp_wire_def wire_extension_def wire_fixed_def)
qed

lemma send_frame_run:
  assumes "sender_ok v" "length xs = SAMPLES"
  shows "\<exists>bs v'. send_frame sec us xs v = Some (rtp_wire (out_rtp v) (voice_param bs) (now_us sec us), v') \<and>
    out_rtp v' = after_send (out_rtp v) \<and> out_state v' = snd (coded xs (out_state v)) \<and> sender_ok v' \<and>
    length bs = 160 \<and> (\<forall>rest. adpcm_decoder (bs @ rest) SAMPLES (out_state v) = Some (coded xs (out_state v)))"
proof -
  have v: "csrc_ok (out_rtp v)" "max (out_vstr v) = 1500" "length (data (out_vstr v)) = 1500" "adpcm_state_ok (out_state v)"
    using assms(1) by (simp_all add: sender_ok_def)
  obtain bs where bs: "adpcm_coder xs SAMPLES (out_state v) = Some (bs, snd (coded xs (out_state v)))" "length bs = 160"
    "\<forall>rest. adpcm_decoder (bs @ rest) SAMPLES (out_state v) = Some (coded xs (out_state v))"
    using adpcm_coder_run [OF v(4), of xs] assms(2) by (fastforce simp: coded_def SAMPLES_def)
  let ?w = "rtp_wire (out_rtp v) (voice_param bs) (now_us sec us)"
  have ok: "param_ok (voice_param bs)" using bs(2) by (simp add: param_ok_def voice_param_def SAMPLES_def)
  have "length ?w \<le> 232" using length_wire [OF v(1)] v(1) bs(2) by (simp add: voice_param_def csrc_ok_def)
  then obtain p where p: "rtp_send sec us (out_rtp v) (voice_param bs) (vstr_flush (out_vstr v)) = Some (after_send (out_rtp v), p)"
      "vstr_ok p" "contents p = ?w"
    using send_wire [OF v(1) ok, of "vstr_flush (out_vstr v)" sec us] v(2,3) by (auto simp: vstr_flush_def RTP_PACKET_IDX_def)
  have "max p = 1500" using rtp_send_max [OF p(1)] v(2) by (simp add: vstr_flush_def)
  moreover from this have "length (data p) = 1500" using p(2) by (simp add: vstr_ok_def)
  moreover have "csrc_ok (after_send (out_rtp v))" using v(1) by (simp add: csrc_ok_def csrcs_def after_send_def)
  ultimately have "sender_ok \<lparr>out_rtp = after_send (out_rtp v), out_vstr = p, out_state = snd (coded xs (out_state v))\<rparr>"
    using pack_run_ok(1) [OF v(4)] by (simp add: sender_ok_def coded_def)
  then show ?thesis using bs p(1) copy_out_contents [OF p(2)] p(3) by (intro exI [of _ bs] exI conjI) (simp_all add: send_frame_def)
qed

text \<open>The receiver knows the source, as the member that joined first, and expects the packet with the next number.\<close>

definition knows :: "rtp_t \<Rightarrow> u32 \<Rightarrow> nat \<Rightarrow> bool" where
  "knows s sid a \<longleftrightarrow> (\<exists>ps ms. members_ok (members s) ps \<and> elems (members s) ps = (sid, a) # ms) \<and>
     \<not> stray (members s) (sid, 0) \<and> a < length (sources s)"

definition expects :: "rtp_source_t \<Rightarrow> u16 \<Rightarrow> bool" where
  "expects r sq \<longleftrightarrow> holds (pqueue r) [] \<and> sint (fail_count r) < RTP_MAX_FAIL_COUNT \<and> (min_seq r = 0 \<or> min_seq r = sq)"

definition has_packet :: "rtp_source_t \<Rightarrow> rtp_packet_t \<Rightarrow> bool" where
  "has_packet r pk \<longleftrightarrow> holds (pqueue r) [pk] \<and> min_seq r = pkt_seq (mem pk)"

lemma knows_find: "knows s sid a \<Longrightarrow> rtp_find_member (members s) sid = Item (sid, a)"
  unfolding knows_def using find_member [of "members s" _ sid] by force

lemma knows_sources [simp]: "knows (s\<lparr>sources := (sources s)[b := r]\<rparr>) sid a = knows s sid a"
  by (simp add: knows_def)

lemma expects_jitter: "expects (rtp_update_jitter sec us ts r) sq = expects r sq"
  by (simp add: expects_def rtp_update_jitter_def Let_def)

lemma expects_enqueue:
  assumes "expects r (pkt_seq (mem pk))"
  shows "\<exists>r'. enqueue_member r pk = Some (0, [], r') \<and> has_packet r' pk"
proof -
  have fc: "sint (fail_count r) < RTP_MAX_FAIL_COUNT" and h: "holds (pqueue r) []"
    and m: "min_seq r = 0 \<or> min_seq r = pkt_seq (mem pk)" using assms by (simp_all add: expects_def)
  obtain q where q: "phtbl_insert (pqueue r) pk = Some (0, [], q)" "holds q ([] @ [pk])" using holds_insert [OF h, of pk] by auto
  note st = enqueue_stats_fields [OF fc, of "pkt_seq (mem pk)"]
  have "min_seq (enqueue_stats (pkt_seq (mem pk)) r) = pkt_seq (mem pk)" using m st(3) by auto
  then show ?thesis using q st(1) by (simp add: enqueue_member_def has_packet_def)
qed

lemma has_packet_dequeue:
  assumes "has_packet r pk"
  shows "\<exists>r'. dequeue_member r = Some (Some pk, r') \<and> expects r' (pkt_seq (mem pk) + 1)"
proof -
  have h: "holds (pqueue r) [pk]" and m: "min_seq r = pkt_seq (mem pk)" using assms by (simp_all add: has_packet_def)
  obtain q where q: "rtp_get_package (pqueue r) (min_seq r) = Some (find (\<lambda>k. pkt_seq (mem k) = min_seq r) [pk], q)"
      "holds q (filter (\<lambda>k. pkt_seq (mem k) \<noteq> min_seq r) [pk])"
    using holds_get [OF h, of "min_seq r"] m by auto
  then show ?thesis using m by (simp add: dequeue_member_def Let_def dequeue_advance_def expects_def RTP_MAX_FAIL_COUNT_def)
qed

text \<open>The size of the datagram is counted twice: what lies behind it in the buffer is read as a part of it, and behind the end
  of the buffer when it has more than 750 bytes.\<close>

definition buffer_ok :: "vstr_t \<Rightarrow> bool" where
  "buffer_ok v \<longleftrightarrow> head v = 0 \<and> length (data v) = RTP_MTU_SIZE"

lemma receive_reads:
  assumes "buffer_ok v" "length d \<le> 750"
  shows "\<exists>junk. copy_out (receive d v) (head (receive d v)) (size (receive d v)) = Some (d @ junk) \<and> length junk = length d"
  using assms
  by (intro exI [of _ "take (length d) (drop (length d) (data v))"])
    (simp add: buffer_ok_def receive_def Let_def vstr_adv_tail_def copy_out_def RTP_MTU_SIZE_def overwrite_def nat_mult_distrib)

lemma receive_overread:
  assumes "buffer_ok v" "750 < length d" "length d \<le> 1500"
  shows "receive_voice sec us block d (s, v) = None"
  using assms
  by (simp add: buffer_ok_def receive_voice_def receive_def Let_def vstr_adv_tail_def copy_out_def RTP_MTU_SIZE_def overwrite_def
      rtp_recv_def)

lemma receive_buffer: "buffer_ok v \<Longrightarrow> buffer_ok (vstr_flush (receive d v))"
  by (simp add: buffer_ok_def vstr_flush_def receive_def Let_def vstr_adv_tail_def overwrite_def RTP_MTU_SIZE_def)

lemma receive_voice_run:
  assumes s0: "csrc_ok s0" "length bs = 160" and s: "knows s (ssrc s0) a" "expects (sources s ! a) (seq s0)"
    and v: "buffer_ok v" "length block = RTP_PACKET_SIZE"
  shows "\<exists>s' v' pk rest. receive_voice sec us block (rtp_wire s0 (voice_param bs) ts) (s, v) = Some (s', v') \<and> buffer_ok v' \<and>
    knows s' (ssrc s0) a \<and> has_packet (sources s' ! a) pk \<and> pkt_seq (mem pk) = seq s0 \<and> drop (nat (payload pk)) (mem pk) = bs @ rest"
proof -
  let ?d = "rtp_wire s0 (voice_param bs) ts"
  have "length ?d \<le> 232" using length_wire [OF s0(1)] s0 by (simp add: voice_param_def csrc_ok_def)
  moreover from this obtain junk where out: "copy_out (receive ?d v) (head (receive ?d v)) (size (receive ?d v)) = Some (?d @ junk)"
    "length junk = length ?d" using receive_reads [OF v(1), of ?d] by fastforce
  define param where "param = (voice_param bs)\<lparr>prm_payload := bs @ junk, prm_len := int (160 + length junk)\<rparr>"
  have wire: "?d @ junk = rtp_wire s0 param ts"
    by (simp add: rtp_wire_def wire_fixed_def wire_extension_def param_def voice_param_def)
  have param: "param_ok param" "prm_flags param = 0" "prm_pt param = 3" "prm_payload param = bs @ junk"
    using s0(2) by (simp_all add: param_def param_ok_def voice_param_def)
  have a: "rtp_find_member (members s) (ssrc s0) = Item (ssrc s0, a)" "a < length (sources s)"
    using knows_find [OF s(1)] s(1) by (simp_all add: knows_def)
  have "length (rtp_wire s0 param ts) \<le> RTP_MTU_SIZE"
    using calculation out(2) by (simp flip: wire add: RTP_MTU_SIZE_def)
  then obtain pk where pk: "rtp_recv sec us block s (receive ?d v) =
      Some (Some pk, s\<lparr>sources := (sources s)[a := rtp_update_jitter sec us ts (sources s ! a)]\<rparr>)" "accepted pk s0 param ts"
    using recv_wire [OF s0(1) param(1) out(1) [unfolded wire] _ v(2) _ _ a] param(2,3)
    by (auto simp: RTCP_TYPE_MIN_def mask_eq_exp_minus_1)
  let ?s = "s\<lparr>sources := (sources s)[a := rtp_update_jitter sec us ts (sources s ! a)]\<rparr>"
  have seq: "pkt_seq (mem pk) = seq s0" "pkt_ssrc (mem pk) = ssrc s0" using pk(2) by (simp_all add: accepted_def)
  obtain r where r: "enqueue_member (sources ?s ! a) pk = Some (0, [], r)" "has_packet r pk"
    using expects_enqueue [of "sources ?s ! a" pk] s(2) a(2) seq(1) by (auto simp: expects_jitter)
  have "rtp_enqueue ?s pk = Some (0, [], ?s\<lparr>sources := (sources ?s)[a := r]\<rparr>)"
    using a r(1) by (simp add: rtp_enqueue_def seq(2) mget_def mput_def)
  then have "receive_voice sec us block ?d (s, v) = Some (?s\<lparr>sources := (sources ?s)[a := r]\<rparr>, vstr_flush (receive ?d v))"
    using pk(1) by (simp add: receive_voice_def)
  moreover have "take (nat (pay_len pk)) (drop (nat (payload pk)) (mem pk)) = bs @ junk"
    using pk(2) unfolding accepted_def param(4) by blast
  then have "drop (nat (payload pk)) (mem pk) = bs @ junk @ drop (nat (pay_len pk)) (drop (nat (payload pk)) (mem pk))"
    by (metis append.assoc append_take_drop_id)
  moreover have "knows (?s\<lparr>sources := (sources ?s)[a := r]\<rparr>) (ssrc s0) a" using s(1) by (simp add: knows_def)
  ultimately show ?thesis using receive_buffer [OF v(1)] r(2) seq(1) a(2) by fastforce
qed

text \<open>A tick plays the packet that is queued.\<close>

lemma traverse_first:
  assumes "members_ok h ps" "elems h ps = (sid, a) # ms"
  shows "\<exists>c. ohtbl_traverse (ohtbl_flush h) = Some (Item (sid, a), h\<lparr>cur := c\<rparr>)"
proof -
  have "traverse_steps (Suc (length ps)) (ohtbl_flush h) = Some (map Item (elems h ps) @ [NULL], h\<lparr>cur := Some (ht_tail h)\<rparr>)"
    using traverse_all assms(1) by (auto simp: members_ok_def)
  then obtain h' where "ohtbl_traverse (ohtbl_flush h) = Some (Item (sid, a), h')"
    using assms(2) by (auto split: Option.bind_splits)
  then show ?thesis by (auto simp: ohtbl_traverse_def ohtbl_flush_def split: if_splits Option.bind_splits)
qed

lemma knows_cursor: "knows (s\<lparr>members := (members s)\<lparr>cur := c\<rparr>\<rparr>) sid a = knows s sid a"
  by (simp add: knows_def members_ok_def ohtbl_ok_def reaches_def elems_def probe_def rm.uses_def)

lemma mod_sout_run:
  assumes "knows (in_rtp v) sid a" "has_packet (sources (in_rtp v) ! a) pk" "drop (nat (payload pk)) (mem pk) = bs @ rest"
    "adpcm_decoder (bs @ rest) SAMPLES (in_state v) = Some (ys, st)"
  shows "\<exists>v'. mod_sout v = Some (Some ys, v') \<and> in_state v' = st \<and> knows (in_rtp v') sid a \<and>
    expects (sources (in_rtp v') ! a) (pkt_seq (mem pk) + 1)"
proof -
  let ?s = "in_rtp v"
  obtain ps ms where m: "members_ok (members ?s) ps" "elems (members ?s) ps = (sid, a) # ms" and len: "a < length (sources ?s)"
    using assms(1) by (auto simp: knows_def)
  obtain c where c: "ohtbl_traverse (ohtbl_flush (members ?s)) = Some (Item (sid, a), (members ?s)\<lparr>cur := c\<rparr>)"
    using traverse_first [OF m] by blast
  let ?t = "?s\<lparr>members := (members ?s)\<lparr>cur := c\<rparr>\<rparr>"
  have k: "knows ?t sid a" using assms(1) by (simp only: knows_cursor)
  obtain r where r: "dequeue_member (sources ?s ! a) = Some (Some pk, r)" "expects r (pkt_seq (mem pk) + 1)"
    using has_packet_dequeue [OF assms(2)] by blast
  let ?u = "?t\<lparr>sources := (sources ?t)[a := r]\<rparr>"
  have "rtp_dequeue ?t sid = Some (Some pk, ?u)"
    using knows_find [OF k] r(1) len by (simp add: rtp_dequeue_def mget_def mput_def)
  then have "mod_sout v = Some (Some ys, v\<lparr>in_rtp := ?u, in_fail := 1, in_outbuf := ys, in_state := st\<rparr>)"
    using c assms(3,4) by (simp add: mod_sout_def play_member_def Let_def)
  moreover have "knows ?u sid a" using k by (simp add: knows_def)
  ultimately show ?thesis using r(2) len by simp
qed

subsection \<open>A call\<close>

text \<open>A packet after the other: it is sent, received and played.\<close>

type_synonym round = "(u32 \<times> u32) \<times> (u32 \<times> u32) \<times> bytes \<times> u16 list"

fun voice_call :: "round list \<Rightarrow> voice_out \<Rightarrow> vstr_t \<Rightarrow> voice_in \<Rightarrow> (u16 list option list \<times> voice_out \<times> vstr_t \<times> voice_in) option" where
  "voice_call [] v_out buf v_in = Some ([], v_out, buf, v_in)"
| "voice_call (((sec0, us0), (sec1, us1), block, inbuf) # rounds) v_out buf v_in =
     do {
       (datagram, v_out) \<leftarrow> send_frame sec0 us0 inbuf v_out;
       (s, buf) \<leftarrow> receive_voice sec1 us1 block datagram (in_rtp v_in, buf);
       (sound, v_in) \<leftarrow> mod_sout (v_in\<lparr>in_rtp := s\<rparr>);
       (sounds, v_out, buf, v_in) \<leftarrow> voice_call rounds v_out buf v_in;
       Some (sound # sounds, v_out, buf, v_in)
     }"

fun heard :: "adpcm_state \<Rightarrow> u16 list list \<Rightarrow> u16 list list" where
  "heard st [] = []"
| "heard st (xs # xss) = fst (coded xs st) # heard (snd (coded xs st)) xss"

lemma voice_call_run:
  "sender_ok v_out \<Longrightarrow> knows (in_rtp v_in) (ssrc (out_rtp v_out)) a \<Longrightarrow> expects (sources (in_rtp v_in) ! a) (seq (out_rtp v_out)) \<Longrightarrow>
    in_state v_in = out_state v_out \<Longrightarrow> buffer_ok buf \<Longrightarrow>
    \<forall>(_, _, block, inbuf)\<in>set rounds. length block = RTP_PACKET_SIZE \<and> length inbuf = SAMPLES \<Longrightarrow>
    \<exists>v_out' buf' v_in'. voice_call rounds v_out buf v_in =
      Some (map Some (heard (out_state v_out) (map (\<lambda>(_, _, _, inbuf). inbuf) rounds)), v_out', buf', v_in')"
proof (induction rounds arbitrary: v_out buf v_in)
  case (Cons r rounds)
  obtain sec0 us0 sec1 us1 block xs where r: "r = ((sec0, us0), (sec1, us1), block, xs)" by (metis prod.collapse)
  have len: "length xs = SAMPLES" "length block = RTP_PACKET_SIZE" using Cons.prems(6) r by auto
  let ?st = "out_state v_out" and ?s0 = "out_rtp v_out"
  obtain bs v1 where send: "send_frame sec0 us0 xs v_out = Some (rtp_wire ?s0 (voice_param bs) (now_us sec0 us0), v1)"
    and v1: "out_rtp v1 = after_send ?s0" "out_state v1 = snd (coded xs ?st)"
    and v: "sender_ok v1" "length bs = 160" "\<forall>rest. adpcm_decoder (bs @ rest) SAMPLES ?st = Some (coded xs ?st)"
    using send_frame_run [OF Cons.prems(1) len(1)] by blast
  have "csrc_ok ?s0" using Cons.prems(1) by (simp add: sender_ok_def)
  from receive_voice_run [OF this v(2) Cons.prems(2,3,5) len(2)] obtain s buf' pk rest
    where recv: "receive_voice sec1 us1 block (rtp_wire ?s0 (voice_param bs) (now_us sec0 us0)) (in_rtp v_in, buf) = Some (s, buf')" "buffer_ok buf'" "knows s (ssrc ?s0) a"
      "has_packet (sources s ! a) pk" "pkt_seq (mem pk) = seq ?s0" "drop (nat (payload pk)) (mem pk) = bs @ rest" by blast
  have "adpcm_decoder (bs @ rest) SAMPLES (in_state (v_in\<lparr>in_rtp := s\<rparr>)) = Some (fst (coded xs ?st), snd (coded xs ?st))"
    using v(3) Cons.prems(4) by simp
  from mod_sout_run [OF _ _ recv(6) this, of "ssrc ?s0" a] obtain w
    where w: "mod_sout (v_in\<lparr>in_rtp := s\<rparr>) = Some (Some (fst (coded xs ?st)), w)" "in_state w = snd (coded xs ?st)"
      "knows (in_rtp w) (ssrc ?s0) a" "expects (sources (in_rtp w) ! a) (seq ?s0 + 1)"
    using recv(3-5) by auto
  have "\<exists>v_out' buf'' v_in'. voice_call rounds v1 buf' w =
      Some (map Some (heard (out_state v1) (map (\<lambda>(_, _, _, inbuf). inbuf) rounds)), v_out', buf'', v_in')"
    by (rule Cons.IH [OF v(1)]) (use w v1 recv(2) Cons.prems(6) in \<open>simp_all add: after_send_def\<close>)
  then show ?case using send v1(2) recv(1) w(1) by (auto simp: r)
qed simp

text \<open>
  C14: a call is heard. When every packet arrives before the next one is sent, the receiver plays for each of them 320
  samples, exactly those that the coder of the sender reconstructs, for a call of any length and past the wrap-around of the
  sequence numbers. It must know the source and expect its next number, and its decoder must be in the state of the coder.
\<close>

theorem voice_call_heard:
  assumes "sender_ok v_out" "knows (in_rtp v_in) (ssrc (out_rtp v_out)) a"
    "expects (sources (in_rtp v_in) ! a) (seq (out_rtp v_out))" "in_state v_in = out_state v_out" "buffer_ok buf"
    "\<forall>(_, _, block, inbuf)\<in>set rounds. length block = RTP_PACKET_SIZE \<and> length inbuf = SAMPLES"
  shows "\<exists>v_out' buf' v_in'. voice_call rounds v_out buf v_in =
    Some (map Some (heard (out_state v_out) (map (\<lambda>(_, _, _, inbuf). inbuf) rounds)), v_out', buf', v_in')"
  by (rule voice_call_run [OF assms])

text \<open>The first two packets of a call, with the numbers 65535 and 0: silence, and a step.\<close>

definition demo_rounds :: "round list" where
  "demo_rounds = [((0, 0), (0, 1), replicate 1516 0, replicate 320 0), ((0, 40000), (0, 40001), replicate 1516 0, replicate 320 1000)]"

lemma voice_call_heard_witness:
  "\<forall>old. \<exists>v_out' buf' v_in'. voice_call demo_rounds (cout_start demo_session (replicate 1500 0)) (vstr_init (replicate 1500 0))
      (sout_start (queue_session old) (replicate 320 0)) =
    Some (map Some (heard \<lparr>valprev = 0, index = 0\<rparr> [replicate 320 0, replicate 320 1000]), v_out', buf', v_in')"
proof
  fix old
  let ?s = "queue_session old" and ?out = "cout_start demo_session (replicate 1500 0)"
  let ?in = "sout_start ?s (replicate 320 0)"
  obtain qs where "members_ok (joined [(7, 0)]) qs" "elems (joined [(7, 0)]) qs = [(7, 0)]" "\<forall>k. \<not> stray (joined [(7, 0)]) k"
    using joined_ok [of "[(7, 0)]"] by (auto simp del: join.simps)
  then have "knows (in_rtp ?in) (ssrc (out_rtp ?out)) 0"
    by (auto simp: knows_def sout_start_def cout_start_def queue_session_def demo_session_def simp del: join.simps)
  moreover have "expects (sources (in_rtp ?in) ! 0) (seq (out_rtp ?out))"
    using new_member_queued [of old 7]
    by (simp add: expects_def queued_def sout_start_def queue_session_def rtp_new_member_def)
  moreover have "sender_ok ?out"
    by (simp add: sender_ok_def cout_start_def demo_ok vstr_init_def adpcm_state_ok_def)
  moreover have "in_state ?in = out_state ?out" by (simp add: sout_start_def cout_start_def)
  moreover have "buffer_ok (vstr_init (replicate 1500 0))" by (simp add: buffer_ok_def vstr_init_def RTP_MTU_SIZE_def)
  moreover have "\<forall>(_, _, block, inbuf)\<in>set demo_rounds. length block = RTP_PACKET_SIZE \<and> length inbuf = SAMPLES"
    by (simp add: demo_rounds_def RTP_PACKET_SIZE_def RTP_PACKET_IDX_def RTP_MTU_SIZE_def SAMPLES_def)
  ultimately have "\<exists>v_out' buf' v_in'. voice_call demo_rounds ?out (vstr_init (replicate 1500 0)) ?in =
      Some (map Some (heard (out_state ?out) (map (\<lambda>(_, _, _, inbuf). inbuf) demo_rounds)), v_out', buf', v_in')"
    using voice_call_heard by blast
  then show "\<exists>v_out' buf' v_in'. voice_call demo_rounds ?out (vstr_init (replicate 1500 0)) ?in =
      Some (map Some (heard \<lparr>valprev = 0, index = 0\<rparr> [replicate 320 0, replicate 320 1000]), v_out', buf', v_in')"
    by (simp add: cout_start_def demo_rounds_def del: voice_call.simps heard.simps replicate.simps)
qed

end
