(* ===== verification/Spec2Isabelle.thy ===== *)
theory Spec2Isabelle
  imports Dev_Control Sms Base64 Adpcm Md5_User Rand32 Rtp_Queue Rtcp Lunar_Calendar Sms_Command Timer_Run Socket_Service Mail Nrf24l01 Dht11 Ds18b20 Led_Driver Voice
begin

text \<open>
  A verification development for SmartSDK, the firmware of a smart-home hub: a controller that switches lamps and curtains
  over a Zigbee coordinator on a serial line, is commanded by an app, by text messages and by a timer, and informs of
  alarms by mail and text message. Beside it the repository holds the program for voice calls over RTP and small tools.

  \<^bold>\<open>The parts and how they interact.\<close> The hub program (\<open>src/src/dev_manage\<close>) is a set of threads
  around database files, a queue and two serial lines:

  \<^item> the Zigbee thread (\<open>uart_common.c\<close>, \<open>uart.c\<close>) reads messages of the coordinator; a device that
    reports itself is stored with its network address in the database, the echo of a command goes into the reply queue
    (\<open>uart_quene.c\<close>), an alarm starts the threads that inform the user;
  \<^item> a thread per connection of the app (\<open>socketd.c\<close>), a thread per text message of a user
    (\<open>sms_control.c\<close>) and the timer (\<open>timertask.c\<close>) look up devices in the database
    (\<open>dev_db.c\<close>) and send commands to them (\<open>dev_control.c\<close>): they write a frame to the coordinator and
    poll the reply queue until the switch has echoed it;
  \<^item> the alarm list (\<open>alarm_db.c\<close>) says who is informed and whose text messages are obeyed; text messages are
    exchanged with a modem (\<open>sms.c\<close>), mails are sent over SMTP (\<open>mail.c\<close>).

  The voice program (\<open>src/src/voice_comm\<close>) keeps the members of an RTP session in hash tables, builds and parses
  packets in byte strings that grow at both ends, reorders received packets, reports by RTCP, and codes sound by ADPCM. The
  kernel drivers (\<open>src/driver\<close>) reach a radio, two sensors and four lights by single pins.

  \<^bold>\<open>Theories and sources.\<close>

  \<^item> \<open>Prelude\<close>, \<open>C_Library\<close>: types, lemma collections, and the C library functions on strings that the
    sources use (\<open>strtol\<close>, \<open>strtok\<close>, \<open>strstr\<close>, the conversions of \<open>sprintf\<close>).
  \<^item> \<open>Uart_Queue\<close> (\<open>uart_quene.c\<close>): the slots of the reply queue; interface \<open>reply_store\<close>,
    and the wait for a reply with the other threads as an environment.
  \<^item> \<open>Dev_Control\<close> (\<open>dev_control.c\<close>, \<open>dev.h\<close>): the command table and the six control functions.
  \<^item> \<open>Sql\<close>, \<open>Sql_File\<close>: the statements that the sources build, read back as syntax and run on tables;
    interface \<open>sql_file\<close> for a database file behind an opening function.
  \<^item> \<open>Dev_Db\<close>, \<open>Dev_Tables\<close>, \<open>Dev_Manage\<close> (\<open>dev_db.c\<close>, \<open>dev_add.c\<close>,
    \<open>dev_del.c\<close>, \<open>dev_edit.c\<close>): the functions as they build statements, what they do to the tables, and the
    database as an abstract machine on lists of devices, addresses and groups.
  \<^item> \<open>Uart_Thread\<close>, \<open>Uart_Link\<close> (\<open>uart.c\<close>, \<open>uart_common.c\<close>, \<open>led.c\<close>,
    \<open>ring.c\<close>, \<open>net_broadcast.c\<close>, \<open>wechat.c\<close>, parts of \<open>mail_common.c\<close>,
    \<open>sms_common.c\<close>): reading and handling the messages, forwarding commands, and both together.
  \<^item> \<open>Alarm_Db\<close>, \<open>Alarm_List\<close> (\<open>alarm_db.c\<close>, \<open>alarm_common.c\<close>): the alarm list and
    its abstraction, a map from type and value to open or closed.
  \<^item> \<open>Sms\<close> (\<open>sms.c\<close>), \<open>Sms_Control\<close>, \<open>Sms_Command\<close> (\<open>sms_control.c\<close>,
    \<open>sms_common.c\<close>): PDU building and parsing, the 7-bit alphabet, and the threads around them.
  \<^item> \<open>Calendar_Time\<close>, \<open>Timertask\<close>, \<open>Timer_Tables\<close>, \<open>Timer_Run\<close>
    (\<open>timertask.c\<close>, \<open>timertask_db.c\<close>): the clock and calendar, the tasks, which are due, their execution.
  \<^item> \<open>Family_Group\<close> (\<open>familygroup.c\<close>), \<open>City_Id\<close> (\<open>cityid.c\<close>),
    \<open>Socketd\<close>, \<open>Socket_Service\<close> (\<open>socketd.c\<close>): the requests of the app and their effects.
  \<^item> \<open>Base64\<close>, \<open>Mail\<close> (\<open>mail.c\<close>, \<open>mail_common.c\<close>): the encoder, the dialogue with a
    mail server, and the thread that mails an alarm.
  \<^item> \<open>Adpcm\<close> (\<open>adpcm.c\<close>), \<open>Stream_Hash\<close>, \<open>Rfc1321\<close>, \<open>Md5\<close>,
    \<open>Md5_User\<close> (the digest of the RFC, both copies of \<open>md5.c\<close>), \<open>Rand32\<close> (\<open>rand32.c\<close>, \<open>mwc1616.c\<close>).
  \<^item> \<open>Vstr\<close> (\<open>vstr.c\<close>; interface \<open>byte_deque\<close>), \<open>Ohtbl\<close>, \<open>Phtbl\<close>
    (\<open>ohtbl.c\<close>, \<open>phtbl.c\<close>; interface \<open>hashed_keys\<close>), \<open>Net_Bytes\<close>, \<open>Rtp\<close>,
    \<open>Rtp_Packet\<close>, \<open>Rtp_Queue\<close>, \<open>Rtcp\<close> (\<open>rtp.c\<close>), \<open>Voice\<close> (\<open>comm.c\<close>,
    \<open>sound.c\<close>): packets, sessions and reports, and the threads that send, receive and play.
  \<^item> \<open>Gpio\<close>, \<open>Nrf24l01\<close>, \<open>Dht11\<close>, \<open>Ds18b20\<close>, \<open>Led_Driver\<close>
    (\<open>src/driver/nrf24l01\<close>, \<open>DHT11\<close>, \<open>ds18b20\<close>, \<open>led\<close>): the kernel drivers, which move pins
    with exact delays; interfaces \<open>radio_bus\<close>, \<open>one_wire\<close> and \<open>led_board\<close> for what is connected to them.
  \<^item> \<open>Lunar\<close>, \<open>Lunar_Calendar\<close> (\<open>Yang2Yin.c\<close>): the conversion to the Chinese calendar.

  \<^bold>\<open>Conventions.\<close> The target is a 32-bit ARM: \<open>int\<close> and \<open>long\<close> have 32 bits. Integers are words
  of their width where they wrap, and \<open>int\<close> with the range written out where overflow is undefined. Strings are lists of
  characters without the terminator; where the contents of an array behind the terminator matter, the memory is a list that
  includes it. A result \<^term>\<open>None\<close> is an execution without a meaning in C (an index outside an array, a null pointer
  that is read, signed overflow); an error code of the program is a value. A thread that waits for a reply that does not come
  is \<open>Waiting\<close>, which comes from a \<open>partial_function (option)\<close>: the C loop does not end there, although it has a
  counter. What a thread does to the outside is returned as a list of events, a frame or an effect.

  SQLite is a parameter (\<open>'db sqlite\<close>). Its assumed behaviour is \<open>sqlite_spec\<close>: opening succeeds, statements of the
  grammar of \<open>Sql\<close> do on the tables what \<open>run_query\<close> and \<open>run_update\<close> say, and the order of the rows of a
  result is free. \<open>table_sqlite\<close> is an implementation on the tables themselves and satisfies it; the witnesses use it. The
  JSON library (\<open>cjson\<close>), \<open>write\<close> on the serial line (\<open>wr\<close>), the other threads during a wait
  (\<open>poll_env\<close>), the memory of uninitialised variables, the clock and the time zone, the sockets of the mail client
  (\<open>sockets\<close>) and the functions of the kernel on pins with what is behind them (\<open>board\<close>) are parameters as well.

  \<^bold>\<open>What the lemmas show.\<close>

  \<^item> Device database: consistency of names, numbers, addresses and groups as an invariant of all call sequences, and a
    simulation of the abstract machine (\<open>Dev_Manage\<close>). The same for the alarm list (\<open>Alarm_List\<close>).
  \<^item> Switching: the reply queue conserves replies; a command returns exactly when its frame is echoed
    (\<open>Uart_Queue\<close>, \<open>Dev_Control\<close>); from the report of a device to the command of the app
    (\<open>Uart_Link\<close>, \<open>Socket_Service\<close>), of an authorised text message (\<open>Sms_Command\<close>) and of the timer
    (\<open>Timer_Run\<close>), always as the frame that is written for the registered device.
  \<^item> Informing: who is informed of an alarm, and the complete text messages (\<open>Sms_Command\<close>) and mails
    (\<open>Mail\<close>) that go out.
  \<^item> Drivers: from the pins back to what the device on the line sees or has sent: the frames on the bus of the radio, the
    bytes of the sensors, the lights that burn.
  \<^item> Codecs: round trips of the PDU and the 7-bit alphabet, of RTP packets, of framed byte strings and of the ADPCM decoder with
    the encoder's reconstruction; equality of Base64 with RFC 4648, of both MD5 copies with RFC 1321 and with each other; incremental hashing.
  \<^item> A call: what the coder of the sender reconstructs is what the receiver plays (\<open>Voice\<close>).
  \<^item> Containers: the hash tables as maps, the byte strings as sequences, the packet queue as a reordering window.
  \<^item> Calendars: the lunar conversion against a reference count of days; \<open>localtime\<close> as the inverse of \<open>mktime\<close>.
  \<^item> Errors: the theorems of kind error state what the code does where it does not do what it means to.

  \<^bold>\<open>Bounds and termination.\<close> Functions without an argument for fuel are total: their loops run over a list, or over
  a number that a measure bounds (\<open>year_of\<close>: the days left; \<open>send_each\<close>: the rest of the text). The probing of the hash
  tables is bounded by the number of positions, as in the code. The parser of conditions is bounded by twice the number
  of tokens, since each level of \<open>or\<close>, \<open>and\<close> and parentheses takes at least one.

  \<^bold>\<open>Not modelled.\<close> Opening and configuring serial lines, sockets and the sound device; the loops that accept connections and
  start threads; races between threads inside one operation, apart from the reply queue; the TLS, web-server and wireless code
  and the JSON library, which are vendored; the options, signals and start of the voice program; the
  registration of the kernel modules; the tools that only run shell commands. SQL outside the grammar of \<open>Sql\<close> (\<open>order by\<close>) has no
  assumed result, so nothing is proved of the list of timer tasks beyond its construction.
\<close>

end
